(* ===== verification/Prelude.thy ===== *)
theory Prelude
  imports Main "HOL-Library.Multiset" "HOL-Library.AList" "HOL-Library.Sublist"
begin

text \<open>
  What every component shares: asynchronous handlers as state-passing programs with
  exceptions, the laws of a consistent comparator and the stable sort that uses it,
  insertion-ordered maps, and the string operations of the source's standard library.
\<close>

named_theorems prog_simps \<open>one-step unfolding of the handler combinators\<close>
named_theorems alist_simps \<open>lookups in insertion-ordered maps\<close>

section \<open>Handlers: state passing with exceptions\<close>

text \<open>
  An \<open>async\<close> method of the source reads and writes the world and either returns or throws.
  \<open>bindE\<close> is \<open>await\<close> followed by the rest of the method, \<open>catchE\<close> is \<open>try .. catch\<close>,
  \<open>finallyE\<close> is \<open>try .. finally\<close>. State changes made before a throw stay made.
\<close>

type_synonym ('w, 'e, 'a) prog = "'w \<Rightarrow> ('e + 'a) \<times> 'w"

definition ret :: "'a \<Rightarrow> ('w, 'e, 'a) prog" where
  "ret a w = (Inr a, w)"

definition raise :: "'e \<Rightarrow> ('w, 'e, 'a) prog" where
  "raise e w = (Inl e, w)"

definition bindE :: "('w, 'e, 'a) prog \<Rightarrow> ('a \<Rightarrow> ('w, 'e, 'b) prog) \<Rightarrow> ('w, 'e, 'b) prog" where
  "bindE m f w = (case m w of (Inl e, w') \<Rightarrow> (Inl e, w') | (Inr a, w') \<Rightarrow> f a w')"

definition thenE :: "('w, 'e, 'a) prog \<Rightarrow> ('w, 'e, 'b) prog \<Rightarrow> ('w, 'e, 'b) prog" where
  "thenE m n = bindE m (\<lambda>_. n)"

definition catchE :: "('w, 'e, 'a) prog \<Rightarrow> ('e \<Rightarrow> ('w, 'e, 'a) prog) \<Rightarrow> ('w, 'e, 'a) prog" where
  "catchE m h w = (case m w of (Inl e, w') \<Rightarrow> h e w' | (Inr a, w') \<Rightarrow> (Inr a, w'))"

definition finallyE :: "('w, 'e, 'a) prog \<Rightarrow> ('w, 'e, unit) prog \<Rightarrow> ('w, 'e, 'a) prog" where
  "finallyE m n w = (case m w of (r, w') \<Rightarrow>
     (case n w' of (Inl e, w'') \<Rightarrow> (Inl e, w'') | (Inr _, w'') \<Rightarrow> (r, w'')))"

definition gets :: "('w \<Rightarrow> 'a) \<Rightarrow> ('w, 'e, 'a) prog" where
  "gets f w = (Inr (f w), w)"

definition modifyE :: "('w \<Rightarrow> 'w) \<Rightarrow> ('w, 'e, unit) prog" where
  "modifyE f w = (Inr (), f w)"

definition whenE :: "bool \<Rightarrow> ('w, 'e, unit) prog \<Rightarrow> ('w, 'e, unit) prog" where
  "whenE b m = (if b then m else ret ())"

fun eachE :: "('a \<Rightarrow> ('w, 'e, unit) prog) \<Rightarrow> 'a list \<Rightarrow> ('w, 'e, unit) prog" where
  "eachE f [] = ret ()"
| "eachE f (x # xs) = bindE (f x) (\<lambda>_. eachE f xs)"

lemmas prog_defs = ret_def raise_def bindE_def thenE_def catchE_def finallyE_def gets_def
  modifyE_def whenE_def

text \<open>
  Total correctness of a handler: from a world that satisfies \<open>P\<close> it ends, returning into
  \<open>Q\<close> or throwing into \<open>E\<close>. The rules follow the combinators, so a handler's contract is
  assembled from the contracts of what it awaits.
\<close>

definition triple :: "('w \<Rightarrow> bool) \<Rightarrow> ('w, 'e, 'a) prog \<Rightarrow> ('a \<Rightarrow> 'w \<Rightarrow> bool) \<Rightarrow> ('e \<Rightarrow> 'w \<Rightarrow> bool) \<Rightarrow> bool" where
  "triple P m Q E \<longleftrightarrow> (\<forall>w. P w \<longrightarrow>
     (case m w of (Inr a, w') \<Rightarrow> Q a w' | (Inl e, w') \<Rightarrow> E e w'))"

lemma tripleI:
  "(\<And>w a w'. P w \<Longrightarrow> m w = (Inr a, w') \<Longrightarrow> Q a w') \<Longrightarrow>
   (\<And>w e w'. P w \<Longrightarrow> m w = (Inl e, w') \<Longrightarrow> E e w') \<Longrightarrow> triple P m Q E"
  by (auto simp: triple_def split: prod.splits sum.splits)

lemma triple_okD: "triple P m Q E \<Longrightarrow> P w \<Longrightarrow> m w = (Inr a, w') \<Longrightarrow> Q a w'"
  by (auto simp: triple_def dest!: spec[of _ w])

lemma triple_errD: "triple P m Q E \<Longrightarrow> P w \<Longrightarrow> m w = (Inl e, w') \<Longrightarrow> E e w'"
  by (auto simp: triple_def dest!: spec[of _ w])

lemma triple_ret: "(\<And>w. P w \<Longrightarrow> Q a w) \<Longrightarrow> triple P (ret a) Q E"
  by (simp add: triple_def ret_def)

lemma triple_raise: "(\<And>w. P w \<Longrightarrow> E e w) \<Longrightarrow> triple P (raise e) Q E"
  by (simp add: triple_def raise_def)

lemma triple_bind:
  "triple P m B E \<Longrightarrow> (\<And>a. triple (B a) (f a) Q E) \<Longrightarrow> triple P (bindE m f) Q E"
  unfolding triple_def bindE_def by (fastforce split: prod.splits sum.splits)

lemma triple_then:
  "triple P m (\<lambda>_. B) E \<Longrightarrow> triple B n Q E \<Longrightarrow> triple P (thenE m n) Q E"
  unfolding thenE_def by (rule triple_bind)

lemma triple_catch:
  "triple P m Q H \<Longrightarrow> (\<And>e. triple (H e) (h e) Q E) \<Longrightarrow> triple P (catchE m h) Q E"
  unfolding triple_def catchE_def by (fastforce split: prod.splits sum.splits)

lemma triple_if:
  "(b \<Longrightarrow> triple P m Q E) \<Longrightarrow> (\<not> b \<Longrightarrow> triple P n Q E) \<Longrightarrow> triple P (if b then m else n) Q E"
  by simp

lemma triple_gets: "(\<And>w. P w \<Longrightarrow> Q (f w) w) \<Longrightarrow> triple P (gets f) Q E"
  by (simp add: triple_def gets_def)

lemma triple_modify: "(\<And>w. P w \<Longrightarrow> Q () (f w)) \<Longrightarrow> triple P (modifyE f) Q E"
  by (simp add: triple_def modifyE_def)

lemma triple_conseq:
  "triple P' m Q' E' \<Longrightarrow> (\<And>w. P w \<Longrightarrow> P' w) \<Longrightarrow> (\<And>a w. Q' a w \<Longrightarrow> Q a w) \<Longrightarrow>
   (\<And>e w. E' e w \<Longrightarrow> E e w) \<Longrightarrow> triple P m Q E"
  unfolding triple_def by (fastforce split: prod.splits sum.splits)

text \<open>
  The same contracts read backwards: \<open>wp m Q E w\<close> says that \<open>m\<close>, run from \<open>w\<close>, returns into \<open>Q\<close> or
  throws into \<open>E\<close>. The equations push it through a handler to its calls of the outside.
\<close>

named_theorems wp_simps \<open>the weakest precondition of the handler combinators\<close>

definition wp :: "('w, 'e, 'a) prog \<Rightarrow> ('a \<Rightarrow> 'w \<Rightarrow> bool) \<Rightarrow> ('e \<Rightarrow> 'w \<Rightarrow> bool) \<Rightarrow> 'w \<Rightarrow> bool" where
  "wp m Q E w = (case m w of (Inr a, w') \<Rightarrow> Q a w' | (Inl e, w') \<Rightarrow> E e w')"

lemma triple_wp: "triple P m Q E \<longleftrightarrow> (\<forall>w. P w \<longrightarrow> wp m Q E w)"
  by (simp add: triple_def wp_def)

lemma wp_okD: "wp m Q E w \<Longrightarrow> m w = (Inr a, w') \<Longrightarrow> Q a w'"
  and wp_errD: "wp m Q E w \<Longrightarrow> m w = (Inl e, w') \<Longrightarrow> E e w'"
  by (simp_all add: wp_def)

lemma wp_ret [wp_simps]: "wp (ret a) Q E = Q a"
  by (simp add: fun_eq_iff wp_def ret_def)

lemma wp_raise [wp_simps]: "wp (raise e) Q E = E e"
  by (simp add: fun_eq_iff wp_def raise_def)

lemma wp_gets [wp_simps]: "wp (gets f) Q E = (\<lambda>w. Q (f w) w)"
  by (simp add: fun_eq_iff wp_def gets_def)

lemma wp_modify [wp_simps]: "wp (modifyE g) Q E = (\<lambda>w. Q () (g w))"
  by (simp add: fun_eq_iff wp_def modifyE_def)

lemma wp_bind [wp_simps]: "wp (bindE m f) Q E = wp m (\<lambda>a. wp (f a) Q E) E"
  by (simp add: fun_eq_iff wp_def bindE_def split: prod.split sum.split)

lemma wp_then [wp_simps]: "wp (thenE m n) Q E = wp m (\<lambda>_. wp n Q E) E"
  by (simp add: thenE_def wp_bind)

lemma wp_catch [wp_simps]: "wp (catchE m h) Q E = wp m Q (\<lambda>e. wp (h e) Q E)"
  by (simp add: fun_eq_iff wp_def catchE_def split: prod.split sum.split)

lemma wp_if [wp_simps]: "wp (if b then m else n) Q E = (if b then wp m Q E else wp n Q E)"
  by simp

lemma wp_when [wp_simps]: "wp (whenE b m) Q E = (if b then wp m Q E else Q ())"
  by (simp add: whenE_def wp_ret)

lemma wp_option [wp_simps]:
  "wp (case x of None \<Rightarrow> m | Some a \<Rightarrow> f a) Q E = (case x of None \<Rightarrow> wp m Q E | Some a \<Rightarrow> wp (f a) Q E)"
  by (simp split: option.split)

lemma wp_let [wp_simps]: "wp (let x = a in m x) Q E = wp (m a) Q E"
  by simp

lemma wp_throws: "wp m (\<lambda>_ _. False) E w \<Longrightarrow> \<exists>e w'. m w = (Inl e, w') \<and> E e w'"
  by (cases "m w"; cases "fst (m w)") (auto simp: wp_def)

lemma wp_conseq:
  "wp m Q' E' w \<Longrightarrow> (\<And>a w'. Q' a w' \<Longrightarrow> Q a w') \<Longrightarrow> (\<And>e w'. E' e w' \<Longrightarrow> E e w') \<Longrightarrow> wp m Q E w"
  by (auto simp: wp_def split: prod.splits sum.splits)

section \<open>Comparators and the stable sort\<close>

text \<open>
  \<open>Array.prototype.sort(cmp)\<close> is stable; for a consistent comparator its result is determined,
  and insertion sort computes it.
\<close>

fun insert_by :: "('a \<Rightarrow> 'a \<Rightarrow> int) \<Rightarrow> 'a \<Rightarrow> 'a list \<Rightarrow> 'a list" where
  "insert_by cmp x [] = [x]"
| "insert_by cmp x (y # ys) = (if cmp x y \<le> 0 then x # y # ys else y # insert_by cmp x ys)"

fun sort_by :: "('a \<Rightarrow> 'a \<Rightarrow> int) \<Rightarrow> 'a list \<Rightarrow> 'a list" where
  "sort_by cmp [] = []"
| "sort_by cmp (x # xs) = insert_by cmp x (sort_by cmp xs)"

lemma mset_insert_by [simp]: "mset (insert_by cmp x ys) = add_mset x (mset ys)"
  by (induction ys) auto

lemma mset_sort_by [simp]: "mset (sort_by cmp xs) = mset xs"
  by (induction xs) auto

lemma set_insert_by [simp]: "set (insert_by cmp x ys) = insert x (set ys)"
  by (induction ys) auto

lemma set_sort_by [simp]: "set (sort_by cmp xs) = set xs"
  by (induction xs) auto

lemma length_insert_by [simp]: "length (insert_by cmp x ys) = Suc (length ys)"
  by (induction ys) auto

lemma length_sort_by [simp]: "length (sort_by cmp xs) = length xs"
  by (induction xs) auto

lemma insert_by_cong:
  "(\<And>y. y \<in> set ys \<Longrightarrow> f x y = g x y) \<Longrightarrow> insert_by f x ys = insert_by g x ys"
  by (induction ys) auto

lemma sort_by_cong:
  "(\<And>x y. x \<in> set xs \<Longrightarrow> y \<in> set xs \<Longrightarrow> x \<noteq> y \<Longrightarrow> f x y = g x y) \<Longrightarrow> distinct xs \<Longrightarrow>
   sort_by f xs = sort_by g xs"
proof (induction xs)
  case (Cons a xs)
  then have "sort_by f xs = sort_by g xs" by auto
  moreover have "insert_by f a (sort_by g xs) = insert_by g a (sort_by g xs)"
    using Cons.prems by (intro insert_by_cong) auto
  ultimately show ?case by simp
qed simp

text \<open>
  \<open>total_cmp\<close> is what sorting needs; \<open>comparator\<close> is the contract of \<open>Array.sort\<close>, whose result
  depends on the engine when the comparison function does not meet it.
\<close>

locale total_cmp =
  fixes cmp :: "'a \<Rightarrow> 'a \<Rightarrow> int"
  assumes le_total: "cmp x y \<le> 0 \<or> cmp y x \<le> 0"
    and le_trans: "cmp x y \<le> 0 \<Longrightarrow> cmp y z \<le> 0 \<Longrightarrow> cmp x z \<le> 0"
begin

lemma sorted_insert_by:
  "sorted_wrt (\<lambda>x y. cmp x y \<le> 0) ys \<Longrightarrow> sorted_wrt (\<lambda>x y. cmp x y \<le> 0) (insert_by cmp x ys)"
proof (induction ys)
  case (Cons y ys)
  then show ?case using le_total[of x y] by (auto intro: le_trans)
qed simp

lemma sorted_sort_by: "sorted_wrt (\<lambda>x y. cmp x y \<le> 0) (sort_by cmp xs)"
  by (induction xs) (auto intro: sorted_insert_by)

lemma sort_by_head_least: "sort_by cmp xs = y # ys \<Longrightarrow> x \<in> set xs \<Longrightarrow> cmp y x \<le> 0"
proof -
  assume s: "sort_by cmp xs = y # ys" and x: "x \<in> set xs"
  have "sorted_wrt (\<lambda>x y. cmp x y \<le> 0) (y # ys)" using sorted_sort_by[of xs] s by simp
  moreover have "x \<in> set (y # ys)" using x set_sort_by[of cmp xs] s by simp
  moreover have "cmp y y \<le> 0" using le_total[of y y] by simp
  ultimately show ?thesis by auto
qed

end

locale comparator =
  fixes cmp :: "'a \<Rightarrow> 'a \<Rightarrow> int"
  assumes cmp_sgn: "sgn (cmp x y) = - sgn (cmp y x)"
    and cmp_trans: "cmp x y \<le> 0 \<Longrightarrow> cmp y z \<le> 0 \<Longrightarrow> cmp x z \<le> 0"

lemma comparator_total_cmp:
  assumes "comparator cmp"
  shows "total_cmp cmp"
proof
  fix x y z
  show "cmp x y \<le> 0 \<or> cmp y x \<le> 0"
    using comparator.cmp_sgn[OF assms, of x y] by (auto simp: sgn_if split: if_splits)
  show "cmp x y \<le> 0 \<Longrightarrow> cmp y z \<le> 0 \<Longrightarrow> cmp x z \<le> 0" by (rule comparator.cmp_trans[OF assms])
qed

sublocale comparator \<subseteq> total_cmp cmp
  by (rule comparator_total_cmp) (rule comparator_axioms)

section \<open>Strict weak orders\<close>

text \<open>
  What a comparison "is older than" must satisfy for "the newest one seen so far" to mean
  something: \<open>newest\<close> is the loop that keeps a candidate and replaces it by a newer one.
\<close>

fun newest :: "('a \<Rightarrow> 'a \<Rightarrow> bool) \<Rightarrow> 'a option \<Rightarrow> 'a list \<Rightarrow> 'a option" where
  "newest lt best [] = best"
| "newest lt best (x # xs) =
     newest lt (case best of None \<Rightarrow> Some x | Some b \<Rightarrow> if lt b x then Some x else Some b) xs"

locale strict_weak_order =
  fixes lt :: "'a \<Rightarrow> 'a \<Rightarrow> bool"
  assumes lt_irrefl: "\<not> lt x x"
    and lt_trans: "lt x y \<Longrightarrow> lt y z \<Longrightarrow> lt x z"
    and not_lt_trans: "\<not> lt x y \<Longrightarrow> \<not> lt y z \<Longrightarrow> \<not> lt x z"
begin

lemma lt_asym: "lt x y \<Longrightarrow> \<not> lt y x"
  using lt_irrefl lt_trans by blast

lemma newest_from: "newest lt (Some b) xs = Some m \<Longrightarrow> m \<in> insert b (set xs) \<and> (\<forall>x \<in> insert b (set xs). \<not> lt m x)"
proof (induction xs arbitrary: b)
  case Nil
  then show ?case by (simp add: lt_irrefl)
next
  case (Cons x xs)
  show ?case
  proof (cases "lt b x")
    case True
    with Cons.IH[of x] Cons.prems have m: "m \<in> insert x (set xs)" "\<forall>y \<in> insert x (set xs). \<not> lt m y"
      by auto
    with True have "\<not> lt m b" using not_lt_trans[of m x b] lt_asym by blast
    with m show ?thesis by auto
  next
    case False
    with Cons.IH[of b] Cons.prems have m: "m \<in> insert b (set xs)" "\<forall>y \<in> insert b (set xs). \<not> lt m y"
      by auto
    with False have "\<not> lt m x" using not_lt_trans[of m b x] by blast
    with m show ?thesis by auto
  qed
qed

lemma newest_greatest:
  "newest lt None xs = Some m \<Longrightarrow> m \<in> set xs \<and> (\<forall>x \<in> set xs. \<not> lt m x)"
  using newest_from[of "hd xs" "tl xs" m] by (cases xs) auto

end

lemma newest_Some: "newest lt (Some b) xs \<noteq> None"
  by (induction xs arbitrary: b) auto

lemma newest_None_iff: "newest lt None xs = None \<longleftrightarrow> xs = []"
  by (cases xs) (auto simp: newest_Some)

section \<open>Codecs\<close>

text \<open>A printed form that is read back: topics, keys, versions and numbers are all used so.\<close>

locale codec =
  fixes enc :: "'a \<Rightarrow> string"
    and dec :: "string \<Rightarrow> 'a option"
    and ok :: "'a \<Rightarrow> bool"
  assumes dec_enc: "ok x \<Longrightarrow> dec (enc x) = Some x"
begin

lemma enc_inj: "ok x \<Longrightarrow> ok y \<Longrightarrow> enc x = enc y \<Longrightarrow> x = y"
  by (metis dec_enc option.inject)

lemma inj_on_enc: "inj_on enc (Collect ok)"
  by (auto intro!: inj_onI dest: enc_inj)

end

section \<open>Insertion-ordered maps\<close>

text \<open>
  A JavaScript \<open>Map\<close> or a prototype-less object keeps its keys in the order of their first
  insertion: an association list, with \<open>AList.update\<close> for \<open>set\<close>. \<open>bump\<close> is the counting idiom
  \<open>m.set(k, (m.get(k) ?? 0) + 1)\<close>; \<open>push_at\<close> is \<open>(m[k] ??= []).push(v)\<close>.
\<close>

definition bump :: "'k \<Rightarrow> ('k \<times> nat) list \<Rightarrow> ('k \<times> nat) list" where
  "bump k m = AList.update k ((case map_of m k of None \<Rightarrow> 0 | Some n \<Rightarrow> n) + 1) m"

definition push_at :: "'k \<Rightarrow> 'v \<Rightarrow> ('k \<times> 'v list) list \<Rightarrow> ('k \<times> 'v list) list" where
  "push_at k v m = AList.update k ((case map_of m k of None \<Rightarrow> [] | Some l \<Rightarrow> l) @ [v]) m"

definition list_at :: "('k \<times> 'v list) list \<Rightarrow> 'k \<Rightarrow> 'v list" where
  "list_at m k = (case map_of m k of None \<Rightarrow> [] | Some l \<Rightarrow> l)"

definition count_at :: "('k \<times> nat) list \<Rightarrow> 'k \<Rightarrow> nat" where
  "count_at m k = (case map_of m k of None \<Rightarrow> 0 | Some n \<Rightarrow> n)"

lemma list_at_Nil [simp, alist_simps]: "list_at [] k = []"
  by (simp add: list_at_def)

lemma count_at_Nil [simp, alist_simps]: "count_at [] k = 0"
  by (simp add: count_at_def)

lemma list_at_push_at [simp, alist_simps]:
  "list_at (push_at k v m) k' = (if k' = k then list_at m k @ [v] else list_at m k')"
  by (simp add: list_at_def push_at_def update_conv' split: option.splits)

lemma count_at_bump [simp, alist_simps]:
  "count_at (bump k m) k' = (if k' = k then count_at m k + 1 else count_at m k')"
  by (simp add: count_at_def bump_def update_conv' split: option.splits)

lemma distinct_bump: "distinct (map fst m) \<Longrightarrow> distinct (map fst (bump k m))"
  by (simp add: bump_def distinct_update)

lemma keys_bump [simp]: "fst ` set (bump k m) = insert k (fst ` set m)"
  by (simp add: bump_def dom_update)

lemma count_at_fold_bump:
  "count_at (fold bump ks m) k = count_at m k + count_list ks k"
  by (induction ks arbitrary: m) auto

lemma keys_fold_bump: "fst ` set (fold bump ks m) = fst ` set m \<union> set ks"
  by (induction ks arbitrary: m) auto

lemma distinct_fold_bump: "distinct (map fst m) \<Longrightarrow> distinct (map fst (fold bump ks m))"
  by (induction ks arbitrary: m) (auto simp: distinct_bump)

text \<open>A counting map holds every counted key once, with its number of occurrences.\<close>

lemma set_fold_bump:
  "set (fold bump ks []) = {(k, count_list ks k) | k. k \<in> set ks}" (is "?L = ?R")
proof -
  have d: "distinct (map fst (fold bump ks ([] :: ('a \<times> nat) list)))"
    by (rule distinct_fold_bump) simp
  have val: "v = count_list ks k" if "(k, v) \<in> ?L" for k v
    using that map_of_is_SomeI[OF d that] count_at_fold_bump[of ks "[]" k]
    by (simp add: count_at_def)
  have dom: "fst ` ?L = set ks" using keys_fold_bump[of ks "[]"] by simp
  show ?thesis
  proof
    show "?L \<subseteq> ?R"
    proof
      fix p assume p: "p \<in> ?L"
      then have "fst p \<in> set ks" using dom by force
      moreover have "snd p = count_list ks (fst p)" using p by (intro val) simp
      ultimately show "p \<in> ?R" by (metis (mono_tags, lifting) mem_Collect_eq prod.collapse)
    qed
    show "?R \<subseteq> ?L" using dom val by fastforce
  qed
qed

lemma sum_counts_fold_bump: "sum_list (map snd (fold bump ks [])) = length ks"
proof -
  have d: "distinct (map fst (fold bump ks ([] :: ('a \<times> nat) list)))"
    by (rule distinct_fold_bump) simp
  let ?m = "fold bump ks []"
  have "map snd ?m = map (count_list ks) (map fst ?m)"
    using set_fold_bump[of ks] by auto
  then have "sum_list (map snd ?m) = sum_list (map (count_list ks) (map fst ?m))"
    by (rule arg_cong)
  also have "\<dots> = (\<Sum>k\<in>set (map fst ?m). count_list ks k)"
    using d by (rule sum_list_distinct_conv_sum_set)
  also have "set (map fst ?m) = set ks" using keys_fold_bump[of ks "[]"] by simp
  finally show ?thesis by (simp add: sum_count_set)
qed

text \<open>\<open>[...new Set(xs)]\<close>: the distinct elements in the order of their first occurrence.\<close>

fun uniq :: "'a list \<Rightarrow> 'a list" where
  "uniq [] = []"
| "uniq (x # xs) = x # filter (\<lambda>y. y \<noteq> x) (uniq xs)"

lemma set_uniq [simp]: "set (uniq xs) = set xs"
  by (induction xs) auto

lemma distinct_uniq [simp]: "distinct (uniq xs)"
  by (induction xs) auto

lemma uniq_distinct: "distinct xs \<Longrightarrow> uniq xs = xs"
  by (induction xs) (auto simp: filter_id_conv)

lemma count_list_distinct: "distinct xs \<Longrightarrow> count_list xs x = (if x \<in> set xs then 1 else 0)"
  by (induction xs) auto

section \<open>Building objects field by field\<close>

lemma set_map_filter: "x \<in> set (List.map_filter f xs) \<longleftrightarrow> (\<exists>y \<in> set xs. f y = Some x)"
  by (force simp: List.map_filter_def)

lemma distinct_map_filter_keys:
  assumes "distinct xs" "\<And>y p. f y = Some p \<Longrightarrow> fst p = y"
  shows "distinct (map fst (List.map_filter f xs))"
proof -
  have "map fst (List.map_filter f xs) = filter (\<lambda>y. f y \<noteq> None) xs"
    using assms(2) by (induction xs) (auto simp: List.map_filter_def)
  with assms(1) show ?thesis by simp
qed

lemma map_of_map_filter:
  assumes "distinct (map fst fs)"
  shows "map_of (List.map_filter (\<lambda>(k, c). map_option (\<lambda>v. (k, v)) (g k c)) fs) k =
    (case map_of fs k of None \<Rightarrow> None | Some c \<Rightarrow> g k c)"
  using assms
proof (induction fs)
  case (Cons p fs)
  obtain k' c where p: "p = (k', c)" by force
  have "k \<notin> fst ` set fs \<Longrightarrow> map_of fs k = None" by (simp add: map_of_eq_None_iff)
  with Cons p show ?case by (auto simp: List.map_filter_simps split: option.splits)
qed (simp add: List.map_filter_simps)

lemma distinct_map_filter_pairs:
  assumes "distinct (map fst fs)"
  shows "distinct (map fst (List.map_filter (\<lambda>(k, c). map_option (\<lambda>v. (k, v)) (g k c)) fs))"
proof -
  let ?f = "\<lambda>(k, c). map_option (\<lambda>v. (k, v)) (g k c)"
  have "map fst (List.map_filter ?f fs) = map fst (filter (\<lambda>p. ?f p \<noteq> None) fs)"
    by (induction fs) (auto simp: List.map_filter_simps split: option.splits)
  with assms show ?thesis by (simp add: distinct_map_filter)
qed

lemma map_filter_cong:
  "(\<And>x. x \<in> set xs \<Longrightarrow> f x = g x) \<Longrightarrow> List.map_filter f xs = List.map_filter g xs"
  by (induction xs) (auto simp: List.map_filter_simps split: option.splits)

section \<open>Strings\<close>

text \<open>
  A JavaScript string is a sequence of code units, here a list of characters. \<open>split_on c\<close> is
  \<open>s.split(c)\<close>: it always returns at least one piece.
\<close>

fun split_on :: "char \<Rightarrow> string \<Rightarrow> string list" where
  "split_on c [] = [[]]"
| "split_on c (x # xs) =
     (if x = c then [] # split_on c xs
      else (case split_on c xs of [] \<Rightarrow> [[x]] | p # ps \<Rightarrow> (x # p) # ps))"

lemma split_on_nonempty [simp]: "split_on c s \<noteq> []"
  by (induction s) (auto split: list.splits)

lemma split_on_no_sep: "c \<notin> set s \<Longrightarrow> split_on c s = [s]"
  by (induction s) auto

lemma split_on_append: "split_on c (s @ c # t) = split_on c s @ split_on c t"
  by (induction s) (auto split: list.splits)

lemma last_split_on_append: "last (split_on c (s @ c # t)) = last (split_on c t)"
  by (simp add: split_on_append)

lemma split_on_pieces: "p \<in> set (split_on c s) \<Longrightarrow> c \<notin> set p"
proof (induction s arbitrary: p)
  case (Cons x xs)
  then show ?case by (auto split: if_splits list.splits)
qed simp

text \<open>\<open>s.includes(t)\<close>: \<open>t\<close> occurs somewhere in \<open>s\<close>.\<close>

fun str_includes :: "string \<Rightarrow> string \<Rightarrow> bool" where
  "str_includes [] t = (t = [])"
| "str_includes (x # xs) t = (prefix t (x # xs) \<or> str_includes xs t)"

lemma str_includes_iff_sublist: "str_includes s t = sublist t s"
  by (induction s) (auto simp: sublist_Cons_right)

text \<open>\<open>s.replace(/\u0000/g, '').slice(0, n)\<close>, the cleaning of strings sent by devices.\<close>

definition clean_to :: "nat \<Rightarrow> string \<Rightarrow> string" where
  "clean_to n s = take n (filter (\<lambda>c. c \<noteq> CHR 0x00) s)"

lemma clean_to_length [simp]: "length (clean_to n s) \<le> n"
  by (simp add: clean_to_def)

lemma clean_to_no_nul [simp]: "CHR 0x00 \<notin> set (clean_to n s)"
  by (auto simp: clean_to_def dest: in_set_takeD)

lemma clean_to_id: "CHR 0x00 \<notin> set s \<Longrightarrow> length s \<le> n \<Longrightarrow> clean_to n s = s"
proof -
  assume "CHR 0x00 \<notin> set s" and l: "length s \<le> n"
  then have "filter (\<lambda>c. c \<noteq> CHR 0x00) s = s" by (intro filter_True) auto
  with l show ?thesis by (simp add: clean_to_def)
qed

lemma clean_to_idem [simp]: "clean_to n (clean_to n s) = clean_to n s"
  by (rule clean_to_id) simp_all

text \<open>\<open>a.slice(-n)\<close>: the last \<open>n\<close> elements.\<close>

definition slice_last :: "nat \<Rightarrow> 'a list \<Rightarrow> 'a list" where
  "slice_last n xs = drop (length xs - n) xs"

lemma slice_last_length [simp]: "length (slice_last n xs) = min n (length xs)"
  by (simp add: slice_last_def)

lemma slice_last_set: "set (slice_last n xs) \<subseteq> set xs"
  by (simp add: slice_last_def set_drop_subset)

end
