(* ===== verification/JsNumber.thy ===== *)
theory JsNumber
  imports Complex_Main Prelude
begin

text \<open>
  JavaScript numbers, \<open>Number(s)\<close>, \<open>String(n)\<close> and \<open>parseInt(s, 10)\<close> as ECMAScript defines them.
  A finite double is represented by the decimal that \<open>String\<close> prints for it, the shortest one
  that reads back as the same double: an order-preserving embedding into the rationals. So
  comparisons and round trips are exact, and the only arithmetic the modelled code does on
  such numbers is adding, subtracting and comparing timestamps and counters, which stay below
  \<open>2^53\<close>. Minus zero is identified with zero, which \<open>String\<close> and \<open>===\<close> do too.
\<close>

section \<open>Numbers\<close>

datatype jsnum = NaN | PosInf | NegInf | Fin rat

definition is_finite :: "jsnum \<Rightarrow> bool" where
  "is_finite x = (case x of Fin _ \<Rightarrow> True | _ \<Rightarrow> False)"

definition fin_val :: "jsnum \<Rightarrow> rat" where
  "fin_val x = (case x of Fin q \<Rightarrow> q | _ \<Rightarrow> 0)"

fun num_lt :: "jsnum \<Rightarrow> jsnum \<Rightarrow> bool" where
  "num_lt (Fin a) (Fin b) = (a < b)"
| "num_lt (Fin a) PosInf = True"
| "num_lt NegInf (Fin b) = True"
| "num_lt NegInf PosInf = True"
| "num_lt _ _ = False"

definition num_eq :: "jsnum \<Rightarrow> jsnum \<Rightarrow> bool" where
  "num_eq x y = (x = y \<and> x \<noteq> NaN)"

definition num_le :: "jsnum \<Rightarrow> jsnum \<Rightarrow> bool" where
  "num_le x y = (num_lt x y \<or> num_eq x y)"

lemma is_finite_simps [simp]:
  "is_finite (Fin q)" "\<not> is_finite NaN" "\<not> is_finite PosInf" "\<not> is_finite NegInf"
  by (simp_all add: is_finite_def)

lemma fin_val_Fin [simp]: "fin_val (Fin q) = q"
  by (simp add: fin_val_def)

lemma num_eq_simps [simp]:
  "num_eq (Fin a) (Fin b) = (a = b)" "\<not> num_eq NaN x" "\<not> num_eq x NaN"
  by (auto simp: num_eq_def)

lemma num_le_simps [simp]:
  "num_le (Fin a) (Fin b) = (a \<le> b)" "\<not> num_le NaN x" "\<not> num_le x NaN"
  by (auto simp: num_le_def num_eq_def)

lemma is_finite_iff: "is_finite x \<longleftrightarrow> (\<exists>q. x = Fin q)"
  by (cases x) auto

text \<open>\<open>Math.trunc\<close> on a finite number.\<close>

definition trunc :: "rat \<Rightarrow> int" where
  "trunc q = (if 0 \<le> q then \<lfloor>q\<rfloor> else \<lceil>q\<rceil>)"

lemma trunc_of_int [simp]: "trunc (of_int i) = i"
  by (simp add: trunc_def)

lemma trunc_numeral [simp]: "trunc (numeral n) = numeral n" "trunc 0 = 0" "trunc 1 = 1"
  by (simp_all add: trunc_def)

lemma trunc_mono: "p \<le> q \<Longrightarrow> trunc p \<le> trunc q"
  by (auto simp: trunc_def floor_mono ceiling_mono)
     (meson ceiling_le_zero le_floor_iff linorder_not_le of_int_0 order.strict_implies_order
       order_trans zero_le_floor)

section \<open>Digits\<close>

definition is_digit :: "char \<Rightarrow> bool" where
  "is_digit c = (48 \<le> (of_char c :: nat) \<and> (of_char c :: nat) \<le> 57)"

definition digit_val :: "char \<Rightarrow> nat" where
  "digit_val c = of_char c - 48"

definition digit_char :: "nat \<Rightarrow> char" where
  "digit_char n = char_of (48 + n)"

lemma digit_char_val [simp]: "n < 10 \<Longrightarrow> digit_val (digit_char n) = n"
  by (simp add: digit_val_def digit_char_def)

lemma digit_char_is_digit [simp]: "n < 10 \<Longrightarrow> is_digit (digit_char n)"
  by (simp add: is_digit_def digit_char_def)

definition digits_val :: "string \<Rightarrow> nat" where
  "digits_val s = foldl (\<lambda>a c. 10 * a + digit_val c) 0 s"

lemma digits_val_Nil [simp]: "digits_val [] = 0"
  by (simp add: digits_val_def)

lemma digits_val_snoc [simp]: "digits_val (s @ [c]) = 10 * digits_val s + digit_val c"
  by (simp add: digits_val_def)

lemma digits_val_append: "digits_val (s @ t) = digits_val s * 10 ^ length t + digits_val t"
proof (induction t rule: rev_induct)
  case (snoc c t)
  have "digits_val (s @ t @ [c]) = 10 * digits_val (s @ t) + digit_val c"
    using digits_val_snoc[of "s @ t" c] by simp
  with snoc show ?case by (simp add: algebra_simps)
qed simp

lemma digits_val_zeros [simp]: "digits_val (replicate n CHR ''0'') = 0"
proof (induction n)
  case (Suc n)
  have "replicate (Suc n) CHR ''0'' = replicate n CHR ''0'' @ [CHR ''0'']"
    by (simp add: replicate_append_same)
  with Suc show ?case by (simp add: digit_val_def)
qed simp

fun show_nat :: "nat \<Rightarrow> string" where
  "show_nat n = (if n < 10 then [digit_char n] else show_nat (n div 10) @ [digit_char (n mod 10)])"

declare show_nat.simps [simp del]

lemma show_nat_small: "n < 10 \<Longrightarrow> show_nat n = [digit_char n]"
  by (subst show_nat.simps) simp

lemma show_nat_step: "10 \<le> n \<Longrightarrow> show_nat n = show_nat (n div 10) @ [digit_char (n mod 10)]"
  by (subst show_nat.simps) simp

lemma show_nat_nonempty [simp]: "show_nat n \<noteq> []"
  by (subst show_nat.simps) simp

lemma show_nat_digits: "\<forall>c \<in> set (show_nat n). is_digit c"
proof (induction n rule: show_nat.induct)
  case (1 n)
  then show ?case by (cases "n < 10") (simp_all add: show_nat_small show_nat_step)
qed

lemma digits_val_show_nat [simp]: "digits_val (show_nat n) = n"
proof (induction n rule: show_nat.induct)
  case (1 n)
  show ?case
  proof (cases "n < 10")
    case True
    then show ?thesis using digits_val_snoc[of "[]" "digit_char n"] by (simp add: show_nat_small)
  next
    case False
    with 1 show ?thesis by (simp add: show_nat_step)
  qed
qed

lemma show_nat_inj: "show_nat m = show_nat n \<Longrightarrow> m = n"
  by (metis digits_val_show_nat)

lemma show_nat_length: "n < 10 ^ Suc k \<Longrightarrow> length (show_nat n) \<le> Suc k"
proof (induction k arbitrary: n)
  case (Suc k)
  then have "n div 10 < 10 ^ Suc k" by (simp add: less_mult_imp_div_less mult.commute)
  with Suc.IH show ?case by (cases "n < 10") (simp_all add: show_nat_small show_nat_step)
qed (simp add: show_nat_small)

section \<open>\<open>Number(s)\<close>\<close>

definition is_space :: "char \<Rightarrow> bool" where
  "is_space c = ((of_char c :: nat) \<in> {9, 10, 11, 12, 13, 32, 160})"

definition trim :: "string \<Rightarrow> string" where
  "trim s = rev (dropWhile is_space (rev (dropWhile is_space s)))"

fun parse_exp :: "string \<Rightarrow> int option" where
  "parse_exp [] = Some 0"
| "parse_exp (c # r) =
     (if c = CHR ''e'' \<or> c = CHR ''E'' then
        (let (sg, ds) = (case r of
             d # ds \<Rightarrow> (if d = CHR ''-'' then (-1, ds) else if d = CHR ''+'' then (1, ds) else (1, r))
           | [] \<Rightarrow> (1, []))
         in if ds \<noteq> [] \<and> (\<forall>d \<in> set ds. is_digit d) then Some (sg * int (digits_val ds)) else None)
      else None)"

definition parse_unsigned :: "string \<Rightarrow> rat option" where
  "parse_unsigned s =
     (let ip = takeWhile is_digit s; r = dropWhile is_digit s;
          fp = (case r of c # r' \<Rightarrow> if c = CHR ''.'' then takeWhile is_digit r' else [] | [] \<Rightarrow> []);
          e = (case r of c # r' \<Rightarrow> if c = CHR ''.'' then dropWhile is_digit r' else r | [] \<Rightarrow> [])
      in if ip = [] \<and> fp = [] then None
         else map_option (\<lambda>x. of_nat (digits_val (ip @ fp)) / 10 ^ length fp * 10 powi x) (parse_exp e))"

text \<open>The magnitude from which a literal rounds to infinity.\<close>

definition num_limit :: rat where
  "num_limit = 2 ^ 1024 - 2 ^ 970"

definition round_fin :: "rat \<Rightarrow> jsnum" where
  "round_fin q = (if num_limit \<le> q then PosInf else if q \<le> - num_limit then NegInf else Fin q)"

definition parse_magnitude :: "string \<Rightarrow> jsnum" where
  "parse_magnitude s =
     (if s = ''Infinity'' then PosInf
      else case parse_unsigned s of None \<Rightarrow> NaN | Some q \<Rightarrow> round_fin q)"

fun num_neg :: "jsnum \<Rightarrow> jsnum" where
  "num_neg (Fin q) = Fin (- q)"
| "num_neg PosInf = NegInf"
| "num_neg NegInf = PosInf"
| "num_neg NaN = NaN"

definition hex_val :: "char \<Rightarrow> nat option" where
  "hex_val c = (let n = (of_char c :: nat) in
     if 48 \<le> n \<and> n \<le> 57 then Some (n - 48)
     else if 97 \<le> n \<and> n \<le> 102 then Some (n - 87)
     else if 65 \<le> n \<and> n \<le> 70 then Some (n - 55) else None)"

definition parse_radix :: "nat \<Rightarrow> string \<Rightarrow> jsnum" where
  "parse_radix b s =
     (if s \<noteq> [] \<and> (\<forall>c \<in> set s. case hex_val c of Some v \<Rightarrow> v < b | None \<Rightarrow> False)
      then round_fin (of_nat (foldl (\<lambda>a c. b * a + (case hex_val c of Some v \<Rightarrow> v | None \<Rightarrow> 0)) 0 s))
      else NaN)"

definition to_number_str :: "string \<Rightarrow> jsnum" where
  "to_number_str s0 =
     (let s = trim s0 in
      case s of
        [] \<Rightarrow> Fin 0
      | c # r \<Rightarrow>
          (if c = CHR ''-'' then num_neg (parse_magnitude r)
           else if c = CHR ''+'' then parse_magnitude r
           else if c = CHR ''0'' \<and> r \<noteq> [] \<and> hd r \<in> set ''xX'' then parse_radix 16 (tl r)
           else if c = CHR ''0'' \<and> r \<noteq> [] \<and> hd r \<in> set ''oO'' then parse_radix 8 (tl r)
           else if c = CHR ''0'' \<and> r \<noteq> [] \<and> hd r \<in> set ''bB'' then parse_radix 2 (tl r)
           else parse_magnitude s))"

section \<open>\<open>String(n)\<close>\<close>

text \<open>\<open>places k q\<close>: how many decimals \<open>q\<close> has, looking at most \<open>k\<close> places far; the shortest decimal
  of a double has fewer than 400.\<close>

fun places :: "nat \<Rightarrow> rat \<Rightarrow> nat" where
  "places 0 q = 0"
| "places (Suc k) q = (if of_int \<lfloor>q\<rfloor> = q then 0 else Suc (places k (10 * q)))"

definition max_places :: nat where
  "max_places = 400"

definition strip_zeros :: "string \<Rightarrow> string" where
  "strip_zeros s = rev (dropWhile (\<lambda>c. c = CHR ''0'') (rev s))"

definition show_exp :: "int \<Rightarrow> string" where
  "show_exp e = CHR ''e'' # (if 0 \<le> e then CHR ''+'' # show_nat (nat e) else CHR ''-'' # show_nat (nat (- e)))"

text \<open>The printed shapes: \<open>ds\<close> are the significant digits, \<open>j\<close> of them after the point.\<close>

definition fixed_form :: "nat \<Rightarrow> string \<Rightarrow> string" where
  "fixed_form j ds =
     (if j = 0 then ds
      else let p = replicate (j + 1 - length ds) CHR ''0'' @ ds
           in take (length p - j) p @ CHR ''.'' # drop (length p - j) p)"

definition sci_form :: "nat \<Rightarrow> string \<Rightarrow> string" where
  "sci_form j ds =
     (case strip_zeros ds of [] \<Rightarrow> [] | [d] \<Rightarrow> [d] | d # r \<Rightarrow> d # CHR ''.'' # r)
       @ show_exp (int (length ds) - int j - 1)"

definition pos_to_string :: "rat \<Rightarrow> string" where
  "pos_to_string q =
     (let j = places max_places q; ds = show_nat (nat \<lfloor>q * 10 ^ j\<rfloor>) in
      if q = 0 then ''0''
      else if 1 / 10 ^ 6 \<le> q \<and> q < 10 ^ 21 then fixed_form j ds
      else sci_form j ds)"

fun num_to_string :: "jsnum \<Rightarrow> string" where
  "num_to_string NaN = ''NaN''"
| "num_to_string PosInf = ''Infinity''"
| "num_to_string NegInf = ''-Infinity''"
| "num_to_string (Fin q) = (if q < 0 then CHR ''-'' # pos_to_string (- q) else pos_to_string q)"

section \<open>Reading back what was printed\<close>

lemma trim_id: "\<forall>c \<in> set s. \<not> is_space c \<Longrightarrow> trim s = s"
proof -
  assume a: "\<forall>c \<in> set s. \<not> is_space c"
  have d: "dropWhile is_space t = t" if "\<forall>c \<in> set t. \<not> is_space c" for t
    using that by (cases t) auto
  show ?thesis using a d[of s] d[of "rev s"] by (simp add: trim_def)
qed

lemma non_digits [simp]:
  "\<not> is_digit CHR ''.''" "\<not> is_digit CHR ''e''" "\<not> is_digit CHR ''+''" "\<not> is_digit CHR ''-''"
  by (simp_all add: is_digit_def)

lemma parse_unsigned_plain:
  assumes "\<forall>c \<in> set ip. is_digit c" "ip \<noteq> []" "parse_exp e = Some x" "e = [] \<or> hd e = CHR ''e''"
  shows "parse_unsigned (ip @ e) = Some (of_nat (digits_val ip) * 10 powi x)"
proof -
  have "takeWhile is_digit (ip @ e) = ip" "dropWhile is_digit (ip @ e) = e"
    using assms(1,4) by (cases e; auto simp: takeWhile_append dropWhile_append)+
  with assms show ?thesis
    by (cases e) (auto simp: parse_unsigned_def Let_def takeWhile_eq_all_conv[THEN iffD2]
        dropWhile_eq_Nil_conv[THEN iffD2])
qed

lemma parse_unsigned_point:
  assumes "\<forall>c \<in> set ip. is_digit c" "ip \<noteq> []" "\<forall>c \<in> set fp. is_digit c"
    and "parse_exp e = Some x" "e = [] \<or> hd e = CHR ''e''"
  shows "parse_unsigned (ip @ CHR ''.'' # fp @ e) =
    Some (of_nat (digits_val (ip @ fp)) / 10 ^ length fp * 10 powi x)"
proof -
  have "takeWhile is_digit (ip @ CHR ''.'' # fp @ e) = ip"
    "dropWhile is_digit (ip @ CHR ''.'' # fp @ e) = CHR ''.'' # fp @ e"
    using assms(1) by (auto simp: takeWhile_append dropWhile_append)
  moreover have "takeWhile is_digit (fp @ e) = fp" "dropWhile is_digit (fp @ e) = e"
    using assms(3,5) by (cases e; auto simp: takeWhile_append dropWhile_append)+
  ultimately show ?thesis using assms by (simp add: parse_unsigned_def Let_def)
qed

lemma parse_exp_show_exp [simp]: "parse_exp (show_exp e) = Some e"
  using show_nat_digits[of "nat e"] show_nat_digits[of "nat (- e)"] by (auto simp: show_exp_def)

lemma hd_show_exp [simp]: "hd (show_exp e) = CHR ''e''" "show_exp e \<noteq> []"
  by (simp_all add: show_exp_def)

lemma strip_zeros_split: "\<exists>z. s = strip_zeros s @ replicate z CHR ''0''"
proof -
  let ?t = "takeWhile (\<lambda>c. c = CHR ''0'') (rev s)"
  have "rev s = ?t @ dropWhile (\<lambda>c. c = CHR ''0'') (rev s)" by simp
  then have "s = strip_zeros s @ rev ?t"
    unfolding strip_zeros_def by (metis rev_append rev_rev_ident)
  moreover have "?t = replicate (length ?t) CHR ''0''"
    by (rule replicate_eqI) (auto dest: set_takeWhileD)
  ultimately show ?thesis by (metis rev_replicate)
qed

lemma strip_zeros_set: "set (strip_zeros s) \<subseteq> set s"
  by (metis strip_zeros_split set_append sup_ge1)

text \<open>Both shapes are read back as the number.\<close>

lemma parse_fixed_form:
  assumes s: "q * 10 ^ j = of_nat s"
  shows "parse_unsigned (fixed_form j (show_nat s)) = Some q"
proof (cases "j = 0")
  case True
  have "parse_unsigned (show_nat s @ []) = Some (of_nat (digits_val (show_nat s)) * 10 powi 0)"
    by (intro parse_unsigned_plain show_nat_digits) simp_all
  with True s show ?thesis by (simp add: fixed_form_def)
next
  case False
  define p where "p = replicate (j + 1 - length (show_nat s)) CHR ''0'' @ show_nat s"
  have dig: "\<forall>c \<in> set p. is_digit c"
    using show_nat_digits[of s] by (auto simp: p_def is_digit_def)
  have len: "j < length p" by (simp add: p_def)
  have val: "digits_val p = s" by (simp add: p_def digits_val_append)
  have "parse_unsigned (take (length p - j) p @ CHR ''.'' # drop (length p - j) p @ []) =
    Some (of_nat (digits_val (take (length p - j) p @ drop (length p - j) p))
      / 10 ^ length (drop (length p - j) p) * 10 powi 0)"
    using dig len by (intro parse_unsigned_point) (auto dest: in_set_takeD in_set_dropD)
  also have "\<dots> = Some q" using len val s by (simp add: divide_eq_eq)
  finally show ?thesis using False unfolding fixed_form_def p_def Let_def by simp
qed

lemma parse_sci_form:
  assumes s: "q * 10 ^ j = of_nat s" and pos: "0 < s"
  shows "parse_unsigned (sci_form j (show_nat s)) = Some q"
proof -
  define ds where "ds = show_nat s"
  define sig where "sig = strip_zeros ds"
  obtain z where z: "ds = sig @ replicate z CHR ''0''"
    using strip_zeros_split sig_def by blast
  have "s = digits_val ds" by (simp add: ds_def)
  also have "\<dots> = digits_val (sig @ replicate z CHR ''0'')" by (rule arg_cong[OF z])
  finally have val: "digits_val sig * 10 ^ z = s" by (simp add: digits_val_append)
  have dig: "\<forall>c \<in> set sig. is_digit c"
    using show_nat_digits[of s] strip_zeros_set[of ds] by (auto simp: sig_def ds_def)
  from val pos have ne: "sig \<noteq> []" by auto
  then obtain d r where dr: "sig = d # r" by (cases sig) auto
  define e where "e = int (length ds) - int j - 1"
  have e: "e = int (length r) + int z - int j" using z dr by (simp add: e_def)
  have q: "q = of_nat (digits_val sig) * 10 ^ z / 10 ^ j"
    using s val by (metis nonzero_mult_div_cancel_right of_nat_mult of_nat_numeral of_nat_power
        power_not_zero zero_neq_numeral)
  have eq: "of_nat (digits_val sig) / 10 ^ length r * 10 powi e = q"
    unfolding q e by (simp add: power_int_diff power_int_add)
  have "parse_unsigned ((case sig of [] \<Rightarrow> [] | [d] \<Rightarrow> [d] | d # r \<Rightarrow> d # CHR ''.'' # r) @ show_exp e) = Some q"
  proof (cases r)
    case Nil
    have "parse_unsigned ([d] @ show_exp e) = Some (of_nat (digits_val [d]) * 10 powi e)"
      using dig dr by (intro parse_unsigned_plain) auto
    with Nil dr eq show ?thesis by simp
  next
    case (Cons a r')
    have "parse_unsigned ([d] @ CHR ''.'' # r @ show_exp e) =
        Some (of_nat (digits_val ([d] @ r)) / 10 ^ length r * 10 powi e)"
      using dig dr by (intro parse_unsigned_point) auto
    with Cons dr eq show ?thesis by simp
  qed
  then show ?thesis by (simp only: sci_form_def e_def sig_def ds_def)
qed

definition is_int_at :: "rat \<Rightarrow> nat \<Rightarrow> bool" where
  "is_int_at q j = (of_int \<lfloor>q * 10 ^ j\<rfloor> = q * 10 ^ j)"

lemma parse_pos_to_string:
  assumes "0 \<le> q" and i: "is_int_at q (places max_places q)"
  shows "parse_unsigned (pos_to_string q) = Some q"
proof (cases "q = 0")
  case True
  then show ?thesis
    by (simp add: pos_to_string_def parse_unsigned_def is_digit_def digits_val_def digit_val_def)
next
  case False
  define j where "j = places max_places q"
  define s where "s = nat \<lfloor>q * 10 ^ j\<rfloor>"
  have "of_nat s = (of_int \<lfloor>q * 10 ^ j\<rfloor> :: rat)"
    unfolding s_def using assms(1) by (intro of_nat_nat) simp
  also have "\<dots> = q * 10 ^ j" using i unfolding j_def is_int_at_def .
  finally have s: "q * 10 ^ j = of_nat s" by (rule sym)
  then have pos: "0 < s" using False assms(1) by (metis mult_eq_0_iff of_nat_0 power_not_zero
        zero_neq_numeral neq0_conv)
  have "pos_to_string q = fixed_form j (show_nat s) \<or> pos_to_string q = sci_form j (show_nat s)"
    using False unfolding pos_to_string_def Let_def j_def s_def by metis
  then show ?thesis using parse_fixed_form[OF s] parse_sci_form[OF s pos] by metis
qed

text \<open>What is printed starts with a digit and holds nothing but digits and the characters of the
  fraction and the exponent, so no other kind of literal can be meant.\<close>

definition number_like :: "string \<Rightarrow> bool" where
  "number_like s = (\<exists>c r. s = c # r \<and> is_digit c \<and> set r \<subseteq> Collect is_digit \<union> set ''.e+-'')"

lemma fixed_form_number_like:
  assumes "ds \<noteq> []" "set ds \<subseteq> Collect is_digit"
  shows "number_like (fixed_form j ds)"
proof (cases "j = 0")
  case True
  with assms show ?thesis by (cases ds) (auto simp: fixed_form_def number_like_def)
next
  case False
  define p where "p = replicate (j + 1 - length ds) CHR ''0'' @ ds"
  have p: "set p \<subseteq> Collect is_digit" using assms by (auto simp: p_def is_digit_def)
  have len: "j < length p" by (simp add: p_def)
  then obtain k where k: "length p - j = Suc k" by (cases "length p - j") auto
  from len obtain c t where ct: "p = c # t" by (cases p) auto
  have "fixed_form j ds = c # take k t @ CHR ''.'' # drop k t"
    using False k ct unfolding fixed_form_def Let_def p_def[symmetric] by simp
  with p ct show ?thesis by (auto simp: number_like_def dest: in_set_takeD in_set_dropD)
qed

lemma sci_form_number_like:
  assumes "set ds \<subseteq> Collect is_digit" "parse_unsigned (sci_form j ds) \<noteq> None"
  shows "number_like (sci_form j ds)"
proof -
  define e where "e = int (length ds) - int j - 1"
  have ex: "set (show_exp e) \<subseteq> Collect is_digit \<union> set ''.e+-''"
    using show_nat_digits[of "nat e"] show_nat_digits[of "nat (- e)"] by (auto simp: show_exp_def)
  show ?thesis
  proof (cases "strip_zeros ds")
    case Nil
    with assms(2) show ?thesis by (simp add: sci_form_def parse_unsigned_def show_exp_def)
  next
    case (Cons d r)
    moreover have "set (d # r) \<subseteq> Collect is_digit"
      using strip_zeros_set[of ds] assms(1) unfolding Cons by (rule subset_trans)
    ultimately show ?thesis using ex
      by (cases r) (auto simp: sci_form_def number_like_def e_def[symmetric])
  qed
qed

lemma pos_to_string_number_like:
  "parse_unsigned (pos_to_string q) \<noteq> None \<Longrightarrow> number_like (pos_to_string q)"
proof -
  assume ok: "parse_unsigned (pos_to_string q) \<noteq> None"
  define ds where "ds = show_nat (nat \<lfloor>q * 10 ^ places max_places q\<rfloor>)"
  have ds: "ds \<noteq> []" "set ds \<subseteq> Collect is_digit"
    using show_nat_digits by (auto simp: ds_def)
  consider "pos_to_string q = ''0''" | "pos_to_string q = fixed_form (places max_places q) ds"
    | "pos_to_string q = sci_form (places max_places q) ds"
    unfolding pos_to_string_def Let_def ds_def by metis
  then show ?thesis
    using fixed_form_number_like[OF ds] sci_form_number_like[OF ds(2)] ok
    by cases (simp_all add: number_like_def is_digit_def)
qed

text \<open>Every finite double survives \<open>Number(String(x))\<close>.\<close>

definition is_double :: "rat \<Rightarrow> bool" where
  "is_double q = (is_int_at \<bar>q\<bar> (places max_places \<bar>q\<bar>) \<and> \<bar>q\<bar> < num_limit)"

lemma read_magnitude:
  assumes "0 \<le> a" "is_int_at a (places max_places a)" "a < num_limit"
  shows "parse_magnitude (pos_to_string a) = Fin a"
    and "to_number_str (pos_to_string a) = Fin a"
    and "to_number_str (CHR ''-'' # pos_to_string a) = Fin (- a)"
proof -
  have pu: "parse_unsigned (pos_to_string a) = Some a" using assms by (intro parse_pos_to_string)
  then obtain c r where cr: "pos_to_string a = c # r" "is_digit c"
      "set r \<subseteq> Collect is_digit \<union> set ''.e+-''"
    using pos_to_string_number_like[of a] by (auto simp: number_like_def)
  have "pos_to_string a \<noteq> ''Infinity''" using cr(1,2) by (auto simp: is_digit_def)
  moreover have "\<not> a \<le> - num_limit" using assms by (simp add: num_limit_def)
  ultimately show pm: "parse_magnitude (pos_to_string a) = Fin a"
    using pu assms(3) by (simp add: parse_magnitude_def round_fin_def)
  have "\<forall>x \<in> set (CHR ''-'' # c # r). \<not> is_space x"
    using cr(2,3) by (auto simp: is_digit_def is_space_def)
  then have tr: "trim (c # r) = c # r" "trim (CHR ''-'' # c # r) = CHR ''-'' # c # r"
    by (intro trim_id; simp)+
  have hd: "c \<noteq> CHR ''-''" "c \<noteq> CHR ''+''" using cr(2) by auto
  have "r = [] \<or> hd r \<notin> set ''xXoObB''"
    using cr(3) by (cases r) (auto simp: is_digit_def)
  with tr(1) hd cr(1) pm show "to_number_str (pos_to_string a) = Fin a"
    by (auto simp: to_number_str_def)
  show "to_number_str (CHR ''-'' # pos_to_string a) = Fin (- a)"
    using tr(2) cr(1) pm by (simp add: to_number_str_def)
qed

lemma to_number_num_to_string:
  assumes "is_double q"
  shows "to_number_str (num_to_string (Fin q)) = Fin q"
  using assms read_magnitude(2)[of q] read_magnitude(3)[of "- q"]
  by (cases "q < 0") (auto simp: is_double_def)

lemma num_to_string_nonempty: "is_double q \<Longrightarrow> num_to_string (Fin q) \<noteq> []"
  using parse_pos_to_string[of q] by (auto simp: is_double_def parse_unsigned_def)

lemma is_double_of_int: "\<bar>i\<bar> < 2 ^ 1000 \<Longrightarrow> is_double (of_int i)"
proof -
  assume i: "\<bar>i\<bar> < 2 ^ 1000"
  have "(of_int \<bar>i\<bar> :: rat) < of_int (2 ^ 1000)" using i by (simp only: of_int_less_iff)
  also have "\<dots> \<le> num_limit" by (simp add: num_limit_def)
  finally have "\<bar>of_int i\<bar> < num_limit" by simp
  moreover have "places max_places \<bar>of_int i\<bar> = 0"
    by (simp add: max_places_def numeral_eq_Suc flip: of_int_abs)
  ultimately show ?thesis by (simp add: is_double_def is_int_at_def flip: of_int_abs)
qed

end
