(* ===== verification/Json.thy ===== *)
theory Json
  imports JsNumber "HOL-Library.Char_ord" "HOL-Library.List_Lexorder"
begin

text \<open>
  JSON values as the code handles them: payloads of MQTT messages, JWT claims, the \<open>unknown\<close>
  arguments of the normalisers, and the two functions of \<open>packages/shared/src/hash.ts\<close> and
  \<open>deep-merge.ts\<close> that walk them. \<open>undefined\<close> is \<open>None\<close> of \<open>json option\<close>. An object is the list
  of its own properties in insertion order, each key once.
\<close>

datatype json =
    JNull
  | JBool bool
  | JNum jsnum
  | JStr string
  | JArr "json list"
  | JObj "(string \<times> json) list"

section \<open>Reading untyped values\<close>

definition oget :: "json \<Rightarrow> string \<Rightarrow> json option" where
  "oget j k = (case j of JObj kvs \<Rightarrow> map_of kvs k | _ \<Rightarrow> None)"

lemma oget_simps [simp]:
  "oget (JObj kvs) k = map_of kvs k" "oget JNull k = None" "oget (JBool b) k = None"
  "oget (JNum n) k = None" "oget (JStr s) k = None" "oget (JArr l) k = None"
  by (simp_all add: oget_def)

text \<open>\<open>typeof v === 'number'\<close>, \<open>typeof v === 'string'\<close> and \<open>typeof v === 'object' && v\<close>.\<close>

definition as_num :: "json option \<Rightarrow> jsnum option" where
  "as_num v = (case v of Some (JNum n) \<Rightarrow> Some n | _ \<Rightarrow> None)"

definition as_fin :: "json option \<Rightarrow> rat option" where
  "as_fin v = (case v of Some (JNum (Fin q)) \<Rightarrow> Some q | _ \<Rightarrow> None)"

definition as_str :: "json option \<Rightarrow> string option" where
  "as_str v = (case v of Some (JStr s) \<Rightarrow> Some s | _ \<Rightarrow> None)"

definition as_bool :: "json option \<Rightarrow> bool option" where
  "as_bool v = (case v of Some (JBool b) \<Rightarrow> Some b | _ \<Rightarrow> None)"

definition is_object :: "json option \<Rightarrow> bool" where
  "is_object v = (case v of Some (JArr _) \<Rightarrow> True | Some (JObj _) \<Rightarrow> True | _ \<Rightarrow> False)"

definition truthy :: "json option \<Rightarrow> bool" where
  "truthy v = (case v of
      None \<Rightarrow> False | Some JNull \<Rightarrow> False | Some (JBool b) \<Rightarrow> b
    | Some (JNum n) \<Rightarrow> n \<noteq> NaN \<and> n \<noteq> Fin 0 | Some (JStr s) \<Rightarrow> s \<noteq> [] | Some _ \<Rightarrow> True)"

lemma as_fin_Some: "as_fin v = Some q \<longleftrightarrow> v = Some (JNum (Fin q))"
  by (auto simp: as_fin_def split: option.splits json.splits jsnum.splits)

lemma as_str_Some: "as_str v = Some s \<longleftrightarrow> v = Some (JStr s)"
  by (auto simp: as_str_def split: option.splits json.splits)

lemma as_bool_Some: "as_bool v = Some b \<longleftrightarrow> v = Some (JBool b)"
  by (auto simp: as_bool_def split: option.splits json.splits)

lemma as_simps [simp]:
  "as_fin (Some (JNum (Fin q))) = Some q" "as_str (Some (JStr s)) = Some s"
  "as_bool (Some (JBool b)) = Some b" "as_fin None = None" "as_str None = None" "as_bool None = None"
  by (simp_all add: as_fin_def as_str_def as_bool_def)

text \<open>\<open>Number(v)\<close> and \<open>String(v)\<close>: an array is joined with commas, an empty slot for \<open>null\<close>.\<close>

definition join :: "string \<Rightarrow> string list \<Rightarrow> string" where
  "join sep ss = (case ss of [] \<Rightarrow> [] | t # ts \<Rightarrow> t @ concat (map (\<lambda>u. sep @ u) ts))"

fun to_str :: "json \<Rightarrow> string" where
  "to_str JNull = ''null''"
| "to_str (JBool b) = (if b then ''true'' else ''false'')"
| "to_str (JNum n) = num_to_string n"
| "to_str (JStr s) = s"
| "to_str (JArr js) = join '','' (map (\<lambda>j. if j = JNull then [] else to_str j) js)"
| "to_str (JObj kvs) = ''[object Object]''"

definition to_number :: "json option \<Rightarrow> jsnum" where
  "to_number v = (case v of
      None \<Rightarrow> NaN | Some JNull \<Rightarrow> Fin 0 | Some (JBool b) \<Rightarrow> Fin (if b then 1 else 0)
    | Some (JNum n) \<Rightarrow> n | Some (JStr s) \<Rightarrow> to_number_str s
    | Some (JArr js) \<Rightarrow> to_number_str (to_str (JArr js)) | Some (JObj _) \<Rightarrow> NaN)"

section \<open>\<open>JSON.stringify\<close> and \<open>stableStringify\<close>\<close>

definition hex_char :: "nat \<Rightarrow> char" where
  "hex_char n = (if n < 10 then char_of (48 + n) else char_of (87 + n))"

definition escape_char :: "char \<Rightarrow> string" where
  "escape_char c = (let n = (of_char c :: nat) in
     if n = 34 then [CHR 0x5C, CHR 0x22]
     else if n = 92 then [CHR 0x5C, CHR 0x5C]
     else if n = 8 then [CHR 0x5C, CHR ''b'']
     else if n = 9 then [CHR 0x5C, CHR ''t'']
     else if n = 10 then [CHR 0x5C, CHR ''n'']
     else if n = 12 then [CHR 0x5C, CHR ''f'']
     else if n = 13 then [CHR 0x5C, CHR ''r'']
     else if n < 32 then [CHR 0x5C, CHR ''u'', CHR ''0'', CHR ''0'', hex_char (n div 16), hex_char (n mod 16)]
     else [c])"

definition quote :: "string \<Rightarrow> string" where
  "quote s = CHR 0x22 # concat (map escape_char s) @ [CHR 0x22]"

definition braces :: "string list \<Rightarrow> string" where
  "braces ms = CHR ''{'' # join '','' ms @ [CHR ''}'']"

definition brackets :: "string list \<Rightarrow> string" where
  "brackets es = CHR ''['' # join '','' es @ [CHR '']'']"

definition scalar_string :: "json \<Rightarrow> string" where
  "scalar_string j = (case j of
      JBool b \<Rightarrow> (if b then ''true'' else ''false'')
    | JNum n \<Rightarrow> (if is_finite n then num_to_string n else ''null'')
    | JStr s \<Rightarrow> quote s | _ \<Rightarrow> ''null'')"

fun json_stringify :: "json \<Rightarrow> string" where
  "json_stringify (JArr js) = brackets (map json_stringify js)"
| "json_stringify (JObj kvs) = braces (map (\<lambda>(k, v). quote k @ '':'' @ json_stringify v) kvs)"
| "json_stringify j = scalar_string j"

text \<open>
  \<open>stableStringify\<close> sorts the keys of every object. Its keys are distinct, so sorting the
  members by key visits them in the order of \<open>Object.keys(obj).sort()\<close>.
\<close>

fun stableStringify :: "json \<Rightarrow> string" where
  "stableStringify (JArr js) = brackets (map stableStringify js)"
| "stableStringify (JObj kvs) =
     braces (map (\<lambda>(k, s). quote k @ '':'' @ s)
       (sort_key fst (map (\<lambda>(k, v). (k, stableStringify v)) kvs)))"
| "stableStringify j = scalar_string j"

text \<open>\<open>capsHash\<close>: \<open>sha1\<close> is the digest of \<open>node:crypto\<close>, a parameter.\<close>

definition capsHash :: "(string \<Rightarrow> string) \<Rightarrow> json \<Rightarrow> string \<Rightarrow> string" where
  "capsHash sha1 caps agentVer = sha1 (stableStringify caps @ agentVer)"

definition obj_keys :: "json \<Rightarrow> string list" where
  "obj_keys j = (case j of JObj kvs \<Rightarrow> map fst kvs | _ \<Rightarrow> [])"

definition stringify_opt :: "json option \<Rightarrow> string option" where
  "stringify_opt v = map_option json_stringify v"

definition capsDiff :: "json option \<Rightarrow> json \<Rightarrow> (string \<times> json option \<times> json option) list" where
  "capsDiff prev nxt = (case prev of
      None \<Rightarrow> [(''initial'', Some JNull, Some nxt)]
    | Some p \<Rightarrow>
        map (\<lambda>k. (k, oget p k, oget nxt k))
          (filter (\<lambda>k. stringify_opt (oget p k) \<noteq> stringify_opt (oget nxt k))
            (uniq (obj_keys p @ obj_keys nxt))))"

section \<open>\<open>deepMerge\<close>\<close>

fun deepMerge :: "json option \<Rightarrow> json option \<Rightarrow> json option" where
  "deepMerge base None = base"
| "deepMerge base (Some JNull) = base"
| "deepMerge base (Some (JObj patch)) = (case base of
      Some (JObj out) \<Rightarrow>
        Some (JObj (foldl (\<lambda>acc (k, v). case deepMerge (map_of acc k) (Some v) of
             None \<Rightarrow> acc | Some r \<Rightarrow> AList.update k r acc) out patch))
    | _ \<Rightarrow> Some (JObj patch))"
| "deepMerge base (Some v) = Some v"

section \<open>Facts\<close>

text \<open>An object's keys are distinct, at every depth: what \<open>JSON.parse\<close> returns.\<close>

fun wf_json :: "json \<Rightarrow> bool" where
  "wf_json (JArr js) = (\<forall>j \<in> set js. wf_json j)"
| "wf_json (JObj kvs) = (distinct (map fst kvs) \<and> (\<forall>(k, v) \<in> set kvs. wf_json v))"
| "wf_json _ = True"

text \<open>The canonical form: every object's members sorted by key.\<close>

fun canon :: "json \<Rightarrow> json" where
  "canon (JArr js) = JArr (map canon js)"
| "canon (JObj kvs) = JObj (sort_key fst (map (\<lambda>(k, v). (k, canon v)) kvs))"
| "canon j = j"

lemma insort_key_map_fst:
  "insort_key fst (k, g v) (map (\<lambda>(k, v). (k, g v)) xs) =
   map (\<lambda>(k, v). (k, g v)) (insort_key fst (k, v) xs)"
  by (induction xs) auto

lemma sort_key_map_fst:
  "sort_key fst (map (\<lambda>(k, v). (k, g v)) xs) = map (\<lambda>(k, v). (k, g v)) (sort_key fst xs)"
  by (induction xs) (auto simp: insort_key_map_fst)

lemma stableStringify_canon: "stableStringify j = json_stringify (canon j)"
proof (induction j rule: stableStringify.induct)
  case (1 js)
  then show ?case by (auto intro!: arg_cong[where f = brackets])
next
  case (2 kvs)
  have "map (\<lambda>(k, v). (k, stableStringify v)) kvs = map (\<lambda>(k, v). (k, json_stringify (canon v))) kvs"
    using 2 by auto
  also have "\<dots> = map (\<lambda>(k, v). (k, json_stringify v)) (map (\<lambda>(k, v). (k, canon v)) kvs)"
    by auto
  finally have e: "sort_key fst (map (\<lambda>(k, v). (k, stableStringify v)) kvs) =
      map (\<lambda>(k, v). (k, json_stringify v)) (sort_key fst (map (\<lambda>(k, v). (k, canon v)) kvs))"
    by (simp only: sort_key_map_fst)
  show ?case unfolding stableStringify.simps canon.simps json_stringify.simps e
    by (simp add: comp_def case_prod_unfold)
qed simp_all

lemma canon_perm:
  assumes "mset kvs = mset kvs'" "distinct (map fst kvs)"
  shows "canon (JObj kvs) = canon (JObj kvs')"
proof -
  let ?f = "\<lambda>(k, v). (k, canon v)"
  have s: "set kvs = set kvs'" using assms(1) by (rule mset_eq_setD)
  have "mset (map fst kvs) = mset (map fst kvs')" using assms(1) by simp
  with assms(2) have d: "distinct (map fst kvs')" using mset_eq_imp_distinct_iff by blast
  have keys: "map fst (map ?f xs) = map fst xs" for xs by auto
  have keys': "distinct (map fst (sort_key fst (map ?f xs)))" if "distinct (map fst xs)" for xs
  proof -
    have "mset (map fst (sort_key fst (map ?f xs))) = mset (map fst (map ?f xs))"
      by (simp only: mset_map mset_sort)
    then have "mset (map fst (sort_key fst (map ?f xs))) = mset (map fst xs)"
      unfolding keys .
    with that show ?thesis using mset_eq_imp_distinct_iff by blast
  qed
  have inj: "inj_on fst (set (map ?f kvs))"
    using assms(2) keys[of kvs] by (metis distinct_map)
  have "sort_key fst (map ?f kvs) = sort_key fst (map ?f kvs')"
    using s inj keys'[OF assms(2)] keys'[OF d]
    by (intro map_sorted_distinct_set_unique[where f = fst]) simp_all
  then show ?thesis by simp
qed

lemma deepMerge_empty: "deepMerge (Some (JObj kvs)) (Some (JObj [])) = Some (JObj kvs)"
  by simp

lemma deepMerge_Some_not_None: "deepMerge b (Some v) = None \<Longrightarrow> b = None \<and> v = JNull"
  by (cases v) (auto split: option.splits json.splits)

lemma deepMerge_fold_at:
  "distinct (map fst patch) \<Longrightarrow>
   map_of (foldl (\<lambda>acc (k, v). case deepMerge (map_of acc k) (Some v) of
       None \<Rightarrow> acc | Some r \<Rightarrow> AList.update k r acc) out patch) k =
   deepMerge (map_of out k) (map_of patch k)"
proof (induction patch arbitrary: out)
  case (Cons p patch)
  obtain k' v where p: "p = (k', v)" by force
  with Cons.prems have "map_of patch k' = None" by (simp add: map_of_eq_None_iff)
  with Cons p show ?case
    by (auto simp: update_conv' split: option.split dest: deepMerge_Some_not_None)
qed simp

lemma deepMerge_pointwise:
  assumes "distinct (map fst patch)"
  shows "\<exists>out'. deepMerge (Some (JObj out)) (Some (JObj patch)) = Some (JObj out') \<and>
     (\<forall>k. map_of out' k = deepMerge (map_of out k) (map_of patch k))"
  using deepMerge_fold_at[OF assms] by simp

end
