(* ===== verification/Topics.thy ===== *)
theory Topics
  imports Prelude
begin

text \<open>
  MQTT topics (\<open>mqtt-topics.ts\<close>), the broker's \<open>$SYS\<close> client topics (\<open>conn.ts\<close>) and Redis keys
  (\<open>redis-keys.ts\<close> and the keys written inline), with the round trips they rest on.
\<close>

section \<open>MQTT topics\<close>

definition topic_state :: "string \<Rightarrow> string" where
  "topic_state deviceId = ''rc/state/'' @ deviceId"

definition topic_probe :: "string \<Rightarrow> string" where
  "topic_probe deviceId = ''rc/probe/'' @ deviceId"

definition topic_cmd :: "string \<Rightarrow> string" where
  "topic_cmd deviceId = ''rc/cmd/'' @ deviceId"

definition topic_event :: "string \<Rightarrow> string" where
  "topic_event deviceId = ''rc/event/'' @ deviceId"

definition deviceIdFromTopic :: "string \<Rightarrow> string" where
  "deviceIdFromTopic topic = last (split_on CHR ''/'' topic)"

lemma deviceIdFromTopic_append: "CHR ''/'' \<notin> set d \<Longrightarrow> deviceIdFromTopic (p @ CHR ''/'' # d) = d"
  by (simp add: deviceIdFromTopic_def last_split_on_append split_on_no_sep)

lemma deviceIdFromTopic_topics:
  assumes "CHR ''/'' \<notin> set d"
  shows "deviceIdFromTopic (topic_state d) = d" "deviceIdFromTopic (topic_probe d) = d"
    "deviceIdFromTopic (topic_cmd d) = d" "deviceIdFromTopic (topic_event d) = d"
  using deviceIdFromTopic_append[OF assms, of "''rc/state''"] deviceIdFromTopic_append[OF assms, of "''rc/probe''"]
    deviceIdFromTopic_append[OF assms, of "''rc/cmd''"] deviceIdFromTopic_append[OF assms, of "''rc/event''"]
  by (simp_all add: topic_state_def topic_probe_def topic_cmd_def topic_event_def)

definition topic_device :: "string \<Rightarrow> string option" where
  "topic_device topic = Some (deviceIdFromTopic topic)"

interpretation cmd_topic: codec topic_cmd topic_device "\<lambda>d. CHR ''/'' \<notin> set d"
  by unfold_locales (simp add: topic_device_def deviceIdFromTopic_topics)

section \<open>\<open>$SYS\<close> client topics\<close>

datatype conn_kind = Connected | Disconnected

text \<open>
  \<open>/^\$SYS\/brokers\/[^/]+\/clients\/(.+)\/(connected|disconnected)$/\<close>. The node is everything up to
  the next slash; the client id is what stands before the last segment (\<open>.\<close> matches no line break).
\<close>

definition dot_plus :: "string \<Rightarrow> bool" where
  "dot_plus s = (s \<noteq> [] \<and> CHR 0x0A \<notin> set s \<and> CHR 0x0D \<notin> set s)"

definition parseSysClientTopic :: "string \<Rightarrow> (string \<times> conn_kind) option" where
  "parseSysClientTopic topic =
     (let r = drop 13 topic;
          node = takeWhile (\<lambda>c. c \<noteq> CHR ''/'') r;
          r2 = dropWhile (\<lambda>c. c \<noteq> CHR ''/'') r;
          r3 = drop 9 r2;
          conn = take (length r3 - 10) r3;
          disc = take (length r3 - 13) r3
      in if \<not> prefix ''$SYS/brokers/'' topic \<or> node = [] \<or> \<not> prefix ''/clients/'' r2 then None
         else if suffix ''/connected'' r3 \<and> dot_plus conn then Some (conn, Connected)
         else if suffix ''/disconnected'' r3 \<and> dot_plus disc then Some (disc, Disconnected)
         else None)"

definition kind_string :: "conn_kind \<Rightarrow> string" where
  "kind_string k = (case k of Connected \<Rightarrow> ''connected'' | Disconnected \<Rightarrow> ''disconnected'')"

definition sys_topic :: "string \<Rightarrow> string \<Rightarrow> conn_kind \<Rightarrow> string" where
  "sys_topic node client k =
     ''$SYS/brokers/'' @ node @ ''/clients/'' @ client @ CHR ''/'' # kind_string k"

lemma parseSysClientTopic_sys_topic:
  assumes "node \<noteq> []" "CHR ''/'' \<notin> set node" "dot_plus client"
  shows "parseSysClientTopic (sys_topic node client k) = Some (client, k)"
proof -
  let ?r = "''/clients/'' @ client @ CHR ''/'' # kind_string k"
  have tw: "takeWhile (\<lambda>c. c \<noteq> CHR ''/'') (node @ ?r) = node"
    "dropWhile (\<lambda>c. c \<noteq> CHR ''/'') (node @ ?r) = ?r"
    using assms(2) by (auto simp: takeWhile_append dropWhile_append)
  have "\<not> suffix ''/connected'' (client @ ''/disconnected'')"
    by (auto simp: suffix_def append_eq_append_conv2 Cons_eq_append_conv append_eq_Cons_conv)
  moreover have "suffix ''/connected'' (client @ ''/connected'')"
    "suffix ''/disconnected'' (client @ ''/disconnected'')"
    by (rule suffixI, rule refl)+
  ultimately show ?thesis using assms tw
    by (cases k) (simp_all add: parseSysClientTopic_def sys_topic_def kind_string_def Let_def)
qed

section \<open>Redis keys\<close>

text \<open>Every key family of the program: those of \<open>redis-keys.ts\<close>, then the keys written inline.\<close>

datatype redis_key =
    KDevice string | KDeviceCaps string | KSession string | KActiveSession string
  | KTokenUsed string | KRelayLoad string | KRelayNodes | KHwDump string | KHwDumpReq string
  | KHwAutoDump string | KHwHeartbeat string
  | KProbeWait string | KConnRate string | KEventRate string | KDumpRate string | KDumpThrottle string

fun key_string :: "redis_key \<Rightarrow> string" where
  "key_string (KDevice deviceId) = ''device:'' @ deviceId"
| "key_string (KDeviceCaps deviceId) = ''device:caps:'' @ deviceId"
| "key_string (KSession sessionId) = ''session:'' @ sessionId"
| "key_string (KActiveSession deviceId) = ''device:activeSession:'' @ deviceId"
| "key_string (KTokenUsed jti) = ''token:used:'' @ jti"
| "key_string (KRelayLoad node) = ''relay:'' @ node @ '':load''"
| "key_string KRelayNodes = ''relay:nodes''"
| "key_string (KHwDump nonce) = ''hw:dump:'' @ nonce"
| "key_string (KHwDumpReq nonce) = ''hw:dumpreq:'' @ nonce"
| "key_string (KHwAutoDump deviceId) = ''hw:autodump:'' @ deviceId"
| "key_string (KHwHeartbeat deviceId) = ''hw:hb:'' @ deviceId"
| "key_string (KProbeWait deviceId) = ''probe:wait:'' @ deviceId"
| "key_string (KConnRate clientId) = ''conn:rl:'' @ clientId"
| "key_string (KEventRate deviceId) = ''hw:rl:ev:'' @ deviceId"
| "key_string (KDumpRate deviceId) = ''hw:rl:dump:'' @ deviceId"
| "key_string (KDumpThrottle deviceId) = ''hw:dumpthr:'' @ deviceId"

fun key_id :: "redis_key \<Rightarrow> string" where
  "key_id (KDevice d) = d" | "key_id (KDeviceCaps d) = d" | "key_id (KSession s) = s"
| "key_id (KActiveSession d) = d" | "key_id (KTokenUsed j) = j" | "key_id (KRelayLoad n) = n"
| "key_id KRelayNodes = []" | "key_id (KHwDump n) = n" | "key_id (KHwDumpReq n) = n"
| "key_id (KHwAutoDump d) = d" | "key_id (KHwHeartbeat d) = d" | "key_id (KProbeWait d) = d"
| "key_id (KConnRate c) = c" | "key_id (KEventRate d) = d" | "key_id (KDumpRate d) = d"
| "key_id (KDumpThrottle d) = d"

definition plain_key :: "redis_key \<Rightarrow> bool" where
  "plain_key k = (CHR '':'' \<notin> set (key_id k))"

definition key_dec :: "string \<Rightarrow> redis_key option" where
  "key_dec s = (case split_on CHR '':'' s of
      [a, b] \<Rightarrow> (if a = ''device'' then Some (KDevice b) else if a = ''session'' then Some (KSession b)
                else if a = ''relay'' \<and> b = ''nodes'' then Some KRelayNodes else None)
    | [a, b, c] \<Rightarrow>
        (if a = ''device'' \<and> b = ''caps'' then Some (KDeviceCaps c)
         else if a = ''device'' \<and> b = ''activeSession'' then Some (KActiveSession c)
         else if a = ''token'' then Some (KTokenUsed c)
         else if a = ''relay'' then Some (KRelayLoad b)
         else if a = ''hw'' \<and> b = ''dump'' then Some (KHwDump c)
         else if a = ''hw'' \<and> b = ''dumpreq'' then Some (KHwDumpReq c)
         else if a = ''hw'' \<and> b = ''autodump'' then Some (KHwAutoDump c)
         else if a = ''hw'' \<and> b = ''hb'' then Some (KHwHeartbeat c)
         else if a = ''hw'' \<and> b = ''dumpthr'' then Some (KDumpThrottle c)
         else if a = ''probe'' then Some (KProbeWait c)
         else if a = ''conn'' then Some (KConnRate c) else None)
    | [a, b, c, d] \<Rightarrow> (if c = ''ev'' then Some (KEventRate d) else if c = ''dump'' then Some (KDumpRate d) else None)
    | _ \<Rightarrow> None)"

lemma split_key_string:
  assumes "CHR '':'' \<notin> set x"
  shows "split_on CHR '':'' (''device:'' @ x) = [''device'', x]"
    and "split_on CHR '':'' (x @ '':load'') = [x, ''load'']"
  using assms split_on_append[of "CHR '':''" x "''load''"] by (simp_all add: split_on_no_sep)

text \<open>
  Keys of different families, or of the same family with different ids, never coincide as long
  as the ids hold no colon.
\<close>

interpretation redis_keys: codec key_string key_dec plain_key
proof
  fix k assume "plain_key k"
  then have "CHR '':'' \<notin> set (key_id k)" by (simp add: plain_key_def)
  then show "key_dec (key_string k) = Some k"
    using split_key_string by (cases k) (simp_all add: key_dec_def split_on_no_sep)
qed

text \<open>Nothing in the code keeps colons out of device ids, and with one the families overlap.\<close>

lemma key_collision:
  "key_string (KDevice (''activeSession:'' @ d)) = key_string (KActiveSession d)"
  "key_string (KDevice (''caps:'' @ d)) = key_string (KDeviceCaps d)"
  by simp_all

text \<open>
  Within a family keys differ as their ids do, whatever the ids; keys of families with different
  first words never coincide.
\<close>

lemma key_same_family [simp]:
  "key_string (KDevice a) = key_string (KDevice b) \<longleftrightarrow> a = b"
  "key_string (KDeviceCaps a) = key_string (KDeviceCaps b) \<longleftrightarrow> a = b"
  "key_string (KSession a) = key_string (KSession b) \<longleftrightarrow> a = b"
  "key_string (KActiveSession a) = key_string (KActiveSession b) \<longleftrightarrow> a = b"
  "key_string (KProbeWait a) = key_string (KProbeWait b) \<longleftrightarrow> a = b"
  by simp_all

lemma key_families [simp]:
  "key_string (KSession s) \<noteq> key_string (KDevice d)" "key_string (KDevice d) \<noteq> key_string (KSession s)"
  "key_string (KSession s) \<noteq> key_string (KDeviceCaps d)" "key_string (KDeviceCaps d) \<noteq> key_string (KSession s)"
  "key_string (KSession s) \<noteq> key_string (KActiveSession d)" "key_string (KActiveSession d) \<noteq> key_string (KSession s)"
  "key_string (KSession s) \<noteq> key_string (KProbeWait d)" "key_string (KProbeWait d) \<noteq> key_string (KSession s)"
  "key_string (KActiveSession d) \<noteq> key_string (KDeviceCaps d')" "key_string (KDeviceCaps d') \<noteq> key_string (KActiveSession d)"
  "key_string (KProbeWait p) \<noteq> key_string (KActiveSession d)" "key_string (KActiveSession d) \<noteq> key_string (KProbeWait p)"
  "key_string (KProbeWait p) \<noteq> key_string (KDevice d)" "key_string (KDevice d) \<noteq> key_string (KProbeWait p)"
  "key_string (KProbeWait p) \<noteq> key_string (KDeviceCaps d)" "key_string (KDeviceCaps d) \<noteq> key_string (KProbeWait p)"
  "key_string (KTokenUsed j) \<noteq> key_string (KActiveSession d)" "key_string (KActiveSession d) \<noteq> key_string (KTokenUsed j)"
  "key_string (KTokenUsed j) \<noteq> key_string (KSession s)" "key_string (KSession s) \<noteq> key_string (KTokenUsed j)"
  by simp_all

lemma own_lock_key [simp]:
  "key_string (KDevice d) \<noteq> key_string (KActiveSession d)" "key_string (KActiveSession d) \<noteq> key_string (KDevice d)"
proof -
  have "length (''activeSession:'' @ d) \<noteq> length d" by simp
  then have "''activeSession:'' @ d \<noteq> d" by metis
  then show "key_string (KDevice d) \<noteq> key_string (KActiveSession d)"
    using key_collision(1)[of d] key_same_family(1)[of "''activeSession:'' @ d" d] by metis
  then show "key_string (KActiveSession d) \<noteq> key_string (KDevice d)" by simp
qed

declare key_string.simps [simp del]

section \<open>Properties\<close>

text \<open>
  A topic gives its device back: the id read from a state, probe, command or event topic is the
  id it was built from, for ids without a slash; and the client id and the kind of a broker's
  \<open>$SYS\<close> event are read back from its topic, slashes in the client id included.
\<close>

theorem topics_roundtrip:
  assumes "CHR ''/'' \<notin> set d" "node \<noteq> []" "CHR ''/'' \<notin> set node" "dot_plus client"
  shows "deviceIdFromTopic (topic_state d) = d \<and> deviceIdFromTopic (topic_probe d) = d \<and>
    deviceIdFromTopic (topic_cmd d) = d \<and> deviceIdFromTopic (topic_event d) = d \<and>
    parseSysClientTopic (sys_topic node client k) = Some (client, k)"
  using assms by (simp add: deviceIdFromTopic_topics parseSysClientTopic_sys_topic)

theorem topics_roundtrip_witness:
  "deviceIdFromTopic ''rc/event/TAB-1'' = ''TAB-1'' \<and>
   parseSysClientTopic ''$SYS/brokers/n1/clients/a/b/disconnected'' = Some (''a/b'', Disconnected)"
  using topics_roundtrip[of "''TAB-1''" "''n1''" "''a/b''" Disconnected]
  by (simp add: topic_event_def sys_topic_def kind_string_def dot_plus_def)

text \<open>
  Redis keys do not collide: with ids free of colons, keys of two families or of two ids are
  two strings, and the family and the id are read back from the string.
\<close>

theorem redis_keys_apart:
  assumes "plain_key a" "plain_key b"
  shows "(key_string a = key_string b \<longleftrightarrow> a = b) \<and> key_dec (key_string a) = Some a"
  using assms redis_keys.dec_enc redis_keys.enc_inj by metis

theorem redis_keys_apart_witness:
  "key_string (KHwDump ''n'') \<noteq> key_string (KHwDumpReq ''n'') \<and> key_dec ''hw:dumpreq:n'' = Some (KHwDumpReq ''n'')"
  using redis_keys_apart[of "KHwDumpReq ''n''" "KHwDump ''n''"]
  by (auto simp: plain_key_def key_string.simps)

end
