(* ===== verification/Conn.thy ===== *)
theory Conn
  imports Json Topics
begin

text \<open>
  Connection diagnostics, \<open>packages/shared/src/conn.ts\<close>: what is kept of the broker's connect and
  disconnect events and of the agent's own connection log. Both arrive as untrusted JSON.
\<close>

section \<open>Broker events\<close>

record broker_event =
  be_kind :: conn_kind
  be_reason :: "string option"
  be_connectedAt :: "rat option"
  be_at :: rat
  be_ip :: "string option"
  be_keepalive :: "int option"

text \<open>\<open>num\<close>: a finite positive number, else \<open>null\<close>.\<close>

definition conn_num :: "json option \<Rightarrow> rat option" where
  "conn_num v = (case as_fin v of Some q \<Rightarrow> (if q > 0 then Some q else None) | None \<Rightarrow> None)"

definition normalizeBrokerEvent :: "conn_kind \<Rightarrow> json option \<Rightarrow> broker_event option" where
  "normalizeBrokerEvent kind raw = (case raw of
      None \<Rightarrow> None
    | Some o' \<Rightarrow>
        (if \<not> is_object raw then None
         else
           (let at' = (case conn_num (oget o' (if kind = Disconnected then ''disconnected_at'' else ''connected_at'')) of
                  Some q \<Rightarrow> Some q | None \<Rightarrow> conn_num (oget o' ''ts''))
            in case at' of
                 None \<Rightarrow> None
               | Some t \<Rightarrow> Some \<lparr>
                   be_kind = kind,
                   be_reason = (if kind = Disconnected then map_option (clean_to 64) (as_str (oget o' ''reason'')) else None),
                   be_connectedAt = conn_num (oget o' ''connected_at''),
                   be_at = t,
                   be_ip = map_option (clean_to 64) (as_str (oget o' ''ipaddress'')),
                   be_keepalive = map_option trunc (as_fin (oget o' ''keepalive''))\<rparr>)))"

section \<open>The agent's connection log\<close>

definition AGENT_DETAIL_NUM :: "string list" where
  "AGENT_DETAIL_NUM = [''attempt'', ''upMs'', ''rssi'', ''delayMs'', ''code'']"

definition AGENT_DETAIL_STR :: "string list" where
  "AGENT_DETAIL_STR = [''net'', ''phase'', ''by'']"

record agent_conn =
  ac_ts :: rat
  ac_ev :: string
  ac_reason :: "string option"
  ac_detail :: "(string \<times> json) list"

definition detail_nums :: "json \<Rightarrow> (string \<times> json) list" where
  "detail_nums o' = List.map_filter (\<lambda>k. map_option (\<lambda>q. (k, JNum (Fin q))) (as_fin (oget o' k))) AGENT_DETAIL_NUM"

definition detail_strs :: "json \<Rightarrow> (string \<times> json) list" where
  "detail_strs o' = List.map_filter (\<lambda>k. map_option (\<lambda>s. (k, JStr (clean_to 64 s))) (as_str (oget o' k))) AGENT_DETAIL_STR"

definition normalizeAgentConn :: "json option \<Rightarrow> agent_conn option" where
  "normalizeAgentConn raw = (case raw of
      None \<Rightarrow> None
    | Some o' \<Rightarrow>
        (if \<not> is_object raw then None
         else case as_fin (oget o' ''ts'') of
             None \<Rightarrow> None
           | Some ts \<Rightarrow>
               (if ts \<le> 0 then None
                else case as_str (oget o' ''ev'') of
                    None \<Rightarrow> None
                  | Some ev \<Rightarrow>
                      (if ev = [] then None
                       else Some \<lparr>ac_ts = ts, ac_ev = clean_to 24 ev,
                          ac_reason = map_option (clean_to 200) (as_str (oget o' ''reason'')),
                          ac_detail = detail_nums o' @ detail_strs o'\<rparr>))))"

section \<open>Facts\<close>

definition short_clean :: "nat \<Rightarrow> string \<Rightarrow> bool" where
  "short_clean n s = (length s \<le> n \<and> CHR 0x00 \<notin> set s)"

lemma short_clean_clean_to [simp]: "short_clean n (clean_to n s)"
  by (simp add: short_clean_def)

text \<open>What a stored broker event may hold.\<close>

definition broker_event_ok :: "broker_event \<Rightarrow> bool" where
  "broker_event_ok e = (0 < be_at e \<and> pred_option (\<lambda>t. 0 < t) (be_connectedAt e) \<and>
     pred_option (short_clean 64) (be_reason e) \<and> pred_option (short_clean 64) (be_ip e) \<and>
     (be_kind e = Connected \<longrightarrow> be_reason e = None))"

lemma conn_num_pos: "conn_num v = Some q \<Longrightarrow> 0 < q"
  by (auto simp: conn_num_def split: option.splits if_splits)

lemma pred_option_conn_num [simp]: "pred_option ((<) 0) (conn_num v)"
  by (cases "conn_num v") (auto dest: conn_num_pos)

lemma pred_option_map_clean [simp]: "pred_option (short_clean n) (map_option (clean_to n) x)"
  by (cases x) simp_all

lemma normalizeBrokerEvent_ok:
  "normalizeBrokerEvent k raw = Some e \<Longrightarrow> be_kind e = k \<and> broker_event_ok e"
  by (auto simp: normalizeBrokerEvent_def broker_event_ok_def Let_def conn_num_pos
      split: option.splits if_splits intro: conn_num_pos)

definition detail_ok :: "string \<times> json \<Rightarrow> bool" where
  "detail_ok p = (case p of (k, v) \<Rightarrow>
     k \<in> set AGENT_DETAIL_NUM \<and> (\<exists>q. v = JNum (Fin q)) \<or>
     k \<in> set AGENT_DETAIL_STR \<and> (\<exists>s. v = JStr s \<and> short_clean 64 s))"

definition agent_conn_ok :: "agent_conn \<Rightarrow> bool" where
  "agent_conn_ok e = (0 < ac_ts e \<and> short_clean 24 (ac_ev e) \<and> pred_option (short_clean 200) (ac_reason e) \<and>
     list_all detail_ok (ac_detail e) \<and> distinct (map fst (ac_detail e)))"

lemma details_ok: "list_all detail_ok (detail_nums o' @ detail_strs o')"
  by (auto simp: list_all_iff detail_nums_def detail_strs_def set_map_filter detail_ok_def)

lemma details_distinct: "distinct (map fst (detail_nums o' @ detail_strs o'))"
proof -
  have "distinct (map fst (detail_nums o'))" "distinct (map fst (detail_strs o'))"
    unfolding detail_nums_def detail_strs_def
    by (rule distinct_map_filter_keys; auto simp: AGENT_DETAIL_NUM_def AGENT_DETAIL_STR_def)+
  moreover have "fst ` set (detail_nums o') \<subseteq> set AGENT_DETAIL_NUM" "fst ` set (detail_strs o') \<subseteq> set AGENT_DETAIL_STR"
    by (auto simp: detail_nums_def detail_strs_def set_map_filter)
  moreover have "set AGENT_DETAIL_NUM \<inter> set AGENT_DETAIL_STR = {}"
    by (simp add: AGENT_DETAIL_NUM_def AGENT_DETAIL_STR_def)
  ultimately show ?thesis by auto
qed

lemma normalizeAgentConn_ok: "normalizeAgentConn raw = Some e \<Longrightarrow> agent_conn_ok e"
  using details_ok details_distinct
  by (auto simp: normalizeAgentConn_def agent_conn_ok_def split: option.splits if_splits)

section \<open>Properties\<close>

text \<open>
  What devices and the broker report is cleaned before it is stored: an accepted broker event has
  a positive time, no text longer than 64 characters or with a NUL, and a reason only for a
  disconnection; an accepted line of an agent's log has a positive time, a short event name and
  reason, and only the known details, each of its type, each once.
\<close>

theorem conn_events_cleaned:
  "(normalizeBrokerEvent k raw = Some e \<longrightarrow> be_kind e = k \<and> broker_event_ok e) \<and>
   (normalizeAgentConn raw' = Some a \<longrightarrow> agent_conn_ok a)"
  using normalizeBrokerEvent_ok normalizeAgentConn_ok by blast

definition demo_broker :: json where
  "demo_broker = JObj [(''disconnected_at'', JNum (Fin 5)), (''reason'', JStr [CHR ''a'', CHR 0x00, CHR ''b''])]"

definition demo_agent_conn :: json where
  "demo_agent_conn = JObj [(''ts'', JNum (Fin 7)), (''ev'', JStr ''connected''), (''rssi'', JNum (Fin (-60))), (''evil'', JNum (Fin 1))]"

theorem conn_events_cleaned_witness:
  "broker_event_ok (the (normalizeBrokerEvent Disconnected (Some demo_broker))) \<and>
   agent_conn_ok (the (normalizeAgentConn (Some demo_agent_conn)))"
proof -
  have "normalizeBrokerEvent Disconnected (Some demo_broker) \<noteq> None" "normalizeAgentConn (Some demo_agent_conn) \<noteq> None"
    by code_simp+
  then show ?thesis
    using conn_events_cleaned[of Disconnected "Some demo_broker" _ "Some demo_agent_conn"] by auto
qed

end
