(* ===== verification/Hw.thy ===== *)
theory Hw
  imports Json
begin

text \<open>
  The hardware monitor, \<open>packages/shared/src/hw.ts\<close>: event codes, the normal form of a sample, and
  the patch that keeps a device's live hash in Redis equal to its last heartbeat.
\<close>

section \<open>Event codes\<close>

definition HW_EVENT_CODES :: "string list" where
  "HW_EVENT_CODES = [''HW_THERMAL'', ''HW_LOW_MEM'', ''HW_DISK_LOW'', ''HW_PANEL_OFF'', ''HW_TOUCH_GONE'',
     ''HW_MAIN_LAG'', ''HW_GPU_PEGGED'', ''HW_CPU_PEGGED'', ''HW_ANR_DIALOG'', ''HW_FD_LEAK'', ''HW_THREAD_LEAK'']"

definition HW_AUTO_DUMP_CODES :: "string list" where
  "HW_AUTO_DUMP_CODES = [''HW_PANEL_OFF'', ''HW_TOUCH_GONE'', ''HW_MAIN_LAG'', ''HW_ANR_DIALOG'']"

definition isHwEventCode :: "json option \<Rightarrow> bool" where
  "isHwEventCode c = (case c of Some (JStr s) \<Rightarrow> s \<in> set HW_EVENT_CODES | _ \<Rightarrow> False)"

lemma auto_dump_codes_known: "set HW_AUTO_DUMP_CODES \<subseteq> set HW_EVENT_CODES"
  by (simp add: HW_AUTO_DUMP_CODES_def HW_EVENT_CODES_def)

section \<open>Samples\<close>

datatype field_kind = KNumber | KBoolean | KString | KStrings

definition SAMPLE_FIELDS :: "(string \<times> field_kind) list" where
  "SAMPLE_FIELDS = [
     (''phase'', KString), (''thermal'', KNumber), (''battTempC'', KNumber), (''zoneMaxC'', KNumber),
     (''memAvailMb'', KNumber), (''memTotalMb'', KNumber), (''lowMem'', KBoolean), (''diskFreeMb'', KNumber),
     (''cpuPct'', KNumber), (''cpuKHz'', KNumber), (''gpuPct'', KNumber), (''gpuMHz'', KNumber),
     (''display'', KNumber), (''interactive'', KBoolean), (''touchDevs'', KNumber), (''mainLagMs'', KNumber),
     (''appPssMb'', KNumber), (''threads'', KNumber), (''fds'', KNumber), (''fgPkg'', KString),
     (''uiIdleMs'', KNumber), (''lockTask'', KNumber), (''dimmed'', KBoolean), (''anomaly'', KStrings)]"

definition MAX_STR :: nat where "MAX_STR = 128"

definition MAX_ANOMALY :: nat where "MAX_ANOMALY = 16"

definition strings_of :: "json list \<Rightarrow> string list" where
  "strings_of js = List.map_filter (\<lambda>j. as_str (Some j)) js"

definition norm_field :: "field_kind \<Rightarrow> json option \<Rightarrow> json option" where
  "norm_field kind v = (case v of
      None \<Rightarrow> None
    | Some JNull \<Rightarrow> Some JNull
    | Some (JNum (Fin q)) \<Rightarrow> (if kind = KNumber then Some (JNum (Fin q)) else None)
    | Some (JBool b) \<Rightarrow> (if kind = KBoolean then Some (JBool b) else None)
    | Some (JStr s) \<Rightarrow> (if kind = KString then Some (JStr (clean_to MAX_STR s)) else None)
    | Some (JArr js) \<Rightarrow> (if kind = KStrings
         then Some (JArr (map (\<lambda>s. JStr (clean_to MAX_STR s)) (take MAX_ANOMALY (strings_of js)))) else None)
    | _ \<Rightarrow> None)"

definition norm_fields :: "json \<Rightarrow> (string \<times> json) list" where
  "norm_fields o' = List.map_filter (\<lambda>(k, kind). map_option (\<lambda>v. (k, v)) (norm_field kind (oget o' k))) SAMPLE_FIELDS"

definition normalizeHwSample :: "json option \<Rightarrow> json option" where
  "normalizeHwSample raw = (case raw of
      None \<Rightarrow> None
    | Some o' \<Rightarrow>
        (if \<not> is_object raw then None
         else case as_fin (oget o' ''ts'') of
             None \<Rightarrow> None
           | Some ts \<Rightarrow> (if ts \<le> 0 then None
               else Some (JObj ((''ts'', JNum (Fin ts)) # norm_fields o')))))"

section \<open>The live hash\<close>

definition VOLATILE_NUM :: "string list" where
  "VOLATILE_NUM = [''thermal'', ''battTempC'', ''memAvailMb'', ''diskFreeMb'', ''cpuPct'', ''gpuPct'',
     ''display'', ''touchDevs'', ''mainLagMs'', ''uiIdleMs'']"

definition UNKNOWN_IS_MINUS_ONE :: "string list" where
  "UNKNOWN_IS_MINUS_ONE = [''thermal'', ''diskFreeMb'', ''touchDevs'', ''uiIdleMs'']"

definition hw_key :: "string \<Rightarrow> string" where
  "hw_key k = ''hw_'' @ k"

text \<open>
  \<open>volatileHasHw\<close>: \<open>in\<close> asks for the presence of a property, and throws (\<open>None\<close>) on a value that is
  truthy but no object.
\<close>

definition volatileHasHw :: "json option \<Rightarrow> bool option" where
  "volatileHasHw v =
     (if \<not> truthy v then Some False
      else if \<not> is_object v then None
      else Some ((\<exists>k \<in> set VOLATILE_NUM. oget (the v) k \<noteq> None) \<or> oget (the v) ''fgPkg'' \<noteq> None))"

definition known_value :: "string \<Rightarrow> json option \<Rightarrow> rat option" where
  "known_value k v = (case as_fin v of
      None \<Rightarrow> None
    | Some x \<Rightarrow> (if x = -1 \<and> k \<in> set UNKNOWN_IS_MINUS_ONE then None
                 else if k = ''display'' \<and> x = 0 then None else Some x))"

record hw_patch =
  hp_set :: "(string \<times> string) list"
  hp_del :: "string list"

definition live_nums :: "json \<Rightarrow> (string \<times> string) list" where
  "live_nums o' = List.map_filter
     (\<lambda>k. map_option (\<lambda>x. (hw_key k, num_to_string (Fin x))) (known_value k (oget o' k))) VOLATILE_NUM"

definition live_pkg :: "json \<Rightarrow> (string \<times> string) list" where
  "live_pkg o' = (case as_str (oget o' ''fgPkg'') of
      None \<Rightarrow> []
    | Some s \<Rightarrow> (if s = [] then [] else [(hw_key ''fgPkg'', clean_to MAX_STR s)]))"

definition hwLivePatch :: "json option \<Rightarrow> hw_patch option" where
  "hwLivePatch v = (case volatileHasHw v of
      None \<Rightarrow> None
    | Some False \<Rightarrow> Some \<lparr>hp_set = [], hp_del = []\<rparr>
    | Some True \<Rightarrow>
        (let st = live_nums (the v) @ live_pkg (the v)
         in Some \<lparr>hp_set = st,
                  hp_del = filter (\<lambda>k. k \<notin> fst ` set st) (map hw_key (VOLATILE_NUM @ [''fgPkg'']))\<rparr>))"

text \<open>The numeric readings by name and the foreground package, as the hash gives them back.\<close>

record hw_volatile =
  hw_num :: "string \<Rightarrow> jsnum option"
  hw_fgPkg :: "string option"

definition hash_num :: "(string \<Rightarrow> string option) \<Rightarrow> string \<Rightarrow> jsnum option" where
  "hash_num hash k = (if k \<notin> set VOLATILE_NUM then None else
     case hash (hw_key k) of
       None \<Rightarrow> None
     | Some raw \<Rightarrow> (if raw = [] then None
         else let n = to_number_str raw in if is_finite n then Some n else None))"

definition hash_pkg :: "(string \<Rightarrow> string option) \<Rightarrow> string option" where
  "hash_pkg hash = (case hash (hw_key ''fgPkg'') of Some s \<Rightarrow> (if s = [] then None else Some s) | None \<Rightarrow> None)"

definition hwFromHash :: "(string \<Rightarrow> string option) \<Rightarrow> hw_volatile option" where
  "hwFromHash hash =
     (if (\<forall>k \<in> set VOLATILE_NUM. hash_num hash k = None) \<and> hash_pkg hash = None then None
      else Some \<lparr>hw_num = hash_num hash, hw_fgPkg = hash_pkg hash\<rparr>)"

section \<open>Samples are normal forms\<close>

lemma SAMPLE_FIELDS_distinct: "distinct (map fst SAMPLE_FIELDS)"
  by (simp add: SAMPLE_FIELDS_def)

lemma ts_not_field [simp]: "map_of SAMPLE_FIELDS ''ts'' = None"
  by (simp add: SAMPLE_FIELDS_def)

lemma strings_of_JStr [simp]: "strings_of (map (\<lambda>s. JStr (f s)) ss) = map f ss"
  by (induction ss) (auto simp: strings_of_def List.map_filter_simps)

lemma norm_field_idem: "norm_field kind (norm_field kind v) = norm_field kind v"
  by (auto simp: norm_field_def take_map split: option.split json.split jsnum.split)

lemma map_of_norm_fields:
  "map_of (norm_fields o') k = (case map_of SAMPLE_FIELDS k of None \<Rightarrow> None | Some kind \<Rightarrow> norm_field kind (oget o' k))"
  unfolding norm_fields_def
  using map_of_map_filter[OF SAMPLE_FIELDS_distinct, of "\<lambda>k kind. norm_field kind (oget o' k)"] by simp

lemma oget_norm_fields:
  "(k, kind) \<in> set SAMPLE_FIELDS \<Longrightarrow> oget (JObj ((''ts'', t) # norm_fields o')) k = norm_field kind (oget o' k)"
proof -
  assume k: "(k, kind) \<in> set SAMPLE_FIELDS"
  then have "map_of SAMPLE_FIELDS k = Some kind"
    using SAMPLE_FIELDS_distinct by (simp add: map_of_eq_Some_iff)
  moreover from this have "k \<noteq> ''ts''" by auto
  ultimately show ?thesis by (simp add: map_of_norm_fields)
qed

lemma norm_fields_fixed: "norm_fields (JObj ((''ts'', t) # norm_fields o')) = norm_fields o'"
proof -
  let ?g = "\<lambda>j (k, kind). map_option (\<lambda>v. (k, v)) (norm_field kind (oget j k))"
  have "List.map_filter (?g (JObj ((''ts'', t) # norm_fields o'))) SAMPLE_FIELDS = List.map_filter (?g o') SAMPLE_FIELDS"
    by (rule map_filter_cong) (auto simp: oget_norm_fields norm_field_idem simp del: oget_simps)
  then show ?thesis by (simp only: norm_fields_def)
qed

lemma normalizeHwSample_idem:
  "normalizeHwSample raw = Some s \<Longrightarrow> normalizeHwSample (Some s) = Some s"
  by (auto simp: normalizeHwSample_def norm_fields_fixed is_object_def as_fin_Some split: option.splits if_splits)

text \<open>What a stored sample may hold.\<close>

fun field_ok :: "field_kind \<Rightarrow> json \<Rightarrow> bool" where
  "field_ok kind JNull = True"
| "field_ok KNumber (JNum n) = is_finite n"
| "field_ok KBoolean (JBool b) = True"
| "field_ok KString (JStr s) = (length s \<le> MAX_STR \<and> CHR 0x00 \<notin> set s)"
| "field_ok KStrings (JArr js) = (length js \<le> MAX_ANOMALY \<and>
     list_all (\<lambda>j. case j of JStr s \<Rightarrow> length s \<le> MAX_STR \<and> CHR 0x00 \<notin> set s | _ \<Rightarrow> False) js)"
| "field_ok _ _ = False"

definition sample_ok :: "json \<Rightarrow> bool" where
  "sample_ok s = (case s of
      JObj ((k, JNum (Fin t)) # fs) \<Rightarrow> k = ''ts'' \<and> 0 < t \<and> distinct (map fst fs) \<and>
        list_all (\<lambda>(k, v). case map_of SAMPLE_FIELDS k of None \<Rightarrow> False | Some kind \<Rightarrow> field_ok kind v) fs
    | _ \<Rightarrow> False)"

lemma norm_field_ok: "norm_field kind v = Some w \<Longrightarrow> field_ok kind w"
  by (cases kind) (auto simp: norm_field_def list_all_iff split: option.splits json.splits jsnum.splits if_splits)

lemma norm_fields_distinct: "distinct (map fst (norm_fields o'))"
  unfolding norm_fields_def
  by (rule distinct_map_filter_pairs[OF SAMPLE_FIELDS_distinct])

lemma norm_fields_mem: "(k, v) \<in> set (norm_fields o') \<Longrightarrow> \<exists>kind. map_of SAMPLE_FIELDS k = Some kind \<and> field_ok kind v"
  using SAMPLE_FIELDS_distinct norm_field_ok
  by (fastforce simp: norm_fields_def set_map_filter map_of_eq_Some_iff)

lemma normalizeHwSample_ok: "normalizeHwSample raw = Some s \<Longrightarrow> sample_ok s"
  using norm_fields_distinct norm_fields_mem
  by (fastforce simp: normalizeHwSample_def sample_ok_def list_all_iff split: option.splits if_splits)

section \<open>The live hash mirrors the last heartbeat\<close>

text \<open>Writing a patch: \<open>HSET\<close> of the set fields, then \<open>HDEL\<close> of the deleted ones.\<close>

definition apply_patch :: "(string \<Rightarrow> string option) \<Rightarrow> hw_patch \<Rightarrow> (string \<Rightarrow> string option)" where
  "apply_patch h p = (\<lambda>k. if k \<in> set (hp_del p) then None else (h ++ map_of (hp_set p)) k)"

lemma hw_key_inj [simp]: "hw_key a = hw_key b \<longleftrightarrow> a = b"
  by (simp add: hw_key_def)

lemma VOLATILE_NUM_distinct: "distinct VOLATILE_NUM"
  by (simp add: VOLATILE_NUM_def)

lemma fgPkg_not_num [simp]: "''fgPkg'' \<notin> set VOLATILE_NUM"
  by (simp add: VOLATILE_NUM_def)

lemma map_of_live_nums:
  "k \<in> set VOLATILE_NUM \<Longrightarrow>
   map_of (live_nums o' @ live_pkg o') (hw_key k) = map_option (\<lambda>x. num_to_string (Fin x)) (known_value k (oget o' k))"
proof -
  assume k: "k \<in> set VOLATILE_NUM"
  have pkg: "map_of (live_pkg o') (hw_key k) = None"
    using k by (auto simp: live_pkg_def split: option.split)
  have nums: "map_of (List.map_filter (\<lambda>k. map_option (\<lambda>x. (hw_key k, num_to_string (Fin x))) (known_value k (oget o' k))) ks) (hw_key k) =
      (if k \<in> set ks then map_option (\<lambda>x. num_to_string (Fin x)) (known_value k (oget o' k)) else None)" for ks
    by (induction ks) (auto simp: List.map_filter_simps split: option.split)
  show ?thesis using nums[of VOLATILE_NUM] k pkg
    by (simp add: map_add_def live_nums_def split: option.split)
qed

lemma map_of_live_pkg:
  "map_of (live_nums o' @ live_pkg o') (hw_key ''fgPkg'') =
     (case as_str (oget o' ''fgPkg'') of None \<Rightarrow> None | Some s \<Rightarrow> if s = [] then None else Some (clean_to MAX_STR s))"
proof -
  have "map_of (live_nums o') (hw_key ''fgPkg'') = None"
    by (auto simp: map_of_eq_None_iff live_nums_def set_map_filter)
  then show ?thesis by (auto simp: map_add_def live_pkg_def split: option.split)
qed

lemma live_keys: "fst ` set (live_nums o' @ live_pkg o') \<subseteq> hw_key ` set (VOLATILE_NUM @ [''fgPkg''])"
  by (auto simp: live_nums_def live_pkg_def set_map_filter split: option.splits if_splits)

text \<open>Setting and deleting never touch the same field, and together they touch every hardware field.\<close>

lemma hwLivePatch_covers:
  assumes "hwLivePatch v = Some p" "volatileHasHw v = Some True"
  shows "fst ` set (hp_set p) \<inter> set (hp_del p) = {}"
    and "fst ` set (hp_set p) \<union> set (hp_del p) = hw_key ` set (VOLATILE_NUM @ [''fgPkg''])"
proof -
  define K where "K = map hw_key (VOLATILE_NUM @ [''fgPkg''])"
  define st where "st = live_nums (the v) @ live_pkg (the v)"
  have "p = \<lparr>hp_set = st, hp_del = filter (\<lambda>k. k \<notin> fst ` set st) K\<rparr>"
    using assms(1) unfolding hwLivePatch_def assms(2) Let_def st_def K_def by (simp only: option.case bool.case option.inject)
  then have p: "hp_set p = st" "hp_del p = filter (\<lambda>k. k \<notin> fst ` set st) K" by simp_all
  have sub: "fst ` set st \<subseteq> set K" using live_keys[of "the v"] by (simp add: st_def K_def)
  show "fst ` set (hp_set p) \<inter> set (hp_del p) = {}" unfolding p by auto
  have "fst ` set (hp_set p) \<union> set (hp_del p) = set K" unfolding p using sub by auto
  then show "fst ` set (hp_set p) \<union> set (hp_del p) = hw_key ` set (VOLATILE_NUM @ [''fgPkg''])"
    by (simp add: K_def)
qed

lemma apply_patch_at:
  assumes "hwLivePatch v = Some p" "volatileHasHw v = Some True" "k \<in> set (VOLATILE_NUM @ [''fgPkg''])"
  shows "apply_patch h p (hw_key k) = map_of (hp_set p) (hw_key k)"
proof (cases "hw_key k \<in> set (hp_del p)")
  case True
  with hwLivePatch_covers(1)[OF assms(1,2)] have "hw_key k \<notin> fst ` set (hp_set p)" by blast
  then have "map_of (hp_set p) (hw_key k) = None" by (simp only: map_of_eq_None_iff not_False_eq_True)
  with True show ?thesis by (simp add: apply_patch_def)
next
  case False
  with hwLivePatch_covers(2)[OF assms(1,2)] assms(3) have "hw_key k \<in> fst ` set (hp_set p)" by blast
  then obtain x where "map_of (hp_set p) (hw_key k) = Some x"
    by (metis map_of_eq_None_iff not_Some_eq)
  with False show ?thesis by (simp add: apply_patch_def map_add_def)
qed

text \<open>Numbers in a heartbeat are doubles, as everything \<open>JSON.parse\<close> returns.\<close>

definition doubles :: "json \<Rightarrow> bool" where
  "doubles o' = (\<forall>k q. as_fin (oget o' k) = Some q \<longrightarrow> is_double q)"

definition heartbeat_num :: "json \<Rightarrow> string \<Rightarrow> jsnum option" where
  "heartbeat_num o' k = (if k \<in> set VOLATILE_NUM then map_option Fin (known_value k (oget o' k)) else None)"

definition heartbeat_pkg :: "json \<Rightarrow> string option" where
  "heartbeat_pkg o' = (case as_str (oget o' ''fgPkg'') of
      None \<Rightarrow> None | Some s \<Rightarrow> (if clean_to MAX_STR s = [] then None else Some (clean_to MAX_STR s)))"

lemma known_value_double: "doubles o' \<Longrightarrow> known_value k (oget o' k) = Some x \<Longrightarrow> is_double x"
  by (auto simp: doubles_def known_value_def split: option.splits if_splits)

lemma hash_num_patched:
  assumes "hwLivePatch (Some o') = Some p" "volatileHasHw (Some o') = Some True" "doubles o'"
  shows "hash_num (apply_patch h p) k = heartbeat_num o' k"
proof (cases "k \<in> set VOLATILE_NUM")
  case True
  have "map_of (hp_set p) (hw_key k) = map_option (\<lambda>x. num_to_string (Fin x)) (known_value k (oget o' k))"
    using assms(1,2) map_of_live_nums[OF True] by (auto simp: hwLivePatch_def Let_def)
  with True apply_patch_at[OF assms(1,2), of k h] show ?thesis
    using known_value_double[OF assms(3)] to_number_num_to_string num_to_string_nonempty
    by (auto simp: hash_num_def heartbeat_num_def Let_def simp del: num_to_string.simps split: option.split)
qed (simp add: hash_num_def heartbeat_num_def)

lemma hash_pkg_patched:
  assumes "hwLivePatch (Some o') = Some p" "volatileHasHw (Some o') = Some True"
  shows "hash_pkg (apply_patch h p) = heartbeat_pkg o'"
proof -
  have "map_of (hp_set p) (hw_key ''fgPkg'') =
     (case as_str (oget o' ''fgPkg'') of None \<Rightarrow> None | Some s \<Rightarrow> if s = [] then None else Some (clean_to MAX_STR s))"
    using assms map_of_live_pkg by (auto simp: hwLivePatch_def Let_def)
  with apply_patch_at[OF assms, of "''fgPkg''" h] show ?thesis
    by (auto simp: hash_pkg_def heartbeat_pkg_def clean_to_def split: option.split)
qed

lemma hwFromHash_patched:
  assumes "hwLivePatch (Some o') = Some p" "volatileHasHw (Some o') = Some True" "doubles o'"
  shows "hwFromHash (apply_patch h p) =
    (if (\<forall>k. heartbeat_num o' k = None) \<and> heartbeat_pkg o' = None then None
     else Some \<lparr>hw_num = heartbeat_num o', hw_fgPkg = heartbeat_pkg o'\<rparr>)"
proof -
  have "hash_num (apply_patch h p) = heartbeat_num o'" using hash_num_patched[OF assms] by auto
  with hash_pkg_patched[OF assms(1,2)] show ?thesis
    by (auto simp: hwFromHash_def heartbeat_num_def)
qed

section \<open>Properties\<close>

text \<open>
  C29 The live hash mirrors the last heartbeat: after the patch of a heartbeat with hardware figures
  is written over any hash, the figures read back are exactly those it carried, number for number;
  a figure an earlier heartbeat left there, and one this one marks as unreadable, is gone.
\<close>

theorem live_hash_roundtrip:
  assumes "hwLivePatch (Some o') = Some p" "volatileHasHw (Some o') = Some True" "doubles o'"
  shows "hwFromHash (apply_patch h p) =
    (if (\<forall>k. heartbeat_num o' k = None) \<and> heartbeat_pkg o' = None then None
     else Some \<lparr>hw_num = heartbeat_num o', hw_fgPkg = heartbeat_pkg o'\<rparr>)"
  using assms by (rule hwFromHash_patched)

definition demo_heartbeat :: json where
  "demo_heartbeat = JObj [(''touchDevs'', JNum (Fin (-1))), (''cpuPct'', JNum (Fin 12))]"

lemma demo_heartbeat_doubles: "doubles demo_heartbeat"
  using is_double_of_int[of 12] is_double_of_int[of "-1"]
  by (auto simp: doubles_def demo_heartbeat_def split: if_splits)

theorem live_hash_roundtrip_witness:
  "\<exists>p. hwLivePatch (Some demo_heartbeat) = Some p \<and>
     hwFromHash (apply_patch [hw_key ''touchDevs'' \<mapsto> ''0''] p) =
       Some \<lparr>hw_num = heartbeat_num demo_heartbeat, hw_fgPkg = None\<rparr>"
proof -
  have h: "volatileHasHw (Some demo_heartbeat) = Some True" "heartbeat_pkg demo_heartbeat = None"
    "heartbeat_num demo_heartbeat ''cpuPct'' \<noteq> None" by code_simp+
  then obtain p where p: "hwLivePatch (Some demo_heartbeat) = Some p" by (simp add: hwLivePatch_def Let_def)
  from live_hash_roundtrip[OF p h(1) demo_heartbeat_doubles, of "[hw_key ''touchDevs'' \<mapsto> ''0'']"] h
  have "hwFromHash (apply_patch [hw_key ''touchDevs'' \<mapsto> ''0''] p) =
      Some \<lparr>hw_num = heartbeat_num demo_heartbeat, hw_fgPkg = None\<rparr>" by auto
  with p show ?thesis by blast
qed

text \<open>
  A stored hardware sample is a normal form: it has a positive time and only known fields of
  their types, at most 16 anomalies, no text above 128 characters or with a NUL; and normalising
  it again changes nothing.
\<close>

theorem hw_sample_normal:
  assumes "normalizeHwSample raw = Some s"
  shows "sample_ok s \<and> normalizeHwSample (Some s) = Some s"
  using normalizeHwSample_ok[OF assms] normalizeHwSample_idem[OF assms] by simp

definition demo_sample :: json where
  "demo_sample = JObj [(''ts'', JNum (Fin 7)), (''fgPkg'', JStr [CHR ''a'', CHR 0x00]), (''fds'', JBool True),
     (''anomaly'', JArr [JStr ''hot'', JNull])]"

theorem hw_sample_normal_witness:
  "sample_ok (the (normalizeHwSample (Some demo_sample)))"
proof -
  have "normalizeHwSample (Some demo_sample) \<noteq> None" by code_simp
  then show ?thesis using hw_sample_normal[of "Some demo_sample"] by auto
qed

end
