(* ===== verification/LiveHash.thy ===== *)
theory LiveHash
  imports Hw
begin

text \<open>
  \<open>packages/shared/src/live-hash.ts\<close> and \<open>ws-scheme.ts\<close>: the fields a heartbeat writes into its
  device's Redis hash, and the scheme of the relay's addresses. A message is what \<open>JSON.parse\<close>
  made of it: nothing has checked its types.
\<close>

text \<open>\<open>v ?? d\<close> and \<open>String(v)\<close> for a value that may be \<open>undefined\<close>.\<close>

definition nullish :: "json option \<Rightarrow> json \<Rightarrow> json" where
  "nullish v d = (case v of None \<Rightarrow> d | Some JNull \<Rightarrow> d | Some j \<Rightarrow> j)"

definition str_opt :: "json option \<Rightarrow> string" where
  "str_opt v = (case v of None \<Rightarrow> ''undefined'' | Some j \<Rightarrow> to_str j)"

definition flag_text :: "bool \<Rightarrow> string" where
  "flag_text b = (if b then ''1'' else ''0'')"

definition liveHashPatch :: "json \<Rightarrow> (string \<times> json) list" where
  "liveHashPatch msg =
     (let volatile = nullish (oget msg ''volatile'') (JObj []);
          patch = [(''ts'', JStr (str_opt (oget msg ''ts''))),
            (''screenOn'', JStr (flag_text (truthy (oget volatile ''screenOn'')))),
            (''charging'', JStr (flag_text (truthy (oget volatile ''charging'')))),
            (''batteryPct'', JStr (to_str (nullish (oget volatile ''batteryPct'') (JNum (Fin 0))))),
            (''net'', nullish (oget volatile ''net'') (JStr [])),
            (''rssi'', JStr (to_str (nullish (oget volatile ''rssi'') (JNum (Fin 0)))))]
      in case as_bool (oget msg ''online'') of
           None \<Rightarrow> patch
         | Some b \<Rightarrow> patch @ [(''online'', JStr (flag_text b))])"

definition relayWsScheme :: "(string \<Rightarrow> string option) \<Rightarrow> string" where
  "relayWsScheme env =
     (if env ''RELAY_WS_SCHEME'' \<in> {Some ''wss'', Some ''ws''} then the (env ''RELAY_WS_SCHEME'') else ''ws'')"

lemma liveHashPatch_keys_distinct: "distinct (map fst (liveHashPatch msg))"
  by (simp add: liveHashPatch_def Let_def split: option.split)

end
