(* ===== verification/Redis.thy ===== *)
theory Redis
  imports Topics JsNumber
begin

text \<open>
  Redis as the program sees it. The server is not part of the repository: it is a parameter
  \<open>ex\<close> that executes one command on a state of an unknown type and replies or rejects. The
  locale \<open>redis_service\<close> states what the program relies on: a command that is answered acted on
  the stored entries as the Redis manual says (\<open>redis_sem\<close>), a rejected one touched at most the
  keys it was to write. \<open>mem_redis\<close>, a store in memory with an outage switch, meets the contract.
\<close>

section \<open>Commands and their meaning\<close>

datatype rval = RStr string | RHash "(string \<times> string) list" | RList "string list" | RSet "string list"

text \<open>A key holds a value and, with \<open>EX\<close> or \<open>EXPIRE\<close>, the seconds it lives.\<close>

type_synonym entry = "rval \<times> int option"
type_synonym store = "string \<Rightarrow> entry option"

datatype cmd =
    SetNxEx string string int | SetEx string string int | Get string | Del "string list"
  | Exists string | Expire string int | Incr string
  | HSet string "(string \<times> string) list" | HDel string "string list" | HGet string string | HGetAll string
  | LPush string string | BRPop string int | SMembers string | SAdd string string | SRem string string

datatype reply = ROk | RNil | RInt int | RBulk string | RMap "(string \<times> string) list" | RArr "string list"

definition live_keys :: "store \<Rightarrow> string list \<Rightarrow> string list" where
  "live_keys st ks = filter (\<lambda>k. st k \<noteq> None) (uniq ks)"

text \<open>A key whose last element or field goes is gone; a write to an existing key keeps its TTL.\<close>

definition keep_ttl :: "store \<Rightarrow> string \<Rightarrow> rval \<Rightarrow> store" where
  "keep_ttl st k v = st(k \<mapsto> (v, case st k of None \<Rightarrow> None | Some (_, t) \<Rightarrow> t))"

definition hset_all :: "(string \<times> string) list \<Rightarrow> (string \<times> string) list \<Rightarrow> (string \<times> string) list" where
  "hset_all fs h = fold (\<lambda>(f, v). AList.update f v) fs h"

lemma map_of_hset_all: "map_of (hset_all fs h) = map_of h ++ map_of (rev fs)"
proof (induction fs arbitrary: h)
  case (Cons p fs)
  then show ?case by (cases p) (simp add: hset_all_def update_conv' map_add_def fun_eq_iff split: option.split)
qed (simp add: hset_all_def)

lemma hset_all_mem: "distinct (map fst fs) \<Longrightarrow> (f, v) \<in> set fs \<Longrightarrow> map_of (hset_all fs h) f = Some v"
  by (simp add: map_of_hset_all map_of_eq_Some_iff rev_map[symmetric] del: rev_map add: map_of_is_SomeI)

definition hash_at :: "store \<Rightarrow> string \<Rightarrow> (string \<times> string) list option" where
  "hash_at st k = (case st k of None \<Rightarrow> Some [] | Some (RHash h, _) \<Rightarrow> Some h | _ \<Rightarrow> None)"

definition list_key :: "store \<Rightarrow> string \<Rightarrow> string list option" where
  "list_key st k = (case st k of None \<Rightarrow> Some [] | Some (RList l, _) \<Rightarrow> Some l | _ \<Rightarrow> None)"

definition set_key :: "store \<Rightarrow> string \<Rightarrow> string list option" where
  "set_key st k = (case st k of None \<Rightarrow> Some [] | Some (RSet l, _) \<Rightarrow> Some l | _ \<Rightarrow> None)"

text \<open>\<open>None\<close> is an error reply: the key holds a value of another type, or not a number.\<close>

fun redis_sem :: "cmd \<Rightarrow> store \<Rightarrow> (reply \<times> store) option" where
  "redis_sem (SetNxEx k v t) st = (if st k = None then Some (ROk, st(k \<mapsto> (RStr v, Some t))) else Some (RNil, st))"
| "redis_sem (SetEx k v t) st = Some (ROk, st(k \<mapsto> (RStr v, Some t)))"
| "redis_sem (Get k) st = (case st k of
      None \<Rightarrow> Some (RNil, st) | Some (RStr v, _) \<Rightarrow> Some (RBulk v, st) | _ \<Rightarrow> None)"
| "redis_sem (Del ks) st = Some (RInt (int (length (live_keys st ks))), \<lambda>k. if k \<in> set ks then None else st k)"
| "redis_sem (Exists k) st = Some (RInt (if st k = None then 0 else 1), st)"
| "redis_sem (Expire k t) st = (case st k of
      None \<Rightarrow> Some (RInt 0, st) | Some (v, _) \<Rightarrow> Some (RInt 1, st(k \<mapsto> (v, Some t))))"
| "redis_sem (Incr k) st = (case st k of
      None \<Rightarrow> Some (RInt 1, st(k \<mapsto> (RStr ''1'', None)))
    | Some (RStr v, t) \<Rightarrow> (if v \<noteq> [] \<and> (\<forall>c \<in> set v. is_digit c)
        then Some (RInt (int (digits_val v) + 1), st(k \<mapsto> (RStr (show_nat (digits_val v + 1)), t))) else None)
    | _ \<Rightarrow> None)"
| "redis_sem (HSet k fs) st = (case hash_at st k of
      None \<Rightarrow> None
    | Some h \<Rightarrow> Some (RInt (int (length (hset_all fs h)) - int (length h)), keep_ttl st k (RHash (hset_all fs h))))"
| "redis_sem (HDel k fs) st = (case hash_at st k of
      None \<Rightarrow> None
    | Some h \<Rightarrow> let h' = filter (\<lambda>p. fst p \<notin> set fs) h
        in Some (RInt (int (length h) - int (length h')), if h' = [] then st(k := None) else keep_ttl st k (RHash h')))"
| "redis_sem (HGet k f) st = (case hash_at st k of
      None \<Rightarrow> None | Some h \<Rightarrow> Some (case map_of h f of None \<Rightarrow> RNil | Some v \<Rightarrow> RBulk v, st))"
| "redis_sem (HGetAll k) st = (case hash_at st k of None \<Rightarrow> None | Some h \<Rightarrow> Some (RMap h, st))"
| "redis_sem (LPush k v) st = (case list_key st k of
      None \<Rightarrow> None | Some l \<Rightarrow> Some (RInt (int (length l) + 1), keep_ttl st k (RList (v # l))))"
| "redis_sem (BRPop k t) st = (case list_key st k of
      None \<Rightarrow> None
    | Some l \<Rightarrow> (if l = [] then Some (RNil, st)
        else Some (RBulk (last l), if butlast l = [] then st(k := None) else keep_ttl st k (RList (butlast l)))))"
| "redis_sem (SMembers k) st = (case set_key st k of None \<Rightarrow> None | Some l \<Rightarrow> Some (RArr l, st))"
| "redis_sem (SAdd k v) st = (case set_key st k of
      None \<Rightarrow> None | Some l \<Rightarrow> if v \<in> set l then Some (RInt 0, st) else Some (RInt 1, keep_ttl st k (RSet (l @ [v]))))"
| "redis_sem (SRem k v) st = (case set_key st k of
      None \<Rightarrow> None
    | Some l \<Rightarrow> if v \<notin> set l then Some (RInt 0, st)
        else Some (RInt 1, let l' = filter (\<lambda>x. x \<noteq> v) l in if l' = [] then st(k := None) else keep_ttl st k (RSet l')))"

fun cmd_keys :: "cmd \<Rightarrow> string list" where
  "cmd_keys (SetNxEx k _ _) = [k]" | "cmd_keys (SetEx k _ _) = [k]" | "cmd_keys (Get k) = [k]"
| "cmd_keys (Del ks) = ks" | "cmd_keys (Exists k) = [k]" | "cmd_keys (Expire k _) = [k]"
| "cmd_keys (Incr k) = [k]" | "cmd_keys (HSet k _) = [k]" | "cmd_keys (HDel k _) = [k]"
| "cmd_keys (HGet k _) = [k]" | "cmd_keys (HGetAll k) = [k]" | "cmd_keys (LPush k _) = [k]"
| "cmd_keys (BRPop k _) = [k]" | "cmd_keys (SMembers k) = [k]" | "cmd_keys (SAdd k _) = [k]"
| "cmd_keys (SRem k _) = [k]"

text \<open>The keys a command may write; the others only read.\<close>

definition cmd_writes :: "cmd \<Rightarrow> string list" where
  "cmd_writes c = (case c of Get _ \<Rightarrow> [] | Exists _ \<Rightarrow> [] | HGet _ _ \<Rightarrow> [] | HGetAll _ \<Rightarrow> [] | SMembers _ \<Rightarrow> []
     | _ \<Rightarrow> cmd_keys c)"

lemma redis_sem_frame: "redis_sem c st = Some (rep, st') \<Longrightarrow> k \<notin> set (cmd_writes c) \<Longrightarrow> st' k = st k"
  by (cases c) (auto simp: cmd_writes_def keep_ttl_def Let_def split: option.splits if_splits rval.splits prod.splits)

text \<open>
  While \<open>BRPOP\<close> waits, other clients push to the list: its answer and what it leaves there are
  theirs. Every other command answers from the store alone.
\<close>

fun answers :: "cmd \<Rightarrow> store \<Rightarrow> reply \<Rightarrow> store \<Rightarrow> bool" where
  "answers (BRPop k t) st rep st' = (\<forall>k'. k' \<noteq> k \<longrightarrow> st' k' = st k')"
| "answers c st rep st' = (redis_sem c st = Some (rep, st'))"

lemma answers_frame: "answers c st rep st' \<Longrightarrow> k \<notin> set (cmd_writes c) \<Longrightarrow> st' k = st k"
  using redis_sem_frame[of c st rep st' k] by (cases c) (simp_all add: cmd_writes_def del: redis_sem.simps)

lemma sem_answers: "redis_sem c st = Some (rep, st') \<Longrightarrow> answers c st rep st'"
  using redis_sem_frame[of c st rep st'] by (cases c) (simp_all add: cmd_writes_def del: redis_sem.simps)

section \<open>The interface\<close>

type_synonym 'r redis_exec = "cmd \<Rightarrow> 'r \<Rightarrow> reply option \<times> 'r"

locale redis_service =
  fixes ex :: "'r redis_exec"
    and peek :: "'r \<Rightarrow> store"
  assumes answered: "ex c r = (Some rep, r') \<Longrightarrow> answers c (peek r) rep (peek r')"
    and rejected: "ex c r = (None, r') \<Longrightarrow> k \<notin> set (cmd_writes c) \<Longrightarrow> peek r' k = peek r k"
begin

lemma frame: "k \<notin> set (cmd_writes c) \<Longrightarrow> peek (snd (ex c r)) k = peek r k"
proof -
  assume k: "k \<notin> set (cmd_writes c)"
  obtain o' r' where e: "ex c r = (o', r')" by force
  show ?thesis
  proof (cases o')
    case None
    with e k rejected show ?thesis by simp
  next
    case (Some rep)
    with e have "answers c (peek r) rep (peek r')" by (simp add: answered)
    with e k show ?thesis by (simp add: answers_frame)
  qed
qed

end

text \<open>A store in memory; each command consumes one bit of the outage schedule, \<open>True\<close> rejects it.\<close>

type_synonym mem = "bool list \<times> store"

definition mem_redis :: "mem redis_exec" where
  "mem_redis c r = (case r of
      (True # fs, st) \<Rightarrow> (None, (fs, st))
    | (fs, st) \<Rightarrow> (case redis_sem c st of
        None \<Rightarrow> (None, (tl fs, st)) | Some (rep, st') \<Rightarrow> (Some rep, (tl fs, st'))))"

interpretation mem: redis_service mem_redis snd
proof
  fix c :: cmd and r r' :: mem and rep
  assume e: "mem_redis c r = (Some rep, r')"
  then have "redis_sem c (snd r) = Some (rep, snd r')"
    by (auto simp: mem_redis_def split: prod.splits list.splits bool.splits option.splits)
  then show "answers c (snd r) rep (snd r')"
    by (rule sem_answers)
next
  fix c :: cmd and r r' :: mem and k
  assume "mem_redis c r = (None, r')"
  then show "snd r' k = snd r k"
    by (auto simp: mem_redis_def split: prod.splits list.splits bool.splits option.splits)
qed

text \<open>The same server with devices that answer at once: every \<open>BRPOP\<close> finds an element.\<close>

definition answering :: "'r redis_exec \<Rightarrow> 'r redis_exec" where
  "answering ex c r = (case c of BRPop k t \<Rightarrow> (Some (RBulk ''up''), r) | _ \<Rightarrow> ex c r)"

interpretation live: redis_service "answering mem_redis" snd
proof
  fix c :: cmd and r r' :: mem and rep
  assume "answering mem_redis c r = (Some rep, r')"
  then show "answers c (snd r) rep (snd r')"
    using mem.answered[of c r rep r'] by (cases c) (simp_all add: answering_def del: redis_sem.simps)
next
  fix c :: cmd and r r' :: mem and k
  assume "answering mem_redis c r = (None, r')" "k \<notin> set (cmd_writes c)"
  then show "snd r' k = snd r k"
    using mem.rejected[of c r r' k] by (cases c) (simp_all add: answering_def)
qed

end
