(* ===== verification/World.thy ===== *)
theory World
  imports Redis Json Prelude
begin

text \<open>
  What the services act on: the PostgreSQL tables of \<open>docker/postgres\<close>, the Redis server, and the
  messages handed to the MQTT broker. A query or a publish may be rejected by the schedules
  \<open>w_pgFaults\<close> and \<open>w_mqttFaults\<close> (\<open>True\<close> rejects the next one, an exhausted schedule none); a
  rejected query changes nothing. Queries and commands are the program's \<open>await\<close> points.
\<close>

section \<open>Tables\<close>

record device_row =
  dv_hmdmId :: "int option"
  dv_androidId :: "string option"
  dv_model :: "string option"
  dv_osVersion :: "string option"
  dv_groupId :: "int option"
  dv_label :: "string option"
  dv_firstSeen :: int
  dv_lastSeen :: "int option"
  dv_syncedAt :: "int option"
  dv_stale :: bool
  dv_needsReprovisioning :: bool

record caps_row =
  cp_agentVer :: string
  cp_projectMedia :: string
  cp_a11y :: bool
  cp_knox :: string
  cp_overlay :: bool
  cp_secureSettings :: bool
  cp_encoderName :: "string option"
  cp_encoderHw :: "bool option"
  cp_capsHash :: string
  cp_updatedAt :: int

record operator_row =
  op_username :: string
  op_displayName :: "string option"
  op_passwordHash :: "string option"
  op_hmdmUserId :: "int option"
  op_role :: string
  op_active :: bool

datatype session_state = Probing | Starting | Active | Closed | Failed

record session_row =
  ss_deviceId :: string
  ss_operatorId :: int
  ss_relayNode :: string
  ss_state :: session_state
  ss_entryPoint :: "string option"
  ss_requestedAt :: int
  ss_connectedAt :: "int option"
  ss_endedAt :: "int option"
  ss_failReason :: "string option"
  ss_bytesOut :: nat
  ss_inputEvents :: nat
  ss_peerIp :: "string option"

record hw_sample_row =
  hs_deviceId :: string
  hs_source :: string
  hs_sampleTs :: rat
  hs_receivedAt :: int
  hs_data :: json

record hw_event_row =
  he_deviceId :: string
  he_code :: string
  he_msg :: "string option"
  he_ts :: rat
  he_at :: int

record conn_event_row =
  ce_deviceId :: string
  ce_source :: string
  ce_event :: string
  ce_reason :: "string option"
  ce_connectedAt :: "rat option"
  ce_at :: rat
  ce_ip :: "string option"
  ce_keepalive :: "rat option"
  ce_detail :: "json option"
  ce_receivedAt :: int

record cap_event_row =
  ev_deviceId :: string
  ev_changed :: json
  ev_at :: int

text \<open>Tables with a primary key are association lists from the key to the other columns.\<close>

record db =
  tb_groups :: "(int \<times> string) list"
  tb_devices :: "(string \<times> device_row) list"
  tb_caps :: "(string \<times> caps_row) list"
  tb_capEvents :: "cap_event_row list"
  tb_operators :: "(int \<times> operator_row) list"
  tb_sessions :: "(string \<times> session_row) list"
  tb_access :: "(int \<times> int) list"
  tb_hwSamples :: "hw_sample_row list"
  tb_hwEvents :: "hw_event_row list"
  tb_connEvents :: "conn_event_row list"

section \<open>The world of a handler\<close>

datatype error =
    PgError | RedisError | MqttError
  | Forbidden string | NotFound | Unauthorized string | BadRequest string
  | Conflict string
  | NotReadyError string "string list"
  | SessionFailed string string
  | ThrownError string

text \<open>The errors of the services underneath, as against those the handlers raise themselves.\<close>

definition infra_error :: "error \<Rightarrow> bool" where
  "infra_error e = (e = PgError \<or> e = RedisError \<or> e = MqttError)"

lemma infra_errors [simp]:
  "infra_error PgError" "infra_error RedisError" "infra_error MqttError" "\<not> infra_error NotFound"
  "\<not> infra_error (Forbidden s)" "\<not> infra_error (Conflict s)" "\<not> infra_error (NotReadyError s bs)"
  "\<not> infra_error (SessionFailed r s)"
  by (simp_all add: infra_error_def)

record 'r world =
  w_db :: db
  w_redis :: 'r
  w_mqtt :: "(string \<times> json) list"
  w_now :: int
  w_pgFaults :: "bool list"
  w_mqttFaults :: "bool list"

type_synonym ('r, 'a) handler = "('r world, error, 'a) prog"

text \<open>One statement: the rows it returns and the tables it leaves, or \<open>None\<close> when a constraint fails.\<close>

definition pg :: "(db \<Rightarrow> ('a \<times> db) option) \<Rightarrow> ('r, 'a) handler" where
  "pg q w = (case w_pgFaults w of
      True # fs \<Rightarrow> (Inl PgError, w\<lparr>w_pgFaults := fs\<rparr>)
    | fs \<Rightarrow> (let w = w\<lparr>w_pgFaults := tl fs\<rparr> in
        case q (w_db w) of None \<Rightarrow> (Inl PgError, w) | Some (a, d) \<Rightarrow> (Inr a, w\<lparr>w_db := d\<rparr>)))"

definition pg_read :: "(db \<Rightarrow> 'a) \<Rightarrow> ('r, 'a) handler" where
  "pg_read f = pg (\<lambda>d. Some (f d, d))"

definition pg_write :: "(db \<Rightarrow> db) \<Rightarrow> ('r, unit) handler" where
  "pg_write f = pg (\<lambda>d. Some ((), f d))"

text \<open>\<open>UPDATE .. SET .. WHERE\<close> on a keyed table.\<close>

definition update_where :: "('k \<Rightarrow> 'v \<Rightarrow> bool) \<Rightarrow> ('v \<Rightarrow> 'v) \<Rightarrow> ('k \<times> 'v) list \<Rightarrow> ('k \<times> 'v) list" where
  "update_where P f t = map (\<lambda>(k, v). (k, if P k v then f v else v)) t"

lemma map_of_update_where [simp]:
  "map_of (update_where P f t) k = map_option (\<lambda>v. if P k v then f v else v) (map_of t k)"
  by (induction t) (auto simp: update_where_def)

lemma update_where_keys [simp]: "map fst (update_where P f t) = map fst t"
  by (induction t) (auto simp: update_where_def)

definition publish :: "string \<Rightarrow> json \<Rightarrow> ('r, unit) handler" where
  "publish topic payload w = (case w_mqttFaults w of
      True # fs \<Rightarrow> (Inl MqttError, w\<lparr>w_mqttFaults := fs\<rparr>)
    | fs \<Rightarrow> (Inr (), w\<lparr>w_mqtt := w_mqtt w @ [(topic, payload)], w_mqttFaults := tl fs\<rparr>))"

definition redis :: "'r redis_exec \<Rightarrow> cmd \<Rightarrow> ('r, reply) handler" where
  "redis ex c w = (case ex c (w_redis w) of
      (None, r) \<Rightarrow> (Inl RedisError, w\<lparr>w_redis := r\<rparr>)
    | (Some rep, r) \<Rightarrow> (Inr rep, w\<lparr>w_redis := r\<rparr>))"

text \<open>The client library's reading of the replies.\<close>

definition redis_do :: "'r redis_exec \<Rightarrow> cmd \<Rightarrow> ('r, unit) handler" where
  "redis_do ex c = thenE (redis ex c) (ret ())"

definition redis_int :: "'r redis_exec \<Rightarrow> cmd \<Rightarrow> ('r, int) handler" where
  "redis_int ex c = bindE (redis ex c) (\<lambda>rep. ret (case rep of RInt n \<Rightarrow> n | _ \<Rightarrow> 0))"

definition redis_setnx :: "'r redis_exec \<Rightarrow> string \<Rightarrow> string \<Rightarrow> int \<Rightarrow> ('r, bool) handler" where
  "redis_setnx ex k v t = bindE (redis ex (SetNxEx k v t)) (\<lambda>rep. ret (rep = ROk))"

definition redis_get :: "'r redis_exec \<Rightarrow> string \<Rightarrow> ('r, string option) handler" where
  "redis_get ex k = bindE (redis ex (Get k)) (\<lambda>rep. ret (case rep of RBulk s \<Rightarrow> Some s | _ \<Rightarrow> None))"

definition redis_hgetall :: "'r redis_exec \<Rightarrow> string \<Rightarrow> ('r, string \<Rightarrow> string option) handler" where
  "redis_hgetall ex k = bindE (redis ex (HGetAll k)) (\<lambda>rep. ret (case rep of RMap h \<Rightarrow> map_of h | _ \<Rightarrow> Map.empty))"

definition redis_hget :: "'r redis_exec \<Rightarrow> string \<Rightarrow> string \<Rightarrow> ('r, string option) handler" where
  "redis_hget ex k f = bindE (redis ex (HGet k f)) (\<lambda>rep. ret (case rep of RBulk s \<Rightarrow> Some s | _ \<Rightarrow> None))"

definition redis_brpop :: "'r redis_exec \<Rightarrow> string \<Rightarrow> int \<Rightarrow> ('r, string option) handler" where
  "redis_brpop ex k t = bindE (redis ex (BRPop k t)) (\<lambda>rep. ret (case rep of RBulk s \<Rightarrow> Some s | _ \<Rightarrow> None))"

definition redis_smembers :: "'r redis_exec \<Rightarrow> string \<Rightarrow> ('r, string list) handler" where
  "redis_smembers ex k = bindE (redis ex (SMembers k)) (\<lambda>rep. ret (case rep of RArr l \<Rightarrow> l | _ \<Rightarrow> []))"

text \<open>
  A pipeline sends its commands in order and \<open>exec()\<close> resolves to one \<open>[error, result]\<close> pair per
  command; the code reads the result and takes a failed one for missing.
\<close>

fun pipe :: "'r redis_exec \<Rightarrow> cmd list \<Rightarrow> ('r, reply option list) handler" where
  "pipe ex [] = ret []"
| "pipe ex (c # cs) = bindE (\<lambda>w. case ex c (w_redis w) of (rep, r) \<Rightarrow> (Inr rep, w\<lparr>w_redis := r\<rparr>))
     (\<lambda>rep. bindE (pipe ex cs) (\<lambda>reps. ret (rep # reps)))"

section \<open>Contracts of the calls\<close>

text \<open>Up to the schedules of failures and Redis's unseen state, nothing happened.\<close>

definition unchanged :: "('r \<Rightarrow> store) \<Rightarrow> 'r world \<Rightarrow> 'r world \<Rightarrow> bool" where
  "unchanged peek w w' \<longleftrightarrow> w_db w' = w_db w \<and> peek (w_redis w') = peek (w_redis w) \<and> w_mqtt w' = w_mqtt w"

definition refused :: "('r \<Rightarrow> store) \<Rightarrow> ('r, 'a) handler \<Rightarrow> 'r world \<Rightarrow> bool" where
  "refused peek m w \<longleftrightarrow> (\<exists>e w'. m w = (Inl e, w') \<and> unchanged peek w w')"

lemma wp_pg:
  assumes "\<And>fs. E PgError (w\<lparr>w_pgFaults := fs\<rparr>)"
    and "\<And>fs a d. q (w_db w) = Some (a, d) \<Longrightarrow> Q a (w\<lparr>w_pgFaults := fs, w_db := d\<rparr>)"
  shows "wp (pg q) Q E w"
  using assms by (auto simp: wp_def pg_def Let_def split: list.split bool.split option.split)

lemma wp_pg_read:
  assumes "\<And>fs. E PgError (w\<lparr>w_pgFaults := fs\<rparr>)" and "\<And>fs. Q (f (w_db w)) (w\<lparr>w_pgFaults := fs\<rparr>)"
  shows "wp (pg_read f) Q E w"
  unfolding pg_read_def by (rule wp_pg) (use assms in auto)

lemma wp_pg_write:
  assumes "\<And>fs. E PgError (w\<lparr>w_pgFaults := fs\<rparr>)" and "\<And>fs. Q () (w\<lparr>w_pgFaults := fs, w_db := f (w_db w)\<rparr>)"
  shows "wp (pg_write f) Q E w"
  unfolding pg_write_def by (rule wp_pg) (use assms in auto)

lemma wp_publish:
  assumes "\<And>fs. E MqttError (w\<lparr>w_mqttFaults := fs\<rparr>)"
    and "\<And>fs. Q () (w\<lparr>w_mqtt := w_mqtt w @ [(t, j)], w_mqttFaults := fs\<rparr>)"
  shows "wp (publish t j) Q E w"
  using assms by (auto simp: wp_def publish_def split: list.split bool.split)

definition read_answer :: "store \<Rightarrow> cmd \<Rightarrow> reply option \<Rightarrow> bool" where
  "read_answer st c rep = (case rep of None \<Rightarrow> True | Some x \<Rightarrow> answers c st x st)"

context redis_service
begin

lemma wp_redis:
  assumes "\<And>r. (\<And>k. k \<notin> set (cmd_writes c) \<Longrightarrow> peek r k = peek (w_redis w) k) \<Longrightarrow> E RedisError (w\<lparr>w_redis := r\<rparr>)"
    and "\<And>rep r. answers c (peek (w_redis w)) rep (peek r) \<Longrightarrow> Q rep (w\<lparr>w_redis := r\<rparr>)"
  shows "wp (redis ex c) Q E w"
proof -
  obtain o' r where e: "ex c (w_redis w) = (o', r)" by force
  show ?thesis
    using assms answered[of c "w_redis w" _ r] rejected[of c "w_redis w" r] e
    by (cases o') (auto simp: wp_def redis_def)
qed

text \<open>The typed calls: what a rejection may have touched, and what the answer says.\<close>

lemma wp_setnx:
  assumes "\<And>r. (\<And>k'. k' \<noteq> k \<Longrightarrow> peek r k' = peek (w_redis w) k') \<Longrightarrow> E RedisError (w\<lparr>w_redis := r\<rparr>)"
    and "\<And>r. peek (w_redis w) k = None \<Longrightarrow> peek r = (peek (w_redis w))(k \<mapsto> (RStr v, Some t)) \<Longrightarrow> Q True (w\<lparr>w_redis := r\<rparr>)"
    and "\<And>r. peek (w_redis w) k \<noteq> None \<Longrightarrow> peek r = peek (w_redis w) \<Longrightarrow> Q False (w\<lparr>w_redis := r\<rparr>)"
  shows "wp (redis_setnx ex k v t) Q E w"
  unfolding redis_setnx_def wp_simps
proof (rule wp_redis)
  fix rep r assume "answers (SetNxEx k v t) (peek (w_redis w)) rep (peek r)"
  then show "Q (rep = ROk) (w\<lparr>w_redis := r\<rparr>)"
    by (cases "peek (w_redis w) k = None") (simp_all add: assms(2,3))
qed (simp add: assms(1) cmd_writes_def)

lemma wp_del:
  assumes "\<And>r. (\<And>k. k \<notin> set ks \<Longrightarrow> peek r k = peek (w_redis w) k) \<Longrightarrow> E RedisError (w\<lparr>w_redis := r\<rparr>)"
    and "\<And>r. peek r = (\<lambda>k. if k \<in> set ks then None else peek (w_redis w) k) \<Longrightarrow> Q () (w\<lparr>w_redis := r\<rparr>)"
  shows "wp (redis_do ex (Del ks)) Q E w"
  unfolding redis_do_def wp_simps by (rule wp_redis) (simp_all add: assms cmd_writes_def fun_eq_iff)

lemma wp_get:
  assumes "\<And>r. peek r = peek (w_redis w) \<Longrightarrow> E RedisError (w\<lparr>w_redis := r\<rparr>)"
    and "\<And>r. peek r = peek (w_redis w) \<Longrightarrow> peek (w_redis w) k = None \<Longrightarrow> Q None (w\<lparr>w_redis := r\<rparr>)"
    and "\<And>r v t. peek r = peek (w_redis w) \<Longrightarrow> peek (w_redis w) k = Some (RStr v, t) \<Longrightarrow> Q (Some v) (w\<lparr>w_redis := r\<rparr>)"
  shows "wp (redis_get ex k) Q E w"
  unfolding redis_get_def wp_simps
proof (rule wp_redis)
  fix rep r assume "answers (Get k) (peek (w_redis w)) rep (peek r)"
  then show "Q (case rep of RBulk s \<Rightarrow> Some s | _ \<Rightarrow> None) (w\<lparr>w_redis := r\<rparr>)"
    using assms(2,3)[of r] by (auto split: option.splits rval.splits)
qed (simp add: assms(1) cmd_writes_def fun_eq_iff)

lemma wp_hgetall:
  assumes "\<And>r. peek r = peek (w_redis w) \<Longrightarrow> E RedisError (w\<lparr>w_redis := r\<rparr>)"
    and "\<And>r h. peek r = peek (w_redis w) \<Longrightarrow> hash_at (peek (w_redis w)) k = Some h \<Longrightarrow> Q (map_of h) (w\<lparr>w_redis := r\<rparr>)"
  shows "wp (redis_hgetall ex k) Q E w"
  unfolding redis_hgetall_def wp_simps
proof (rule wp_redis)
  fix rep r assume "answers (HGetAll k) (peek (w_redis w)) rep (peek r)"
  then show "Q (case rep of RMap h \<Rightarrow> map_of h | _ \<Rightarrow> Map.empty) (w\<lparr>w_redis := r\<rparr>)"
    using assms(2)[of r] by (auto split: option.splits)
qed (simp add: assms(1) cmd_writes_def fun_eq_iff)

lemma wp_hset:
  assumes "\<And>r. (\<And>k'. k' \<noteq> k \<Longrightarrow> peek r k' = peek (w_redis w) k') \<Longrightarrow> E RedisError (w\<lparr>w_redis := r\<rparr>)"
    and "\<And>r h. hash_at (peek (w_redis w)) k = Some h \<Longrightarrow>
      peek r = keep_ttl (peek (w_redis w)) k (RHash (hset_all fs h)) \<Longrightarrow> Q () (w\<lparr>w_redis := r\<rparr>)"
  shows "wp (redis_do ex (HSet k fs)) Q E w"
  unfolding redis_do_def wp_simps
  by (rule wp_redis) (auto simp: cmd_writes_def intro: assms split: option.splits)

lemma wp_expire:
  assumes "\<And>r. (\<And>k'. k' \<noteq> k \<Longrightarrow> peek r k' = peek (w_redis w) k') \<Longrightarrow> E RedisError (w\<lparr>w_redis := r\<rparr>)"
    and "\<And>r. peek r = (case peek (w_redis w) k of None \<Rightarrow> peek (w_redis w)
        | Some (v, _) \<Rightarrow> (peek (w_redis w))(k \<mapsto> (v, Some t))) \<Longrightarrow> Q () (w\<lparr>w_redis := r\<rparr>)"
  shows "wp (redis_do ex (Expire k t)) Q E w"
  unfolding redis_do_def wp_simps
  by (rule wp_redis) (auto simp: cmd_writes_def intro!: assms split: option.splits)

lemma wp_brpop:
  assumes "\<And>r. (\<And>k'. k' \<noteq> k \<Longrightarrow> peek r k' = peek (w_redis w) k') \<Longrightarrow> E RedisError (w\<lparr>w_redis := r\<rparr>)"
    and "\<And>r x. (\<And>k'. k' \<noteq> k \<Longrightarrow> peek r k' = peek (w_redis w) k') \<Longrightarrow> Q x (w\<lparr>w_redis := r\<rparr>)"
  shows "wp (redis_brpop ex k t) Q E w"
  unfolding redis_brpop_def wp_simps by (rule wp_redis) (auto simp: cmd_writes_def intro: assms)

lemma wp_smembers:
  assumes "\<And>r. peek r = peek (w_redis w) \<Longrightarrow> E RedisError (w\<lparr>w_redis := r\<rparr>)"
    and "\<And>r l. peek r = peek (w_redis w) \<Longrightarrow> set_key (peek (w_redis w)) k = Some l \<Longrightarrow> Q l (w\<lparr>w_redis := r\<rparr>)"
  shows "wp (redis_smembers ex k) Q E w"
  unfolding redis_smembers_def wp_simps
proof (rule wp_redis)
  fix rep r assume "answers (SMembers k) (peek (w_redis w)) rep (peek r)"
  then show "Q (case rep of RArr l \<Rightarrow> l | _ \<Rightarrow> []) (w\<lparr>w_redis := r\<rparr>)"
    using assms(2)[of r] by (auto split: option.splits)
qed (simp add: assms(1) cmd_writes_def fun_eq_iff)

text \<open>A pipeline of reads answers each command or marks it failed, and leaves the store alone.\<close>

lemma wp_pipe_reads:
  assumes "\<And>c. c \<in> set cs \<Longrightarrow> cmd_writes c = []"
    and "\<And>r reps. peek r = peek (w_redis w) \<Longrightarrow>
      list_all2 (read_answer (peek (w_redis w))) cs reps \<Longrightarrow>
      Q reps (w\<lparr>w_redis := r\<rparr>)"
  shows "wp (pipe ex cs) Q E w"
  using assms
proof (induction cs arbitrary: w Q)
  case Nil
  then show ?case using Nil.prems(2)[of "w_redis w" "[]"] by (simp add: wp_simps)
next
  case (Cons c cs)
  obtain rep r where e: "ex c (w_redis w) = (rep, r)" by force
  have same: "peek r = peek (w_redis w)"
    using frame[of _ c "w_redis w"] e Cons.prems(1)[of c] by (intro ext) simp
  have ans: "read_answer (peek (w_redis w)) c rep"
    unfolding read_answer_def using answered[of c "w_redis w" _ r] e same by (cases rep) auto
  have "wp (pipe ex cs) (\<lambda>reps. Q (rep # reps)) E (w\<lparr>w_redis := r\<rparr>)"
  proof (rule Cons.IH)
    show "cmd_writes c = []" if "c \<in> set cs" for c using that Cons.prems(1) by simp
    show "Q (rep # reps) (w\<lparr>w_redis := r, w_redis := r'\<rparr>)"
      if "peek r' = peek (w_redis (w\<lparr>w_redis := r\<rparr>))"
        "list_all2 (read_answer (peek (w_redis (w\<lparr>w_redis := r\<rparr>)))) cs reps" for r' reps
      using Cons.prems(2)[of r' "rep # reps"] that same ans by simp
  qed
  then show ?case by (simp add: wp_simps) (simp add: wp_def e)
qed

end

end
