(* ===== verification/Semver.thy ===== *)
theory Semver
  imports JsNumber
begin

text \<open>
  Agent versions: \<open>packages/shared/src/semver.ts\<close> and the version pattern of \<open>rollout.ts\<close>.
  A version string is read leniently (a leading \<open>v\<close>, missing or unreadable parts count as 0)
  and compared part by part; the comparison is the lexicographic order of the three numbers.
\<close>

section \<open>Comparison\<close>

text \<open>\<open>parseInt(s, 10)\<close>: \<open>None\<close> is \<open>NaN\<close>; integers are not rounded to doubles.\<close>

definition parseInt10 :: "string \<Rightarrow> int option" where
  "parseInt10 s0 =
     (let s = dropWhile is_space s0;
          neg = (s \<noteq> [] \<and> hd s = CHR ''-'');
          r = (if s \<noteq> [] \<and> hd s \<in> {CHR ''-'', CHR ''+''} then tl s else s);
          ds = takeWhile is_digit r
      in if ds = [] then None else Some ((if neg then -1 else 1) * int (digits_val ds)))"

definition strip_v :: "string \<Rightarrow> string" where
  "strip_v s = (if s \<noteq> [] \<and> hd s = CHR ''v'' then tl s else s)"

definition parse_version :: "string \<Rightarrow> int list" where
  "parse_version v =
     (let ns = map (\<lambda>n. case parseInt10 n of None \<Rightarrow> 0 | Some i \<Rightarrow> i) (split_on CHR ''.'' (strip_v v));
          part = (\<lambda>i. if i < length ns then ns ! i else 0)
      in [part 0, part 1, part 2])"

fun lt_loop :: "int list \<Rightarrow> int list \<Rightarrow> bool" where
  "lt_loop (x # xs) (y # ys) = (if x < y then True else if y < x then False else lt_loop xs ys)"
| "lt_loop _ _ = False"

definition semverLt :: "string \<Rightarrow> string \<Rightarrow> bool" where
  "semverLt a b = lt_loop (parse_version a) (parse_version b)"

section \<open>The order it decides\<close>

datatype version = Version (major: int) (minor: int) (patch: int)

instantiation version :: linorder
begin

definition less_version :: "version \<Rightarrow> version \<Rightarrow> bool" where
  "less_version u v = (major u < major v \<or> major u = major v \<and>
     (minor u < minor v \<or> minor u = minor v \<and> patch u < patch v))"

definition less_eq_version :: "version \<Rightarrow> version \<Rightarrow> bool" where
  "less_eq_version u v = (u < v \<or> u = v)"

instance
  by standard (auto simp: less_version_def less_eq_version_def intro: version.expand)

end

definition version_of :: "string \<Rightarrow> version" where
  "version_of s = (let p = parse_version s in Version (p ! 0) (p ! 1) (p ! 2))"

lemma parse_version_shape: "\<exists>a b c. parse_version s = [a, b, c]"
  by (simp add: parse_version_def Let_def)

lemma semverLt_iff: "semverLt a b \<longleftrightarrow> version_of a < version_of b"
  using parse_version_shape[of a] parse_version_shape[of b]
  by (auto simp: semverLt_def version_of_def less_version_def split: if_splits)

interpretation semver: strict_weak_order semverLt
  by unfold_locales (auto simp: semverLt_iff)

section \<open>Well-formed versions\<close>

text \<open>\<open>VERSION_RE = /^\d{1,4}\.\d{1,4}\.\d{1,4}$/\<close>.\<close>

definition short_digits :: "string \<Rightarrow> bool" where
  "short_digits p = (1 \<le> length p \<and> length p \<le> 4 \<and> list_all is_digit p)"

definition isValidVersion :: "string \<Rightarrow> bool" where
  "isValidVersion s = (let ps = split_on CHR ''.'' s in length ps = 3 \<and> list_all short_digits ps)"

lemma digit_no_space: "is_digit c \<Longrightarrow> \<not> is_space c \<and> c \<noteq> CHR ''-'' \<and> c \<noteq> CHR ''+'' \<and> c \<noteq> CHR ''v'' \<and> c \<noteq> CHR ''.''"
  by (auto simp: is_digit_def is_space_def)

lemma parseInt10_digits:
  assumes "\<forall>c \<in> set s. is_digit c" "s \<noteq> []"
  shows "parseInt10 s = Some (int (digits_val s))"
proof -
  have "dropWhile is_space s = s" "hd s \<noteq> CHR ''-''" "hd s \<noteq> CHR ''+''"
    using assms digit_no_space by (cases s; force)+
  then show ?thesis
    using assms by (simp add: parseInt10_def Let_def takeWhile_eq_all_conv[THEN iffD2])
qed

definition show_version :: "nat \<Rightarrow> nat \<Rightarrow> nat \<Rightarrow> string" where
  "show_version a b c = show_nat a @ CHR ''.'' # show_nat b @ CHR ''.'' # show_nat c"

lemma show_nat_no_dot: "CHR ''.'' \<notin> set (show_nat n)"
  using show_nat_digits[of n] digit_no_space by blast

lemma split_show_version:
  "split_on CHR ''.'' (show_version a b c) = [show_nat a, show_nat b, show_nat c]"
  by (simp add: show_version_def split_on_append split_on_no_sep show_nat_no_dot)

lemma strip_v_show_version: "strip_v (show_version a b c) = show_version a b c"
proof -
  have "hd (show_version a b c) = hd (show_nat a)"
    by (simp add: show_version_def)
  moreover have "hd (show_nat a) \<noteq> CHR ''v''"
    using show_nat_digits[of a] digit_no_space by (cases "show_nat a") auto
  ultimately show ?thesis by (simp add: strip_v_def)
qed

lemma version_of_show_version: "version_of (show_version a b c) = Version (int a) (int b) (int c)"
  by (simp add: version_of_def parse_version_def Let_def strip_v_show_version split_show_version
      parseInt10_digits show_nat_digits)

lemma digits_val_bound: "\<forall>c \<in> set s. is_digit c \<Longrightarrow> digits_val s < 10 ^ length s"
proof (induction s rule: rev_induct)
  case (snoc c s)
  then have "digit_val c < 10" by (auto simp: is_digit_def digit_val_def)
  with snoc show ?case by simp
qed simp

lemma isValidVersion_parts:
  assumes "isValidVersion s"
  shows "\<exists>a b c. a < 10000 \<and> b < 10000 \<and> c < 10000 \<and> version_of s = Version (int a) (int b) (int c)"
proof -
  obtain x y z where sp: "split_on CHR ''.'' s = [x, y, z]"
    and ok: "short_digits x" "short_digits y" "short_digits z"
    using assms by (auto simp: isValidVersion_def Let_def length_Suc_conv numeral_3_eq_3)
  have bound: "digits_val p < 10000 \<and> parseInt10 p = Some (int (digits_val p))" if "short_digits p" for p
  proof -
    have d: "\<forall>c \<in> set p. is_digit c" "p \<noteq> []" "length p \<le> 4"
      using that by (auto simp: short_digits_def list_all_iff)
    have "digits_val p < 10 ^ length p" using d(1) by (rule digits_val_bound)
    also have "\<dots> \<le> 10 ^ 4" using d(3) by (intro power_increasing) auto
    finally show ?thesis using d parseInt10_digits by simp
  qed
  have "strip_v s = s"
  proof (cases s)
    case (Cons c r)
    have "c \<noteq> CHR ''v''"
      using sp ok(1) Cons
      by (auto simp: short_digits_def list_all_iff is_digit_def split: if_splits list.splits)
    with Cons show ?thesis by (simp add: strip_v_def)
  qed (simp add: strip_v_def)
  with sp bound[OF ok(1)] bound[OF ok(2)] bound[OF ok(3)] show ?thesis
    by (auto simp: version_of_def parse_version_def Let_def)
qed

lemma isValidVersion_show:
  assumes "a < 10000" "b < 10000" "c < 10000"
  shows "isValidVersion (show_version a b c)"
  using assms show_nat_length[of _ 3] show_nat_digits
  by (simp add: isValidVersion_def split_show_version short_digits_def list_all_iff Suc_le_eq)

section \<open>Properties\<close>

lemma short_digits_show_nat: "short_digits (show_nat n) \<longleftrightarrow> n < 10000"
proof
  assume "short_digits (show_nat n)"
  then have l: "length (show_nat n) \<le> 4" by (simp add: short_digits_def)
  have "digits_val (show_nat n) < 10 ^ length (show_nat n)"
    using show_nat_digits by (rule digits_val_bound)
  moreover have "(10 :: nat) ^ length (show_nat n) \<le> 10 ^ 4" using l by (rule power_increasing) simp
  ultimately show "n < 10000" by simp
next
  assume "n < 10000"
  then show "short_digits (show_nat n)"
    using show_nat_length[of n 3] show_nat_digits by (simp add: short_digits_def list_all_iff Suc_le_eq)
qed

text \<open>
  Versions written \<open>maj.min.patch\<close> are compared number by number, not as text (\<open>1.10.0\<close> is
  newer than \<open>1.9.0\<close>), and such a version is accepted as a rollout target exactly when each of
  the three numbers has at most four digits.
\<close>

theorem semver_reads_versions:
  "(semverLt (show_version a b c) (show_version a' b' c') \<longleftrightarrow>
     a < a' \<or> a = a' \<and> (b < b' \<or> b = b' \<and> c < c')) \<and>
   (isValidVersion (show_version a b c) \<longleftrightarrow> a < 10000 \<and> b < 10000 \<and> c < 10000)"
  by (simp add: semverLt_iff version_of_show_version less_version_def isValidVersion_def
      split_show_version short_digits_show_nat)

end
