(* ===== verification/Readiness.thy ===== *)
theory Readiness
  imports Semver
begin

text \<open>
  The device state and its readiness for remote control: \<open>packages/shared/src/types.ts\<close> and
  \<open>readiness.ts\<close>. The string unions of the source are datatypes; \<open>projectMedia\<close> and \<open>knox\<close> come
  from devices and from the database through unchecked casts, so each has a last constructor
  for a string outside its union.
\<close>

section \<open>Types\<close>

datatype tier = OFFLINE | NOT_READY | DEGRADED | READY

fun tier_string :: "tier \<Rightarrow> string" where
  "tier_string READY = ''READY''"
| "tier_string DEGRADED = ''DEGRADED''"
| "tier_string NOT_READY = ''NOT_READY''"
| "tier_string OFFLINE = ''OFFLINE''"

datatype knox_state = Licensed | Unlicensed | Unsupported | OtherKnox string

datatype project_media = Allow | Default | Blocked | OtherMedia string

datatype blocker_code =
  NO_CAPTURE_PATH | NO_INPUT_PATH | NO_BG_ACTIVITY_START | AGENT_OUTDATED | NEEDS_REPROVISIONING

datatype blocker_fix = Reprovision | Selfheal | Update

record blocker =
  code :: blocker_code
  fix_with :: blocker_fix

record encoder_info =
  enc_name :: string
  enc_hw :: bool

record caps =
  projectMedia :: project_media
  a11y :: bool
  knox :: knox_state
  overlay :: bool
  secureSettings :: bool
  encoder :: "encoder_info option"

record volatile =
  screenOn :: bool
  charging :: bool
  batteryPct :: jsnum
  net :: string
  rssi :: jsnum

record device_state =
  ds_online :: bool
  ds_agentVer :: string
  ds_caps :: caps
  ds_volatile :: volatile
  ds_needsReprovisioning :: bool

datatype warn = NEEDS_AUTOCLICK | SCREEN_OFF | GESTURE_INPUT_ONLY | LOW_BATTERY | WEAK_SIGNAL

record readiness =
  r_tier :: tier
  r_blockers :: "blocker list option"
  r_warns :: "warn list option"

definition MIN_AGENT_VER :: string where
  "MIN_AGENT_VER = ''1.2.0''"

section \<open>Readiness\<close>

definition push_if :: "bool \<Rightarrow> 'a \<Rightarrow> 'a list \<Rightarrow> 'a list" where
  "push_if b x xs = (if b then xs @ [x] else xs)"

definition blockers_of :: "device_state \<Rightarrow> blocker list" where
  "blockers_of d =
     (let c = ds_caps d;
          bs = push_if (projectMedia c \<noteq> Allow \<and> \<not> a11y c)
                 \<lparr>code = NO_CAPTURE_PATH, fix_with = Reprovision\<rparr> [];
          bs = push_if (knox c \<noteq> Licensed \<and> \<not> a11y c)
                 \<lparr>code = NO_INPUT_PATH, fix_with = Selfheal\<rparr> bs;
          bs = push_if (projectMedia c \<noteq> Allow \<and> \<not> overlay c \<and> \<not> a11y c)
                 \<lparr>code = NO_BG_ACTIVITY_START, fix_with = Reprovision\<rparr> bs;
          bs = push_if (semverLt (ds_agentVer d) MIN_AGENT_VER)
                 \<lparr>code = AGENT_OUTDATED, fix_with = Update\<rparr> bs
      in push_if (ds_needsReprovisioning d)
           \<lparr>code = NEEDS_REPROVISIONING, fix_with = Reprovision\<rparr> bs)"

definition warns_of :: "device_state \<Rightarrow> warn list" where
  "warns_of d =
     (let c = ds_caps d; v = ds_volatile d;
          ws = push_if (projectMedia c \<noteq> Allow) NEEDS_AUTOCLICK [];
          ws = push_if (\<not> screenOn v) SCREEN_OFF ws;
          ws = push_if (knox c \<noteq> Licensed) GESTURE_INPUT_ONLY ws;
          ws = push_if (\<not> charging v \<and> num_lt (batteryPct v) (Fin 20)) LOW_BATTERY ws
      in push_if (net v = ''cellular'' \<and> num_lt (rssi v) (Fin (-100))) WEAK_SIGNAL ws)"

definition computeReadiness :: "device_state \<Rightarrow> readiness" where
  "computeReadiness d =
     (if \<not> ds_online d then \<lparr>r_tier = OFFLINE, r_blockers = None, r_warns = None\<rparr>
      else let bs = blockers_of d in
        if bs \<noteq> [] then \<lparr>r_tier = NOT_READY, r_blockers = Some bs, r_warns = None\<rparr>
        else let ws = warns_of d in
          if ws \<noteq> [] then \<lparr>r_tier = DEGRADED, r_blockers = None, r_warns = Some ws\<rparr>
          else \<lparr>r_tier = READY, r_blockers = None, r_warns = None\<rparr>)"

section \<open>Facts\<close>

lemma push_if_nil [simp]: "push_if b x xs = [] \<longleftrightarrow> \<not> b \<and> xs = []"
  by (simp add: push_if_def)

lemma set_push_if [simp]: "set (push_if b x xs) = (if b then insert x (set xs) else set xs)"
  by (simp add: push_if_def)

lemma blockers_nil_iff:
  "blockers_of d = [] \<longleftrightarrow>
     (projectMedia (ds_caps d) = Allow \<or> a11y (ds_caps d)) \<and>
     (knox (ds_caps d) = Licensed \<or> a11y (ds_caps d)) \<and>
     \<not> semverLt (ds_agentVer d) MIN_AGENT_VER \<and> \<not> ds_needsReprovisioning d"
  by (auto simp: blockers_of_def Let_def)

lemma warns_nil_iff:
  "warns_of d = [] \<longleftrightarrow>
     projectMedia (ds_caps d) = Allow \<and> screenOn (ds_volatile d) \<and> knox (ds_caps d) = Licensed \<and>
     (charging (ds_volatile d) \<or> \<not> num_lt (batteryPct (ds_volatile d)) (Fin 20)) \<and>
     (net (ds_volatile d) \<noteq> ''cellular'' \<or> \<not> num_lt (rssi (ds_volatile d)) (Fin (-100)))"
  by (auto simp: warns_of_def Let_def)

lemma tier_cases:
  "r_tier (computeReadiness d) =
     (if \<not> ds_online d then OFFLINE else if blockers_of d \<noteq> [] then NOT_READY
      else if warns_of d \<noteq> [] then DEGRADED else READY)"
  by (simp add: computeReadiness_def Let_def)

lemma tier_OFFLINE_iff: "r_tier (computeReadiness d) = OFFLINE \<longleftrightarrow> \<not> ds_online d"
  by (simp add: tier_cases)

lemma tier_NOT_READY_iff: "r_tier (computeReadiness d) = NOT_READY \<longleftrightarrow> ds_online d \<and> blockers_of d \<noteq> []"
  by (simp add: tier_cases)

text \<open>The order of the tiers, from useless to fully usable.\<close>

instantiation tier :: linorder
begin

fun tier_rank :: "tier \<Rightarrow> nat" where
  "tier_rank OFFLINE = 0" | "tier_rank NOT_READY = 1" | "tier_rank DEGRADED = 2" | "tier_rank READY = 3"

definition less_eq_tier :: "tier \<Rightarrow> tier \<Rightarrow> bool" where
  "less_eq_tier s t = (tier_rank s \<le> tier_rank t)"

definition less_tier :: "tier \<Rightarrow> tier \<Rightarrow> bool" where
  "less_tier s t = (tier_rank s < tier_rank t)"

instance
proof
  fix s t :: tier
  show "s \<le> t \<Longrightarrow> t \<le> s \<Longrightarrow> s = t" by (cases s; cases t) (auto simp: less_eq_tier_def)
qed (auto simp: less_eq_tier_def less_tier_def)

end

text \<open>
  At least as capable: every permission granted before is granted now, the agent is not older,
  the device is not newly offline, and the volatile conditions are no worse.
\<close>

definition caps_ge :: "caps \<Rightarrow> caps \<Rightarrow> bool" where
  "caps_ge c' c = ((projectMedia c = Allow \<longrightarrow> projectMedia c' = Allow) \<and> (a11y c \<longrightarrow> a11y c') \<and>
     (knox c = Licensed \<longrightarrow> knox c' = Licensed) \<and> (overlay c \<longrightarrow> overlay c'))"

definition volatile_ge :: "volatile \<Rightarrow> volatile \<Rightarrow> bool" where
  "volatile_ge v' v = ((screenOn v \<longrightarrow> screenOn v') \<and>
     (\<not> charging v' \<and> num_lt (batteryPct v') (Fin 20) \<longrightarrow> \<not> charging v \<and> num_lt (batteryPct v) (Fin 20)) \<and>
     (net v' = ''cellular'' \<and> num_lt (rssi v') (Fin (-100)) \<longrightarrow> net v = ''cellular'' \<and> num_lt (rssi v) (Fin (-100))))"

definition state_ge :: "device_state \<Rightarrow> device_state \<Rightarrow> bool" where
  "state_ge d' d = ((ds_online d \<longrightarrow> ds_online d') \<and> \<not> semverLt (ds_agentVer d') (ds_agentVer d) \<and>
     caps_ge (ds_caps d') (ds_caps d) \<and> volatile_ge (ds_volatile d') (ds_volatile d) \<and>
     (ds_needsReprovisioning d' \<longrightarrow> ds_needsReprovisioning d))"

lemma blockers_mono: "state_ge d' d \<Longrightarrow> blockers_of d = [] \<Longrightarrow> blockers_of d' = []"
  using semver.not_lt_trans[of "ds_agentVer d'" "ds_agentVer d" MIN_AGENT_VER]
  by (auto simp: state_ge_def caps_ge_def blockers_nil_iff)

lemma warns_mono: "state_ge d' d \<Longrightarrow> warns_of d = [] \<Longrightarrow> warns_of d' = []"
  unfolding state_ge_def caps_ge_def volatile_ge_def warns_nil_iff by blast

lemma tier_mono: "state_ge d' d \<Longrightarrow> r_tier (computeReadiness d) \<le> r_tier (computeReadiness d')"
  using blockers_mono[of d' d] warns_mono[of d' d]
  by (auto simp: tier_cases less_eq_tier_def state_ge_def)

section \<open>Properties\<close>

text \<open>
  What the tiers mean: a device is OFFLINE exactly when it is not online; READY exactly when it
  can be captured and controlled without help (capture granted, Knox licensed, screen on, a recent
  agent, no reprovisioning pending, battery and signal good); NOT_READY comes with blockers and
  without warnings, DEGRADED with warnings and without blockers.
\<close>

theorem readiness_tiers:
  "(r_tier (computeReadiness d) = OFFLINE \<longleftrightarrow> \<not> ds_online d) \<and>
   (r_tier (computeReadiness d) = READY \<longleftrightarrow> ds_online d \<and> projectMedia (ds_caps d) = Allow \<and> knox (ds_caps d) = Licensed \<and>
      \<not> semverLt (ds_agentVer d) MIN_AGENT_VER \<and> \<not> ds_needsReprovisioning d \<and> screenOn (ds_volatile d) \<and>
      \<not> (\<not> charging (ds_volatile d) \<and> num_lt (batteryPct (ds_volatile d)) (Fin 20)) \<and>
      \<not> (net (ds_volatile d) = ''cellular'' \<and> num_lt (rssi (ds_volatile d)) (Fin (-100)))) \<and>
   (r_tier (computeReadiness d) = NOT_READY \<longleftrightarrow> r_blockers (computeReadiness d) \<notin> {None, Some []}) \<and>
   (r_tier (computeReadiness d) = DEGRADED \<longleftrightarrow> r_warns (computeReadiness d) \<notin> {None, Some []}) \<and>
   (r_blockers (computeReadiness d) = None \<or> r_warns (computeReadiness d) = None)"
proof -
  let ?r = "computeReadiness d"
  have "r_tier ?r = OFFLINE \<longleftrightarrow> \<not> ds_online d" by (rule tier_OFFLINE_iff)
  moreover have "r_tier ?r = READY \<longleftrightarrow> ds_online d \<and> blockers_of d = [] \<and> warns_of d = []"
    by (simp add: tier_cases)
  moreover have "r_tier ?r = NOT_READY \<longleftrightarrow> r_blockers ?r \<notin> {None, Some []}"
    "r_tier ?r = DEGRADED \<longleftrightarrow> r_warns ?r \<notin> {None, Some []}" "r_blockers ?r = None \<or> r_warns ?r = None"
    by (simp_all add: computeReadiness_def Let_def)
  ultimately show ?thesis unfolding blockers_nil_iff warns_nil_iff by blast
qed

text \<open>
  C28 The tier is monotone: a device that has every permission it had, an agent that is not older,
  is still online, and whose screen, battery and signal are no worse is never in a lower tier.
\<close>

theorem readiness_monotone:
  "state_ge d' d \<Longrightarrow> r_tier (computeReadiness d) \<le> r_tier (computeReadiness d')"
  by (rule tier_mono)

definition demo_state :: "bool \<Rightarrow> device_state" where
  "demo_state a = \<lparr>ds_online = True, ds_agentVer = ''1.4.8'',
     ds_caps = \<lparr>projectMedia = Default, a11y = a, knox = Licensed, overlay = False, secureSettings = True, encoder = None\<rparr>,
     ds_volatile = \<lparr>screenOn = True, charging = True, batteryPct = Fin 50, net = ''wifi'', rssi = Fin 0\<rparr>,
     ds_needsReprovisioning = False\<rparr>"

theorem readiness_monotone_witness:
  "r_tier (computeReadiness (demo_state False)) \<le> r_tier (computeReadiness (demo_state True)) \<and>
   r_tier (computeReadiness (demo_state False)) = NOT_READY \<and> r_tier (computeReadiness (demo_state True)) = DEGRADED"
proof -
  have "state_ge (demo_state True) (demo_state False)"
    by (simp add: state_ge_def caps_ge_def volatile_ge_def demo_state_def semver.lt_irrefl)
  from readiness_monotone[OF this] show ?thesis by code_simp
qed

end
