(* ===== verification/Devices.thy ===== *)
theory Devices
  imports World Readiness Hw
begin

text \<open>
  \<open>apps/rc-api/src/devices/devices.service.ts\<close>: who may act on a device, what the API reports of
  it, the probe that asks whether it is reachable, and its removal.
\<close>

section \<open>Group access\<close>

definition operator_is :: "db \<Rightarrow> int \<Rightarrow> (operator_row \<Rightarrow> bool) \<Rightarrow> bool" where
  "operator_is d op P = (case map_of (tb_operators d) op of None \<Rightarrow> False | Some r \<Rightarrow> P r)"

definition sees_all :: "operator_row \<Rightarrow> bool" where
  "sees_all r = (op_role r \<in> {''admin'', ''mdm_user''} \<and> op_active r)"

text \<open>The two branches of the \<open>UNION\<close>: a group the operator may enter, or a role that sees all devices.\<close>

definition has_group :: "db \<Rightarrow> int \<Rightarrow> string \<Rightarrow> bool" where
  "has_group d op dev = (case map_of (tb_devices d) dev of None \<Rightarrow> False
     | Some r \<Rightarrow> (case dv_groupId r of None \<Rightarrow> False | Some g \<Rightarrow> (op, g) \<in> set (tb_access d)))"

definition has_access :: "db \<Rightarrow> int \<Rightarrow> string \<Rightarrow> bool" where
  "has_access d op dev = (has_group d op dev \<and> operator_is d op op_active \<or> operator_is d op sees_all)"

definition assertGroupAccess :: "int \<Rightarrow> string \<Rightarrow> ('r, unit) handler" where
  "assertGroupAccess op dev = bindE (pg_read (\<lambda>d. has_access d op dev))
     (\<lambda>ok. if ok then ret () else raise (Forbidden ''NO_GROUP_ACCESS''))"

section \<open>The state of a device\<close>

text \<open>A device joined with its group and its capabilities.\<close>

record joined_row =
  jr_deviceId :: string
  jr_dev :: device_row
  jr_groupName :: "string option"
  jr_caps :: "caps_row option"

definition join_row :: "db \<Rightarrow> string \<times> device_row \<Rightarrow> joined_row" where
  "join_row d p = \<lparr>jr_deviceId = fst p, jr_dev = snd p,
     jr_groupName = (case dv_groupId (snd p) of None \<Rightarrow> None | Some g \<Rightarrow> map_of (tb_groups d) g),
     jr_caps = map_of (tb_caps d) (fst p)\<rparr>"

definition find_joined :: "db \<Rightarrow> string \<Rightarrow> joined_row option" where
  "find_joined d dev = map_option (\<lambda>r. join_row d (dev, r)) (map_of (tb_devices d) dev)"

definition emptyRow :: "string \<Rightarrow> joined_row" where
  "emptyRow dev = \<lparr>jr_deviceId = dev,
     jr_dev = \<lparr>dv_hmdmId = None, dv_androidId = None, dv_model = None, dv_osVersion = None, dv_groupId = None,
       dv_label = None, dv_firstSeen = 0, dv_lastSeen = None, dv_syncedAt = None, dv_stale = False,
       dv_needsReprovisioning = False\<rparr>,
     jr_groupName = None, jr_caps = None\<rparr>"

definition media_of :: "string \<Rightarrow> project_media" where
  "media_of s = (if s = ''allow'' then Allow else if s = ''default'' then Default
     else if s = ''blocked'' then Blocked else OtherMedia s)"

definition knox_of :: "string \<Rightarrow> knox_state" where
  "knox_of s = (if s = ''licensed'' then Licensed else if s = ''unlicensed'' then Unlicensed
     else if s = ''unsupported'' then Unsupported else OtherKnox s)"

definition encoder_of :: "caps_row \<Rightarrow> encoder_info option" where
  "encoder_of c = (case cp_encoderName c of None \<Rightarrow> None
     | Some n \<Rightarrow> if n = [] then None else Some \<lparr>enc_name = n, enc_hw = (cp_encoderHw c = Some True)\<rparr>)"

definition row_caps :: "caps_row option \<Rightarrow> caps" where
  "row_caps co = (case co of
      None \<Rightarrow> \<lparr>projectMedia = Blocked, a11y = False, knox = Unsupported, overlay = False, secureSettings = False, encoder = None\<rparr>
    | Some c \<Rightarrow> \<lparr>projectMedia = media_of (cp_projectMedia c), a11y = cp_a11y c, knox = knox_of (cp_knox c),
        overlay = cp_overlay c, secureSettings = cp_secureSettings c, encoder = encoder_of c\<rparr>)"

text \<open>A flag of the live hash: \<open>=== '1' || === 'true'\<close>.\<close>

definition hash_flag :: "(string \<Rightarrow> string option) \<Rightarrow> string \<Rightarrow> bool" where
  "hash_flag hash k = (hash k = Some ''1'' \<or> hash k = Some ''true'')"

definition hash_number :: "(string \<Rightarrow> string option) \<Rightarrow> string \<Rightarrow> jsnum" where
  "hash_number hash k = (case hash k of None \<Rightarrow> Fin 0 | Some s \<Rightarrow> to_number_str s)"

definition toDeviceState :: "joined_row \<Rightarrow> (string \<Rightarrow> string option) \<Rightarrow> device_state" where
  "toDeviceState row hash = \<lparr>
     ds_online = hash_flag hash ''online'',
     ds_agentVer = (case jr_caps row of None \<Rightarrow> ''0.0.0'' | Some c \<Rightarrow> cp_agentVer c),
     ds_caps = row_caps (jr_caps row),
     ds_volatile = \<lparr>screenOn = hash_flag hash ''screenOn'', charging = hash_flag hash ''charging'',
       batteryPct = hash_number hash ''batteryPct'',
       net = (case hash ''net'' of None \<Rightarrow> ''unknown'' | Some s \<Rightarrow> s),
       rssi = hash_number hash ''rssi''\<rparr>,
     ds_needsReprovisioning = dv_needsReprovisioning (jr_dev row)\<rparr>"

definition getState :: "'r redis_exec \<Rightarrow> string \<Rightarrow> ('r, device_state) handler" where
  "getState ex dev = bindE (pg_read (\<lambda>d. find_joined d dev))
     (\<lambda>row. bindE (redis_hgetall ex (key_string (KDevice dev)))
       (\<lambda>hash. ret (toDeviceState (case row of None \<Rightarrow> emptyRow dev | Some r \<Rightarrow> r) hash)))"

section \<open>Listing\<close>

record device_dto =
  dt_deviceId :: string
  dt_label :: "string option"
  dt_model :: "string option"
  dt_group :: "string option"
  dt_lastSeen :: "int option"
  dt_needsReprovisioning :: bool
  dt_stale :: bool
  dt_readiness :: readiness
  dt_volatile :: volatile
  dt_hw :: "hw_volatile option"
  dt_caps :: caps
  dt_agentVer :: string
  dt_online :: bool

definition toDto :: "joined_row \<Rightarrow> device_state \<Rightarrow> readiness \<Rightarrow> (string \<Rightarrow> string option) \<Rightarrow> device_dto" where
  "toDto row state rd hash = \<lparr>dt_deviceId = jr_deviceId row, dt_label = dv_label (jr_dev row),
     dt_model = dv_model (jr_dev row), dt_group = jr_groupName row, dt_lastSeen = dv_lastSeen (jr_dev row),
     dt_needsReprovisioning = dv_needsReprovisioning (jr_dev row), dt_stale = dv_stale (jr_dev row),
     dt_readiness = rd, dt_volatile = ds_volatile state, dt_hw = hwFromHash hash,
     dt_caps = ds_caps state, dt_agentVer = ds_agentVer state, dt_online = ds_online state\<rparr>"

text \<open>SQL \<open>LIKE\<close>: \<open>%\<close> any text, \<open>_\<close> any character, a backslash quotes; \<open>ILIKE\<close> ignores case.\<close>

fun like :: "string \<Rightarrow> string \<Rightarrow> bool" where
  "like [] s = (s = [])"
| "like (p # ps) s =
     (if p = CHR ''%'' then like ps s \<or> (case s of [] \<Rightarrow> False | _ # cs \<Rightarrow> like (p # ps) cs)
      else case s of [] \<Rightarrow> False
        | c # cs \<Rightarrow> (if p = CHR 0x5C \<and> ps \<noteq> [] then hd ps = c \<and> like (tl ps) cs
                    else (p = CHR ''_'' \<or> p = c) \<and> like ps cs))"

definition lower :: "char \<Rightarrow> char" where
  "lower c = (if CHR ''A'' \<le> c \<and> c \<le> CHR ''Z'' then char_of (of_char c + 32 :: nat) else c)"

definition ilike :: "string \<Rightarrow> string \<Rightarrow> bool" where
  "ilike s p = like (map lower p) (map lower s)"

text \<open>\<open>ORDER BY d.stale ASC, d.last_seen DESC NULLS LAST\<close>; rows that compare equal keep the table's order.\<close>

definition device_cmp :: "joined_row \<Rightarrow> joined_row \<Rightarrow> int" where
  "device_cmp a b =
     (if dv_stale (jr_dev a) \<noteq> dv_stale (jr_dev b) then (if dv_stale (jr_dev b) then -1 else 1)
      else case (dv_lastSeen (jr_dev a), dv_lastSeen (jr_dev b)) of
          (None, None) \<Rightarrow> 0 | (None, Some _) \<Rightarrow> 1 | (Some _, None) \<Rightarrow> -1
        | (Some x, Some y) \<Rightarrow> sgn (y - x))"

record list_params =
  lp_group :: "string option"
  lp_tier :: "string option"
  lp_q :: "string option"
  lp_page :: "int option"
  lp_stale :: "bool option"

definition may_list :: "db \<Rightarrow> int \<Rightarrow> device_row \<Rightarrow> bool" where
  "may_list d op r = ((case dv_groupId r of None \<Rightarrow> False | Some g \<Rightarrow> (op, g) \<in> set (tb_access d)) \<or>
     operator_is d op sees_all)"

definition list_filter :: "db \<Rightarrow> int \<Rightarrow> list_params \<Rightarrow> joined_row \<Rightarrow> bool" where
  "list_filter d op q r =
     ((case lp_stale q of None \<Rightarrow> True | Some s \<Rightarrow> dv_stale (jr_dev r) = s) \<and>
      may_list d op (jr_dev r) \<and>
      (case lp_group q of None \<Rightarrow> True | Some g \<Rightarrow> jr_groupName r = Some g) \<and>
      (case lp_q q of None \<Rightarrow> True | Some t \<Rightarrow> ilike (jr_deviceId r) (''%'' @ t @ ''%'') \<or>
         ilike (case dv_label (jr_dev r) of None \<Rightarrow> [] | Some l \<Rightarrow> l) (''%'' @ t @ ''%'')))"

definition page_size :: nat where "page_size = 50"

definition page_offset :: "list_params \<Rightarrow> nat" where
  "page_offset q = nat (max 1 (case lp_page q of None \<Rightarrow> 1 | Some p \<Rightarrow> p) - 1) * page_size"

definition list_rows :: "db \<Rightarrow> int \<Rightarrow> list_params \<Rightarrow> joined_row list" where
  "list_rows d op q = take page_size (drop (page_offset q)
     (sort_by device_cmp (filter (list_filter d op q) (map (join_row d) (tb_devices d)))))"

definition reply_hash :: "reply option \<Rightarrow> string \<Rightarrow> string option" where
  "reply_hash rep = (case rep of Some (RMap h) \<Rightarrow> map_of h | _ \<Rightarrow> Map.empty)"

definition list_item :: "joined_row \<Rightarrow> reply option \<Rightarrow> device_dto" where
  "list_item row rep = (let hash = reply_hash rep; state = toDeviceState row hash
     in toDto row state (computeReadiness state) hash)"

definition list_devices :: "'r redis_exec \<Rightarrow> list_params \<Rightarrow> int \<Rightarrow> ('r, device_dto list) handler" where
  "list_devices ex q op = bindE (pg_read (\<lambda>d. list_rows d op q))
     (\<lambda>rows. bindE (pipe ex (map (\<lambda>r. HGetAll (key_string (KDevice (jr_deviceId r)))) rows))
       (\<lambda>live. let items = map2 list_item rows live in
         ret (case lp_tier q of None \<Rightarrow> items
           | Some t \<Rightarrow> if t = [] then items else filter (\<lambda>i. tier_string (r_tier (dt_readiness i)) = t) items)))"

definition get_device :: "'r redis_exec \<Rightarrow> string \<Rightarrow> int \<Rightarrow> ('r, device_dto) handler" where
  "get_device ex dev op =
     thenE (assertGroupAccess op dev)
      (bindE (pg_read (\<lambda>d. find_joined d dev))
        (\<lambda>row. case row of
            None \<Rightarrow> raise NotFound
          | Some r \<Rightarrow> bindE (redis_hgetall ex (key_string (KDevice dev)))
              (\<lambda>hash. let state = toDeviceState r hash in ret (toDto r state (computeReadiness state) hash))))"

section \<open>Commands to a device\<close>

definition cmd_msg :: "string \<Rightarrow> (string \<times> json) list \<Rightarrow> json" where
  "cmd_msg t fs = JObj ((''type'', JStr t) # fs)"

text \<open>\<open>Math.ceil(timeoutMs / 1000)\<close> for a whole number of milliseconds.\<close>

definition ceil_sec :: "nat \<Rightarrow> int" where
  "ceil_sec ms = int ((ms + 999) div 1000)"

definition probe :: "'r redis_exec \<Rightarrow> string \<Rightarrow> nat \<Rightarrow> ('r, bool) handler" where
  "probe ex dev timeoutMs =
     (let waitKey = key_string (KProbeWait dev) in
      thenE (redis_do ex (Del [waitKey]))
       (thenE (publish (topic_cmd dev) (cmd_msg ''probe'' []))
         (bindE (redis_brpop ex waitKey (ceil_sec timeoutMs)) (\<lambda>r. ret (r \<noteq> None)))))"

definition selfheal :: "string \<Rightarrow> int \<Rightarrow> ('r, unit) handler" where
  "selfheal dev op = thenE (assertGroupAccess op dev) (publish (topic_cmd dev) (cmd_msg ''selfheal'' []))"

section \<open>Removal\<close>

definition delete_where :: "('a \<Rightarrow> bool) \<Rightarrow> 'a list \<Rightarrow> 'a list" where
  "delete_where P xs = filter (\<lambda>x. \<not> P x) xs"

text \<open>Deleting a device fails while a session refers to it; its capabilities go with it.\<close>

definition sql_delete_device :: "string \<Rightarrow> db \<Rightarrow> (unit \<times> db) option" where
  "sql_delete_device dev d =
     (if \<exists>p \<in> set (tb_sessions d). ss_deviceId (snd p) = dev then None
      else Some ((), d\<lparr>tb_devices := delete_where (\<lambda>p. fst p = dev) (tb_devices d),
                      tb_caps := delete_where (\<lambda>p. fst p = dev) (tb_caps d)\<rparr>))"

definition remove_tables :: "string \<Rightarrow> ('r, unit) handler" where
  "remove_tables dev =
     thenE (pg_write (\<lambda>d. d\<lparr>tb_capEvents := delete_where (\<lambda>e. ev_deviceId e = dev) (tb_capEvents d)\<rparr>))
    (thenE (pg_write (\<lambda>d. d\<lparr>tb_hwSamples := delete_where (\<lambda>e. hs_deviceId e = dev) (tb_hwSamples d)\<rparr>))
    (thenE (pg_write (\<lambda>d. d\<lparr>tb_hwEvents := delete_where (\<lambda>e. he_deviceId e = dev) (tb_hwEvents d)\<rparr>))
    (thenE (pg_write (\<lambda>d. d\<lparr>tb_connEvents := delete_where (\<lambda>e. ce_deviceId e = dev) (tb_connEvents d)\<rparr>))
    (thenE (pg_write (\<lambda>d. d\<lparr>tb_sessions := delete_where (\<lambda>p. ss_deviceId (snd p) = dev) (tb_sessions d)\<rparr>))
    (pg (sql_delete_device dev))))))"

definition remove_keys :: "string \<Rightarrow> string option \<Rightarrow> string list" where
  "remove_keys dev sid = map key_string ([KDevice dev, KDeviceCaps dev, KActiveSession dev, KProbeWait dev] @
     (case sid of None \<Rightarrow> [] | Some s \<Rightarrow> if s = [] then [] else [KSession s]))"

definition remove_device :: "'r redis_exec \<Rightarrow> string \<Rightarrow> int \<Rightarrow> ('r, unit) handler" where
  "remove_device ex dev op =
     bindE (pg_read (\<lambda>d. map_of (tb_devices d) dev \<noteq> None))
      (\<lambda>found. if \<not> found then raise NotFound else
        thenE (assertGroupAccess op dev)
         (bindE (redis_get ex (key_string (KActiveSession dev)))
           (\<lambda>sid. thenE
             (whenE (case sid of None \<Rightarrow> False | Some s \<Rightarrow> s \<noteq> [])
               (publish (topic_cmd dev) (cmd_msg ''session.stop'' [(''sessionId'', JStr (the sid))])))
             (thenE (redis_do ex (Del (remove_keys dev sid))) (remove_tables dev)))))"

section \<open>Contracts\<close>

lemma wp_access:
  assumes "\<And>fs. E PgError (w\<lparr>w_pgFaults := fs\<rparr>)"
    and "\<And>fs. \<not> has_access (w_db w) op dev \<Longrightarrow> E (Forbidden ''NO_GROUP_ACCESS'') (w\<lparr>w_pgFaults := fs\<rparr>)"
    and "\<And>fs. has_access (w_db w) op dev \<Longrightarrow> Q () (w\<lparr>w_pgFaults := fs\<rparr>)"
  shows "wp (assertGroupAccess op dev) Q E w"
  unfolding assertGroupAccess_def wp_simps by (rule wp_pg_read) (simp_all add: assms)

definition device_state_of :: "db \<Rightarrow> store \<Rightarrow> string \<Rightarrow> device_state" where
  "device_state_of d st dev =
     toDeviceState (case find_joined d dev of None \<Rightarrow> emptyRow dev | Some r \<Rightarrow> r)
       (case hash_at st (key_string (KDevice dev)) of None \<Rightarrow> Map.empty | Some h \<Rightarrow> map_of h)"

definition removed :: "string \<Rightarrow> db \<Rightarrow> db" where
  "removed dev d = d\<lparr>tb_capEvents := delete_where (\<lambda>e. ev_deviceId e = dev) (tb_capEvents d),
     tb_hwSamples := delete_where (\<lambda>e. hs_deviceId e = dev) (tb_hwSamples d),
     tb_hwEvents := delete_where (\<lambda>e. he_deviceId e = dev) (tb_hwEvents d),
     tb_connEvents := delete_where (\<lambda>e. ce_deviceId e = dev) (tb_connEvents d),
     tb_sessions := delete_where (\<lambda>p. ss_deviceId (snd p) = dev) (tb_sessions d),
     tb_devices := delete_where (\<lambda>p. fst p = dev) (tb_devices d),
     tb_caps := delete_where (\<lambda>p. fst p = dev) (tb_caps d)\<rparr>"

lemma wp_remove_tables:
  assumes "\<And>w'. w_redis w' = w_redis w \<Longrightarrow> w_mqtt w' = w_mqtt w \<Longrightarrow> E PgError w'"
    and "\<And>w'. w_redis w' = w_redis w \<Longrightarrow> w_mqtt w' = w_mqtt w \<Longrightarrow> w_db w' = removed dev (w_db w) \<Longrightarrow> Q () w'"
  shows "wp (remove_tables dev) Q E w"
  unfolding remove_tables_def wp_simps
  by (intro wp_pg_write wp_pg)
    (auto simp: sql_delete_device_def delete_where_def removed_def intro!: assms split: if_splits)

text \<open>The session that holds the device, as \<open>GET\<close> would return it.\<close>

definition lock_of :: "store \<Rightarrow> string \<Rightarrow> string option" where
  "lock_of st dev = (case st (key_string (KActiveSession dev)) of Some (RStr s, _) \<Rightarrow> Some s | _ \<Rightarrow> None)"

context redis_service
begin

lemma wp_getState:
  assumes "\<And>w' e. w_db w' = w_db w \<Longrightarrow> peek (w_redis w') = peek (w_redis w) \<Longrightarrow> w_mqtt w' = w_mqtt w \<Longrightarrow>
      e = PgError \<or> e = RedisError \<Longrightarrow> E e w'"
    and "\<And>w'. w_db w' = w_db w \<Longrightarrow> peek (w_redis w') = peek (w_redis w) \<Longrightarrow> w_mqtt w' = w_mqtt w \<Longrightarrow>
      Q (device_state_of (w_db w) (peek (w_redis w)) dev) w'"
  shows "wp (getState ex dev) Q E w"
  unfolding getState_def wp_simps
proof (rule wp_pg_read)
  fix fs
  show "wp (redis_hgetall ex (key_string (KDevice dev)))
      (\<lambda>hash. Q (toDeviceState (case find_joined (w_db w) dev of None \<Rightarrow> emptyRow dev | Some r \<Rightarrow> r) hash)) E
      (w\<lparr>w_pgFaults := fs\<rparr>)"
  proof (rule wp_hgetall)
    fix r h assume "hash_at (peek (w_redis (w\<lparr>w_pgFaults := fs\<rparr>))) (key_string (KDevice dev)) = Some h"
      and "peek r = peek (w_redis (w\<lparr>w_pgFaults := fs\<rparr>))"
    then show "Q (toDeviceState (case find_joined (w_db w) dev of None \<Rightarrow> emptyRow dev | Some r \<Rightarrow> r) (map_of h))
        (w\<lparr>w_pgFaults := fs, w_redis := r\<rparr>)"
      using assms(2)[of "w\<lparr>w_pgFaults := fs, w_redis := r\<rparr>"] by (simp add: device_state_of_def)
  qed (simp add: assms(1))
qed (simp add: assms(1))

lemma wp_probe:
  assumes "\<And>w' e. infra_error e \<Longrightarrow> w_db w' = w_db w \<Longrightarrow> (\<And>k. k \<noteq> key_string (KProbeWait dev) \<Longrightarrow> peek (w_redis w') k = peek (w_redis w) k) \<Longrightarrow>
      E e w'"
    and "\<And>w' ok. w_db w' = w_db w \<Longrightarrow> (\<And>k. k \<noteq> key_string (KProbeWait dev) \<Longrightarrow> peek (w_redis w') k = peek (w_redis w) k) \<Longrightarrow>
      w_mqtt w' = w_mqtt w @ [(topic_cmd dev, cmd_msg ''probe'' [])] \<Longrightarrow> Q ok w'"
  shows "wp (probe ex dev ms) Q E w"
  unfolding probe_def Let_def wp_simps
  by (intro wp_del wp_publish wp_brpop) (auto intro!: assms)

lemma wp_remove:
  assumes err: "\<And>w' e. (e = NotFound \<or> e = Forbidden ''NO_GROUP_ACCESS'' \<or> \<not> has_access (w_db w) op dev \<longrightarrow>
        w_db w' = w_db w \<and> peek (w_redis w') = peek (w_redis w) \<and> w_mqtt w' = w_mqtt w) \<Longrightarrow> E e w'"
    and ok: "\<And>w' sid. map_of (tb_devices (w_db w)) dev \<noteq> None \<Longrightarrow> has_access (w_db w) op dev \<Longrightarrow>
        sid = lock_of (peek (w_redis w)) dev \<Longrightarrow>
        w_db w' = removed dev (w_db w) \<Longrightarrow>
        peek (w_redis w') = (\<lambda>k. if k \<in> set (remove_keys dev sid) then None else peek (w_redis w) k) \<Longrightarrow>
        w_mqtt w' = w_mqtt w @ (case sid of None \<Rightarrow> [] | Some s \<Rightarrow> if s = [] then [] else
          [(topic_cmd dev, cmd_msg ''session.stop'' [(''sessionId'', JStr s)])]) \<Longrightarrow> Q () w'"
  shows "wp (remove_device ex dev op) Q E w"
  unfolding remove_device_def wp_simps
  apply (rule wp_pg_read)
   apply (simp add: err)
  apply (simp add: wp_simps err)
  apply (intro impI wp_access)
    apply (simp_all add: err)
  apply (rule wp_get)
    apply (simp_all add: err)
   apply (rule wp_del)
    apply (simp add: err)
   apply (rule wp_remove_tables)
    apply (simp add: err)
   apply (rule ok[OF _ _ refl]; simp add: lock_of_def fun_eq_iff)
  apply (intro conjI impI wp_publish wp_del wp_remove_tables)
       apply (simp_all add: err)
   apply (rule ok[OF _ _ refl]; simp add: lock_of_def fun_eq_iff)
  apply (rule ok[OF _ _ refl]; simp add: lock_of_def fun_eq_iff)
  done

end

section \<open>Ordering and paging\<close>

interpretation device_order: comparator device_cmp
proof
  fix x y z :: joined_row
  show "sgn (device_cmp x y) = - sgn (device_cmp y x)"
    by (auto simp: device_cmp_def sgn_if split: option.splits)
  show "device_cmp x y \<le> 0 \<Longrightarrow> device_cmp y z \<le> 0 \<Longrightarrow> device_cmp x z \<le> 0"
    by (auto simp: device_cmp_def sgn_if split: option.splits if_splits)
qed

lemma pages_concat:
  assumes "0 < n"
  shows "concat (map (\<lambda>p. take n (drop (p * n) xs)) [0..<m]) = take (m * n) xs"
proof (induction m)
  case (Suc m)
  have "take (m * n) xs @ take n (drop (m * n) xs) = take (m * n + n) xs"
    by (rule take_add[symmetric])
  with Suc show ?case by (simp add: add.commute)
qed simp

definition all_rows :: "db \<Rightarrow> int \<Rightarrow> list_params \<Rightarrow> joined_row list" where
  "all_rows d op q = sort_by device_cmp (filter (list_filter d op q) (map (join_row d) (tb_devices d)))"

lemma list_rows_page: "list_rows d op (q\<lparr>lp_page := Some (int p + 1)\<rparr>) = take 50 (drop (p * 50) (all_rows d op q))"
proof -
  have "list_filter d op (q\<lparr>lp_page := x\<rparr>) = list_filter d op q" for x
    by (simp add: list_filter_def fun_eq_iff)
  moreover have "page_offset (q\<lparr>lp_page := Some (int p + 1)\<rparr>) = p * 50"
    by (simp add: page_offset_def page_size_def)
  ultimately show ?thesis by (simp add: list_rows_def all_rows_def page_size_def)
qed

lemma remove_keys_set:
  "set (remove_keys dev sid) = key_string ` ({KDevice dev, KDeviceCaps dev, KActiveSession dev, KProbeWait dev} \<union>
     (case sid of None \<Rightarrow> {} | Some s \<Rightarrow> if s = [] then {} else {KSession s}))"
  by (cases sid) (simp_all add: remove_keys_def)

lemma other_device_key:
  assumes "dev' \<noteq> dev" "plain_key (KDevice dev)" "plain_key k"
    "k \<in> {KDevice dev', KDeviceCaps dev', KActiveSession dev', KProbeWait dev'}"
  shows "key_string k \<notin> set (remove_keys dev sid)"
proof
  assume "key_string k \<in> set (remove_keys dev sid)"
  then consider (dev) "\<exists>k' \<in> {KDevice dev, KDeviceCaps dev, KActiveSession dev, KProbeWait dev}. key_string k = key_string k'"
    | (sess) s where "key_string k = key_string (KSession s)"
    unfolding remove_keys_set by (auto split: option.splits if_splits)
  then show False
  proof cases
    case dev
    then obtain k' where k': "k' \<in> {KDevice dev, KDeviceCaps dev, KActiveSession dev, KProbeWait dev}"
      "key_string k = key_string k'" by blast
    then have "plain_key k'" using assms(2) by (auto simp: plain_key_def)
    from redis_keys.enc_inj[OF assms(3) this k'(2)] k'(1) assms(1,4) show False by auto
  next
    case sess
    then show False using assms(4) by auto
  qed
qed

section \<open>Properties\<close>

text \<open>A world for the witnesses: one device of one group, locked by session \<open>s1\<close>, and an admin.\<close>

definition demo_device :: device_row where
  "demo_device = \<lparr>dv_hmdmId = None, dv_androidId = None, dv_model = None, dv_osVersion = None, dv_groupId = Some 1,
     dv_label = None, dv_firstSeen = 0, dv_lastSeen = None, dv_syncedAt = None, dv_stale = False,
     dv_needsReprovisioning = False\<rparr>"

definition demo_caps :: caps_row where
  "demo_caps = \<lparr>cp_agentVer = ''1.4.7'', cp_projectMedia = ''allow'', cp_a11y = True, cp_knox = ''licensed'',
     cp_overlay = True, cp_secureSettings = True, cp_encoderName = None, cp_encoderHw = None, cp_capsHash = ''h'',
     cp_updatedAt = 0\<rparr>"

definition demo_operator :: "string \<Rightarrow> string \<Rightarrow> operator_row" where
  "demo_operator name role = \<lparr>op_username = name, op_displayName = None, op_passwordHash = None,
     op_hmdmUserId = None, op_role = role, op_active = True\<rparr>"

definition demo_db :: db where
  "demo_db = \<lparr>tb_groups = [(1, ''default'')], tb_devices = [(''d1'', demo_device)], tb_caps = [(''d1'', demo_caps)],
     tb_capEvents = [], tb_operators = [(1, demo_operator ''admin'' ''admin''), (2, demo_operator ''eve'' ''operator'')],
     tb_sessions = [], tb_access = [], tb_hwSamples = [], tb_hwEvents = [], tb_connEvents = []\<rparr>"

definition demo_world :: "store \<Rightarrow> mem world" where
  "demo_world st = \<lparr>w_db = demo_db, w_redis = ([], st), w_mqtt = [], w_now = 0, w_pgFaults = [], w_mqttFaults = []\<rparr>"



text \<open>
  C14 Nothing is read, sent, or removed without access: an operator who is neither an active member of
  the device's group nor an active \<open>admin\<close> or \<open>mdm_user\<close> gets an error from reading, healing and
  removing a device, and the tables, the Redis entries and the messages stay as they are.
\<close>

theorem no_access_no_effect:
  assumes R: "redis_service ex peek" and no: "\<not> has_access (w_db w) op dev"
  shows "refused peek (get_device ex dev op) w \<and> refused peek (selfheal dev op) w \<and>
    refused peek (remove_device ex dev op) w"
proof (intro conjI)
  have unch: "refused peek m w" if "wp m (\<lambda>_ _. False) (\<lambda>_ w'. unchanged peek w w') w" for m :: "('a, 'b) handler"
    using wp_throws[OF that] by (simp add: refused_def)
  show "refused peek (get_device ex dev op) w"
    unfolding get_device_def
    by (rule unch) (simp add: wp_simps, rule wp_access, simp_all add: no unchanged_def)
  show "refused peek (selfheal dev op) w"
    unfolding selfheal_def
    by (rule unch) (simp add: wp_simps, rule wp_access, simp_all add: no unchanged_def)
  show "refused peek (remove_device ex dev op) w"
    by (rule unch, rule redis_service.wp_remove[OF R]) (use no in \<open>simp_all add: unchanged_def\<close>)
qed

lemma no_access_no_effect_witness:
  "refused snd (remove_device mem_redis ''d1'' 2) (demo_world Map.empty)"
proof -
  have "\<not> has_access (w_db (demo_world Map.empty)) 2 ''d1''" by code_simp
  from no_access_no_effect[OF mem.redis_service_axioms this] show ?thesis by blast
qed

text \<open>
  The device list is a paged view: it has at most 50 items, in the order of the query (devices still
  managed first, then by last contact, unknown last); the first \<open>m\<close> pages joined are the first
  \<open>50 * m\<close> rows of the whole result, so no device is shown twice or skipped; and every row listed is a
  device the operator may see and that matches the filters.
\<close>

theorem device_list_pages:
  "concat (map (\<lambda>p. list_rows d op (q\<lparr>lp_page := Some (int p + 1)\<rparr>)) [0..<m]) = take (m * 50) (all_rows d op q) \<and>
   length (list_rows d op q) \<le> 50 \<and>
   sorted_wrt (\<lambda>a b. device_cmp a b \<le> 0) (list_rows d op q) \<and>
   mset (all_rows d op q) = mset (filter (list_filter d op q) (map (join_row d) (tb_devices d))) \<and>
   set (list_rows d op q) \<subseteq> {r \<in> join_row d ` set (tb_devices d). may_list d op (jr_dev r)}"
proof (intro conjI)
  show "concat (map (\<lambda>p. list_rows d op (q\<lparr>lp_page := Some (int p + 1)\<rparr>)) [0..<m]) = take (m * 50) (all_rows d op q)"
    unfolding list_rows_page by (rule pages_concat) simp
  show "length (list_rows d op q) \<le> 50" by (simp add: list_rows_def page_size_def)
  show "sorted_wrt (\<lambda>a b. device_cmp a b \<le> 0) (list_rows d op q)"
    unfolding list_rows_def by (intro sorted_wrt_take sorted_wrt_drop device_order.sorted_sort_by)
  show "mset (all_rows d op q) = mset (filter (list_filter d op q) (map (join_row d) (tb_devices d)))"
    by (simp add: all_rows_def)
  show "set (list_rows d op q) \<subseteq> {r \<in> join_row d ` set (tb_devices d). may_list d op (jr_dev r)}"
    by (auto simp: list_rows_def list_filter_def dest!: in_set_takeD in_set_dropD)
qed

end
