(* ===== verification/Sessions.thy ===== *)
theory Sessions
  imports Devices
begin

text \<open>
  \<open>apps/rc-api/src/sessions/sessions.service.ts\<close>: starting a remote-control session takes a lock
  on the device in Redis, checks that the device can be controlled and answers, records the
  session, and hands a token to the agent and to the viewer.
\<close>

section \<open>Configuration and inputs\<close>

record session_cfg =
  sc_hmdmBase :: string
  sc_relayNode :: string
  sc_wsScheme :: string
  sc_publicHost :: string
  sc_agentTtl :: int

text \<open>\<open>jwt.sign(claims, options)\<close> is a parameter.\<close>

record jwt_options =
  jo_expiresIn :: int
  jo_audience :: string
  jo_jwtid :: string

type_synonym jwt_sign = "json \<Rightarrow> jwt_options \<Rightarrow> string"

text \<open>What one call draws from outside: fresh UUIDs, and whether the MDM accepts a push to the device.\<close>

record start_input =
  si_sid :: string
  si_agentJti :: string
  si_viewerJti :: string
  si_pushOk :: bool

record start_result =
  sr_sessionId :: string
  sr_wsUrl :: string
  sr_token :: string

datatype start_outcome = Started start_result | Unreachable

definition TTL_session :: int where "TTL_session = 7200"

definition int_string :: "int \<Rightarrow> string" where
  "int_string n = num_to_string (Fin (of_int n))"

definition ws_url :: "session_cfg \<Rightarrow> string \<Rightarrow> string" where
  "ws_url cfg path = sc_wsScheme cfg @ ''://'' @ sc_publicHost cfg @ path"

section \<open>Statements\<close>

definition new_session :: "string \<Rightarrow> int \<Rightarrow> string \<Rightarrow> string option \<Rightarrow> int \<Rightarrow> session_row" where
  "new_session dev op entry ip now = \<lparr>ss_deviceId = dev, ss_operatorId = op, ss_relayNode = ''pending'',
     ss_state = Probing, ss_entryPoint = Some entry, ss_requestedAt = now, ss_connectedAt = None,
     ss_endedAt = None, ss_failReason = None, ss_bytesOut = 0, ss_inputEvents = 0, ss_peerIp = ip\<rparr>"

text \<open>The primary key and the two foreign keys of the table.\<close>

definition sql_insert_session :: "string \<Rightarrow> session_row \<Rightarrow> db \<Rightarrow> (unit \<times> db) option" where
  "sql_insert_session sid row d =
     (if map_of (tb_sessions d) sid \<noteq> None \<or> map_of (tb_devices d) (ss_deviceId row) = None \<or>
         map_of (tb_operators d) (ss_operatorId row) = None then None
      else Some ((), d\<lparr>tb_sessions := tb_sessions d @ [(sid, row)]\<rparr>))"

definition update_sessions :: "(string \<Rightarrow> session_row \<Rightarrow> bool) \<Rightarrow> (session_row \<Rightarrow> session_row) \<Rightarrow> db \<Rightarrow> db" where
  "update_sessions P f d = d\<lparr>tb_sessions := update_where P f (tb_sessions d)\<rparr>"

definition sql_starting :: "string \<Rightarrow> string \<Rightarrow> db \<Rightarrow> db" where
  "sql_starting sid node = update_sessions (\<lambda>k _. k = sid) (\<lambda>r. r\<lparr>ss_state := Starting, ss_relayNode := node\<rparr>)"

definition sql_failed :: "string \<Rightarrow> string \<Rightarrow> int \<Rightarrow> db \<Rightarrow> db" where
  "sql_failed sid reason now = update_sessions (\<lambda>k _. k = sid)
     (\<lambda>r. r\<lparr>ss_state := Failed, ss_failReason := Some reason, ss_endedAt := Some now\<rparr>)"

definition sql_close :: "string \<Rightarrow> int \<Rightarrow> db \<Rightarrow> db" where
  "sql_close sid now = update_sessions (\<lambda>k r. k = sid \<and> ss_state r \<noteq> Closed)
     (\<lambda>r. r\<lparr>ss_state := Closed, ss_endedAt := Some now\<rparr>)"

text \<open>\<open>now()\<close> of the database, read where the statement runs.\<close>

definition pg_now :: "(int \<Rightarrow> db \<Rightarrow> (unit \<times> db) option) \<Rightarrow> ('r, unit) handler" where
  "pg_now q w = pg (q (w_now w)) w"

section \<open>Choosing a relay node\<close>

definition load_of :: "reply option \<Rightarrow> jsnum" where
  "load_of rep = (case rep of Some (RBulk s) \<Rightarrow> to_number_str s | _ \<Rightarrow> Fin 0)"

definition least_loaded :: "string list \<Rightarrow> jsnum list \<Rightarrow> string" where
  "least_loaded nodes loads =
     fst (fold (\<lambda>(n, l) (b, bl). if num_lt l bl then (n, l) else (b, bl)) (zip nodes loads) (hd nodes, PosInf))"

definition pickLeastLoaded :: "'r redis_exec \<Rightarrow> session_cfg \<Rightarrow> ('r, string) handler" where
  "pickLeastLoaded ex cfg =
     bindE (redis_smembers ex (key_string KRelayNodes))
      (\<lambda>nodes. if nodes = [] then ret (sc_relayNode cfg) else
        bindE (pipe ex (map (\<lambda>n. Get (key_string (KRelayLoad n))) nodes))
          (\<lambda>reps. ret (least_loaded nodes (map load_of reps))))"

section \<open>Starting\<close>

definition viewer_token :: "jwt_sign \<Rightarrow> string \<Rightarrow> string \<Rightarrow> int \<Rightarrow> string \<Rightarrow> string \<Rightarrow> string" where
  "viewer_token sign sid dev op node jti =
     sign (JObj [(''sid'', JStr sid), (''did'', JStr dev), (''uid'', JNum (Fin (of_int op))), (''node'', JStr node)])
       \<lparr>jo_expiresIn = 1800, jo_audience = ''viewer'', jo_jwtid = jti\<rparr>"

definition agent_token :: "jwt_sign \<Rightarrow> session_cfg \<Rightarrow> string \<Rightarrow> string \<Rightarrow> string \<Rightarrow> string \<Rightarrow> string" where
  "agent_token sign cfg sid dev node jti =
     sign (JObj [(''sid'', JStr sid), (''did'', JStr dev), (''node'', JStr node)])
       \<lparr>jo_expiresIn = sc_agentTtl cfg, jo_audience = ''agent'', jo_jwtid = jti\<rparr>"

definition reissueViewer :: "'r redis_exec \<Rightarrow> jwt_sign \<Rightarrow> session_cfg \<Rightarrow> string \<Rightarrow> int \<Rightarrow> string \<Rightarrow> ('r, start_result) handler" where
  "reissueViewer ex sign cfg dev op jti =
     bindE (redis_get ex (key_string (KActiveSession dev)))
      (\<lambda>existing. case existing of
          None \<Rightarrow> raise (Conflict ''DEVICE_BUSY'')
        | Some sid \<Rightarrow> if sid = [] then raise (Conflict ''DEVICE_BUSY'') else
            bindE (redis_hgetall ex (key_string (KSession sid)))
             (\<lambda>sess. case sess ''node'' of
                 None \<Rightarrow> raise (Conflict ''DEVICE_BUSY'')
               | Some node \<Rightarrow>
                   if sess ''operatorId'' \<noteq> Some (int_string op) \<or> node = [] then raise (Conflict ''DEVICE_BUSY'')
                   else ret \<lparr>sr_sessionId = sid, sr_wsUrl = ws_url cfg ''/viewer'',
                     sr_token = viewer_token sign sid dev op node jti\<rparr>))"

text \<open>\<open>hmdm.wake\<close> returns false without a base URL and on every failure of the push.\<close>

definition wake :: "session_cfg \<Rightarrow> bool \<Rightarrow> bool" where
  "wake cfg pushOk = (sc_hmdmBase cfg \<noteq> [] \<and> pushOk)"

text \<open>
  The first probe, and the wake with a second, longer probe when it is not answered. (A wake after an
  answered probe only delays the start by 1.2 s.)
\<close>

definition reach :: "'r redis_exec \<Rightarrow> session_cfg \<Rightarrow> start_input \<Rightarrow> string \<Rightarrow> ('r, bool) handler" where
  "reach ex cfg inp dev =
     bindE (probe ex dev 3000)
      (\<lambda>up. if up then ret True
            else if \<not> wake cfg (si_pushOk inp) then ret False
            else probe ex dev 8000)"

definition session_fields :: "string \<Rightarrow> int \<Rightarrow> string \<Rightarrow> int \<Rightarrow> (string \<times> string) list" where
  "session_fields dev op node now = [(''deviceId'', dev), (''operatorId'', int_string op), (''node'', node),
     (''state'', ''starting''), (''startedAt'', int_string now)]"

definition announce :: "'r redis_exec \<Rightarrow> jwt_sign \<Rightarrow> session_cfg \<Rightarrow> start_input \<Rightarrow> string \<Rightarrow> int \<Rightarrow> string \<Rightarrow> ('r, start_outcome) handler" where
  "announce ex sign cfg inp dev op node =
     (let sid = si_sid inp in
      thenE (pg_write (sql_starting sid node))
     (bindE (gets w_now) (\<lambda>now.
      thenE (redis_do ex (HSet (key_string (KSession sid)) (session_fields dev op node now)))
     (thenE (redis_do ex (Expire (key_string (KSession sid)) TTL_session))
     (thenE (publish (topic_cmd dev) (cmd_msg ''session.start''
        [(''sessionId'', JStr sid), (''wsUrl'', JStr (ws_url cfg ''/agent'')),
         (''token'', JStr (agent_token sign cfg sid dev node (si_agentJti inp)))]))
     (ret (Started \<lparr>sr_sessionId = sid, sr_wsUrl = ws_url cfg ''/viewer'',
        sr_token = viewer_token sign sid dev op node (si_viewerJti inp)\<rparr>)))))))"

definition blocker_name :: "blocker \<Rightarrow> string" where
  "blocker_name b = (case code b of NO_CAPTURE_PATH \<Rightarrow> ''NO_CAPTURE_PATH'' | NO_INPUT_PATH \<Rightarrow> ''NO_INPUT_PATH''
     | NO_BG_ACTIVITY_START \<Rightarrow> ''NO_BG_ACTIVITY_START'' | AGENT_OUTDATED \<Rightarrow> ''AGENT_OUTDATED''
     | NEEDS_REPROVISIONING \<Rightarrow> ''NEEDS_REPROVISIONING'')"

definition start_body :: "'r redis_exec \<Rightarrow> jwt_sign \<Rightarrow> session_cfg \<Rightarrow> start_input \<Rightarrow> string \<Rightarrow> int \<Rightarrow> string \<Rightarrow> string option \<Rightarrow> ('r, start_outcome) handler" where
  "start_body ex sign cfg inp dev op entry ip =
     bindE (getState ex dev) (\<lambda>state.
      (let rd = computeReadiness state in
       if r_tier rd = NOT_READY \<or> r_tier rd = OFFLINE
       then raise (NotReadyError (tier_string (r_tier rd))
         (map blocker_name (case r_blockers rd of None \<Rightarrow> [] | Some bs \<Rightarrow> bs)))
       else thenE (pg_now (\<lambda>now. sql_insert_session (si_sid inp) (new_session dev op entry ip now)))
        (bindE (reach ex cfg inp dev) (\<lambda>ok.
          if \<not> ok then ret Unreachable
          else bindE (pickLeastLoaded ex cfg) (\<lambda>node. announce ex sign cfg inp dev op node)))))"

definition fail_session :: "'r redis_exec \<Rightarrow> string \<Rightarrow> string \<Rightarrow> string \<Rightarrow> ('r, 'a) handler" where
  "fail_session ex sid dev reason =
     thenE (pg_now (\<lambda>now d. Some ((), sql_failed sid reason now d)))
      (thenE (redis_do ex (Del [key_string (KActiveSession dev)]))
        (raise (SessionFailed reason sid)))"

text \<open>
  \<open>return this.fail(..)\<close> leaves the \<open>try\<close> block without \<open>await\<close>: what \<open>fail\<close> throws does not reach
  the \<open>catch\<close>, which releases the lock for every error thrown inside the block.
\<close>

definition start_locked :: "'r redis_exec \<Rightarrow> jwt_sign \<Rightarrow> session_cfg \<Rightarrow> start_input \<Rightarrow> string \<Rightarrow> int \<Rightarrow> string \<Rightarrow> string option \<Rightarrow> ('r, start_result) handler" where
  "start_locked ex sign cfg inp dev op entry ip =
     bindE (catchE (start_body ex sign cfg inp dev op entry ip)
         (\<lambda>err. thenE (redis_do ex (Del [key_string (KActiveSession dev)])) (raise err)))
      (\<lambda>out. case out of
          Started r \<Rightarrow> ret r
        | Unreachable \<Rightarrow> fail_session ex (si_sid inp) dev ''device_unreachable'')"

definition start :: "'r redis_exec \<Rightarrow> jwt_sign \<Rightarrow> session_cfg \<Rightarrow> start_input \<Rightarrow> string \<Rightarrow> int \<Rightarrow> string \<Rightarrow> string option \<Rightarrow> ('r, start_result) handler" where
  "start ex sign cfg inp dev op entry ip =
     thenE (assertGroupAccess op dev)
      (bindE (redis_setnx ex (key_string (KActiveSession dev)) (si_sid inp) TTL_session) (\<lambda>occupied.
        if \<not> occupied then reissueViewer ex sign cfg dev op (si_viewerJti inp)
        else start_locked ex sign cfg inp dev op entry ip))"

section \<open>Closing and listing\<close>

definition close_session :: "'r redis_exec \<Rightarrow> string \<Rightarrow> int \<Rightarrow> ('r, unit) handler" where
  "close_session ex sid op =
     bindE (pg_read (\<lambda>d. map_of (tb_sessions d) sid)) (\<lambda>row. case row of
        None \<Rightarrow> raise NotFound
      | Some r \<Rightarrow>
          thenE (whenE (ss_operatorId r \<noteq> op)
            (bindE (pg_read (\<lambda>d. operator_is d op (\<lambda>o'. op_role o' = ''admin'')))
              (\<lambda>admin. if admin then ret () else raise NotFound)))
         (thenE (pg_now (\<lambda>now d. Some ((), sql_close sid now d)))
         (thenE (redis_do ex (Del [key_string (KActiveSession (ss_deviceId r)), key_string (KSession sid)]))
           (publish (topic_cmd (ss_deviceId r)) (cmd_msg ''session.stop'' [(''sessionId'', JStr sid)])))))"

text \<open>The filters after their casts; \<open>ORDER BY requested_at DESC LIMIT 200\<close>.\<close>

record session_filter =
  sf_deviceId :: "string option"
  sf_operatorId :: "int option"
  sf_from :: "int option"
  sf_to :: "int option"

definition matches_filter :: "session_filter \<Rightarrow> session_row \<Rightarrow> bool" where
  "matches_filter f r =
     ((case sf_deviceId f of None \<Rightarrow> True | Some d \<Rightarrow> ss_deviceId r = d) \<and>
      (case sf_operatorId f of None \<Rightarrow> True | Some u \<Rightarrow> ss_operatorId r = u) \<and>
      (case sf_from f of None \<Rightarrow> True | Some t \<Rightarrow> t \<le> ss_requestedAt r) \<and>
      (case sf_to f of None \<Rightarrow> True | Some t \<Rightarrow> ss_requestedAt r \<le> t))"

definition newest_first :: "string \<times> session_row \<Rightarrow> string \<times> session_row \<Rightarrow> int" where
  "newest_first a b = ss_requestedAt (snd b) - ss_requestedAt (snd a)"

definition list_sessions :: "session_filter \<Rightarrow> ('r, (string \<times> session_row) list) handler" where
  "list_sessions f = pg_read (\<lambda>d. take 200 (sort_by newest_first (filter (\<lambda>p. matches_filter f (snd p)) (tb_sessions d))))"

interpretation session_order: comparator newest_first
  by unfold_locales (simp_all add: newest_first_def sgn_if)

section \<open>The least loaded node\<close>

lemma num_lt_trans: "num_lt x y \<Longrightarrow> num_lt y z \<Longrightarrow> num_lt x z"
  by (cases x; cases y; cases z) auto

lemma least_loaded_fold:
  assumes "(b, bl) = fold (\<lambda>(n, l) (b, bl). if num_lt l bl then (n, l) else (b, bl)) ps (b0, bl0)"
  shows "((b, bl) = (b0, bl0) \<or> (b, bl) \<in> set ps \<and> num_lt bl bl0) \<and> (\<forall>(n, l) \<in> set ps. \<not> num_lt l bl)"
  using assms
proof (induction ps arbitrary: b0 bl0)
  case (Cons p ps)
  obtain n l where p: "p = (n, l)" by force
  show ?case
  proof (cases "num_lt l bl0")
    case True
    have "((b, bl) = (n, l) \<or> (b, bl) \<in> set ps \<and> num_lt bl l) \<and> (\<forall>(n, l) \<in> set ps. \<not> num_lt l bl)"
      by (rule Cons.IH) (use Cons.prems True p in simp)
    moreover have "\<not> num_lt l l" by (cases l) auto
    moreover have "num_lt bl l \<Longrightarrow> \<not> num_lt l bl" using \<open>\<not> num_lt l l\<close> num_lt_trans by blast
    ultimately show ?thesis using True num_lt_trans by (auto simp: p)
  next
    case False
    have "((b, bl) = (b0, bl0) \<or> (b, bl) \<in> set ps \<and> num_lt bl bl0) \<and> (\<forall>(n, l) \<in> set ps. \<not> num_lt l bl)"
      by (rule Cons.IH) (use Cons.prems False p in simp)
    then show ?thesis using False num_lt_trans by (auto simp: p)
  qed
qed simp

section \<open>Contracts\<close>

text \<open>What may change while the device is asked to answer: its wait key and the messages sent to it.\<close>

definition asked :: "('r \<Rightarrow> store) \<Rightarrow> string \<Rightarrow> 'r world \<Rightarrow> 'r world \<Rightarrow> bool" where
  "asked peek dev w w' \<longleftrightarrow> w_db w' = w_db w \<and>
     (\<forall>k. k \<noteq> key_string (KProbeWait dev) \<longrightarrow> peek (w_redis w') k = peek (w_redis w) k)"

definition probes :: "string \<Rightarrow> 'r world \<Rightarrow> 'r world \<Rightarrow> bool" where
  "probes dev w w' \<longleftrightarrow> (\<exists>n. w_mqtt w' = w_mqtt w @ replicate n (topic_cmd dev, cmd_msg ''probe'' []))"

definition start_msg :: "jwt_sign \<Rightarrow> session_cfg \<Rightarrow> start_input \<Rightarrow> string \<Rightarrow> string \<Rightarrow> string \<times> json" where
  "start_msg sign cfg inp dev node = (topic_cmd dev, cmd_msg ''session.start''
     [(''sessionId'', JStr (si_sid inp)), (''wsUrl'', JStr (ws_url cfg ''/agent'')),
      (''token'', JStr (agent_token sign cfg (si_sid inp) dev node (si_agentJti inp)))])"

definition start_reply :: "jwt_sign \<Rightarrow> session_cfg \<Rightarrow> start_input \<Rightarrow> string \<Rightarrow> int \<Rightarrow> string \<Rightarrow> start_result" where
  "start_reply sign cfg inp dev op node = \<lparr>sr_sessionId = si_sid inp, sr_wsUrl = ws_url cfg ''/viewer'',
     sr_token = viewer_token sign (si_sid inp) dev op node (si_viewerJti inp)\<rparr>"

text \<open>The hash of a session names its device, operator and node, and expires with the lock.\<close>

definition session_hash :: "store \<Rightarrow> string \<Rightarrow> string \<Rightarrow> int \<Rightarrow> string \<Rightarrow> bool" where
  "session_hash st sid dev op node \<longleftrightarrow> (\<exists>h now. st (key_string (KSession sid)) = Some (RHash h, Some TTL_session) \<and>
     (\<forall>(f, v) \<in> set (session_fields dev op node now). map_of h f = Some v))"

definition controllable :: "device_state \<Rightarrow> bool" where
  "controllable s \<longleftrightarrow> r_tier (computeReadiness s) \<in> {READY, DEGRADED}"


definition lock_key :: "string \<Rightarrow> string" where
  "lock_key dev = key_string (KActiveSession dev)"

definition lock_held :: "store \<Rightarrow> string \<Rightarrow> string \<Rightarrow> bool" where
  "lock_held st dev sid \<longleftrightarrow> st (lock_key dev) = Some (RStr sid, Some TTL_session)"

definition lock_free :: "store \<Rightarrow> string \<Rightarrow> bool" where
  "lock_free st dev \<longleftrightarrow> st (lock_key dev) = None"

text \<open>The abstract contract of \<open>start\<close> on a device whose lock is free.\<close>

definition session_started :: "('r \<Rightarrow> store) \<Rightarrow> jwt_sign \<Rightarrow> session_cfg \<Rightarrow> start_input \<Rightarrow> string \<Rightarrow> int \<Rightarrow> string \<Rightarrow>
    string option \<Rightarrow> 'r world \<Rightarrow> start_result \<Rightarrow> 'r world \<Rightarrow> bool" where
  "session_started peek sign cfg inp dev op entry ip w res w' \<longleftrightarrow> (\<exists>node now n.
     has_access (w_db w) op dev \<and> controllable (device_state_of (w_db w) (peek (w_redis w)) dev) \<and>
     res = start_reply sign cfg inp dev op node \<and>
     lock_held (peek (w_redis w')) dev (si_sid inp) \<and>
     session_hash (peek (w_redis w')) (si_sid inp) dev op node \<and>
     map_of (tb_sessions (w_db w)) (si_sid inp) = None \<and>
     w_db w' = w_db w\<lparr>tb_sessions := tb_sessions (w_db w) @
       [(si_sid inp, (new_session dev op entry ip now)\<lparr>ss_state := Starting, ss_relayNode := node\<rparr>)]\<rparr> \<and>
     w_mqtt w' = w_mqtt w @ replicate n (topic_cmd dev, cmd_msg ''probe'' []) @ [start_msg sign cfg inp dev node])"

text \<open>On a locked device \<open>start\<close> at most hands the holder a new viewer token for the running session.\<close>

definition viewer_reissued :: "('r \<Rightarrow> store) \<Rightarrow> jwt_sign \<Rightarrow> string \<Rightarrow> int \<Rightarrow> string \<Rightarrow> 'r world \<Rightarrow> start_result \<Rightarrow> 'r world \<Rightarrow> bool" where
  "viewer_reissued peek sign dev op jti w res w' \<longleftrightarrow> unchanged peek w w' \<and> has_access (w_db w) op dev \<and>
     (\<exists>t h node. peek (w_redis w) (lock_key dev) = Some (RStr (sr_sessionId res), t) \<and>
        hash_at (peek (w_redis w)) (key_string (KSession (sr_sessionId res))) = Some h \<and>
        map_of h ''operatorId'' = Some (int_string op) \<and> map_of h ''node'' = Some node \<and>
        sr_token res = viewer_token sign (sr_sessionId res) dev op node jti)"

definition session_of :: "db \<Rightarrow> string \<Rightarrow> session_state option" where
  "session_of d sid = map_option ss_state (map_of (tb_sessions d) sid)"

definition start_refused :: "('r \<Rightarrow> store) \<Rightarrow> start_input \<Rightarrow> string \<Rightarrow> 'r world \<Rightarrow> error \<Rightarrow> 'r world \<Rightarrow> bool" where
  "start_refused peek inp dev w e w' \<longleftrightarrow>
     (e = RedisError \<or> lock_free (peek (w_redis w')) dev \<or>
       e = PgError \<and> lock_held (peek (w_redis w')) dev (si_sid inp) \<and> session_of (w_db w') (si_sid inp) = Some Probing) \<and>
     (infra_error e \<or> unchanged peek w w' \<or>
       e = SessionFailed ''device_unreachable'' (si_sid inp) \<and> session_of (w_db w') (si_sid inp) = Some Failed) \<and>
     (\<forall>dev'. dev' \<noteq> dev \<longrightarrow> peek (w_redis w') (lock_key dev') = peek (w_redis w) (lock_key dev'))"

lemma inserted_session:
  "sql_insert_session sid row d = Some ((), d') \<Longrightarrow>
     map_of (tb_sessions d) sid = None \<and> d' = d\<lparr>tb_sessions := tb_sessions d @ [(sid, row)]\<rparr> \<and>
     map_of (tb_sessions d') sid = Some row"
  by (auto simp: sql_insert_session_def map_add_def split: if_splits)

lemma update_new_session:
  "map_of t sid = None \<Longrightarrow> update_where (\<lambda>k _. k = sid) f (t @ [(sid, row)]) = t @ [(sid, f row)]"
proof -
  assume "map_of t sid = None"
  then have "sid \<notin> fst ` set t" by (simp add: map_of_eq_None_iff)
  then have "update_where (\<lambda>k _. k = sid) f t = t" by (induction t) (auto simp: update_where_def)
  then show ?thesis by (simp add: update_where_def)
qed

lemma device_state_lock:
  "device_state_of d (st(key_string (KActiveSession dev) := x)) dev = device_state_of d st dev"
  by (simp add: device_state_of_def hash_at_def)

context redis_service
begin

lemma wp_pick:
  assumes "\<And>w'. unchanged peek w w' \<Longrightarrow> E RedisError w'"
    and "\<And>w' node. unchanged peek w w' \<Longrightarrow> Q node w'"
  shows "wp (pickLeastLoaded ex cfg) Q E w"
  unfolding pickLeastLoaded_def wp_simps
proof (rule wp_smembers)
  fix r l assume r: "peek r = peek (w_redis w)"
  show "(if l = [] then Q (sc_relayNode cfg)
      else wp (pipe ex (map (\<lambda>n. Get (key_string (KRelayLoad n))) l)) (\<lambda>reps. Q (least_loaded l (map load_of reps))) E)
      (w\<lparr>w_redis := r\<rparr>)"
  proof (cases "l = []")
    case False
    have "wp (pipe ex (map (\<lambda>n. Get (key_string (KRelayLoad n))) l)) (\<lambda>reps. Q (least_loaded l (map load_of reps))) E
        (w\<lparr>w_redis := r\<rparr>)"
    proof (rule wp_pipe_reads)
      show "cmd_writes c = []" if "c \<in> set (map (\<lambda>n. Get (key_string (KRelayLoad n))) l)" for c
        using that by (auto simp: cmd_writes_def)
    qed (simp add: assms(2) unchanged_def r)
    with False show ?thesis by simp
  qed (simp add: assms(2) unchanged_def r)
qed (simp add: assms(1) unchanged_def)

lemma wp_reach:
  assumes err: "\<And>w' e. infra_error e \<Longrightarrow> asked peek dev w w' \<Longrightarrow> E e w'"
    and ok: "\<And>w' b. asked peek dev w w' \<Longrightarrow> probes dev w w' \<Longrightarrow> Q b w'"
  shows "wp (reach ex cfg inp dev) Q E w"
  unfolding reach_def wp_simps
proof (rule wp_probe)
  fix w1 :: "'r world" and up assume db: "w_db w1 = w_db w"
    and keys: "\<And>k. k \<noteq> key_string (KProbeWait dev) \<Longrightarrow> peek (w_redis w1) k = peek (w_redis w) k"
    and mqtt: "w_mqtt w1 = w_mqtt w @ [(topic_cmd dev, cmd_msg ''probe'' [])]"
  have a1: "asked peek dev w w1" using db keys by (simp add: asked_def)
  have one: "probes dev w w1" unfolding probes_def mqtt by (rule exI[of _ 1]) simp
  have two: "wp (probe ex dev 8000) Q E w1"
  proof (rule wp_probe)
    fix w2 :: "'r world" and ok' assume db2: "w_db w2 = w_db w1"
      and keys2: "\<And>k. k \<noteq> key_string (KProbeWait dev) \<Longrightarrow> peek (w_redis w2) k = peek (w_redis w1) k"
      and mqtt2: "w_mqtt w2 = w_mqtt w1 @ [(topic_cmd dev, cmd_msg ''probe'' [])]"
    have "probes dev w w2" unfolding probes_def mqtt2 mqtt by (rule exI[of _ 2]) (simp add: numeral_2_eq_2)
    then show "Q ok' w2" using db db2 keys keys2 by (intro ok) (simp_all add: asked_def)
  qed (use db keys in \<open>auto intro!: err simp: asked_def\<close>)
  show "(if up then Q True else if \<not> wake cfg (si_pushOk inp) then Q False else wp (probe ex dev 8000) Q E) w1"
    using two ok[OF a1 one] by simp
qed (auto intro!: err simp: asked_def)

lemma wp_announce:
  assumes err: "\<And>w' e. infra_error e \<Longrightarrow> e \<noteq> PgError \<or> w_db w' = w_db w \<Longrightarrow>
      w_db w' = w_db w \<or> w_db w' = sql_starting (si_sid inp) node (w_db w) \<Longrightarrow>
      (\<And>k. k \<noteq> key_string (KSession (si_sid inp)) \<Longrightarrow> peek (w_redis w') k = peek (w_redis w) k) \<Longrightarrow>
      w_mqtt w' = w_mqtt w \<Longrightarrow> E e w'"
    and ok: "\<And>w'. w_db w' = sql_starting (si_sid inp) node (w_db w) \<Longrightarrow>
      (\<And>k. k \<noteq> key_string (KSession (si_sid inp)) \<Longrightarrow> peek (w_redis w') k = peek (w_redis w) k) \<Longrightarrow>
      session_hash (peek (w_redis w')) (si_sid inp) dev op node \<Longrightarrow>
      w_mqtt w' = w_mqtt w @ [start_msg sign cfg inp dev node] \<Longrightarrow>
      Q (Started (start_reply sign cfg inp dev op node)) w'"
  shows "wp (announce ex sign cfg inp dev op node) Q E w"
proof -
  have d: "distinct (map fst (session_fields dev op node n))" for n
    by (simp add: session_fields_def)
  show ?thesis
    unfolding announce_def Let_def wp_simps
    apply (rule wp_pg_write)
     apply (rule err; simp)
    apply (rule wp_hset)
     apply (rule err; simp)
    apply (rule wp_expire)
     apply (rule err; simp add: keep_ttl_def)
    apply (rule wp_publish)
     apply (rule err; simp add: keep_ttl_def)
    apply (rule ok[unfolded start_reply_def])
       apply (simp_all add: keep_ttl_def start_msg_def session_hash_def)
    using hset_all_mem[OF d] apply blast
    done
qed

lemma wp_body:
  fixes w :: "'r world"
  assumes err: "\<And>w' e. (\<exists>t bs. e = NotReadyError t bs \<and> unchanged peek w w' \<and>
        \<not> controllable (device_state_of (w_db w) (peek (w_redis w)) dev)) \<or> infra_error e \<Longrightarrow>
      (\<And>k. k \<noteq> key_string (KProbeWait dev) \<Longrightarrow> k \<noteq> key_string (KSession (si_sid inp)) \<Longrightarrow>
         peek (w_redis w') k = peek (w_redis w) k) \<Longrightarrow> E e w'"
    and unreachable: "\<And>w' now. controllable (device_state_of (w_db w) (peek (w_redis w)) dev) \<Longrightarrow>
      sql_insert_session (si_sid inp) (new_session dev op entry ip now) (w_db w) = Some ((), w_db w') \<Longrightarrow>
      (\<And>k. k \<noteq> key_string (KProbeWait dev) \<Longrightarrow> peek (w_redis w') k = peek (w_redis w) k) \<Longrightarrow>
      Q Unreachable w'"
    and ok: "\<And>w' now d node n. controllable (device_state_of (w_db w) (peek (w_redis w)) dev) \<Longrightarrow>
      sql_insert_session (si_sid inp) (new_session dev op entry ip now) (w_db w) = Some ((), d) \<Longrightarrow>
      w_db w' = sql_starting (si_sid inp) node d \<Longrightarrow>
      (\<And>k. k \<noteq> key_string (KProbeWait dev) \<Longrightarrow> k \<noteq> key_string (KSession (si_sid inp)) \<Longrightarrow>
         peek (w_redis w') k = peek (w_redis w) k) \<Longrightarrow>
      session_hash (peek (w_redis w')) (si_sid inp) dev op node \<Longrightarrow>
      w_mqtt w' = w_mqtt w @ replicate n (topic_cmd dev, cmd_msg ''probe'' []) @ [start_msg sign cfg inp dev node] \<Longrightarrow>
      Q (Started (start_reply sign cfg inp dev op node)) w'"
  shows "wp (start_body ex sign cfg inp dev op entry ip) Q E w"
  unfolding start_body_def Let_def wp_simps
proof (rule wp_getState)
  fix w1 :: "'r world" assume db1: "w_db w1 = w_db w" and r1: "peek (w_redis w1) = peek (w_redis w)"
    and m1: "w_mqtt w1 = w_mqtt w"
  let ?s = "device_state_of (w_db w) (peek (w_redis w)) dev"
  let ?t = "r_tier (computeReadiness ?s)"
  have notready: "E (NotReadyError x bs) w1" if "\<not> controllable ?s" for x bs
    by (rule err) (use that db1 r1 m1 in \<open>simp_all add: unchanged_def\<close>)
  have go: "wp (pg_now (\<lambda>now. sql_insert_session (si_sid inp) (new_session dev op entry ip now)))
      (\<lambda>_. wp (reach ex cfg inp dev) (\<lambda>b. if \<not> b then Q Unreachable else
         wp (pickLeastLoaded ex cfg) (\<lambda>node. wp (announce ex sign cfg inp dev op node) Q E) E) E) E w1"
    if c: "controllable ?s"
  proof -
    have *: "wp (pg (sql_insert_session (si_sid inp) (new_session dev op entry ip now)))
      (\<lambda>_. wp (reach ex cfg inp dev) (\<lambda>b. if \<not> b then Q Unreachable else
         wp (pickLeastLoaded ex cfg) (\<lambda>node. wp (announce ex sign cfg inp dev op node) Q E) E) E) E w1" for now
    proof (rule wp_pg)
      show "E PgError (w1\<lparr>w_pgFaults := fs\<rparr>)" for fs
        by (rule err) (simp_all add: r1)
    next
      fix fs u d assume ins: "sql_insert_session (si_sid inp) (new_session dev op entry ip now) (w_db w1) = Some (u, d)"
      let ?w2 = "w1\<lparr>w_pgFaults := fs, w_db := d\<rparr>"
      show "wp (reach ex cfg inp dev) (\<lambda>b. if \<not> b then Q Unreachable else
         wp (pickLeastLoaded ex cfg) (\<lambda>node. wp (announce ex sign cfg inp dev op node) Q E) E) E ?w2"
      proof (rule wp_reach)
        show "E e w'" if "infra_error e" "asked peek dev ?w2 w'" for w' e
          by (rule err) (use that r1 in \<open>simp_all add: asked_def\<close>)
      next
        fix w3 :: "'r world" and b assume a3: "asked peek dev ?w2 w3" and p3: "probes dev ?w2 w3"
        show "(if \<not> b then Q Unreachable else
            wp (pickLeastLoaded ex cfg) (\<lambda>node. wp (announce ex sign cfg inp dev op node) Q E) E) w3"
        proof (cases b)
          case False
          then show ?thesis using unreachable[OF c, of _ w3] ins a3 by (simp add: asked_def db1 r1)
        next
          case True
          have "wp (pickLeastLoaded ex cfg) (\<lambda>node. wp (announce ex sign cfg inp dev op node) Q E) E w3"
          proof (rule wp_pick)
            show "E RedisError w'" if "unchanged peek w3 w'" for w'
              by (rule err) (use that a3 r1 in \<open>simp_all add: unchanged_def asked_def\<close>)
          next
            fix w4 :: "'r world" and node assume u4: "unchanged peek w3 w4"
            show "wp (announce ex sign cfg inp dev op node) Q E w4"
            proof (rule wp_announce)
              show "E e w'" if "infra_error e" "\<And>k. k \<noteq> key_string (KSession (si_sid inp)) \<Longrightarrow> peek (w_redis w') k = peek (w_redis w4) k" for w' e
                by (rule err) (use that a3 r1 u4 in \<open>simp_all add: unchanged_def asked_def\<close>)
            next
              fix w' :: "'r world"
              assume fin: "w_db w' = sql_starting (si_sid inp) node (w_db w4)"
                "\<And>k. k \<noteq> key_string (KSession (si_sid inp)) \<Longrightarrow> peek (w_redis w') k = peek (w_redis w4) k"
                "session_hash (peek (w_redis w')) (si_sid inp) dev op node"
                "w_mqtt w' = w_mqtt w4 @ [start_msg sign cfg inp dev node]"
              obtain n where "w_mqtt w3 = w_mqtt w @ replicate n (topic_cmd dev, cmd_msg ''probe'' [])"
                using p3 m1 by (auto simp: probes_def)
              with fin show "Q (Started (start_reply sign cfg inp dev op node)) w'"
                using ok[OF c, of now d w' node n] ins a3 u4 by (simp add: asked_def unchanged_def db1 r1)
            qed
          qed
          with True show ?thesis by simp
        qed
      qed
    qed
    show ?thesis using *[of "w_now w1"] by (simp add: wp_def pg_now_def)
  qed
  show "(if ?t = NOT_READY \<or> ?t = OFFLINE
      then E (NotReadyError (tier_string ?t) (map blocker_name (case r_blockers (computeReadiness ?s) of None \<Rightarrow> [] | Some bs \<Rightarrow> bs)))
      else wp (pg_now (\<lambda>now. sql_insert_session (si_sid inp) (new_session dev op entry ip now)))
        (\<lambda>_. wp (reach ex cfg inp dev) (\<lambda>b. if \<not> b then Q Unreachable else
           wp (pickLeastLoaded ex cfg) (\<lambda>node. wp (announce ex sign cfg inp dev op node) Q E) E) E) E) w1"
    using notready go by (cases ?t) (simp_all add: controllable_def)
qed (auto intro!: err simp: unchanged_def)

lemma wp_fail:
  assumes pg: "\<And>w'. w_db w' = w_db w \<Longrightarrow> peek (w_redis w') = peek (w_redis w) \<Longrightarrow> E PgError w'"
    and redis: "\<And>w'. (\<And>k. k \<noteq> key_string (KActiveSession dev) \<Longrightarrow> peek (w_redis w') k = peek (w_redis w) k) \<Longrightarrow> E RedisError w'"
    and ok: "\<And>w' now. w_db w' = sql_failed sid reason now (w_db w) \<Longrightarrow>
      peek (w_redis w') = (peek (w_redis w))(key_string (KActiveSession dev) := None) \<Longrightarrow> E (SessionFailed reason sid) w'"
  shows "wp (fail_session ex sid dev reason) Q E w"
proof -
  have "wp (pg (\<lambda>d. Some ((), sql_failed sid reason now d)))
      (\<lambda>_. wp (redis_do ex (Del [key_string (KActiveSession dev)])) (\<lambda>_. E (SessionFailed reason sid)) E) E w" for now
  proof (rule wp_pg)
    fix fs u d assume "Some ((), sql_failed sid reason now (w_db w)) = Some (u, d)"
    then show "wp (redis_do ex (Del [key_string (KActiveSession dev)])) (\<lambda>_. E (SessionFailed reason sid)) E
        (w\<lparr>w_pgFaults := fs, w_db := d\<rparr>)"
      by (intro wp_del ok[of _ now] redis) (auto simp: fun_eq_iff)
  qed (simp add: pg)
  then show ?thesis unfolding fail_session_def wp_simps by (simp add: wp_def pg_now_def)
qed

lemma wp_reissue:
  assumes err: "\<And>w' e. unchanged peek w w' \<Longrightarrow> e = RedisError \<or> e = Conflict ''DEVICE_BUSY'' \<Longrightarrow> E e w'"
    and ok: "\<And>w' sid t node h. unchanged peek w w' \<Longrightarrow>
      peek (w_redis w) (key_string (KActiveSession dev)) = Some (RStr sid, t) \<Longrightarrow>
      hash_at (peek (w_redis w)) (key_string (KSession sid)) = Some h \<Longrightarrow>
      map_of h ''operatorId'' = Some (int_string op) \<Longrightarrow> map_of h ''node'' = Some node \<Longrightarrow>
      Q \<lparr>sr_sessionId = sid, sr_wsUrl = ws_url cfg ''/viewer'', sr_token = viewer_token sign sid dev op node jti\<rparr> w'"
  shows "wp (reissueViewer ex sign cfg dev op jti) Q E w"
  unfolding reissueViewer_def wp_simps
proof (rule wp_get)
  fix r v t assume r: "peek r = peek (w_redis w)" and v: "peek (w_redis w) (key_string (KActiveSession dev)) = Some (RStr v, t)"
  have "wp (redis_hgetall ex (key_string (KSession v))) (\<lambda>sess. case sess ''node'' of None \<Rightarrow> E (Conflict ''DEVICE_BUSY'')
      | Some node \<Rightarrow> if sess ''operatorId'' \<noteq> Some (int_string op) \<or> node = [] then E (Conflict ''DEVICE_BUSY'')
          else Q \<lparr>sr_sessionId = v, sr_wsUrl = ws_url cfg ''/viewer'', sr_token = viewer_token sign v dev op node jti\<rparr>) E
      (w\<lparr>w_redis := r\<rparr>)"
  proof (rule wp_hgetall)
    fix r' h assume "peek r' = peek (w_redis (w\<lparr>w_redis := r\<rparr>))" "hash_at (peek (w_redis (w\<lparr>w_redis := r\<rparr>))) (key_string (KSession v)) = Some h"
    then show "(case map_of h ''node'' of None \<Rightarrow> E (Conflict ''DEVICE_BUSY'')
      | Some node \<Rightarrow> if map_of h ''operatorId'' \<noteq> Some (int_string op) \<or> node = [] then E (Conflict ''DEVICE_BUSY'')
          else Q \<lparr>sr_sessionId = v, sr_wsUrl = ws_url cfg ''/viewer'', sr_token = viewer_token sign v dev op node jti\<rparr>)
      (w\<lparr>w_redis := r, w_redis := r'\<rparr>)"
      using r v by (auto split: option.split intro!: err ok simp: unchanged_def)
  qed (simp add: err unchanged_def r)
  then show "(case Some v of None \<Rightarrow> E (Conflict ''DEVICE_BUSY'')
      | Some sid \<Rightarrow> if sid = [] then E (Conflict ''DEVICE_BUSY'') else
          wp (redis_hgetall ex (key_string (KSession sid))) (\<lambda>sess. case sess ''node'' of None \<Rightarrow> E (Conflict ''DEVICE_BUSY'')
            | Some node \<Rightarrow> if sess ''operatorId'' \<noteq> Some (int_string op) \<or> node = [] then E (Conflict ''DEVICE_BUSY'')
                else Q \<lparr>sr_sessionId = sid, sr_wsUrl = ws_url cfg ''/viewer'', sr_token = viewer_token sign sid dev op node jti\<rparr>) E)
      (w\<lparr>w_redis := r\<rparr>)"
    using r by (auto intro!: err simp: unchanged_def)
qed (simp_all add: err unchanged_def)

lemma wp_start_locked:
  fixes w w2 :: "'r world"
  assumes free: "lock_free (peek (w_redis w)) dev" and acc: "has_access (w_db w) op dev"
    and st2: "peek (w_redis w2) = (peek (w_redis w))(lock_key dev \<mapsto> (RStr (si_sid inp), Some TTL_session))"
    and rest2: "w_db w2 = w_db w" "w_mqtt w2 = w_mqtt w"
  shows "wp (start_locked ex sign cfg inp dev op entry ip)
    (session_started peek sign cfg inp dev op entry ip w) (start_refused peek inp dev w) w2"
  unfolding start_locked_def wp_simps
proof (rule wp_body)
  fix w' :: "'r world" and e
  assume e: "(\<exists>t bs. e = NotReadyError t bs \<and> unchanged peek w2 w' \<and>
      \<not> controllable (device_state_of (w_db w2) (peek (w_redis w2)) dev)) \<or> infra_error e"
    and k: "\<And>k. k \<noteq> key_string (KProbeWait dev) \<Longrightarrow> k \<noteq> key_string (KSession (si_sid inp)) \<Longrightarrow>
       peek (w_redis w') k = peek (w_redis w2) k"
  have locks: "peek (w_redis w') (lock_key dev') = peek (w_redis w) (lock_key dev')" if "dev' \<noteq> dev" for dev'
    using k[of "lock_key dev'"] that by (simp add: st2 lock_key_def)
  show "wp (redis_do ex (Del [key_string (KActiveSession dev)])) (\<lambda>_. start_refused peek inp dev w e)
      (start_refused peek inp dev w) w'"
  proof (rule wp_del)
    fix r assume r: "\<And>k. k \<notin> set [key_string (KActiveSession dev)] \<Longrightarrow> peek r k = peek (w_redis w') k"
    then show "start_refused peek inp dev w RedisError (w'\<lparr>w_redis := r\<rparr>)"
      using locks by (simp add: start_refused_def lock_key_def)
  next
    fix r assume r: "peek r = (\<lambda>k. if k \<in> set [key_string (KActiveSession dev)] then None else peek (w_redis w') k)"
    have "infra_error e \<or> unchanged peek w (w'\<lparr>w_redis := r\<rparr>)"
      using e free rest2 by (auto simp: unchanged_def r st2 fun_eq_iff lock_free_def lock_key_def)
    then show "start_refused peek inp dev w e (w'\<lparr>w_redis := r\<rparr>)"
      using locks unfolding start_refused_def by (elim disjE) (simp_all add: lock_free_def r lock_key_def)
  qed
next
  fix w' :: "'r world" and now
  assume ins: "sql_insert_session (si_sid inp) (new_session dev op entry ip now) (w_db w2) = Some ((), w_db w')"
    and k: "\<And>k. k \<noteq> key_string (KProbeWait dev) \<Longrightarrow> peek (w_redis w') k = peek (w_redis w2) k"
  have locks: "peek (w_redis w') (lock_key dev') = peek (w_redis w2) (lock_key dev')" for dev'
    using k[of "lock_key dev'"] by (simp add: lock_key_def)
  have row: "session_of (w_db w') (si_sid inp) = Some Probing"
    using inserted_session[OF ins, THEN conjunct2, THEN conjunct2] by (simp add: session_of_def new_session_def)
  have "wp (fail_session ex (si_sid inp) dev ''device_unreachable'')
      (session_started peek sign cfg inp dev op entry ip w) (start_refused peek inp dev w) w'"
  proof (rule wp_fail)
    fix v :: "'r world" assume "w_db v = w_db w'" "peek (w_redis v) = peek (w_redis w')"
    then show "start_refused peek inp dev w PgError v"
      using row locks by (simp add: start_refused_def lock_held_def st2 lock_key_def)
  next
    fix v :: "'r world"
    assume "\<And>k. k \<noteq> key_string (KActiveSession dev) \<Longrightarrow> peek (w_redis v) k = peek (w_redis w') k"
    then show "start_refused peek inp dev w RedisError v"
      using locks by (simp add: start_refused_def st2 lock_key_def)
  next
    fix v :: "'r world" and now
    assume "w_db v = sql_failed (si_sid inp) ''device_unreachable'' now (w_db w')"
      "peek (w_redis v) = (peek (w_redis w'))(key_string (KActiveSession dev) := None)"
    then show "start_refused peek inp dev w (SessionFailed ''device_unreachable'' (si_sid inp)) v"
      using row locks by (auto simp: start_refused_def lock_free_def st2 lock_key_def session_of_def
        sql_failed_def update_sessions_def)
  qed
  then show "wp (case Unreachable of Started r \<Rightarrow> ret r | Unreachable \<Rightarrow> fail_session ex (si_sid inp) dev ''device_unreachable'')
      (session_started peek sign cfg inp dev op entry ip w) (start_refused peek inp dev w) w'" by simp
next
  fix w' :: "'r world" and now d node n
  assume c: "controllable (device_state_of (w_db w2) (peek (w_redis w2)) dev)"
    and ins: "sql_insert_session (si_sid inp) (new_session dev op entry ip now) (w_db w2) = Some ((), d)"
    and db: "w_db w' = sql_starting (si_sid inp) node d"
    and k: "\<And>k. k \<noteq> key_string (KProbeWait dev) \<Longrightarrow> k \<noteq> key_string (KSession (si_sid inp)) \<Longrightarrow>
       peek (w_redis w') k = peek (w_redis w2) k"
    and h: "session_hash (peek (w_redis w')) (si_sid inp) dev op node"
    and m: "w_mqtt w' = w_mqtt w2 @ replicate n (topic_cmd dev, cmd_msg ''probe'' []) @ [start_msg sign cfg inp dev node]"
  have "session_started peek sign cfg inp dev op entry ip w (start_reply sign cfg inp dev op node) w'"
    unfolding session_started_def
    using c inserted_session[OF ins] db k[of "lock_key dev"] h m acc rest2
    by (intro exI[of _ node] exI[of _ now] exI[of _ n])
      (simp add: st2 device_state_lock lock_held_def lock_key_def sql_starting_def
        update_sessions_def update_new_session)
  then show "wp (case Started (start_reply sign cfg inp dev op node) of Started r \<Rightarrow> ret r
        | Unreachable \<Rightarrow> fail_session ex (si_sid inp) dev ''device_unreachable'')
      (session_started peek sign cfg inp dev op entry ip w) (start_refused peek inp dev w) w'"
    by (simp add: wp_simps)
qed

lemma wp_start_free:
  fixes w :: "'r world"
  assumes free: "lock_free (peek (w_redis w)) dev"
  shows "wp (start ex sign cfg inp dev op entry ip)
    (session_started peek sign cfg inp dev op entry ip w) (start_refused peek inp dev w) w"
  unfolding start_def wp_simps
proof (rule wp_access)
  fix fs assume acc: "has_access (w_db w) op dev"
  let ?w1 = "w\<lparr>w_pgFaults := fs\<rparr>"
  let ?next = "\<lambda>occupied. if \<not> occupied
    then wp (reissueViewer ex sign cfg dev op (si_viewerJti inp)) (session_started peek sign cfg inp dev op entry ip w) (start_refused peek inp dev w)
    else wp (start_locked ex sign cfg inp dev op entry ip) (session_started peek sign cfg inp dev op entry ip w) (start_refused peek inp dev w)"
  show "wp (redis_setnx ex (key_string (KActiveSession dev)) (si_sid inp) TTL_session) ?next (start_refused peek inp dev w) ?w1"
  proof (rule wp_setnx)
    fix r assume "peek r = (peek (w_redis ?w1))(key_string (KActiveSession dev) \<mapsto> (RStr (si_sid inp), Some TTL_session))"
    then show "?next True (?w1\<lparr>w_redis := r\<rparr>)"
      by simp (rule wp_start_locked[OF free acc], simp_all add: lock_key_def)
  qed (use free in \<open>simp_all add: start_refused_def lock_free_def lock_key_def\<close>)
qed (use free in \<open>simp_all add: start_refused_def unchanged_def lock_free_def\<close>)

lemma wp_start_busy:
  fixes w :: "'r world"
  assumes busy: "\<not> lock_free (peek (w_redis w)) dev"
  shows "wp (start ex sign cfg inp dev op entry ip)
    (viewer_reissued peek sign dev op (si_viewerJti inp) w) (\<lambda>e w'. e = RedisError \<or> unchanged peek w w') w"
  unfolding start_def wp_simps
proof (rule wp_access)
  let ?Q = "viewer_reissued peek sign dev op (si_viewerJti inp) w"
  let ?E = "\<lambda>e w'. e = RedisError \<or> unchanged peek w w'"
  fix fs assume acc: "has_access (w_db w) op dev"
  show "wp (redis_setnx ex (key_string (KActiveSession dev)) (si_sid inp) TTL_session)
    (\<lambda>occupied. if \<not> occupied then wp (reissueViewer ex sign cfg dev op (si_viewerJti inp)) ?Q ?E
       else wp (start_locked ex sign cfg inp dev op entry ip) ?Q ?E) ?E (w\<lparr>w_pgFaults := fs\<rparr>)"
  proof (rule wp_setnx)
    fix r assume r: "peek r = peek (w_redis (w\<lparr>w_pgFaults := fs\<rparr>))"
    have "wp (reissueViewer ex sign cfg dev op (si_viewerJti inp)) ?Q ?E (w\<lparr>w_pgFaults := fs, w_redis := r\<rparr>)"
      by (rule wp_reissue) (use r acc in \<open>auto simp: viewer_reissued_def unchanged_def lock_key_def\<close>)
    then show "(if \<not> False then wp (reissueViewer ex sign cfg dev op (si_viewerJti inp)) ?Q ?E
       else wp (start_locked ex sign cfg inp dev op entry ip) ?Q ?E) (w\<lparr>w_pgFaults := fs, w_redis := r\<rparr>)"
      by simp
  qed (use busy in \<open>simp_all add: lock_free_def lock_key_def\<close>)
qed (simp_all add: unchanged_def)

lemma wp_close:
  assumes err: "\<And>w' e. (\<not> infra_error e \<longrightarrow> e = NotFound \<and> unchanged peek w w' \<and>
      (\<forall>r. map_of (tb_sessions (w_db w)) sid = Some r \<longrightarrow> ss_operatorId r \<noteq> op \<and>
         \<not> operator_is (w_db w) op (\<lambda>o'. op_role o' = ''admin''))) \<Longrightarrow> E e w'"
    and ok: "\<And>w' r. map_of (tb_sessions (w_db w)) sid = Some r \<Longrightarrow>
      ss_operatorId r = op \<or> operator_is (w_db w) op (\<lambda>o'. op_role o' = ''admin'') \<Longrightarrow>
      w_db w' = sql_close sid (w_now w) (w_db w) \<Longrightarrow>
      peek (w_redis w') = (\<lambda>k. if k = lock_key (ss_deviceId r) \<or> k = key_string (KSession sid) then None else peek (w_redis w) k) \<Longrightarrow>
      w_mqtt w' = w_mqtt w @ [(topic_cmd (ss_deviceId r), cmd_msg ''session.stop'' [(''sessionId'', JStr sid)])] \<Longrightarrow> Q () w'"
  shows "wp (close_session ex sid op) Q E w"
  unfolding close_session_def wp_simps
proof (rule wp_pg_read)
  fix fs
  let ?rest = "\<lambda>r. wp (pg_now (\<lambda>now d. Some ((), sql_close sid now d)))
      (\<lambda>_. wp (redis_do ex (Del [key_string (KActiveSession (ss_deviceId r)), key_string (KSession sid)]))
        (\<lambda>_. wp (publish (topic_cmd (ss_deviceId r)) (cmd_msg ''session.stop'' [(''sessionId'', JStr sid)])) Q E) E) E"
  have rest: "?rest r w1"
    if r: "map_of (tb_sessions (w_db w)) sid = Some r" "ss_operatorId r = op \<or> operator_is (w_db w) op (\<lambda>o'. op_role o' = ''admin'')"
      and w1: "w_db w1 = w_db w" "w_redis w1 = w_redis w" "w_mqtt w1 = w_mqtt w" "w_now w1 = w_now w" for r w1
  proof -
    have "wp (pg (\<lambda>d. Some ((), sql_close sid (w_now w) d)))
      (\<lambda>_. wp (redis_do ex (Del [key_string (KActiveSession (ss_deviceId r)), key_string (KSession sid)]))
        (\<lambda>_. wp (publish (topic_cmd (ss_deviceId r)) (cmd_msg ''session.stop'' [(''sessionId'', JStr sid)])) Q E) E) E w1"
      apply (rule wp_pg)
       apply (simp add: err)
      apply (rule wp_del)
       apply (simp add: err)
      apply (rule wp_publish)
       apply (simp add: err)
      apply (rule ok[OF r])
        apply (simp_all add: w1 fun_eq_iff lock_key_def)
      done
    then show ?thesis by (simp add: wp_def pg_now_def w1)
  qed
  show "(case map_of (tb_sessions (w_db w)) sid of None \<Rightarrow> E NotFound
      | Some r \<Rightarrow> (if ss_operatorId r \<noteq> op
          then wp (pg_read (\<lambda>d. operator_is d op (\<lambda>o'. op_role o' = ''admin'')))
            (\<lambda>admin. if admin then ?rest r else E NotFound) E
          else ?rest r)) (w\<lparr>w_pgFaults := fs\<rparr>)"
    by (auto split: option.split intro!: wp_pg_read rest err simp: unchanged_def)
qed (simp add: err)

end

section \<open>Properties\<close>

definition demo_cfg :: session_cfg where
  "demo_cfg = \<lparr>sc_hmdmBase = [], sc_relayNode = ''n1'', sc_wsScheme = ''ws'', sc_publicHost = ''h'', sc_agentTtl = 60\<rparr>"

definition demo_sign :: jwt_sign where
  "demo_sign claims opts = jo_audience opts"

definition demo_input :: "string \<Rightarrow> start_input" where
  "demo_input sid = \<lparr>si_sid = sid, si_agentJti = ''j1'', si_viewerJti = ''j2'', si_pushOk = True\<rparr>"

text \<open>An online device that has answered: the hash of its last heartbeat and a waiting probe reply are in Redis.\<close>

definition demo_online :: store where
  "demo_online = Map.empty(key_string (KDevice ''d1'') \<mapsto> (RHash [(''online'', ''1''), (''screenOn'', ''1''), (''charging'', ''1'')], None))"

text \<open>
  The relay node picked is a registered one, and no node reports a smaller load: its own load is
  minimal, or no node reports a load below infinity and the first one is taken.
\<close>

theorem picked_node_is_least_loaded:
  assumes "nodes \<noteq> []" "length loads = length nodes"
  shows "\<exists>i < length nodes. least_loaded nodes loads = nodes ! i \<and>
    ((\<forall>j < length nodes. \<not> num_lt (loads ! j) (loads ! i)) \<or> i = 0 \<and> (\<forall>j < length nodes. \<not> num_lt (loads ! j) PosInf))"
proof -
  let ?f = "fold (\<lambda>(n, l) (b, bl). if num_lt l bl then (n, l) else (b, bl)) (zip nodes loads) (hd nodes, PosInf)"
  define b bl where "b = fst ?f" and "bl = snd ?f"
  then have f: "(b, bl) = ?f" by simp
  have b: "least_loaded nodes loads = b" by (simp only: least_loaded_def b_def)
  note fold = least_loaded_fold[OF f]
  then have cases: "(b, bl) = (hd nodes, PosInf) \<or> (b, bl) \<in> set (zip nodes loads)" by blast
  have least: "\<not> num_lt (loads ! j) bl" if "j < length nodes" for j
  proof -
    have "(nodes ! j, loads ! j) \<in> set (zip nodes loads)" using that assms(2) by (auto simp: set_zip)
    with fold show ?thesis by blast
  qed
  from cases show ?thesis
  proof
    assume "(b, bl) = (hd nodes, PosInf)"
    then have "b = nodes ! 0" "bl = PosInf" using assms(1) by (simp_all add: hd_conv_nth)
    then show ?thesis using least assms(1) by (intro exI[of _ 0]) (simp add: b)
  next
    assume "(b, bl) \<in> set (zip nodes loads)"
    then obtain i where "i < length nodes" "b = nodes ! i" "bl = loads ! i" unfolding set_zip using assms(2) by auto
    then show ?thesis using least by (intro exI[of _ i]) (simp add: b)
  qed
qed

lemma picked_node_is_least_loaded_witness:
  "least_loaded [''a'', ''b''] [Fin 2, Fin 1] = ''b''"
proof -
  have "\<exists>i < length [''a'', ''b'']. least_loaded [''a'', ''b''] [Fin 2, Fin 1] = [''a'', ''b''] ! i \<and>
      ((\<forall>j < length [''a'', ''b'']. \<not> num_lt ([Fin 2, Fin 1] ! j) ([Fin 2, Fin 1] ! i)) \<or>
       i = 0 \<and> (\<forall>j < length [''a'', ''b'']. \<not> num_lt ([Fin 2, Fin 1] ! j) PosInf))"
    by (rule picked_node_is_least_loaded) simp_all
  then show ?thesis by (auto simp: less_Suc_eq)
qed

text \<open>
  C1 A start that succeeds on a free device: the operator has access, the device's tier is READY or
  DEGRADED, and afterwards the lock holds the new session id with its TTL, the session's hash names
  device, operator and node, exactly one new row was added, in state \<open>starting\<close> at that node, and the
  last of the messages, after the probes, tells this device to join with the agent token.
\<close>

theorem start_success:
  assumes "redis_service ex peek" "lock_free (peek (w_redis w)) dev"
    and "start ex sign cfg inp dev op entry ip w = (Inr res, w')"
  shows "\<exists>node now n. has_access (w_db w) op dev \<and>
    r_tier (computeReadiness (device_state_of (w_db w) (peek (w_redis w)) dev)) \<in> {READY, DEGRADED} \<and>
    res = start_reply sign cfg inp dev op node \<and>
    lock_held (peek (w_redis w')) dev (si_sid inp) \<and>
    session_hash (peek (w_redis w')) (si_sid inp) dev op node \<and>
    map_of (tb_sessions (w_db w)) (si_sid inp) = None \<and>
    w_db w' = w_db w\<lparr>tb_sessions := tb_sessions (w_db w) @
      [(si_sid inp, (new_session dev op entry ip now)\<lparr>ss_state := Starting, ss_relayNode := node\<rparr>)]\<rparr> \<and>
    w_mqtt w' = w_mqtt w @ replicate n (topic_cmd dev, cmd_msg ''probe'' []) @ [start_msg sign cfg inp dev node]"
  using wp_okD[OF redis_service.wp_start_free[OF assms(1,2)] assms(3)]
  unfolding session_started_def controllable_def .

lemma demo_free: "lock_free (snd (w_redis (demo_world demo_online))) ''d1''"
  by code_simp

lemma start_success_witness:
  "\<exists>res w'. start (answering mem_redis) demo_sign demo_cfg (demo_input ''s1'') ''d1'' 1 ''api'' None (demo_world demo_online) = (Inr res, w') \<and>
     lock_held (snd (w_redis w')) ''d1'' ''s1''"
proof -
  have "\<not> isl (fst (start (answering mem_redis) demo_sign demo_cfg (demo_input ''s1'') ''d1'' 1 ''api'' None (demo_world demo_online)))"
    by code_simp
  then obtain res w' where run: "start (answering mem_redis) demo_sign demo_cfg (demo_input ''s1'') ''d1'' 1 ''api'' None (demo_world demo_online) = (Inr res, w')"
    by (metis prod.collapse sum.collapse(2))
  have "lock_held (snd (w_redis w')) ''d1'' (si_sid (demo_input ''s1''))"
    using start_success[OF live.redis_service_axioms demo_free run] by blast
  with run show ?thesis by (auto simp: demo_input_def)
qed



text \<open>
  On a device whose lock is taken, a start changes nothing (a rejected Redis command apart): it
  throws, or returns the running session to the operator who owns it, with a new viewer token.
\<close>

theorem start_on_busy_device:
  assumes "redis_service ex peek" "\<not> lock_free (peek (w_redis w)) dev"
    and "start ex sign cfg inp dev op entry ip w = (r, w')"
  shows "case r of
      Inl e \<Rightarrow> e = RedisError \<or> unchanged peek w w'
    | Inr res \<Rightarrow> unchanged peek w w' \<and> has_access (w_db w) op dev \<and>
       (\<exists>t h node. peek (w_redis w) (lock_key dev) = Some (RStr (sr_sessionId res), t) \<and>
         hash_at (peek (w_redis w)) (key_string (KSession (sr_sessionId res))) = Some h \<and>
         map_of h ''operatorId'' = Some (int_string op) \<and> map_of h ''node'' = Some node \<and>
         sr_token res = viewer_token sign (sr_sessionId res) dev op node (si_viewerJti inp))"
proof (cases r)
  case (Inl e)
  then show ?thesis using wp_errD[OF redis_service.wp_start_busy[OF assms(1,2)]] assms(3) by simp
next
  case (Inr res)
  then show ?thesis using wp_okD[OF redis_service.wp_start_busy[OF assms(1,2)]] assms(3)
    by (simp add: viewer_reissued_def)
qed

definition demo_locked :: store where
  "demo_locked = demo_online(lock_key ''d1'' \<mapsto> (RStr ''s0'', Some 7200))"

lemma start_on_busy_device_witness:
  "\<exists>w'. start mem_redis demo_sign demo_cfg (demo_input ''s1'') ''d1'' 1 ''api'' None (demo_world demo_locked) =
     (Inl (Conflict ''DEVICE_BUSY''), w') \<and> unchanged snd (demo_world demo_locked) w'"
proof -
  have "fst (start mem_redis demo_sign demo_cfg (demo_input ''s1'') ''d1'' 1 ''api'' None (demo_world demo_locked)) =
      Inl (Conflict ''DEVICE_BUSY'')"
    by code_simp
  then obtain w' where run: "start mem_redis demo_sign demo_cfg (demo_input ''s1'') ''d1'' 1 ''api'' None (demo_world demo_locked) =
      (Inl (Conflict ''DEVICE_BUSY''), w')"
    by (metis prod.collapse)
  have "\<not> lock_free (snd (w_redis (demo_world demo_locked))) ''d1''" by code_simp
  from start_on_busy_device[OF mem.redis_service_axioms this run] run show ?thesis by simp
qed

text \<open>
  C4 Only the operator of a session or an admin closes it: a close that succeeds marks the session
  \<open>closed\<close> with the time of its end (a session already closed keeps its end), frees the device's lock and
  the session's hash, leaves every other key and session alone, and tells the device to stop; a close
  refused by anything but the services changes nothing.
\<close>

theorem close_session_contract:
  fixes ex :: "'r redis_exec"
  assumes R: "redis_service ex peek" and run: "close_session ex sid op w = (r, w')"
  shows "case r of
      Inl e \<Rightarrow> infra_error e \<or> e = NotFound \<and> unchanged peek w w'
    | Inr _ \<Rightarrow> (\<exists>row. map_of (tb_sessions (w_db w)) sid = Some row \<and>
        (ss_operatorId row = op \<or> operator_is (w_db w) op (\<lambda>o'. op_role o' = ''admin'')) \<and>
        map_of (tb_sessions (w_db w')) sid = Some (if ss_state row = Closed then row
          else row\<lparr>ss_state := Closed, ss_endedAt := Some (w_now w)\<rparr>) \<and>
        (\<forall>sid'. sid' \<noteq> sid \<longrightarrow> map_of (tb_sessions (w_db w')) sid' = map_of (tb_sessions (w_db w)) sid') \<and>
        lock_free (peek (w_redis w')) (ss_deviceId row) \<and> peek (w_redis w') (key_string (KSession sid)) = None \<and>
        (\<forall>k. k \<noteq> lock_key (ss_deviceId row) \<and> k \<noteq> key_string (KSession sid) \<longrightarrow> peek (w_redis w') k = peek (w_redis w) k) \<and>
        w_mqtt w' = w_mqtt w @ [(topic_cmd (ss_deviceId row), cmd_msg ''session.stop'' [(''sessionId'', JStr sid)])])"
  (is "case r of Inl e \<Rightarrow> ?err e w' | Inr _ \<Rightarrow> ?ok w'")
proof -
  have "wp (close_session ex sid op) (\<lambda>_. ?ok) ?err w"
  proof (rule redis_service.wp_close[OF R])
    fix v :: "'r world" and e
    assume "\<not> infra_error e \<longrightarrow> e = NotFound \<and> unchanged peek w v \<and>
      (\<forall>r. map_of (tb_sessions (w_db w)) sid = Some r \<longrightarrow> ss_operatorId r \<noteq> op \<and>
         \<not> operator_is (w_db w) op (\<lambda>o'. op_role o' = ''admin''))"
    then show "?err e v" by blast
  next
    fix v :: "'r world" and row
    assume "map_of (tb_sessions (w_db w)) sid = Some row" "w_db v = sql_close sid (w_now w) (w_db w)"
      "ss_operatorId row = op \<or> operator_is (w_db w) op (\<lambda>o'. op_role o' = ''admin'')"
      "peek (w_redis v) = (\<lambda>k. if k = lock_key (ss_deviceId row) \<or> k = key_string (KSession sid) then None else peek (w_redis w) k)"
      "w_mqtt v = w_mqtt w @ [(topic_cmd (ss_deviceId row), cmd_msg ''session.stop'' [(''sessionId'', JStr sid)])]"
    then show "?ok v"
      by (intro exI[of _ row]) (simp add: sql_close_def update_sessions_def lock_free_def option.map_ident_strong)
  qed
  then show ?thesis using run by (simp add: wp_def)
qed

definition demo_session :: "session_state \<Rightarrow> string \<times> session_row" where
  "demo_session st = (''s0'', (new_session ''d1'' 1 ''api'' None 0)\<lparr>ss_state := st\<rparr>)"

definition demo_running :: "store \<Rightarrow> session_state \<Rightarrow> mem world" where
  "demo_running st ss = (demo_world st)\<lparr>w_db := demo_db\<lparr>tb_sessions := [demo_session ss]\<rparr>\<rparr>"

lemma close_session_contract_witness:
  "\<exists>w'. close_session mem_redis ''s0'' 1 (demo_running demo_locked Active) = (Inr (), w') \<and>
     session_of (w_db w') ''s0'' = Some Closed"
proof -
  have "fst (close_session mem_redis ''s0'' 1 (demo_running demo_locked Active)) = Inr ()"
    by code_simp
  then obtain w' where run: "close_session mem_redis ''s0'' 1 (demo_running demo_locked Active) = (Inr (), w')"
    by (metis prod.collapse)
  from close_session_contract[OF mem.redis_service_axioms run]
  have "session_of (w_db w') ''s0'' = Some Closed"
    by (auto simp: demo_running_def demo_session_def new_session_def session_of_def)
  with run show ?thesis by blast
qed

lemma int_string_inj: "\<bar>i\<bar> < 2 ^ 1000 \<Longrightarrow> \<bar>j\<bar> < 2 ^ 1000 \<Longrightarrow> int_string i = int_string j \<Longrightarrow> i = j"
  unfolding int_string_def
  by (metis is_double_of_int jsnum.inject of_int_eq_iff to_number_num_to_string)



text \<open>
  The lock can outlive its session: \<open>return this.fail(..)\<close> is not awaited inside the \<open>try\<close>, so when
  the statement that marks the unreachable session fails, no handler releases the lock, and the device
  stays busy for the two hours of its TTL while the session row stays \<open>probing\<close>.
\<close>

theorem unreachable_start_can_keep_lock:
  "\<exists>w'. start mem_redis demo_sign demo_cfg (demo_input ''s1'') ''d1'' 1 ''api'' None
        ((demo_world demo_online)\<lparr>w_pgFaults := [False, False, False, True]\<rparr>) = (Inl PgError, w') \<and>
     lock_held (snd (w_redis w')) ''d1'' ''s1'' \<and> session_of (w_db w') ''s1'' = Some Probing"
proof -
  let ?r = "start mem_redis demo_sign demo_cfg (demo_input ''s1'') ''d1'' 1 ''api'' None
    ((demo_world demo_online)\<lparr>w_pgFaults := [False, False, False, True]\<rparr>)"
  have "fst ?r = Inl PgError" by code_simp
  moreover have "lock_held (snd (w_redis (snd ?r))) ''d1'' ''s1''" unfolding lock_held_def by code_simp
  moreover have "session_of (w_db (snd ?r)) ''s1'' = Some Probing" by code_simp
  ultimately show ?thesis by (metis prod.collapse)
qed

text \<open>
  Closing a session releases the device's lock even when another session holds it: closing an old
  session that failed frees the lock of the running one, and the next start is not refused.
\<close>

theorem close_releases_foreign_lock:
  "\<exists>w'. close_session mem_redis ''s0'' 1 (demo_running (demo_online(lock_key ''d1'' \<mapsto> (RStr ''s9'', Some 7200))) Failed) = (Inr (), w') \<and>
     lock_free (snd (w_redis w')) ''d1''"
proof -
  let ?r = "close_session mem_redis ''s0'' 1 (demo_running (demo_online(lock_key ''d1'' \<mapsto> (RStr ''s9'', Some 7200))) Failed)"
  have "fst ?r = Inr ()" "lock_free (snd (w_redis (snd ?r))) ''d1''" by code_simp+
  then show ?thesis by (metis prod.collapse)
qed

end
