(* ===== verification/Frames.thy ===== *)
theory Frames
  imports World
begin

text \<open>
  What a handler may touch. \<open>frame peek v K T m\<close> says that \<open>m\<close>, whether it returns or throws, keeps
  the view \<open>v\<close> of the tables, writes no Redis key outside \<open>K\<close>, publishes at most to the topics
  \<open>T\<close>, and leaves the clock alone. The rules follow the combinators; a handler's frame is one
  application of them over its calls.
\<close>

named_theorems frame_intros \<open>frames of the combinators and of the handlers\<close>


section \<open>Combinators\<close>

text \<open>Any preorder on states is kept by a composition of parts that keep it.\<close>

definition kept_by :: "('w \<Rightarrow> 'w \<Rightarrow> bool) \<Rightarrow> ('w, 'e, 'a) prog \<Rightarrow> bool" where
  "kept_by R m \<longleftrightarrow> (\<forall>w. R w (snd (m w)))"

lemma kept_byD: "kept_by R m \<Longrightarrow> m w = (r, w') \<Longrightarrow> R w w'"
  unfolding kept_by_def by (drule spec[of _ w]) simp

lemma kept_by_mono: "kept_by R m \<Longrightarrow> (\<And>w w'. R w w' \<Longrightarrow> S w w') \<Longrightarrow> kept_by S m"
  by (simp add: kept_by_def)

lemma kept_by_if [frame_intros]: "(b \<Longrightarrow> kept_by R m) \<Longrightarrow> (\<not> b \<Longrightarrow> kept_by R n) \<Longrightarrow> kept_by R (if b then m else n)"
  by simp

lemma kept_by_option [frame_intros]:
  "kept_by R m \<Longrightarrow> (\<And>a. x = Some a \<Longrightarrow> kept_by R (f a)) \<Longrightarrow> kept_by R (case x of None \<Rightarrow> m | Some a \<Rightarrow> f a)"
  by (cases x) simp_all

lemma kept_by_prod [frame_intros]: "(\<And>a b. p = (a, b) \<Longrightarrow> kept_by R (f a b)) \<Longrightarrow> kept_by R (case p of (a, b) \<Rightarrow> f a b)"
  by (cases p) simp

lemma kept_by_let [frame_intros]: "(\<And>x. x = a \<Longrightarrow> kept_by R (m x)) \<Longrightarrow> kept_by R (let x = a in m x)"
  by simp

lemma kept_by_array [frame_intros]:
  "(\<And>xs. x = Some (JArr xs) \<Longrightarrow> kept_by R (f xs)) \<Longrightarrow> kept_by R m \<Longrightarrow>
   kept_by R (case x of Some (JArr xs) \<Rightarrow> f xs | _ \<Rightarrow> m)"
  by (cases x) (simp_all split: json.split)

locale effect_order =
  fixes R :: "'w \<Rightarrow> 'w \<Rightarrow> bool"
  assumes refl: "R w w"
    and trans: "R w w' \<Longrightarrow> R w' w'' \<Longrightarrow> R w w''"
begin

lemma ret [frame_intros]: "kept_by R (ret a)"
  and raise [frame_intros]: "kept_by R (raise e)"
  and gets [frame_intros]: "kept_by R (gets f)"
  by (simp_all add: kept_by_def prog_defs refl)

lemma after:
  assumes "kept_by R m" "\<And>r. kept_by R (\<lambda>w. f r w)" "\<And>w r w'. m w = (r, w') \<Longrightarrow> snd (n w) = w' \<or> snd (n w) = snd (f r w')"
  shows "kept_by R n"
  unfolding kept_by_def
proof
  fix w
  obtain r w' where r: "m w = (r, w')" by force
  have a: "R w w'" by (rule kept_byD[OF assms(1) r])
  have b: "R w' (snd (f r w'))" using assms(2) by (simp add: kept_by_def)
  from assms(3)[OF r] show "R w (snd (n w))" using a trans[OF a b] by auto
qed

lemma bind [frame_intros]: "kept_by R m \<Longrightarrow> (\<And>a. kept_by R (f a)) \<Longrightarrow> kept_by R (bindE m f)"
  by (rule after[of m "\<lambda>r. case r of Inl e \<Rightarrow> raise e | Inr a \<Rightarrow> f a"])
    (auto simp: bindE_def raise split: sum.split)

lemma catch [frame_intros]: "kept_by R m \<Longrightarrow> (\<And>e. kept_by R (h e)) \<Longrightarrow> kept_by R (catchE m h)"
  by (rule after[of m "\<lambda>r. case r of Inl e \<Rightarrow> h e | Inr a \<Rightarrow> ret a"])
    (auto simp: catchE_def ret split: sum.split)

lemma try_finally [frame_intros]: "kept_by R m \<Longrightarrow> kept_by R n \<Longrightarrow> kept_by R (finallyE m n)"
  by (rule after[of m "\<lambda>r. n"]) (auto simp: finallyE_def split: sum.split prod.split)

lemma andThen [frame_intros]: "kept_by R m \<Longrightarrow> kept_by R n \<Longrightarrow> kept_by R (thenE m n)"
  unfolding thenE_def by (rule bind)

lemma when_true [frame_intros]: "(b \<Longrightarrow> kept_by R m) \<Longrightarrow> kept_by R (whenE b m)"
  by (cases b) (simp_all add: whenE_def ret)

lemma each [frame_intros]: "(\<And>x. kept_by R (f x)) \<Longrightarrow> kept_by R (eachE f xs)"
  by (induction xs) (simp_all add: bind ret)

end

section \<open>The frame of a handler\<close>

definition stays :: "('r \<Rightarrow> store) \<Rightarrow> (db \<Rightarrow> 'v) \<Rightarrow> string set \<Rightarrow> string set \<Rightarrow> 'r world \<Rightarrow> 'r world \<Rightarrow> bool" where
  "stays peek v K T w w' \<longleftrightarrow> v (w_db w') = v (w_db w) \<and> w_now w' = w_now w \<and>
     (\<forall>k. k \<notin> K \<longrightarrow> peek (w_redis w') k = peek (w_redis w) k) \<and>
     (\<exists>ms. w_mqtt w' = w_mqtt w @ ms \<and> fst ` set ms \<subseteq> T)"

lemma stays_refl [simp]: "stays peek v K T w w"
  by (simp add: stays_def)

lemma stays_trans:
  assumes "stays peek v K T w w'" "stays peek v K T w' w''"
  shows "stays peek v K T w w''"
proof -
  obtain a b where "w_mqtt w' = w_mqtt w @ a" "w_mqtt w'' = w_mqtt w' @ b" "fst ` set a \<subseteq> T" "fst ` set b \<subseteq> T"
    using assms by (auto simp: stays_def)
  then have m: "\<exists>ms. w_mqtt w'' = w_mqtt w @ ms \<and> fst ` set ms \<subseteq> T"
    by (intro exI[of _ "a @ b"]) (auto simp: image_Un)
  have "v (w_db w'') = v (w_db w)" "w_now w'' = w_now w"
    "\<forall>k. k \<notin> K \<longrightarrow> peek (w_redis w'') k = peek (w_redis w) k"
    using assms by (simp_all add: stays_def)
  with m show ?thesis by (simp add: stays_def)
qed

lemma stays_mono: "stays peek v K T w w' \<Longrightarrow> K \<subseteq> K' \<Longrightarrow> T \<subseteq> T' \<Longrightarrow> stays peek v K' T' w w'"
  unfolding stays_def by (elim conjE exE, intro conjI) (simp, simp, blast, blast)

interpretation world_order: effect_order "stays peek v K T" for peek v K T
  by unfold_locales (simp, rule stays_trans)

abbreviation frame :: "('r \<Rightarrow> store) \<Rightarrow> (db \<Rightarrow> 'v) \<Rightarrow> string set \<Rightarrow> string set \<Rightarrow> ('r, 'a) handler \<Rightarrow> bool" where
  "frame peek v K T m \<equiv> kept_by (stays peek v K T) m"

lemma frame_mono: "frame peek v K T m \<Longrightarrow> K \<subseteq> K' \<Longrightarrow> T \<subseteq> T' \<Longrightarrow> frame peek v K' T' m"
  by (blast intro: kept_by_mono stays_mono)

section \<open>Calls\<close>

lemma frame_pg:
  assumes "\<And>d a e. q d = Some (a, e) \<Longrightarrow> v e = v d"
  shows "frame peek v K T (pg q)"
  using assms by (auto simp: kept_by_def stays_def pg_def Let_def split: list.split bool.split option.split)

lemma frame_read [frame_intros]: "frame peek v K T (pg_read f)"
  unfolding pg_read_def by (rule frame_pg) simp

lemma frame_write: "(\<And>d. v (f d) = v d) \<Longrightarrow> frame peek v K T (pg_write f)"
  unfolding pg_write_def by (rule frame_pg) auto

lemma frame_publish [frame_intros]: "t \<in> T \<Longrightarrow> frame peek v K T (publish t j)"
  by (auto simp: kept_by_def stays_def publish_def split: list.split bool.split)

context redis_service
begin

lemma frame_redis: "set (cmd_writes c) \<subseteq> K \<Longrightarrow> Frames.frame peek v K T (redis ex c)"
proof -
  assume K: "set (cmd_writes c) \<subseteq> K"
  have "stays peek v K T w (snd (redis ex c w))" for w
  proof -
    obtain rep r where e: "ex c (w_redis w) = (rep, r)" by force
    have "peek r k = peek (w_redis w) k" if "k \<notin> K" for k
      using frame[of k c "w_redis w"] K that e by auto
    then show ?thesis by (simp add: stays_def redis_def e split: option.split)
  qed
  then show ?thesis by (simp add: kept_by_def)
qed

lemma frame_calls:
  "set (cmd_writes c) \<subseteq> K \<Longrightarrow> Frames.frame peek v K T (redis_do ex c)"
  "set (cmd_writes c) \<subseteq> K \<Longrightarrow> Frames.frame peek v K T (redis_int ex c)"
  "k \<in> K \<Longrightarrow> Frames.frame peek v K T (redis_setnx ex k x t)"
  "Frames.frame peek v K T (redis_get ex k)"
  "Frames.frame peek v K T (redis_hget ex k f)"
  "Frames.frame peek v K T (redis_hgetall ex k)"
  "Frames.frame peek v K T (redis_smembers ex k)"
  "k \<in> K \<Longrightarrow> Frames.frame peek v K T (redis_brpop ex k t)"
  unfolding redis_do_def redis_int_def redis_setnx_def redis_get_def redis_hget_def redis_hgetall_def
    redis_smembers_def redis_brpop_def
  by (intro frame_intros frame_redis; simp add: cmd_writes_def)+

end

end
