(* ===== verification/Lifecycle.thy ===== *)
theory Lifecycle
  imports Frames
begin

text \<open>
  The life of a session as the services together promise it: an automaton on the phases of one
  session id. \<open>Relay\<close> and \<open>System\<close> show that the code follows it.
\<close>

section \<open>The automaton\<close>

text \<open>
  \<open>Live b st\<close> has a row in state \<open>st\<close>, \<open>Gone b\<close> has none any more; \<open>b\<close> tells that the call that
  started the session has not returned yet.
\<close>

datatype phase = Unused | Live bool session_state | Gone bool

inductive session_step :: "phase \<Rightarrow> phase \<Rightarrow> bool" where
  requested: "session_step Unused (Live True Probing)"
| refused: "session_step Unused (Gone False)"
| announced: "session_step (Live True st) (Live False Starting)"
| unreachable: "session_step (Live True st) (Live False Failed)"
| aborted: "session_step (Live True st) (Live False st)"
| forgotten: "session_step (Gone True) (Gone False)"
| joined: "st \<in> {Probing, Starting} \<Longrightarrow> session_step (Live b st) (Live b Active)"
| ended: "st \<noteq> Closed \<Longrightarrow> session_step (Live b st) (Live b Closed)"
| removed: "session_step (Live b st) (Gone b)"

inductive_cases step_from: "session_step (Live b st) p" "session_step (Gone b) p" "session_step Unused p"

abbreviation session_steps :: "phase \<Rightarrow> phase \<Rightarrow> bool" where
  "session_steps \<equiv> session_step\<^sup>*\<^sup>*"

definition phase_of :: "bool \<Rightarrow> bool \<Rightarrow> session_state option \<Rightarrow> phase" where
  "phase_of used starting st = (if \<not> used then Unused else case st of None \<Rightarrow> Gone starting | Some x \<Rightarrow> Live starting x)"

text \<open>A set of phases that no step leaves is not left.\<close>

lemma closed_under_steps:
  assumes "session_steps p q" "p \<in> A" "\<And>p q. p \<in> A \<Longrightarrow> session_step p q \<Longrightarrow> q \<in> A"
  shows "q \<in> A"
  using assms(1,2) by (induction rule: rtranclp_induct) (auto intro: assms(3))

lemma closed_is_final: "session_steps (Live False Closed) q \<Longrightarrow> q \<in> {Live False Closed, Gone False}"
  by (erule closed_under_steps) (auto elim: step_from)

lemma failed_is_final: "session_steps (Live False Failed) q \<Longrightarrow> q \<in> {Live False Failed, Live False Closed, Gone False}"
  by (erule closed_under_steps) (auto elim: step_from)

lemma gone_is_final: "session_steps (Gone False) q \<Longrightarrow> q = Gone False"
  using closed_under_steps[of "Gone False" q "{Gone False}"] by (auto elim: step_from)

section \<open>What a handler does to the rows\<close>

definition status :: "db \<Rightarrow> string \<Rightarrow> session_state option" where
  "status d sid = map_option ss_state (map_of (tb_sessions d) sid)"

text \<open>The moves of everything but the call that starts the session: a preorder.\<close>

definition allowed :: "session_state option \<Rightarrow> session_state option \<Rightarrow> bool" where
  "allowed x y \<longleftrightarrow> x = y \<or> x \<noteq> None \<and>
     (y = None \<or> y = Some Closed \<or> y = Some Active \<and> x \<in> {Some Probing, Some Starting})"

text \<open>The id is the primary key of the table.\<close>

definition unique :: "db \<Rightarrow> bool" where
  "unique d \<longleftrightarrow> distinct (map fst (tb_sessions d))"

definition moved :: "db \<Rightarrow> db \<Rightarrow> bool" where
  "moved d e \<longleftrightarrow> (unique d \<longrightarrow> unique e \<and> (\<forall>sid. allowed (status d sid) (status e sid)))"

lemma allowed_refl [simp]: "allowed x x"
  by (simp add: allowed_def)

lemma allowed_trans: "allowed x y \<Longrightarrow> allowed y z \<Longrightarrow> allowed x z"
  by (auto simp: allowed_def)

lemma moved_refl [simp]: "moved d d"
  by (simp add: moved_def)

lemma moved_trans: "moved d e \<Longrightarrow> moved e f \<Longrightarrow> moved d f"
  unfolding moved_def by (blast intro: allowed_trans)

lemma moved_same: "tb_sessions e = tb_sessions d \<Longrightarrow> moved d e"
  by (simp add: moved_def status_def unique_def)

lemma allowed_steps: "allowed x y \<Longrightarrow> session_steps (phase_of True b x) (phase_of True b y)"
proof (cases "x = y")
  case False
  assume "allowed x y"
  with False obtain st where x: "x = Some st" and "y = None \<or> y = Some Closed \<or> y = Some Active \<and> st \<in> {Probing, Starting}"
    by (auto simp: allowed_def)
  with False show ?thesis
    by (elim disjE) (auto simp: phase_of_def intro!: r_into_rtranclp removed joined ended)
qed simp

text \<open>A call that starts a session adds the row, if none is there, and later marks it.\<close>

definition only_inserts :: "string \<Rightarrow> db \<Rightarrow> db \<Rightarrow> bool" where
  "only_inserts sid d e \<longleftrightarrow> (unique d \<longrightarrow> unique e \<and>
     (\<forall>k. status e k = status d k \<or> k = sid \<and> status d k = None \<and> status e k = Some Probing))"

definition only_marks :: "string \<Rightarrow> db \<Rightarrow> db \<Rightarrow> bool" where
  "only_marks sid d e \<longleftrightarrow> (unique d \<longrightarrow> unique e \<and> (\<forall>k. status e k = status d k \<or>
     k = sid \<and> status d k \<noteq> None \<and> status e k \<in> {Some Starting, Some Failed}))"

lemma only_inserts_trans: "only_inserts sid d e \<Longrightarrow> only_inserts sid e f \<Longrightarrow> only_inserts sid d f"
  unfolding only_inserts_def by (metis option.distinct(1))

lemma only_marks_trans: "only_marks sid d e \<Longrightarrow> only_marks sid e f \<Longrightarrow> only_marks sid d f"
  unfolding only_marks_def by metis

text \<open>The same relations on worlds.\<close>

definition on_db :: "(db \<Rightarrow> db \<Rightarrow> bool) \<Rightarrow> 'r world \<Rightarrow> 'r world \<Rightarrow> bool" where
  "on_db R w w' \<longleftrightarrow> R (w_db w) (w_db w')"

locale db_order =
  fixes R :: "db \<Rightarrow> db \<Rightarrow> bool"
  assumes same: "tb_sessions e = tb_sessions d \<Longrightarrow> R d e"
    and trans: "R d e \<Longrightarrow> R e f \<Longrightarrow> R d f"

sublocale db_order \<subseteq> effects: effect_order "on_db R"
proof
  show "on_db R w w" for w by (simp add: on_db_def same)
  show "on_db R w w''" if "on_db R w w'" "on_db R w' w''" for w w' w''
    using that trans unfolding on_db_def by blast
qed

context db_order
begin

lemma of_redis: "kept_by (on_db R) (redis ex c)"
  by (auto simp: kept_by_def on_db_def redis_def same split: prod.split option.split)

lemma of_frame: "frame peek tb_sessions K T m \<Longrightarrow> kept_by (on_db R) m"
  by (erule kept_by_mono) (simp add: on_db_def stays_def same)

lemma of_pg: "(\<And>d a e. q d = Some (a, e) \<Longrightarrow> R d e) \<Longrightarrow> kept_by (on_db R) (pg q)"
  by (auto simp: kept_by_def on_db_def pg_def Let_def same split: list.split bool.split option.split)

lemma of_read [frame_intros]: "kept_by (on_db R) (pg_read f)"
  unfolding pg_read_def by (rule of_pg) (simp add: same)

lemma of_write: "(\<And>d. R d (f d)) \<Longrightarrow> kept_by (on_db R) (pg_write f)"
  unfolding pg_write_def by (rule of_pg) auto

lemma of_publish [frame_intros]: "kept_by (on_db R) (publish t j)"
  by (auto simp: kept_by_def on_db_def publish_def same split: list.split bool.split)

lemma of_calls [frame_intros]:
  "kept_by (on_db R) (redis_do ex c)" "kept_by (on_db R) (redis_int ex c)"
  "kept_by (on_db R) (redis_setnx ex k x t)" "kept_by (on_db R) (redis_get ex k)"
  "kept_by (on_db R) (redis_hget ex k f)" "kept_by (on_db R) (redis_hgetall ex k)"
  "kept_by (on_db R) (redis_smembers ex k)" "kept_by (on_db R) (redis_brpop ex k t)"
  unfolding redis_do_def redis_int_def redis_setnx_def redis_get_def redis_hget_def redis_hgetall_def
    redis_smembers_def redis_brpop_def
  by (intro frame_intros of_redis)+

lemma of_eq: "tb_sessions (w_db w') = tb_sessions (w_db w) \<Longrightarrow> on_db R w w'"
  by (simp add: on_db_def same)

end

interpretation moves: db_order moved
  by unfold_locales (simp add: moved_same, rule moved_trans)

interpretation inserts: db_order "only_inserts sid" for sid
  by unfold_locales (simp add: only_inserts_def status_def unique_def, rule only_inserts_trans)

interpretation marks: db_order "only_marks sid" for sid
  by unfold_locales (simp add: only_marks_def status_def unique_def, rule only_marks_trans)

end
