(* ===== verification/Relay.thy ===== *)
theory Relay
  imports Sessions Lifecycle "HOL-Library.Word"
begin

text \<open>
  \<open>apps/rc-relay/src/relay.server.ts\<close>: the relay joins the agent's and the viewer's WebSocket of a
  session and forwards frames between them. Session objects live in a heap (sockets keep a
  reference in their handlers after the session left the table), the \<open>Map\<close> of sessions is an
  insertion-ordered list, and the callbacks of the server are the events of a step relation.
\<close>

section \<open>State\<close>

type_synonym bytes = "8 word list"
type_synonym sock = nat

datatype role = Agent | Viewer

text \<open>What is sent: a JSON text of the relay, or a forwarded payload with its binary flag.\<close>

datatype frame = Text string | Payload bool bytes

record relay_session =
  rs_id :: string
  rs_deviceId :: string
  rs_operatorId :: int
  rs_agent :: "sock option"
  rs_viewer :: "sock option"
  rs_codec :: "bytes option"
  rs_bytesOut :: nat
  rs_inputEvents :: nat
  rs_lastActivity :: int
  rs_timer :: "nat option"

text \<open>
  \<open>rl_open\<close> are the sockets in state \<open>OPEN\<close>; \<open>rl_att\<close> maps a socket to the role and session its
  handlers were registered with, until its \<open>close\<close> event; \<open>rl_timers\<close> are the pending timeouts;
  \<open>rl_pending\<close> are the
  accepted connections whose \<open>onConnection\<close> has not run to its end, and
  \<open>rl_sent\<close> is the log of frames sent. A rejected promise nobody handles ends the process.
\<close>

record 'r relay =
  rl_node :: string
  rl_heap :: "relay_session list"
  rl_map :: "(string \<times> nat) list"
  rl_open :: "sock list"
  rl_att :: "(sock \<times> role \<times> nat) list"
  rl_timers :: "(nat \<times> nat) list"
  rl_nextTimer :: nat
  rl_nextSock :: sock
  rl_pending :: "sock list"
  rl_sent :: "(sock \<times> frame) list"
  rl_crashed :: bool
  rl_world :: "'r world"

definition IDLE_MS :: int where "IDLE_MS = 600000"
definition BACKPRESSURE_BYTES :: nat where "BACKPRESSURE_BYTES = 1000000"
definition VIEWER_GONE_MS :: int where "VIEWER_GONE_MS = 1500"
definition TTL_tokenUsed :: int where "TTL_tokenUsed = 120"
definition TTL_relayLoad :: int where "TTL_relayLoad = 30"

definition upd_sess :: "nat \<Rightarrow> (relay_session \<Rightarrow> relay_session) \<Rightarrow> 'r relay \<Rightarrow> 'r relay" where
  "upd_sess i f s = s\<lparr>rl_heap := (rl_heap s)[i := f (rl_heap s ! i)]\<rparr>"

definition is_open :: "'r relay \<Rightarrow> sock option \<Rightarrow> bool" where
  "is_open s x = (case x of None \<Rightarrow> False | Some k \<Rightarrow> k \<in> set (rl_open s))"

text \<open>\<open>ws.send\<close> on a socket that is not open is dropped.\<close>

definition send :: "sock \<Rightarrow> frame \<Rightarrow> 'r relay \<Rightarrow> 'r relay" where
  "send k f s = (if k \<in> set (rl_open s) then s\<lparr>rl_sent := rl_sent s @ [(k, f)]\<rparr> else s)"

definition send_opt :: "sock option \<Rightarrow> frame \<Rightarrow> 'r relay \<Rightarrow> 'r relay" where
  "send_opt x f s = (case x of None \<Rightarrow> s | Some k \<Rightarrow> send k f s)"

definition close_ws :: "sock option \<Rightarrow> 'r relay \<Rightarrow> 'r relay" where
  "close_ws x s = (case x of None \<Rightarrow> s | Some k \<Rightarrow> s\<lparr>rl_open := removeAll k (rl_open s)\<rparr>)"

text \<open>\<open>void promise\<close>: a rejection is unhandled. With \<open>.catch\<close> it is only logged.\<close>

definition detach :: "('r, 'a) handler \<Rightarrow> 'r relay \<Rightarrow> 'r relay" where
  "detach m s = (case m (rl_world s) of
      (Inl _, w) \<Rightarrow> s\<lparr>rl_world := w, rl_crashed := True\<rparr> | (Inr _, w) \<Rightarrow> s\<lparr>rl_world := w\<rparr>)"

definition quiet :: "('r, 'a) handler \<Rightarrow> 'r relay \<Rightarrow> 'r relay" where
  "quiet m s = s\<lparr>rl_world := snd (m (rl_world s))\<rparr>"

definition msg_text :: "(string \<times> json) list \<Rightarrow> frame" where
  "msg_text fs = Text (json_stringify (JObj fs))"

definition viewer_join_msg :: frame where
  "viewer_join_msg = msg_text [(''t'', JStr ''viewer.join'')]"

definition quality_msg :: frame where
  "quality_msg = msg_text [(''t'', JStr ''quality''), (''bitrate'', JNum (Fin 600000))]"

text \<open>\<open>packages/shared/src/relay-join.ts\<close>\<close>

definition shouldSendViewerJoin :: "role \<Rightarrow> bool \<Rightarrow> bool" where
  "shouldSendViewerJoin peer otherOpen = otherOpen"

section \<open>The session table\<close>

definition getOrCreate :: "string \<Rightarrow> string \<Rightarrow> int \<Rightarrow> 'r relay \<Rightarrow> nat \<times> 'r relay" where
  "getOrCreate sid dev op s = (case map_of (rl_map s) sid of
      Some i \<Rightarrow> (i, s)
    | None \<Rightarrow> (length (rl_heap s),
        s\<lparr>rl_heap := rl_heap s @ [\<lparr>rs_id = sid, rs_deviceId = dev, rs_operatorId = op, rs_agent = None,
            rs_viewer = None, rs_codec = None, rs_bytesOut = 0, rs_inputEvents = 0,
            rs_lastActivity = w_now (rl_world s), rs_timer = None\<rparr>],
          rl_map := rl_map s @ [(sid, length (rl_heap s))]\<rparr>))"

definition sql_mark_active :: "string \<Rightarrow> int \<Rightarrow> db \<Rightarrow> db" where
  "sql_mark_active sid now = update_sessions (\<lambda>k r. k = sid \<and> ss_state r \<in> {Probing, Starting})
     (\<lambda>r. r\<lparr>ss_state := Active,
        ss_connectedAt := (case ss_connectedAt r of None \<Rightarrow> Some now | Some t \<Rightarrow> Some t)\<rparr>)"

definition sql_relay_closed :: "string \<Rightarrow> string \<Rightarrow> nat \<Rightarrow> nat \<Rightarrow> int \<Rightarrow> db \<Rightarrow> db" where
  "sql_relay_closed sid reason bytes inputs now =
     update_sessions (\<lambda>k r. k = sid \<and> ss_state r \<in> {Probing, Starting, Active})
       (\<lambda>r. r\<lparr>ss_state := Closed, ss_endedAt := Some now, ss_failReason := Some reason,
          ss_bytesOut := bytes, ss_inputEvents := inputs\<rparr>)"

definition markActive :: "nat \<Rightarrow> 'r relay \<Rightarrow> 'r relay" where
  "markActive i s = (let x = rl_heap s ! i in
     if \<not> is_open s (rs_agent x) \<or> \<not> is_open s (rs_viewer x) then s
     else quiet (pg_now (\<lambda>now d. Some ((), sql_mark_active (rs_id x) now d))) s)"

definition clear_timer :: "nat \<Rightarrow> 'r relay \<Rightarrow> 'r relay" where
  "clear_timer i s = (case rs_timer (rl_heap s ! i) of
      None \<Rightarrow> s
    | Some h \<Rightarrow> upd_sess i (\<lambda>x. x\<lparr>rs_timer := None\<rparr>) (s\<lparr>rl_timers := filter (\<lambda>p. fst p \<noteq> h) (rl_timers s)\<rparr>))"

definition closeSession :: "'r redis_exec \<Rightarrow> nat \<Rightarrow> string \<Rightarrow> 'r relay \<Rightarrow> 'r relay" where
  "closeSession ex i reason s =
     (let s = clear_timer i s; x = rl_heap s ! i;
          s = close_ws (rs_viewer x) (close_ws (rs_agent x) s);
          s = s\<lparr>rl_map := filter (\<lambda>p. fst p \<noteq> rs_id x) (rl_map s)\<rparr>;
          toDel = key_string (KSession (rs_id x)) #
            (if rs_deviceId x \<noteq> [] then [key_string (KActiveSession (rs_deviceId x))] else []);
          s = detach (redis_do ex (Del toDel)) s
      in detach (pg_now (\<lambda>now d. Some ((), sql_relay_closed (rs_id x) reason (rs_bytesOut x) (rs_inputEvents x) now d))) s)"

section \<open>Messages\<close>

definition frame_type :: "bytes \<Rightarrow> 8 word option" where
  "frame_type data = (case data of [] \<Rightarrow> None | b # _ \<Rightarrow> Some b)"

definition is_binary :: "bytes \<Rightarrow> bool \<Rightarrow> bool" where
  "is_binary data flag = (flag \<or> frame_type data \<in> {Some 1, Some 2, Some 3, Some 4})"

text \<open>(The diagnostics the agent sends as text are only logged on the way.)\<close>

definition onAgentMessage :: "nat \<Rightarrow> bytes \<Rightarrow> bool \<Rightarrow> 'r relay \<Rightarrow> 'r relay" where
  "onAgentMessage i data flag s =
     (let binary = is_binary data flag;
          s = (if binary then upd_sess i (\<lambda>x. x\<lparr>rs_codec := (if frame_type data = Some 1 then Some data else rs_codec x),
                 rs_bytesOut := rs_bytesOut x + length data\<rparr>) s else s);
          v = rs_viewer (rl_heap s ! i);
          s = (if is_open s v then send_opt v (Payload binary data) s else s)
      in upd_sess i (\<lambda>x. x\<lparr>rs_lastActivity := w_now (rl_world s)\<rparr>) s)"

definition onViewerMessage :: "nat \<Rightarrow> bytes \<Rightarrow> bool \<Rightarrow> 'r relay \<Rightarrow> 'r relay" where
  "onViewerMessage i data flag s =
     (let s = upd_sess i (\<lambda>x. x\<lparr>rs_inputEvents := rs_inputEvents x + 1\<rparr>) s;
          a = rs_agent (rl_heap s ! i);
          s = (if is_open s a then send_opt a (Payload flag data) s else s)
      in upd_sess i (\<lambda>x. x\<lparr>rs_lastActivity := w_now (rl_world s)\<rparr>) s)"

section \<open>Joining\<close>

definition onAgentJoin :: "nat \<Rightarrow> sock \<Rightarrow> string \<Rightarrow> 'r relay \<Rightarrow> 'r relay" where
  "onAgentJoin i ws dev s =
     (let s = upd_sess i (\<lambda>x. x\<lparr>rs_agent := Some ws, rs_deviceId := (if dev \<noteq> [] then dev else rs_deviceId x)\<rparr>) s;
          s = s\<lparr>rl_att := AList.update ws (Agent, i) (rl_att s)\<rparr>;
          s = (if shouldSendViewerJoin Agent (is_open s (rs_viewer (rl_heap s ! i))) then send ws viewer_join_msg s else s)
      in markActive i s)"

definition onViewerJoin :: "nat \<Rightarrow> sock \<Rightarrow> 'r relay \<Rightarrow> 'r relay" where
  "onViewerJoin i ws s =
     (let s = clear_timer i s;
          s = upd_sess i (\<lambda>x. x\<lparr>rs_viewer := Some ws\<rparr>) s;
          s = (case rs_codec (rl_heap s ! i) of None \<Rightarrow> s | Some c \<Rightarrow> send ws (Payload True c) s);
          a = rs_agent (rl_heap s ! i);
          s = (if shouldSendViewerJoin Viewer (is_open s a) then send_opt a viewer_join_msg s else s);
          s = s\<lparr>rl_att := AList.update ws (Viewer, i) (rl_att s)\<rparr>
      in markActive i s)"

text \<open>The claims of a verified token; \<open>jwt.verify\<close> and \<open>new URL\<close> are parameters.\<close>

record claims =
  cl_sid :: string
  cl_did :: "string option"
  cl_uid :: "int option"
  cl_node :: "string option"
  cl_jti :: "string option"

record 'r relay_env =
  re_redis :: "'r redis_exec"
  re_verify :: "string \<Rightarrow> role \<Rightarrow> claims option"
  re_url :: "string \<Rightarrow> (string \<times> string option) option"

definition role_of_path :: "string \<Rightarrow> role option" where
  "role_of_path p = (if suffix ''/agent'' p then Some Agent else if suffix ''/viewer'' p then Some Viewer else None)"

definition text_of :: "string option \<Rightarrow> string" where
  "text_of x = (case x of None \<Rightarrow> [] | Some t \<Rightarrow> t)"

definition reject :: "sock \<Rightarrow> 'r relay \<Rightarrow> 'r relay" where
  "reject ws s = close_ws (Some ws) s"

text \<open>An agent's token is spent on its first use.\<close>

definition spend_token :: "'r redis_exec \<Rightarrow> string \<Rightarrow> 'r relay \<Rightarrow> (error + bool) \<times> 'r relay" where
  "spend_token ex jti s = (case redis_setnx ex (key_string (KTokenUsed jti)) ''1'' TTL_tokenUsed (rl_world s) of
     (r, w) \<Rightarrow> (r, s\<lparr>rl_world := w\<rparr>))"

definition join_session :: "role \<Rightarrow> claims \<Rightarrow> sock \<Rightarrow> (bytes \<times> bool) list \<Rightarrow> 'r relay \<Rightarrow> 'r relay" where
  "join_session r c ws early s =
     (let did = text_of (cl_did c);
          (i, s) = getOrCreate (cl_sid c) did (case cl_uid c of None \<Rightarrow> 0 | Some u \<Rightarrow> u) s;
          s = (if did \<noteq> [] then upd_sess i (\<lambda>x. x\<lparr>rs_deviceId := did\<rparr>) s else s)
      in case r of
          Agent \<Rightarrow> fold (\<lambda>(d, b). onAgentMessage i d b) early (onAgentJoin i ws did s)
        | Viewer \<Rightarrow> fold (\<lambda>(d, b). onViewerMessage i d b) early (onViewerJoin i ws s))"

definition onConnection :: "'r relay_env \<Rightarrow> sock \<Rightarrow> string \<Rightarrow> (bytes \<times> bool) list \<Rightarrow> 'r relay \<Rightarrow> 'r relay" where
  "onConnection env ws url early s = (case re_url env url of
      None \<Rightarrow> s\<lparr>rl_crashed := True\<rparr>
    | Some (path, token) \<Rightarrow> (case role_of_path path of
        None \<Rightarrow> reject ws s
      | Some r \<Rightarrow> (case re_verify env (text_of token) r of
          None \<Rightarrow> reject ws s
        | Some c \<Rightarrow>
            if text_of (cl_node c) \<noteq> [] \<and> text_of (cl_node c) \<noteq> rl_node s then reject ws s
            else if r = Agent then
              (if text_of (cl_jti c) = [] then reject ws s
               else case spend_token (re_redis env) (text_of (cl_jti c)) s of
                  (Inr True, s) \<Rightarrow> join_session r c ws early s
                | (_, s) \<Rightarrow> reject ws s)
            else join_session r c ws early s)))"

section \<open>Closing sockets, timers, the tick\<close>

definition onClose :: "'r redis_exec \<Rightarrow> sock \<Rightarrow> 'r relay \<Rightarrow> 'r relay" where
  "onClose ex ws s =
     (let att = map_of (rl_att s) ws;
          s = s\<lparr>rl_open := removeAll ws (rl_open s), rl_att := filter (\<lambda>p. fst p \<noteq> ws) (rl_att s)\<rparr>
      in case att of
          None \<Rightarrow> s
        | Some (Agent, i) \<Rightarrow>
            if rs_agent (rl_heap s ! i) = Some ws then closeSession ex i ''agent_disconnect'' s else s
        | Some (Viewer, i) \<Rightarrow>
            if rs_viewer (rl_heap s ! i) \<noteq> Some ws then s
            else upd_sess i (\<lambda>x. x\<lparr>rs_viewer := None, rs_timer := Some (rl_nextTimer s)\<rparr>)
              (s\<lparr>rl_timers := rl_timers s @ [(rl_nextTimer s, i)], rl_nextTimer := rl_nextTimer s + 1\<rparr>))"

definition onTimer :: "'r redis_exec \<Rightarrow> nat \<Rightarrow> 'r relay \<Rightarrow> 'r relay" where
  "onTimer ex h s = (case map_of (rl_timers s) h of
      None \<Rightarrow> s
    | Some i \<Rightarrow> (let s = s\<lparr>rl_timers := filter (\<lambda>p. fst p \<noteq> h) (rl_timers s)\<rparr> in
        if rs_viewer (rl_heap s ! i) = None then closeSession ex i ''viewer_disconnect'' s else s))"

definition onMessage :: "sock \<Rightarrow> bytes \<Rightarrow> bool \<Rightarrow> 'r relay \<Rightarrow> 'r relay" where
  "onMessage ws data flag s = (case map_of (rl_att s) ws of
      None \<Rightarrow> s
    | Some (Agent, i) \<Rightarrow> onAgentMessage i data flag s
    | Some (Viewer, i) \<Rightarrow> onViewerMessage i data flag s)"

definition tick_session :: "'r redis_exec \<Rightarrow> (sock \<Rightarrow> nat) \<Rightarrow> nat \<Rightarrow> 'r relay \<Rightarrow> 'r relay" where
  "tick_session ex buffered i s =
     (let x = rl_heap s ! i;
          q = (case rs_viewer x of None \<Rightarrow> 0 | Some v \<Rightarrow> buffered v);
          s = (if q > BACKPRESSURE_BYTES then send_opt (rs_agent x) quality_msg s else s)
      in if w_now (rl_world s) - rs_lastActivity x > IDLE_MS then closeSession ex i ''idle_timeout'' s else s)"

definition tick :: "'r redis_exec \<Rightarrow> (sock \<Rightarrow> nat) \<Rightarrow> 'r relay \<Rightarrow> 'r relay" where
  "tick ex buffered s =
     (let s = detach (redis_do ex (SetEx (key_string (KRelayLoad (rl_node s))) (show_nat (length (rl_map s))) TTL_relayLoad)) s;
          s = detach (redis_do ex (SAdd (key_string KRelayNodes) (rl_node s))) s
      in fold (tick_session ex buffered) (map snd (rl_map s)) s)"

section \<open>The step relation\<close>

text \<open>
  One step is one callback run to its end, the clock, or anything the other services do to the
  database and to Redis. The agent's handshake waits for Redis; it touches the relay's state only
  after the reply, with the messages that came in between as \<open>early\<close>.
\<close>

inductive step :: "'r relay_env \<Rightarrow> 'r relay \<Rightarrow> 'r relay \<Rightarrow> bool" for env where
  accept: "\<not> rl_crashed s \<Longrightarrow> step env s (s\<lparr>rl_open := rl_nextSock s # rl_open s,
      rl_pending := rl_nextSock s # rl_pending s, rl_nextSock := rl_nextSock s + 1\<rparr>)"
| connect: "\<not> rl_crashed s \<Longrightarrow> ws \<in> set (rl_pending s) \<Longrightarrow>
    step env s (onConnection env ws url early (s\<lparr>rl_pending := removeAll ws (rl_pending s)\<rparr>))"
| message: "\<not> rl_crashed s \<Longrightarrow> step env s (onMessage ws data flag s)"
| sock_close: "\<not> rl_crashed s \<Longrightarrow> ws < rl_nextSock s \<Longrightarrow> step env s (onClose (re_redis env) ws s)"
| timer: "\<not> rl_crashed s \<Longrightarrow> h \<in> fst ` set (rl_timers s) \<Longrightarrow> step env s (onTimer (re_redis env) h s)"
| tick: "\<not> rl_crashed s \<Longrightarrow> step env s (tick (re_redis env) buffered s)"
| others: "\<not> rl_crashed s \<Longrightarrow> step env s (s\<lparr>rl_world := w\<rparr>)"

inductive_cases step_cases: "step env s s'"

definition initial :: "string \<Rightarrow> 'r world \<Rightarrow> 'r relay" where
  "initial node w = \<lparr>rl_node = node, rl_heap = [], rl_map = [], rl_open = [], rl_att = [], rl_timers = [],
     rl_nextTimer = 0, rl_nextSock = 0, rl_pending = [], rl_sent = [], rl_crashed = False, rl_world = w\<rparr>"

inductive reachable :: "'r relay_env \<Rightarrow> string \<Rightarrow> 'r relay \<Rightarrow> bool" for env node where
  start: "reachable env node (initial node w)"
| more: "reachable env node s \<Longrightarrow> step env s s' \<Longrightarrow> reachable env node s'"

section \<open>The invariant\<close>

text \<open>A verified token for this role and session, not bound to another node, exists.\<close>

definition authorised :: "'r relay_env \<Rightarrow> string \<Rightarrow> role \<Rightarrow> string \<Rightarrow> bool" where
  "authorised env node r sid \<longleftrightarrow> (\<exists>tok c. re_verify env tok r = Some c \<and> cl_sid c = sid \<and>
     (text_of (cl_node c) = [] \<or> text_of (cl_node c) = node))"

definition table_ok :: "'r relay \<Rightarrow> bool" where
  "table_ok s \<longleftrightarrow> distinct (map fst (rl_map s)) \<and>
     (\<forall>(sid, i) \<in> set (rl_map s). i < length (rl_heap s) \<and> rs_id (rl_heap s ! i) = sid)"

definition peer :: "role \<Rightarrow> relay_session \<Rightarrow> sock option" where
  "peer r x = (case r of Agent \<Rightarrow> rs_agent x | Viewer \<Rightarrow> rs_viewer x)"

text \<open>Handlers refer to sessions that exist, and a socket has one role in one session for life.\<close>

definition att_ok :: "'r relay_env \<Rightarrow> 'r relay \<Rightarrow> bool" where
  "att_ok env s \<longleftrightarrow> distinct (map fst (rl_att s)) \<and>
     (\<forall>(ws, r, i) \<in> set (rl_att s). i < length (rl_heap s) \<and> ws < rl_nextSock s \<and> ws \<notin> set (rl_pending s) \<and>
        authorised env (rl_node s) r (rs_id (rl_heap s ! i))) \<and>
     (\<forall>i < length (rl_heap s). \<forall>r ws. peer r (rl_heap s ! i) = Some ws \<longrightarrow>
        ws < rl_nextSock s \<and> ws \<notin> set (rl_pending s) \<and> authorised env (rl_node s) r (rs_id (rl_heap s ! i)) \<and>
        (\<forall>x. map_of (rl_att s) ws = Some x \<longrightarrow> x = (r, i)))"

definition timers_ok :: "'r relay \<Rightarrow> bool" where
  "timers_ok s \<longleftrightarrow> distinct (map fst (rl_timers s)) \<and> (\<forall>(h, i) \<in> set (rl_timers s). h < rl_nextTimer s \<and>
       i < length (rl_heap s) \<and> rs_timer (rl_heap s ! i) = Some h \<and> rs_viewer (rl_heap s ! i) = None) \<and>
     (\<forall>i < length (rl_heap s). \<forall>h. rs_timer (rl_heap s ! i) = Some h \<longrightarrow> (h, i) \<in> set (rl_timers s))"

definition inv :: "'r relay_env \<Rightarrow> 'r relay \<Rightarrow> bool" where
  "inv env s \<longleftrightarrow> table_ok s \<and> att_ok env s \<and> timers_ok s \<and> (\<forall>k \<in> set (rl_pending s). k < rl_nextSock s)"

section \<open>The operations keep it\<close>

lemma heap_upd_sess [simp]: "length (rl_heap (upd_sess i f s)) = length (rl_heap s)"
  by (simp add: upd_sess_def)

lemma upd_sess_nth [simp]:
  "i < length (rl_heap s) \<Longrightarrow> rl_heap (upd_sess i f s) ! j = (if j = i then f (rl_heap s ! i) else rl_heap s ! j)"
  by (simp add: upd_sess_def nth_list_update)

lemma upd_sess_fields [simp]:
  "rl_map (upd_sess i f s) = rl_map s" "rl_att (upd_sess i f s) = rl_att s" "rl_open (upd_sess i f s) = rl_open s"
  "rl_timers (upd_sess i f s) = rl_timers s" "rl_nextTimer (upd_sess i f s) = rl_nextTimer s"
  "rl_nextSock (upd_sess i f s) = rl_nextSock s" "rl_pending (upd_sess i f s) = rl_pending s"
  "rl_sent (upd_sess i f s) = rl_sent s" "rl_node (upd_sess i f s) = rl_node s"
  "rl_world (upd_sess i f s) = rl_world s" "rl_crashed (upd_sess i f s) = rl_crashed s"
  by (simp_all add: upd_sess_def)

text \<open>Two states agree on what the invariant looks at.\<close>

definition same_core :: "'r relay \<Rightarrow> 'r relay \<Rightarrow> bool" where
  "same_core s t \<longleftrightarrow> rl_node t = rl_node s \<and> rl_heap t = rl_heap s \<and> rl_map t = rl_map s \<and> rl_att t = rl_att s \<and>
     rl_timers t = rl_timers s \<and> rl_nextTimer t = rl_nextTimer s \<and> rl_nextSock t = rl_nextSock s \<and> rl_pending t = rl_pending s"

lemma inv_core: "same_core s t \<Longrightarrow> inv env t = inv env s"
  by (simp add: same_core_def inv_def table_ok_def att_ok_def timers_ok_def)

lemma core_ops [simp]:
  "same_core s (send k f s)" "same_core s (send_opt x f s)" "same_core s (close_ws x s)"
  "same_core s (detach m s)" "same_core s (quiet m s)" "same_core s (reject k s)"
  by (auto simp: same_core_def send_def send_opt_def close_ws_def detach_def quiet_def reject_def
      split: option.split prod.split sum.split)

lemma same_core_trans: "same_core s t \<Longrightarrow> same_core t u \<Longrightarrow> same_core s u"
  by (simp add: same_core_def)

lemma core_markActive [simp]: "same_core s (markActive i s)"
proof -
  have "same_core s s" by (simp add: same_core_def)
  then show ?thesis by (simp add: markActive_def Let_def)
qed

lemma core_fields:
  assumes "same_core s t"
  shows "rl_heap t = rl_heap s" "rl_map t = rl_map s" "rl_att t = rl_att s" "rl_timers t = rl_timers s"
    "rl_nextSock t = rl_nextSock s" "rl_pending t = rl_pending s" "rl_node t = rl_node s" "rl_nextTimer t = rl_nextTimer s"
  using assms by (simp_all add: same_core_def)

lemmas op_fields [simp] = core_ops[THEN core_fields(1)] core_ops[THEN core_fields(2)] core_ops[THEN core_fields(3)]
  core_ops[THEN core_fields(4)] core_ops[THEN core_fields(5)] core_ops[THEN core_fields(6)] core_ops[THEN core_fields(7)]
  core_ops[THEN core_fields(8)]

lemmas op_inv [simp] = core_ops[THEN inv_core] core_markActive[THEN inv_core]

text \<open>Updates of the counters, the codec, the activity and the device.\<close>

definition keeps_links :: "(relay_session \<Rightarrow> relay_session) \<Rightarrow> bool" where
  "keeps_links f \<longleftrightarrow> (\<forall>x. rs_id (f x) = rs_id x \<and> rs_agent (f x) = rs_agent x \<and> rs_viewer (f x) = rs_viewer x \<and>
     rs_timer (f x) = rs_timer x)"

lemma inv_upd_links:
  assumes "keeps_links f" "inv env s" "i < length (rl_heap s)"
  shows "inv env (upd_sess i f s)"
proof -
  have p: "peer r (f x) = peer r x" for r x using assms(1) by (cases r) (simp_all add: peer_def keeps_links_def)
  show ?thesis
    using assms(2,3) assms(1)[unfolded keeps_links_def] p
    by (fastforce simp: inv_def table_ok_def att_ok_def timers_ok_def)
qed

lemma inv_clear_timer:
  assumes "inv env s" "i < length (rl_heap s)"
  shows "inv env (clear_timer i s)" "rs_timer (rl_heap (clear_timer i s) ! i) = None"
    "\<And>j. j < length (rl_heap s) \<Longrightarrow> rl_heap (clear_timer i s) ! j = (rl_heap s ! j)\<lparr>rs_timer := (if j = i then None else rs_timer (rl_heap s ! j))\<rparr>"
proof -
  show e: "rl_heap (clear_timer i s) ! j = (rl_heap s ! j)\<lparr>rs_timer := (if j = i then None else rs_timer (rl_heap s ! j))\<rparr>"
    if "j < length (rl_heap s)" for j
    using assms(2) that by (auto simp: clear_timer_def upd_sess_def nth_list_update split: option.split)
  show "rs_timer (rl_heap (clear_timer i s) ! i) = None" using e[OF assms(2)] by simp
  show "inv env (clear_timer i s)"
  proof (cases "rs_timer (rl_heap s ! i)")
    case (Some h)
    have p: "peer r (x\<lparr>rs_timer := t\<rparr>) = peer r x" for r x t by (cases r) (simp_all add: peer_def)
    have own: "j = i" if "(h, j) \<in> set (rl_timers s)" for j
      using assms Some that by (metis (mono_tags, lifting) case_prodD eq_key_imp_eq_value inv_def timers_ok_def)
    have hp: "rl_heap (clear_timer i s) = (rl_heap s)[i := (rl_heap s ! i)\<lparr>rs_timer := None\<rparr>]"
      and tm: "rl_timers (clear_timer i s) = filter (\<lambda>p. fst p \<noteq> h) (rl_timers s)"
      and rest: "rl_map (clear_timer i s) = rl_map s" "rl_att (clear_timer i s) = rl_att s"
        "rl_nextTimer (clear_timer i s) = rl_nextTimer s" "rl_nextSock (clear_timer i s) = rl_nextSock s"
        "rl_pending (clear_timer i s) = rl_pending s" "rl_node (clear_timer i s) = rl_node s"
      by (simp_all add: clear_timer_def Some) (simp add: upd_sess_def)
    have "table_ok (clear_timer i s)" "att_ok env (clear_timer i s)"
      using assms p by (fastforce simp: inv_def table_ok_def att_ok_def hp rest nth_list_update)+
    moreover have "timers_ok (clear_timer i s)"
    proof -
      have t: "timers_ok s" using assms(1) by (simp add: inv_def)
      have ne: "j \<noteq> i" if "(h', j) \<in> set (rl_timers s)" "h' \<noteq> h" for h' j
        using t that Some by (auto simp: timers_ok_def)
      show ?thesis
        using t own ne assms(2) unfolding timers_ok_def tm hp rest
        by (auto simp: distinct_map_filter nth_list_update split: if_splits)
    qed
    ultimately show ?thesis using assms(1) by (simp add: inv_def rest)
  qed (use assms in \<open>simp add: clear_timer_def\<close>)
qed

lemma clear_timer_fields [simp]:
  "rl_map (clear_timer i s) = rl_map s" "rl_att (clear_timer i s) = rl_att s" "rl_open (clear_timer i s) = rl_open s"
  "rl_nextSock (clear_timer i s) = rl_nextSock s" "rl_pending (clear_timer i s) = rl_pending s"
  "rl_node (clear_timer i s) = rl_node s" "rl_sent (clear_timer i s) = rl_sent s"
  "rl_world (clear_timer i s) = rl_world s" "rl_crashed (clear_timer i s) = rl_crashed s"
  "length (rl_heap (clear_timer i s)) = length (rl_heap s)"
  by (auto simp: clear_timer_def split: option.split)

lemma inv_shrink_map: "inv env s \<Longrightarrow> rl_map s = m \<Longrightarrow> inv env (s\<lparr>rl_map := filter P m\<rparr>)"
  by (auto simp: inv_def table_ok_def att_ok_def timers_ok_def distinct_map_filter)

lemma inv_closeSession:
  assumes "inv env s" "i < length (rl_heap s)"
  shows "inv env (closeSession ex i reason s)"
  using inv_clear_timer(1)[OF assms]
  by (simp add: closeSession_def Let_def inv_shrink_map inv_core[OF core_ops(3)])

lemma inv_getOrCreate:
  assumes "inv env s" "getOrCreate sid dev op s = (i, s')"
  shows "inv env s' \<and> i < length (rl_heap s') \<and> rs_id (rl_heap s' ! i) = sid \<and> (sid, i) \<in> set (rl_map s')"
proof (cases "map_of (rl_map s) sid")
  case (Some j)
  then have "(sid, j) \<in> set (rl_map s)" by (rule map_of_SomeD)
  with Some assms show ?thesis by (auto simp: getOrCreate_def inv_def table_ok_def)
next
  case None
  have p: "peer r \<lparr>rs_id = a, rs_deviceId = b, rs_operatorId = c, rs_agent = None, rs_viewer = None, rs_codec = None,
      rs_bytesOut = 0, rs_inputEvents = 0, rs_lastActivity = t, rs_timer = None\<rparr> = None" for r a b c t
    by (cases r) (simp_all add: peer_def)
  have "sid \<notin> fst ` set (rl_map s)" using None by (simp add: map_of_eq_None_iff)
  with None assms show ?thesis
    by (auto simp: getOrCreate_def inv_def table_ok_def att_ok_def timers_ok_def nth_append p less_Suc_eq
        split: if_splits; fastforce)
qed

text \<open>A socket that is about to join is not known to any session.\<close>

definition fresh :: "sock \<Rightarrow> 'r relay \<Rightarrow> bool" where
  "fresh ws s \<longleftrightarrow> ws < rl_nextSock s \<and> ws \<notin> set (rl_pending s) \<and> ws \<notin> fst ` set (rl_att s) \<and>
     (\<forall>i < length (rl_heap s). \<forall>r. peer r (rl_heap s ! i) \<noteq> Some ws)"

lemma fresh_core: "same_core s t \<Longrightarrow> fresh ws t = fresh ws s"
  by (simp add: fresh_def same_core_def)

lemma update_att:
  "distinct (map fst t) \<Longrightarrow> set (AList.update k v t) = insert (k, v) {p \<in> set t. fst p \<noteq> k}"
  by (induction t) (auto simp: rev_image_eqI)

definition set_peer :: "role \<Rightarrow> sock \<Rightarrow> relay_session \<Rightarrow> relay_session" where
  "set_peer r ws x = (case r of Agent \<Rightarrow> x\<lparr>rs_agent := Some ws\<rparr> | Viewer \<Rightarrow> x\<lparr>rs_viewer := Some ws\<rparr>)"

lemma peer_set_peer: "peer r' (set_peer r ws x) = (if r' = r then Some ws else peer r' x)"
  by (cases r; cases r') (simp_all add: peer_def set_peer_def)

lemma set_peer_fields [simp]: "rs_id (set_peer r ws x) = rs_id x" "rs_timer (set_peer r ws x) = rs_timer x"
  by (cases r; simp add: set_peer_def)+

lemma inv_join:
  assumes inv: "inv env s" and i: "i < length (rl_heap s)" and fresh: "fresh ws s"
    and auth: "authorised env (rl_node s) r (rs_id (rl_heap s ! i))"
    and timer: "r = Viewer \<Longrightarrow> rs_timer (rl_heap s ! i) = None"
  shows "inv env ((upd_sess i (set_peer r ws) s)\<lparr>rl_att := AList.update ws (r, i) (rl_att s)\<rparr>)"
proof -
  let ?s = "(upd_sess i (set_peer r ws) s)\<lparr>rl_att := AList.update ws (r, i) (rl_att s)\<rparr>"
  have t: "table_ok s" and a: "att_ok env s" and tm: "timers_ok s" and p: "\<forall>k \<in> set (rl_pending s). k < rl_nextSock s"
    using inv by (simp_all add: inv_def)
  have id: "rs_id (rl_heap (upd_sess i (set_peer r ws) s) ! j) = rs_id (rl_heap s ! j)" for j
    using i by simp
  have "table_ok ?s" using t id by (fastforce simp: table_ok_def)
  moreover have "timers_ok ?s"
  proof -
    have ne: "j \<noteq> i \<or> r = Agent" if "(h, j) \<in> set (rl_timers s)" for h j
      using that tm timer by (cases r) (auto simp: timers_ok_def)
    have vw: "rs_viewer (rl_heap ?s ! j) = None" if "(h, j) \<in> set (rl_timers s)" for h j
    proof -
      have "rs_viewer (rl_heap s ! j) = None" using that tm by (auto simp: timers_ok_def)
      then show ?thesis using ne[OF that] i by (auto simp: set_peer_def)
    qed
    have tmr: "rs_timer (rl_heap ?s ! j) = rs_timer (rl_heap s ! j)" for j using i by simp
    show ?thesis using tm vw unfolding timers_ok_def tmr by simp blast
  qed
  moreover have "att_ok env ?s"
  proof -
    let ?u = "upd_sess i (set_peer r ws) s"
    have d: "distinct (map fst (rl_att s))" using a by (simp add: att_ok_def)
    have old: "j < length (rl_heap s) \<and> k < rl_nextSock s \<and> k \<notin> set (rl_pending s) \<and>
        authorised env (rl_node s) r' (rs_id (rl_heap ?u ! j))"
      if "(k, r', j) \<in> set (AList.update ws (r, i) (rl_att s))" for k r' j
    proof (cases "(k, r', j) = (ws, r, i)")
      case True
      then show ?thesis using i fresh auth by (simp add: fresh_def)
    next
      case False
      with that d have "(k, r', j) \<in> set (rl_att s)" by (auto simp: update_att)
      then show ?thesis using a unfolding id by (auto simp: att_ok_def)
    qed
    have peers: "k < rl_nextSock s \<and> k \<notin> set (rl_pending s) \<and> authorised env (rl_node s) r' (rs_id (rl_heap ?u ! j)) \<and>
        (\<forall>x. map_of (AList.update ws (r, i) (rl_att s)) k = Some x \<longrightarrow> x = (r', j))"
      if j: "j < length (rl_heap s)" "peer r' (rl_heap ?u ! j) = Some k" for j r' k
    proof (cases "j = i \<and> r' = r")
      case True
      with that i have "k = ws" by (simp add: peer_set_peer)
      with True show ?thesis using i fresh auth by (simp add: fresh_def update_conv')
    next
      case False
      with that i have old: "peer r' (rl_heap s ! j) = Some k" by (auto simp: peer_set_peer split: if_splits)
      with fresh j have "k \<noteq> ws" by (auto simp: fresh_def)
      with old a j show ?thesis unfolding att_ok_def id by (simp add: update_conv')
    qed
    show ?thesis
      unfolding att_ok_def using old peers d by (simp add: distinct_update del: upd_sess_nth) blast
  qed
  ultimately show ?thesis using p by (simp add: inv_def)
qed

lemma same_core_att: "same_core t u \<Longrightarrow> same_core (t\<lparr>rl_att := a\<rparr>) (u\<lparr>rl_att := a\<rparr>)"
  by (simp add: same_core_def)

lemma same_core_refl [simp]: "same_core s s"
  by (simp add: same_core_def)

lemma same_core_if: "same_core s t \<Longrightarrow> same_core s (if b then t else s)"
  by simp

lemma upd_sess_comp: "i < length (rl_heap s) \<Longrightarrow> upd_sess i g (upd_sess i f s) = upd_sess i (\<lambda>x. g (f x)) s"
  by (simp add: upd_sess_def)

lemma fresh_links:
  assumes "keeps_links f" "i < length (rl_heap s)"
  shows "fresh ws (upd_sess i f s) = fresh ws s"
proof -
  have "peer r (f x) = peer r x" for r x using assms(1) by (cases r) (simp_all add: peer_def keeps_links_def)
  then show ?thesis using assms(2) by (auto simp: fresh_def)
qed

lemma inv_onAgentJoin:
  assumes inv: "inv env s" and i: "i < length (rl_heap s)" and fresh: "fresh ws s"
    and auth: "authorised env (rl_node s) Agent (rs_id (rl_heap s ! i))"
  shows "inv env (onAgentJoin i ws dev s) \<and> length (rl_heap (onAgentJoin i ws dev s)) = length (rl_heap s)"
proof -
  let ?f = "\<lambda>x. x\<lparr>rs_deviceId := (if dev \<noteq> [] then dev else rs_deviceId x)\<rparr>"
  let ?u = "upd_sess i ?f s"
  let ?t = "(upd_sess i (set_peer Agent ws) ?u)\<lparr>rl_att := AList.update ws (Agent, i) (rl_att ?u)\<rparr>"
  have k: "keeps_links ?f" by (simp add: keeps_links_def)
  have "inv env ?t"
    by (rule inv_join[OF inv_upd_links[OF k inv i]]) (use i fresh auth fresh_links[OF k i] in simp_all)
  moreover have "same_core ?t (onAgentJoin i ws dev s)"
  proof -
    have e: "upd_sess i (\<lambda>x. x\<lparr>rs_agent := Some ws, rs_deviceId := (if dev \<noteq> [] then dev else rs_deviceId x)\<rparr>) s =
        upd_sess i (set_peer Agent ws) ?u"
    proof -
      have "x\<lparr>rs_agent := Some ws, rs_deviceId := (if dev \<noteq> [] then dev else rs_deviceId x)\<rparr> =
          set_peer Agent ws (?f x)" for x by (cases x) (simp add: set_peer_def)
      then show ?thesis by (simp only: upd_sess_comp[OF i])
    qed
    show ?thesis
      unfolding onAgentJoin_def Let_def e
      by (intro same_core_trans[OF _ core_markActive] same_core_if core_ops(1)) simp
  qed
  ultimately show ?thesis using inv_core core_fields(1) i by fastforce
qed

lemma inv_onViewerJoin:
  assumes inv: "inv env s" and i: "i < length (rl_heap s)" and fresh: "fresh ws s"
    and auth: "authorised env (rl_node s) Viewer (rs_id (rl_heap s ! i))"
  shows "inv env (onViewerJoin i ws s) \<and> length (rl_heap (onViewerJoin i ws s)) = length (rl_heap s)"
proof -
  let ?u = "clear_timer i s"
  let ?v = "upd_sess i (set_peer Viewer ws) ?u"
  let ?t = "?v\<lparr>rl_att := AList.update ws (Viewer, i) (rl_att ?u)\<rparr>"
  note c = inv_clear_timer[OF inv i]
  have p: "peer r (x\<lparr>rs_timer := t\<rparr>) = peer r x" for r x t by (cases r) (simp_all add: peer_def)
  have fr: "fresh ws ?u" using fresh c(3) p by (auto simp: fresh_def)
  have "inv env ?t"
    by (rule inv_join[OF c(1)]) (use i fr auth c(2) c(3)[OF i] in simp_all)
  moreover have "same_core ?t (onViewerJoin i ws s)"
  proof -
    define w1 where "w1 = (case rs_codec (rl_heap ?v ! i) of None \<Rightarrow> ?v | Some c \<Rightarrow> send ws (Payload True c) ?v)"
    define w2 where "w2 = (if shouldSendViewerJoin Viewer (is_open w1 (rs_agent (rl_heap w1 ! i)))
        then send_opt (rs_agent (rl_heap w1 ! i)) viewer_join_msg w1 else w1)"
    have "same_core ?v w1" by (simp add: w1_def split: option.split)
    moreover have "same_core w1 w2" by (simp add: w2_def)
    ultimately have c2: "same_core ?v w2" by (rule same_core_trans)
    then have a: "rl_att w2 = rl_att ?u" using core_fields(3) by fastforce
    have "set_peer Viewer ws = (\<lambda>x. x\<lparr>rs_viewer := Some ws\<rparr>)" by (simp add: fun_eq_iff set_peer_def)
    then have "onViewerJoin i ws s = markActive i (w2\<lparr>rl_att := AList.update ws (Viewer, i) (rl_att ?u)\<rparr>)"
      by (simp only: onViewerJoin_def Let_def w1_def w2_def flip: a)
    then show ?thesis
      using same_core_trans[OF same_core_att[OF c2] core_markActive] by metis
  qed
  ultimately show ?thesis using inv_core core_fields(1) i by fastforce
qed

text \<open>Operations that keep the invariant, the sessions that exist and the node's name.\<close>

definition kept :: "'r relay_env \<Rightarrow> 'r relay \<Rightarrow> 'r relay \<Rightarrow> bool" where
  "kept env s t \<longleftrightarrow> inv env t \<and> length (rl_heap t) = length (rl_heap s) \<and> rl_node t = rl_node s"

lemma kept_core: "inv env s \<Longrightarrow> same_core s t \<Longrightarrow> kept env s t"
  by (simp add: kept_def inv_core core_fields)

lemma kept_upd: "inv env s \<Longrightarrow> i < length (rl_heap s) \<Longrightarrow> keeps_links f \<Longrightarrow> kept env s (upd_sess i f s)"
  by (simp add: kept_def inv_upd_links)

lemma kept_trans: "kept env s t \<Longrightarrow> kept env t u \<Longrightarrow> kept env s u"
  by (simp add: kept_def)

lemma kept_same [simp]: "kept env s s \<longleftrightarrow> inv env s"
  by (simp add: kept_def)

lemma keptD: "kept env s t \<Longrightarrow> inv env t" "kept env s t \<Longrightarrow> length (rl_heap t) = length (rl_heap s)"
  "kept env s t \<Longrightarrow> rl_node t = rl_node s"
  by (simp_all add: kept_def)

lemma kept_agent_message:
  assumes "inv env s" "i < length (rl_heap s)"
  shows "kept env s (onAgentMessage i data flag s)"
proof -
  have k: "keeps_links (\<lambda>x. x\<lparr>rs_codec := c x, rs_bytesOut := b x\<rparr>)" "keeps_links (\<lambda>x. x\<lparr>rs_lastActivity := t\<rparr>)" for c b t
    by (simp_all add: keeps_links_def)
  define s1 where "s1 = (if is_binary data flag then upd_sess i (\<lambda>x. x\<lparr>rs_codec := (if frame_type data = Some 1 then Some data else rs_codec x),
                 rs_bytesOut := rs_bytesOut x + length data\<rparr>) s else s)"
  have 1: "kept env s s1" using assms k by (simp add: s1_def kept_upd)
  define s2 where "s2 = (if is_open s1 (rs_viewer (rl_heap s1 ! i)) then send_opt (rs_viewer (rl_heap s1 ! i)) (Payload (is_binary data flag) data) s1 else s1)"
  have 2: "kept env s1 s2" using keptD(1)[OF 1] by (simp add: s2_def kept_core)
  have "kept env s2 (onAgentMessage i data flag s)"
    unfolding onAgentMessage_def Let_def s1_def[symmetric] s2_def[symmetric]
    by (rule kept_upd[OF keptD(1)[OF 2]]) (use keptD(2)[OF 1] keptD(2)[OF 2] assms k in simp_all)
  with 1 2 show ?thesis using kept_trans by blast
qed

lemma kept_viewer_message:
  assumes "inv env s" "i < length (rl_heap s)"
  shows "kept env s (onViewerMessage i data flag s)"
proof -
  have k: "keeps_links (\<lambda>x. x\<lparr>rs_inputEvents := rs_inputEvents x + 1\<rparr>)" "keeps_links (\<lambda>x. x\<lparr>rs_lastActivity := t\<rparr>)" for t
    by (simp_all add: keeps_links_def)
  define s1 where "s1 = upd_sess i (\<lambda>x. x\<lparr>rs_inputEvents := rs_inputEvents x + 1\<rparr>) s"
  have 1: "kept env s s1" using assms k by (simp add: s1_def kept_upd)
  define s2 where "s2 = (if is_open s1 (rs_agent (rl_heap s1 ! i)) then send_opt (rs_agent (rl_heap s1 ! i)) (Payload flag data) s1 else s1)"
  have 2: "kept env s1 s2" using keptD(1)[OF 1] by (simp add: s2_def kept_core)
  have "kept env s2 (onViewerMessage i data flag s)"
    unfolding onViewerMessage_def Let_def s1_def[symmetric] s2_def[symmetric]
    by (rule kept_upd[OF keptD(1)[OF 2]]) (use keptD(2)[OF 1] keptD(2)[OF 2] assms k in simp_all)
  with 1 2 show ?thesis using kept_trans by blast
qed

lemma kept_messages:
  assumes "kept env s t" "i < length (rl_heap s)"
  shows "kept env t (onAgentMessage i data flag t)" "kept env t (onViewerMessage i data flag t)"
  using assms kept_agent_message[of env t i data flag] kept_viewer_message[of env t i data flag] by (simp_all add: kept_def)

lemma kept_fold:
  assumes "\<And>t x. x \<in> set xs \<Longrightarrow> kept env s t \<Longrightarrow> kept env t (f x t)" "kept env s t"
  shows "kept env s (fold f xs t)"
  using assms
proof (induction xs arbitrary: t)
  case (Cons x xs)
  have "kept env t (f x t)" using Cons.prems by simp
  then have "kept env s (f x t)" using Cons.prems(2) kept_trans by blast
  then show ?case using Cons by simp
qed simp

lemma kept_close: "inv env s \<Longrightarrow> i < length (rl_heap s) \<Longrightarrow> kept env s (closeSession ex i reason s)"
  by (simp add: kept_def inv_closeSession) (simp add: closeSession_def Let_def)

lemma join_node [simp]:
  "rl_node (onAgentJoin i ws dev s) = rl_node s" "rl_node (onViewerJoin i ws s) = rl_node s"
  by (simp_all add: onAgentJoin_def onViewerJoin_def Let_def core_fields(7)[OF core_markActive] split: option.split)

lemma kept_agentJoin:
  "inv env s \<Longrightarrow> i < length (rl_heap s) \<Longrightarrow> fresh ws s \<Longrightarrow> authorised env (rl_node s) Agent (rs_id (rl_heap s ! i)) \<Longrightarrow>
   kept env s (onAgentJoin i ws dev s)"
  using inv_onAgentJoin by (simp add: kept_def)

lemma kept_viewerJoin:
  "inv env s \<Longrightarrow> i < length (rl_heap s) \<Longrightarrow> fresh ws s \<Longrightarrow> authorised env (rl_node s) Viewer (rs_id (rl_heap s ! i)) \<Longrightarrow>
   kept env s (onViewerJoin i ws s)"
  using inv_onViewerJoin by (simp add: kept_def)

lemma getOrCreate_fields:
  assumes "getOrCreate sid dev op s = (i, s')"
  shows "rl_node s' = rl_node s" "fresh ws s \<Longrightarrow> fresh ws s'" "rl_nextSock s' = rl_nextSock s"
proof -
  have p: "peer r \<lparr>rs_id = a, rs_deviceId = b, rs_operatorId = c, rs_agent = None, rs_viewer = None, rs_codec = None,
      rs_bytesOut = 0, rs_inputEvents = 0, rs_lastActivity = t, rs_timer = None\<rparr> = None" for r a b c t
    by (cases r) (simp_all add: peer_def)
  show "rl_node s' = rl_node s" "rl_nextSock s' = rl_nextSock s" using assms by (auto simp: getOrCreate_def split: option.splits)
  show "fresh ws s \<Longrightarrow> fresh ws s'"
    using assms by (auto simp: getOrCreate_def fresh_def nth_append p less_Suc_eq split: option.splits)
qed

lemma inv_join_session:
  assumes inv: "inv env s" and fresh: "fresh ws s" and auth: "authorised env (rl_node s) r (cl_sid c)"
  shows "inv env (join_session r c ws early s) \<and> rl_node (join_session r c ws early s) = rl_node s"
proof -
  let ?did = "text_of (cl_did c)"
  obtain i s1 where g: "getOrCreate (cl_sid c) ?did (case cl_uid c of None \<Rightarrow> 0 | Some u \<Rightarrow> u) s = (i, s1)" by force
  note g1 = inv_getOrCreate[OF inv g] and gf = getOrCreate_fields[OF g]
  define s2 where "s2 = (if ?did \<noteq> [] then upd_sess i (\<lambda>x. x\<lparr>rs_deviceId := ?did\<rparr>) s1 else s1)"
  have k: "keeps_links (\<lambda>x. x\<lparr>rs_deviceId := ?did\<rparr>)" by (simp add: keeps_links_def)
  have 2: "kept env s1 s2" using g1 k by (simp add: s2_def kept_upd)
  have i2: "i < length (rl_heap s2)" using keptD(2)[OF 2] g1 by simp
  have f2: "fresh ws s2" using gf(2)[OF fresh] g1 fresh_links[OF k, of i s1 ws] by (simp add: s2_def)
  have a2: "authorised env (rl_node s2) r (rs_id (rl_heap s2 ! i))"
    using auth g1 gf(1) keptD(3)[OF 2] by (simp add: s2_def)
  have "kept env s2 (join_session r c ws early s)"
  proof (cases r)
    case Agent
    have "kept env s2 (onAgentJoin i ws ?did s2)"
      using kept_agentJoin[OF keptD(1)[OF 2] i2 f2] a2 Agent by simp
    then have "kept env s2 (fold (\<lambda>(d, b). onAgentMessage i d b) early (onAgentJoin i ws ?did s2))"
      by (rule kept_fold[rotated]) (use i2 in \<open>auto intro: kept_messages\<close>)
    then show ?thesis by (simp add: join_session_def Let_def g Agent flip: s2_def)
  next
    case Viewer
    have "kept env s2 (onViewerJoin i ws s2)"
      using kept_viewerJoin[OF keptD(1)[OF 2] i2 f2] a2 Viewer by simp
    then have "kept env s2 (fold (\<lambda>(d, b). onViewerMessage i d b) early (onViewerJoin i ws s2))"
      by (rule kept_fold[rotated]) (use i2 in \<open>auto intro: kept_messages\<close>)
    then show ?thesis by (simp add: join_session_def Let_def g Viewer flip: s2_def)
  qed
  then show ?thesis using gf(1) keptD(3)[OF 2] by (simp add: kept_def)
qed

lemma inv_expected:
  assumes "inv env s" "ws \<in> set (rl_pending s)"
  shows "inv env (s\<lparr>rl_pending := removeAll ws (rl_pending s)\<rparr>)" "fresh ws (s\<lparr>rl_pending := removeAll ws (rl_pending s)\<rparr>)"
proof -
  show "inv env (s\<lparr>rl_pending := removeAll ws (rl_pending s)\<rparr>)"
    using assms(1) by (auto simp: inv_def table_ok_def att_ok_def timers_ok_def)
  show "fresh ws (s\<lparr>rl_pending := removeAll ws (rl_pending s)\<rparr>)"
    using assms by (fastforce simp: inv_def fresh_def att_ok_def)
qed

lemma inv_same: "same_core s t \<Longrightarrow> inv env s \<Longrightarrow> inv env t \<and> rl_node t = rl_node s"
  by (simp add: inv_core core_fields)

lemma db_redis [simp]: "w_db (snd (redis_do ex c w)) = w_db w" "w_db (snd (redis_setnx ex k v t w)) = w_db w"
  by (auto simp: redis_do_def redis_setnx_def redis_def thenE_def bindE_def ret_def split: prod.split option.split sum.split)

text \<open>The three ends of a connection attempt.\<close>

lemma onConnection_cases:
  obtains (crash) "re_url env url = None" "onConnection env ws url early s = s\<lparr>rl_crashed := True\<rparr>"
  | (refuse) w where "onConnection env ws url early s = reject ws (s\<lparr>rl_world := w\<rparr>)" "w_db w = w_db (rl_world s)"
  | (join) r c path tok w where "re_url env url = Some (path, tok)" "role_of_path path = Some r" "re_verify env (text_of tok) r = Some c" "text_of (cl_node c) = [] \<or> text_of (cl_node c) = rl_node s"
      "onConnection env ws url early s = join_session r c ws early (s\<lparr>rl_world := w\<rparr>)" "w_db w = w_db (rl_world s)"
      "r = Agent \<Longrightarrow> redis_setnx (re_redis env) (key_string (KTokenUsed (text_of (cl_jti c)))) ''1'' TTL_tokenUsed (rl_world s) = (Inr True, w)"
proof (cases "re_url env url")
  case None
  then show ?thesis using crash by (simp add: onConnection_def)
next
  case (Some pt)
  have stay: "s = s\<lparr>rl_world := rl_world s\<rparr>" by simp
  obtain path token where pt: "pt = (path, token)" by force
  show ?thesis
  proof (cases "role_of_path path")
    case None
    then show ?thesis using Some pt refuse[of "rl_world s"] by (simp add: onConnection_def)
  next
    case role: (Some r)
    show ?thesis
    proof (cases "re_verify env (text_of token) r")
      case None
      then show ?thesis using Some pt role refuse[of "rl_world s"] by (simp add: onConnection_def)
    next
      case ver: (Some c)
      note on = onConnection_def[of env ws url early s, unfolded Some pt option.case prod.case role ver]
      show ?thesis
      proof (cases "text_of (cl_node c) \<noteq> [] \<and> text_of (cl_node c) \<noteq> rl_node s")
        case True
        then show ?thesis using refuse[of "rl_world s"] on by simp
      next
        case node: False
        show ?thesis
        proof (cases r)
          case Viewer
          then show ?thesis using join[OF Some[unfolded pt] role ver, of "rl_world s"] node on by simp
        next
          case Agent
          obtain once w where sp: "redis_setnx (re_redis env) (key_string (KTokenUsed (text_of (cl_jti c)))) ''1'' TTL_tokenUsed (rl_world s) = (once, w)"
            by force
          then have db: "w_db w = w_db (rl_world s)" using db_redis(2) by (metis snd_conv)
          have sp': "spend_token (re_redis env) (text_of (cl_jti c)) s = (once, s\<lparr>rl_world := w\<rparr>)"
            by (simp add: spend_token_def sp)
          show ?thesis
          proof (cases "text_of (cl_jti c) = []")
            case True
            then show ?thesis using refuse[of "rl_world s"] on node Agent by simp
          next
            case jti: False
            show ?thesis
            proof (cases "once = Inr True")
              case True
              then show ?thesis using join[OF Some[unfolded pt] role ver, of w] db on node Agent jti by (simp add: sp sp')
            next
              case False
              then have "onConnection env ws url early s = reject ws (s\<lparr>rl_world := w\<rparr>)"
                using on node Agent jti by (simp add: sp' split: sum.split bool.split)
              with refuse db show ?thesis by blast
            qed
          qed
        qed
      qed
    qed
  qed
qed

lemma inv_onConnection:
  assumes inv: "inv env s" and fresh: "fresh ws s"
  shows "inv env (onConnection env ws url early s) \<and> rl_node (onConnection env ws url early s) = rl_node s"
proof -
  have sc: "same_core s (s\<lparr>rl_world := w\<rparr>)" for w by (simp add: same_core_def)
  show ?thesis
  proof (cases rule: onConnection_cases[of env url ws early s])
    case crash
    then show ?thesis using inv_same[of s "s\<lparr>rl_crashed := True\<rparr>" env] inv by (simp add: same_core_def)
  next
    case (refuse w)
    then show ?thesis using inv_same[OF same_core_trans[OF sc core_ops(6)] inv] by simp
  next
    case (join r c path tok w)
    have "authorised env (rl_node s) r (cl_sid c)" using join(3,4) by (auto simp: authorised_def)
    then show ?thesis using inv_join_session[of env "s\<lparr>rl_world := w\<rparr>" ws r c early] inv fresh inv_core[OF sc] fresh_core[OF sc]
      by (simp add: join(5))
  qed
qed

lemma map_of_without: "map_of (filter (\<lambda>p. fst p \<noteq> a) t) k = (if k = a then None else map_of t k)"
  by (induction t) auto

lemma inv_unlink:
  assumes "inv env s"
  shows "inv env (s\<lparr>rl_open := os, rl_att := filter (\<lambda>p. fst p \<noteq> ws) (rl_att s)\<rparr>)"
proof -
  have m: "map_of (filter (\<lambda>p. fst p \<noteq> ws) (rl_att s)) k = (if k = ws then None else map_of (rl_att s) k)" for k
    by (rule map_of_without)
  show ?thesis
    using assms by (auto simp: inv_def table_ok_def att_ok_def timers_ok_def distinct_map_filter m split: if_splits)
qed

lemma att_ok_fewer:
  assumes "att_ok env s" "length (rl_heap t) = length (rl_heap s)" "rl_att t = rl_att s" "rl_node t = rl_node s"
    and "rl_nextSock t = rl_nextSock s" "rl_pending t = rl_pending s"
    and ids: "\<And>j. j < length (rl_heap s) \<Longrightarrow> rs_id (rl_heap t ! j) = rs_id (rl_heap s ! j)"
    and peers: "\<And>j r k. j < length (rl_heap s) \<Longrightarrow> peer r (rl_heap t ! j) = Some k \<Longrightarrow> peer r (rl_heap s ! j) = Some k"
  shows "att_ok env t"
proof -
  have "i < length (rl_heap s)" if "(ws, r, i) \<in> set (rl_att s)" for ws r i using assms(1) that by (auto simp: att_ok_def)
  then show ?thesis using assms(1) ids peers unfolding att_ok_def assms(2-6) by (auto; metis)
qed

text \<open>A viewer that leaves starts the grace timer; it had none while it was there.\<close>

lemma inv_viewer_gone:
  assumes inv: "inv env s" and i: "i < length (rl_heap s)" and v: "rs_viewer (rl_heap s ! i) = Some ws"
  shows "inv env (upd_sess i (\<lambda>x. x\<lparr>rs_viewer := None, rs_timer := Some (rl_nextTimer s)\<rparr>)
     (s\<lparr>rl_timers := rl_timers s @ [(rl_nextTimer s, i)], rl_nextTimer := rl_nextTimer s + 1\<rparr>))" (is "inv env ?t")
proof -
  have none: "rs_timer (rl_heap s ! i) = None"
  proof (rule ccontr)
    assume "rs_timer (rl_heap s ! i) \<noteq> None"
    then obtain h where "(h, i) \<in> set (rl_timers s)" using inv i by (auto simp: inv_def timers_ok_def)
    with inv v show False by (auto simp: inv_def timers_ok_def)
  qed
  have ne: "j \<noteq> i" if "(h, j) \<in> set (rl_timers s)" for h j
    using inv that none by (auto simp: inv_def timers_ok_def)
  have p: "peer r (x\<lparr>rs_viewer := None, rs_timer := t\<rparr>) = Some k \<Longrightarrow> peer r x = Some k" for r x t k
    by (cases r) (simp_all add: peer_def)
  have "table_ok ?t" "\<forall>k \<in> set (rl_pending ?t). k < rl_nextSock ?t"
    using inv i by (fastforce simp: inv_def table_ok_def)+
  moreover have "att_ok env ?t"
  proof (rule att_ok_fewer[of env s])
    show "peer r (rl_heap s ! j) = Some k" if "peer r (rl_heap ?t ! j) = Some k" for j r k
      using that i p[where x = "rl_heap s ! i"] by (cases "j = i") simp_all
    show "att_ok env s" using inv by (simp add: inv_def)
  qed (use i in simp_all)
  moreover have "timers_ok ?t"
  proof -
    have t: "timers_ok s" using inv by (simp add: inv_def)
    then have "rl_nextTimer s \<notin> fst ` set (rl_timers s)" by (auto simp: timers_ok_def)
    with t i ne none show ?thesis by (fastforce simp: timers_ok_def)
  qed
  ultimately show ?thesis by (simp add: inv_def)
qed

lemma inv_onClose:
  assumes inv: "inv env s"
  shows "inv env (onClose ex ws s) \<and> rl_node (onClose ex ws s) = rl_node s"
proof -
  let ?s = "s\<lparr>rl_open := removeAll ws (rl_open s), rl_att := filter (\<lambda>p. fst p \<noteq> ws) (rl_att s)\<rparr>"
  have i1: "inv env ?s" by (rule inv_unlink[OF inv])
  show ?thesis
  proof (cases "map_of (rl_att s) ws")
    case None
    then show ?thesis using i1 by (simp add: onClose_def)
  next
    case (Some ri)
    obtain r i where ri: "ri = (r, i)" by force
    have i: "i < length (rl_heap ?s)"
      using inv map_of_SomeD[OF Some[unfolded ri]] by (auto simp: inv_def att_ok_def)
    show ?thesis
      using i1 Some ri kept_close[OF i1 i, of ex "''agent_disconnect''"] inv_viewer_gone[OF i1 i, of ws]
      by (cases r) (auto simp: onClose_def Let_def kept_def)
  qed
qed

lemma inv_onTimer:
  assumes inv: "inv env s"
  shows "inv env (onTimer ex h s) \<and> rl_node (onTimer ex h s) = rl_node s"
proof (cases "map_of (rl_timers s) h")
  case None
  then show ?thesis using inv by (simp add: onTimer_def)
next
  case (Some i)
  have mem: "(h, i) \<in> set (rl_timers s)" by (rule map_of_SomeD[OF Some])
  then have i: "i < length (rl_heap s)" and t: "rs_timer (rl_heap s ! i) = Some h" and v: "rs_viewer (rl_heap s ! i) = None"
    using inv by (auto simp: inv_def timers_ok_def)
  let ?u = "s\<lparr>rl_timers := filter (\<lambda>p. fst p \<noteq> h) (rl_timers s)\<rparr>"
  have same: "clear_timer i ?u = clear_timer i s"
    using t by (simp add: clear_timer_def)
  have "closeSession ex i ''viewer_disconnect'' ?u = closeSession ex i ''viewer_disconnect'' s"
    by (simp only: closeSession_def same)
  then show ?thesis using Some v kept_close[OF inv i, of ex "''viewer_disconnect''"]
    by (simp add: onTimer_def kept_def)
qed

lemma inv_onMessage:
  assumes inv: "inv env s"
  shows "inv env (onMessage ws data flag s) \<and> rl_node (onMessage ws data flag s) = rl_node s"
proof (cases "map_of (rl_att s) ws")
  case None
  then show ?thesis using inv by (simp add: onMessage_def)
next
  case (Some ri)
  obtain r i where ri: "ri = (r, i)" by force
  have i: "i < length (rl_heap s)" using inv map_of_SomeD[OF Some[unfolded ri]] by (auto simp: inv_def att_ok_def)
  show ?thesis using Some ri kept_agent_message[OF inv i] kept_viewer_message[OF inv i]
    by (cases r) (simp_all add: onMessage_def kept_def)
qed

lemma kept_tick_session:
  assumes "inv env s" "i < length (rl_heap s)"
  shows "kept env s (tick_session ex buffered i s)"
proof -
  define s1 where "s1 = (if (case rs_viewer (rl_heap s ! i) of None \<Rightarrow> 0 | Some v \<Rightarrow> buffered v) > BACKPRESSURE_BYTES
      then send_opt (rs_agent (rl_heap s ! i)) quality_msg s else s)"
  have 1: "kept env s s1" using assms(1) by (simp add: s1_def kept_core)
  have "kept env s1 (tick_session ex buffered i s)"
    unfolding tick_session_def Let_def s1_def[symmetric]
    using kept_close[OF keptD(1)[OF 1], of i] keptD[OF 1] assms(2) by simp
  with 1 show ?thesis by (rule kept_trans)
qed

lemma inv_tick:
  assumes inv: "inv env s"
  shows "kept env s (tick ex buffered s)"
proof -
  let ?a = "detach (redis_do ex (SetEx (key_string (KRelayLoad (rl_node s))) (show_nat (length (rl_map s))) TTL_relayLoad)) s"
  let ?b = "detach (redis_do ex (SAdd (key_string KRelayNodes) (rl_node ?a))) ?a"
  have b: "kept env s ?b" by (rule kept_core[OF inv]) (rule same_core_trans[OF core_ops(4) core_ops(4)])
  have "i < length (rl_heap s)" if "i \<in> set (map snd (rl_map ?b))" for i
    using inv that by (auto simp: inv_def table_ok_def)
  then have "kept env s (fold (tick_session ex buffered) (map snd (rl_map ?b)) ?b)"
    by (intro kept_fold[OF _ b]) (metis keptD(1,2) kept_tick_session)
  then show ?thesis by (simp add: tick_def Let_def)
qed

theorem inv_step:
  assumes "step env s s'" "inv env s"
  shows "inv env s' \<and> rl_node s' = rl_node s"
  using assms
proof cases
  case accept
  with assms(2) show ?thesis
    by (auto simp: inv_def table_ok_def att_ok_def timers_ok_def less_Suc_eq; fastforce)
next
  case (connect ws url early)
  note c = inv_expected[OF assms(2) connect(3)]
  show ?thesis using inv_onConnection[OF c, of url early] connect(1) by simp
next
  case (others w)
  have "same_core s s'" using others by (simp add: same_core_def)
  from inv_same[OF this assms(2)] show ?thesis .
qed (use assms(2) inv_onMessage inv_onClose inv_onTimer keptD(1,3)[OF inv_tick] in metis)+

lemma inv_initial: "inv env (initial node w)"
  by (simp add: inv_def initial_def table_ok_def att_ok_def timers_ok_def)

lemma reachable_inv: "reachable env node s \<Longrightarrow> inv env s \<and> rl_node s = node"
  by (induction rule: reachable.induct) (auto simp: inv_initial inv_step, simp add: initial_def)

section \<open>What is sent, and what the table keeps\<close>

definition other_role :: "role \<Rightarrow> role" where
  "other_role r = (case r of Agent \<Rightarrow> Viewer | Viewer \<Rightarrow> Agent)"

text \<open>Forwarding: at most one frame, to the other end of the session.\<close>

definition forwarded :: "sock option \<Rightarrow> bool \<Rightarrow> bytes \<Rightarrow> 'r relay \<Rightarrow> 'r relay \<Rightarrow> bool" where
  "forwarded x b data s s' \<longleftrightarrow> rl_sent s' = (case x of None \<Rightarrow> rl_sent s
     | Some v \<Rightarrow> if v \<in> set (rl_open s) then rl_sent s @ [(v, Payload b data)] else rl_sent s)"

lemma forwarded_messages:
  assumes "i < length (rl_heap s)"
  shows "forwarded (rs_viewer (rl_heap s ! i)) (is_binary data flag) data s (onAgentMessage i data flag s)"
    and "forwarded (rs_agent (rl_heap s ! i)) flag data s (onViewerMessage i data flag s)"
  using assms
  by (simp_all add: forwarded_def onAgentMessage_def onViewerMessage_def Let_def is_open_def send_opt_def send_def split: option.split)

text \<open>What a tick decides on: the clock and, per session, its id and last activity.\<close>

definition same_clock :: "'r relay \<Rightarrow> 'r relay \<Rightarrow> bool" where
  "same_clock s t \<longleftrightarrow> w_now (rl_world t) = w_now (rl_world s) \<and> length (rl_heap t) = length (rl_heap s) \<and>
     (\<forall>i < length (rl_heap s). rs_id (rl_heap t ! i) = rs_id (rl_heap s ! i) \<and>
        rs_lastActivity (rl_heap t ! i) = rs_lastActivity (rl_heap s ! i))"

lemma same_clock_trans: "same_clock s t \<Longrightarrow> same_clock t u \<Longrightarrow> same_clock s u"
  by (simp add: same_clock_def)

lemma now_redis [simp]: "w_now (snd (redis_do ex c w)) = w_now w"
  by (auto simp: redis_do_def redis_def thenE_def bindE_def ret_def split: prod.split option.split sum.split)

lemma now_pg [simp]: "w_now (snd (pg_now q w)) = w_now w"
  by (auto simp: pg_now_def pg_def Let_def split: list.split bool.split option.split)

lemma now_detach: "w_now (snd (m (rl_world s))) = w_now (rl_world s) \<Longrightarrow> w_now (rl_world (detach m s)) = w_now (rl_world s)"
  by (auto simp: detach_def split: prod.split sum.split)

lemma same_clock_detach:
  "same_clock s (detach (redis_do ex c) s)" "same_clock s (detach (pg_now q) s)"
  by (simp_all add: same_clock_def now_detach)

lemma world_close_ws [simp]: "rl_world (close_ws x s) = rl_world s" "rl_world (send_opt x f s) = rl_world s"
  by (auto simp: close_ws_def send_opt_def send_def split: option.split)

lemma clear_timer_heap:
  assumes "i < length (rl_heap s)" "j < length (rl_heap s)"
  shows "rs_id (rl_heap (clear_timer i s) ! j) = rs_id (rl_heap s ! j)"
    "rs_lastActivity (rl_heap (clear_timer i s) ! j) = rs_lastActivity (rl_heap s ! j)"
  using assms by (auto simp: clear_timer_def upd_sess_def nth_list_update split: option.split)

lemma closeSession_clock:
  assumes "i < length (rl_heap s)"
  shows "same_clock s (closeSession ex i reason s)"
    and "rl_map (closeSession ex i reason s) = filter (\<lambda>p. fst p \<noteq> rs_id (rl_heap s ! i)) (rl_map s)"
proof -
  show "same_clock s (closeSession ex i reason s)"
    using assms clear_timer_heap[OF assms] by (simp add: same_clock_def closeSession_def Let_def now_detach)
  show "rl_map (closeSession ex i reason s) = filter (\<lambda>p. fst p \<noteq> rs_id (rl_heap s ! i)) (rl_map s)"
    using assms clear_timer_heap(1)[OF assms assms] by (simp add: closeSession_def Let_def)
qed

definition idle :: "'r relay \<Rightarrow> nat \<Rightarrow> bool" where
  "idle s i \<longleftrightarrow> w_now (rl_world s) - rs_lastActivity (rl_heap s ! i) > IDLE_MS"

lemma tick_session_map:
  assumes "i < length (rl_heap s)"
  shows "same_clock s (tick_session ex buffered i s)"
    and "rl_map (tick_session ex buffered i s) = filter (\<lambda>p. \<not> (idle s i \<and> fst p = rs_id (rl_heap s ! i))) (rl_map s)"
proof -
  define s1 where "s1 = (if (case rs_viewer (rl_heap s ! i) of None \<Rightarrow> 0 | Some v \<Rightarrow> buffered v) > BACKPRESSURE_BYTES
      then send_opt (rs_agent (rl_heap s ! i)) quality_msg s else s)"
  have f: "rl_heap s1 = rl_heap s" "rl_map s1 = rl_map s" "rl_world s1 = rl_world s" by (simp_all add: s1_def)
  have e: "tick_session ex buffered i s = (if idle s i then closeSession ex i ''idle_timeout'' s1 else s1)"
    by (simp add: tick_session_def Let_def idle_def f(3) flip: s1_def)
  show "same_clock s (tick_session ex buffered i s)"
    using closeSession_clock(1)[of i s1] assms by (simp add: e f same_clock_def)
  show "rl_map (tick_session ex buffered i s) = filter (\<lambda>p. \<not> (idle s i \<and> fst p = rs_id (rl_heap s ! i))) (rl_map s)"
    using closeSession_clock(2)[of i s1] assms by (simp add: e f)
qed

lemma tick_fold_map:
  assumes "\<forall>i \<in> set is. i < length (rl_heap s)"
  shows "same_clock s (fold (tick_session ex buffered) is s) \<and>
    rl_map (fold (tick_session ex buffered) is s) =
      filter (\<lambda>p. \<not> (\<exists>i \<in> set is. idle s i \<and> fst p = rs_id (rl_heap s ! i))) (rl_map s)"
  using assms
proof (induction "is" arbitrary: s)
  case (Cons i "is")
  let ?t = "tick_session ex buffered i s"
  have i: "i < length (rl_heap s)" using Cons.prems by simp
  note t = tick_session_map[OF i, of ex buffered]
  have len: "length (rl_heap ?t) = length (rl_heap s)" using t(1) by (simp add: same_clock_def)
  have ih: "same_clock ?t (fold (tick_session ex buffered) is ?t) \<and>
      rl_map (fold (tick_session ex buffered) is ?t) =
      filter (\<lambda>p. \<not> (\<exists>j \<in> set is. idle ?t j \<and> fst p = rs_id (rl_heap ?t ! j))) (rl_map ?t)"
    by (rule Cons.IH) (use Cons.prems len in simp)
  have same: "idle ?t j = idle s j" "rs_id (rl_heap ?t ! j) = rs_id (rl_heap s ! j)" if "j \<in> set is" for j
    using t(1) Cons.prems that by (simp_all add: same_clock_def idle_def)
  have "rl_map (fold (tick_session ex buffered) is ?t) =
      filter (\<lambda>p. \<not> (\<exists>j \<in> set is. idle s j \<and> fst p = rs_id (rl_heap s ! j))) (rl_map ?t)"
    unfolding ih[THEN conjunct2] by (rule filter_cong) (use same in auto)
  then show ?case
    using ih same_clock_trans[OF t(1)] by (auto simp: t(2) intro!: filter_cong)
qed (simp add: same_clock_def)

lemma tableD: "table_ok s \<Longrightarrow> p \<in> set (rl_map s) \<Longrightarrow> snd p < length (rl_heap s) \<and> rs_id (rl_heap s ! snd p) = fst p"
  by (auto simp: table_ok_def)

lemma fold_keeps_recent:
  assumes tab: "table_ok s" and c: "same_clock s b" and m: "rl_map b = rl_map s"
  shows "rl_map (fold (tick_session ex buffered) (map snd (rl_map s)) b) = filter (\<lambda>p. \<not> idle s (snd p)) (rl_map s)"
proof -
  have same: "snd p < length (rl_heap s) \<and> idle b (snd p) = idle s (snd p) \<and> rs_id (rl_heap b ! snd p) = fst p"
    if "p \<in> set (rl_map s)" for p
    using tableD[OF tab that] c by (simp add: same_clock_def idle_def)
  have len: "\<forall>i \<in> set (map snd (rl_map s)). i < length (rl_heap b)"
    using same c by (auto simp: same_clock_def)
  have d: "distinct (map fst (rl_map s))" using tab by (simp add: table_ok_def)
  have "(\<exists>i \<in> set (map snd (rl_map s)). idle b i \<and> fst p = rs_id (rl_heap b ! i)) = idle s (snd p)"
    if p: "p \<in> set (rl_map s)" for p
  proof
    assume "\<exists>i \<in> set (map snd (rl_map s)). idle b i \<and> fst p = rs_id (rl_heap b ! i)"
    then obtain q where q: "q \<in> set (rl_map s)" "idle b (snd q)" "fst p = rs_id (rl_heap b ! snd q)" by auto
    with same have "fst p = fst q" by simp
    with d p q(1) have "p = q" by (metis eq_key_imp_eq_value prod.collapse)
    with q same show "idle s (snd p)" by simp
  next
    assume "idle s (snd p)"
    with same[OF p] p show "\<exists>i \<in> set (map snd (rl_map s)). idle b i \<and> fst p = rs_id (rl_heap b ! i)"
      by (intro bexI[of _ "snd p"]) simp_all
  qed
  then show ?thesis
    unfolding tick_fold_map[OF len, THEN conjunct2] m by (intro filter_cong) simp_all
qed

lemma tick_keeps_recent:
  assumes inv: "inv env s"
  shows "rl_map (tick ex buffered s) = filter (\<lambda>p. \<not> idle s (snd p)) (rl_map s)"
proof -
  define a where "a = detach (redis_do ex (SetEx (key_string (KRelayLoad (rl_node s))) (show_nat (length (rl_map s))) TTL_relayLoad)) s"
  define b where "b = detach (redis_do ex (SAdd (key_string KRelayNodes) (rl_node a))) a"
  have "same_clock s b"
    unfolding a_def b_def by (rule same_clock_trans[OF same_clock_detach(1) same_clock_detach(1)])
  moreover have m: "rl_map b = rl_map s" by (simp add: a_def b_def)
  moreover have "table_ok s" using inv by (simp add: inv_def)
  ultimately have "rl_map (fold (tick_session ex buffered) (map snd (rl_map s)) b) = filter (\<lambda>p. \<not> idle s (snd p)) (rl_map s)"
    by (intro fold_keeps_recent)
  then show ?thesis unfolding tick_def Let_def a_def[symmetric] b_def[symmetric] m .
qed

text \<open>What the relay does to the tables: session rows only, along their life cycle, and never one that is over.\<close>

definition final_db :: "db \<Rightarrow> db \<Rightarrow> bool" where
  "final_db d e \<longleftrightarrow> moved d e \<and> (\<exists>t. e = d\<lparr>tb_sessions := t\<rparr>) \<and>
     (\<forall>sid r. map_of (tb_sessions d) sid = Some r \<longrightarrow> ss_state r \<in> {Closed, Failed} \<longrightarrow> map_of (tb_sessions e) sid = Some r)"

definition final_kept :: "'r relay \<Rightarrow> 'r relay \<Rightarrow> bool" where
  "final_kept s t \<longleftrightarrow> final_db (w_db (rl_world s)) (w_db (rl_world t))"

lemma final_db_refl [simp]: "final_db d d"
proof -
  have "d = d\<lparr>tb_sessions := tb_sessions d\<rparr>" by simp
  then show ?thesis unfolding final_db_def by (intro conjI moved_refl) blast+
qed

lemma final_db_trans: "final_db d e \<Longrightarrow> final_db e f \<Longrightarrow> final_db d f"
  unfolding final_db_def by (elim conjE exE, intro conjI allI impI) (auto intro: exI moved_trans)

lemma final_db_update:
  assumes "\<And>k r. P k r \<Longrightarrow> ss_state r \<notin> {Closed, Failed}"
    and "\<And>k r. P k r \<Longrightarrow> allowed (Some (ss_state r)) (Some (ss_state (f r)))"
  shows "final_db d (update_sessions P f d)"
proof -
  have "moved d (update_sessions P f d)"
    unfolding moved_def
  proof (intro impI conjI allI)
    fix sid
    show "allowed (status d sid) (status (update_sessions P f d) sid)"
      using assms(2) by (cases "map_of (tb_sessions d) sid") (simp_all add: status_def update_sessions_def)
  qed (simp add: unique_def update_sessions_def)
  then show ?thesis
    using assms(1) unfolding final_db_def update_sessions_def by (intro conjI exI allI impI; fastforce)
qed

lemma final_db_sql: "final_db d (sql_mark_active sid now d)" "final_db d (sql_relay_closed sid reason b i now d)"
  unfolding sql_mark_active_def sql_relay_closed_def by (rule final_db_update; auto simp: allowed_def)+

lemma final_kept_same: "rl_world t = rl_world s \<Longrightarrow> final_kept s t"
  by (simp add: final_kept_def)

lemma final_trans: "final_kept s t \<Longrightarrow> final_kept t u \<Longrightarrow> final_kept s u"
  unfolding final_kept_def by (rule final_db_trans)

lemma world_detach: "rl_world (detach m s) = snd (m (rl_world s))"
  by (auto simp: detach_def split: prod.split sum.split)

lemma final_pg:
  assumes "\<And>now d. final_db d (g now d)" "w_db w = d"
  shows "final_db d (w_db (snd (pg_now (\<lambda>now d. Some ((), g now d)) w)))"
  using assms by (auto simp: pg_now_def pg_def Let_def split: list.split bool.split)

lemma final_ops:
  "final_kept s (detach (redis_do ex c) s)" "final_kept s (markActive i s)" "final_kept s (closeSession ex i reason s)"
proof -
  show "final_kept s (detach (redis_do ex c) s)" by (simp add: final_kept_def world_detach)
  show "final_kept s (markActive i s)"
    by (simp add: markActive_def Let_def final_kept_same) (simp add: quiet_def final_kept_def final_pg final_db_sql)
  show "final_kept s (closeSession ex i reason s)"
    by (simp add: closeSession_def Let_def final_kept_def world_detach final_pg[OF final_db_sql(2)])
qed

lemma redis_markActive [simp]: "w_redis (rl_world (markActive i s)) = w_redis (rl_world s)"
  by (auto simp: markActive_def quiet_def pg_now_def pg_def Let_def split: list.split bool.split option.split)

lemma world_messages [simp]:
  "rl_world (onAgentMessage i data flag s) = rl_world s" "rl_world (onViewerMessage i data flag s) = rl_world s"
  by (simp_all add: onAgentMessage_def onViewerMessage_def Let_def)

lemma world_fold_messages [simp]:
  "rl_world (fold (\<lambda>(d, b). onAgentMessage i d b) ms s) = rl_world s"
  "rl_world (fold (\<lambda>(d, b). onViewerMessage i d b) ms s) = rl_world s"
  by (induction ms arbitrary: s) auto

text \<open>A join marks the session active at most, and leaves Redis alone.\<close>

definition quiet_join :: "'r relay \<Rightarrow> 'r relay \<Rightarrow> bool" where
  "quiet_join s t \<longleftrightarrow> final_kept s t \<and> w_redis (rl_world t) = w_redis (rl_world s)"

lemma quiet_markActive: "rl_world t = rl_world s \<Longrightarrow> quiet_join s (markActive i t)"
  using final_trans[OF final_kept_same final_ops(2)] by (simp add: quiet_join_def)

lemma quiet_joins: "quiet_join s (onAgentJoin i ws dev s)" "quiet_join s (onViewerJoin i ws s)"
proof -
  have snd_world: "rl_world (send k f t) = rl_world t" for k f and t :: "'a relay" by (simp add: send_def)
  show "quiet_join s (onAgentJoin i ws dev s)" unfolding onAgentJoin_def Let_def
    by (rule quiet_markActive) (simp add: snd_world)
  show "quiet_join s (onViewerJoin i ws s)" unfolding onViewerJoin_def Let_def
    by (rule quiet_markActive) (simp add: snd_world split: option.split)
qed

lemma quiet_join_session: "quiet_join s (join_session r c ws early s)"
proof -
  obtain i s1 where g: "getOrCreate (cl_sid c) (text_of (cl_did c)) (case cl_uid c of None \<Rightarrow> 0 | Some u \<Rightarrow> u) s = (i, s1)" by force
  have w: "rl_world s1 = rl_world s" using g by (auto simp: getOrCreate_def split: option.splits)
  have q: "quiet_join s t" if "quiet_join u t" "rl_world u = rl_world s" for t u
    using that by (simp add: quiet_join_def final_kept_def)
  show ?thesis
  proof (cases r)
    case Agent
    then show ?thesis
      using q[OF quiet_joins(1)] w by (simp add: join_session_def Let_def g quiet_join_def final_kept_def)
  next
    case Viewer
    then show ?thesis
      using q[OF quiet_joins(2)] w by (simp add: join_session_def Let_def g quiet_join_def final_kept_def)
  qed
qed

lemma final_onConnection: "final_kept s (onConnection env ws url early s)"
proof (cases rule: onConnection_cases[of env url ws early s])
  case (join r c path tok w)
  have "final_kept (s\<lparr>rl_world := w\<rparr>) (join_session r c ws early (s\<lparr>rl_world := w\<rparr>))"
    by (rule quiet_join_session[unfolded quiet_join_def, THEN conjunct1])
  with join(5,6) show ?thesis by (simp add: final_kept_def)
qed (simp_all add: final_kept_def reject_def)

lemma final_onClose: "final_kept s (onClose ex ws s)"
  by (auto simp: onClose_def Let_def final_kept_same split: option.split prod.split role.split
      intro: final_trans[OF final_kept_same final_ops(3)])

lemma final_onTimer: "final_kept s (onTimer ex h s)"
  by (auto simp: onTimer_def Let_def final_kept_same split: option.split intro: final_trans[OF final_kept_same final_ops(3)])

lemma final_tick: "final_kept s (tick ex buffered s)"
proof -
  have t: "final_kept s (tick_session ex buffered i s)" for i s
    by (auto simp: tick_session_def Let_def final_kept_same intro: final_trans[OF final_kept_same final_ops(3)])
  have f: "final_kept s (fold (tick_session ex buffered) is s)" for "is" s
  proof (induction "is" arbitrary: s)
    case (Cons i "is")
    show ?case using final_trans[OF t Cons.IH] by simp
  qed (simp add: final_kept_same)
  show ?thesis unfolding tick_def Let_def by (rule final_trans[OF final_trans[OF final_ops(1) final_ops(1)] f])
qed

lemma final_step:
  assumes "step env s s'"
  shows "final_kept s s' \<or> (\<exists>w. s' = s\<lparr>rl_world := w\<rparr>)"
  using assms
proof cases
  case (connect ws url early)
  then show ?thesis
    using final_trans[OF final_kept_same final_onConnection, of "s\<lparr>rl_pending := removeAll ws (rl_pending s)\<rparr>" s] by simp
next
  case (message ws data flag)
  then show ?thesis by (auto simp: onMessage_def intro!: final_kept_same split: option.split prod.split role.split)
qed (auto simp: final_kept_same final_onClose final_onTimer final_tick)

section \<open>Properties\<close>

text \<open>A relay with one session: an agent on socket 0, a viewer on socket 1, tokens that name \<open>s1\<close>.\<close>

definition demo_claims :: "string \<Rightarrow> claims" where
  "demo_claims jti = \<lparr>cl_sid = ''s1'', cl_did = Some ''d1'', cl_uid = Some 1, cl_node = Some ''n1'', cl_jti = Some jti\<rparr>"

definition demo_env :: "mem relay_env" where
  "demo_env = \<lparr>re_redis = mem_redis,
     re_verify = (\<lambda>tok r. if tok = ''a'' \<and> r = Agent \<or> tok = ''v'' \<and> r = Viewer then Some (demo_claims tok) else None),
     re_url = (\<lambda>u. if u = ''/agent'' then Some (u, Some ''a'') else if u = ''/viewer'' then Some (u, Some ''v'') else None)\<rparr>"

definition accepted :: "'r relay \<Rightarrow> 'r relay" where
  "accepted s = s\<lparr>rl_open := rl_nextSock s # rl_open s, rl_pending := rl_nextSock s # rl_pending s, rl_nextSock := rl_nextSock s + 1\<rparr>"

definition connected :: "'r relay_env \<Rightarrow> sock \<Rightarrow> string \<Rightarrow> 'r relay \<Rightarrow> 'r relay" where
  "connected env ws url s = onConnection env ws url [] (s\<lparr>rl_pending := removeAll ws (rl_pending s)\<rparr>)"

definition demo_agent :: "mem relay" where
  "demo_agent = connected demo_env 0 ''/agent'' (accepted (accepted (initial ''n1'' (demo_world Map.empty))))"

definition demo_pair :: "mem relay" where
  "demo_pair = connected demo_env 1 ''/viewer'' demo_agent"

text \<open>The same pair after the operator ended the session.\<close>

definition over_row :: session_row where
  "over_row = \<lparr>ss_deviceId = ''d1'', ss_operatorId = 1, ss_relayNode = ''n1'', ss_state = Closed, ss_entryPoint = None,
     ss_requestedAt = 0, ss_connectedAt = None, ss_endedAt = Some 5, ss_failReason = None, ss_bytesOut = 0,
     ss_inputEvents = 0, ss_peerIp = None\<rparr>"

definition demo_over :: "mem relay" where
  "demo_over = demo_pair\<lparr>rl_world := (rl_world demo_pair)\<lparr>w_db := (w_db (rl_world demo_pair))\<lparr>tb_sessions := [(''s1'', over_row)]\<rparr>\<rparr>\<rparr>"

lemma demo_reachable: "reachable demo_env ''n1'' demo_pair"
proof -
  let ?s = "initial ''n1'' (demo_world Map.empty)"
  have acc: "reachable demo_env ''n1'' s \<Longrightarrow> \<not> rl_crashed s \<Longrightarrow> reachable demo_env ''n1'' (accepted s)" for s
    unfolding accepted_def by (rule reachable.more[OF _ step.accept])
  have con: "reachable demo_env ''n1'' s \<Longrightarrow> \<not> rl_crashed s \<Longrightarrow> ws \<in> set (rl_pending s) \<Longrightarrow>
      reachable demo_env ''n1'' (connected demo_env ws url s)" for s ws url
    unfolding connected_def by (rule reachable.more[OF _ step.connect])
  have "reachable demo_env ''n1'' (accepted (accepted ?s))"
    by (intro acc reachable.start) (simp_all add: accepted_def initial_def)
  then have "reachable demo_env ''n1'' demo_agent"
    unfolding demo_agent_def by (rule con) (simp_all add: accepted_def initial_def)
  moreover have "\<not> rl_crashed demo_agent" "1 \<in> set (rl_pending demo_agent)" by code_simp+
  ultimately show ?thesis unfolding demo_pair_def by (rule con)
qed

definition relayed :: "sock \<Rightarrow> bytes \<Rightarrow> bool \<Rightarrow> 'r relay \<Rightarrow> (sock \<times> frame) list" where
  "relayed ws data flag s = (case map_of (rl_att s) ws of
      None \<Rightarrow> []
    | Some (r, i) \<Rightarrow> (case peer (other_role r) (rl_heap s ! i) of
        None \<Rightarrow> []
      | Some v \<Rightarrow> if v \<in> set (rl_open s)
          then [(v, Payload (if r = Agent then is_binary data flag else flag) data)] else []))"



text \<open>
  C16 The session table: in every reachable state a session id is at most once in the table and stands
  for the session of that id, and a session has a pending viewer timeout at most once, only while
  no viewer is attached to it.
\<close>

theorem relay_table:
  assumes "reachable env node s"
  shows "distinct (map fst (rl_map s)) \<and>
    (\<forall>p \<in> set (rl_map s). snd p < length (rl_heap s) \<and> rs_id (rl_heap s ! snd p) = fst p) \<and>
    distinct (map snd (rl_timers s)) \<and> (\<forall>p \<in> set (rl_timers s). rs_viewer (rl_heap s ! snd p) = None)"
proof -
  have t: "table_ok s" and tm: "timers_ok s" using reachable_inv[OF assms] by (simp_all add: inv_def)
  have "rs_timer (rl_heap s ! snd p) = Some (fst p)" if "p \<in> set (rl_timers s)" for p
    using tm that by (cases p) (auto simp: timers_ok_def)
  then have "fst p = fst q" if "p \<in> set (rl_timers s)" "q \<in> set (rl_timers s)" "snd p = snd q" for p q
    using that by (metis option.inject)
  then have "inj_on snd (set (rl_timers s))" by (auto intro!: inj_onI simp: prod_eq_iff)
  moreover have "distinct (rl_timers s)" using tm by (simp add: timers_ok_def distinct_map)
  ultimately have "distinct (map snd (rl_timers s))" by (simp add: distinct_map)
  moreover have "rs_viewer (rl_heap s ! snd p) = None" if "p \<in> set (rl_timers s)" for p
    using tm that by (cases p) (auto simp: timers_ok_def)
  ultimately show ?thesis using t tableD[OF t] by (simp add: table_ok_def)
qed

theorem relay_table_witness:
  "distinct (map fst (rl_map demo_pair)) \<and> map fst (rl_map demo_pair) = [''s1'']"
proof -
  have "map fst (rl_map demo_pair) = [''s1'']" by code_simp
  with relay_table[OF demo_reachable] show ?thesis by blast
qed


text \<open>A handshake that let nothing in: the socket is closed and no session knows it.\<close>

definition turned_away :: "sock \<Rightarrow> 'r relay \<Rightarrow> 'r relay \<Rightarrow> bool" where
  "turned_away ws s t \<longleftrightarrow> ws \<notin> set (rl_open t) \<and> rl_heap t = rl_heap s \<and> rl_map t = rl_map s \<and> rl_att t = rl_att s"

text \<open>
  C12 An agent's token lets one connection in: either the socket is closed and no session knows it,
  or the token's key in Redis was free and this connection took it for two minutes; so as long as
  the key is there every further connection with the token is turned away.
\<close>

theorem agent_token_once:
  fixes s :: "'r relay" and ws :: sock and early :: "(bytes \<times> bool) list"
  assumes "redis_service (re_redis env) peek"
    and "re_url env url = Some (path, tok)" "role_of_path path = Some Agent"
    and "re_verify env (text_of tok) Agent = Some c"
  defines "k \<equiv> key_string (KTokenUsed (text_of (cl_jti c)))"
  defines "s' \<equiv> onConnection env ws url early s"
  shows "if peek (w_redis (rl_world s)) k = None
    then turned_away ws s s' \<or> peek (w_redis (rl_world s')) = (peek (w_redis (rl_world s)))(k \<mapsto> (RStr ''1'', Some 120))
    else turned_away ws s s'"
proof -
  show ?thesis
  proof (cases rule: onConnection_cases[of env url ws early s])
    case crash
    with assms(2) show ?thesis by simp
  next
    case (refuse w)
    then show ?thesis by (simp add: s'_def turned_away_def reject_def close_ws_def)
  next
    case (join r d p t w)
    have d: "r = Agent" "d = c" using join(1-3) assms(2-4) by auto
    let ?Q = "\<lambda>b w'. b \<longrightarrow> peek (w_redis (rl_world s)) k = None \<and>
        peek (w_redis w') = (peek (w_redis (rl_world s)))(k \<mapsto> (RStr ''1'', Some TTL_tokenUsed))"
    have "wp (redis_setnx (re_redis env) k ''1'' TTL_tokenUsed) ?Q (\<lambda>_ _. True) (rl_world s)"
      by (rule redis_service.wp_setnx[OF assms(1)]) simp_all
    from wp_okD[OF this join(7)[OF d(1), unfolded d(2), folded k_def]]
    have "peek (w_redis (rl_world s)) k = None"
      "peek (w_redis w) = (peek (w_redis (rl_world s)))(k \<mapsto> (RStr ''1'', Some 120))" by (simp_all add: TTL_tokenUsed_def)
    moreover have "w_redis (rl_world s') = w_redis w"
      using quiet_join_session[unfolded quiet_join_def, THEN conjunct2, of r d ws early "s\<lparr>rl_world := w\<rparr>"]
      by (simp add: s'_def join(5))
    ultimately show ?thesis by simp
  qed
qed

theorem agent_token_once_witness:
  "turned_away 1 demo_agent (onConnection demo_env 1 ''/agent'' [] demo_agent)"
proof -
  have k: "snd (w_redis (rl_world demo_agent)) (key_string (KTokenUsed (text_of (cl_jti (demo_claims ''a''))))) \<noteq> None"
    by code_simp
  have r: "redis_service (re_redis demo_env) snd" using mem.redis_service_axioms by (simp add: demo_env_def)
  have "re_url demo_env ''/agent'' = Some (''/agent'', Some ''a'')" "role_of_path ''/agent'' = Some Agent"
    "re_verify demo_env (text_of (Some ''a'')) Agent = Some (demo_claims ''a'')"
    by (simp_all add: demo_env_def role_of_path_def text_of_def)
  from agent_token_once[OF r this, where ws = 1 and early = "[]" and s = demo_agent] k show ?thesis by simp
qed

text \<open>
  The tick: it drops from the table exactly the sessions without activity for more than ten
  minutes and keeps the others in order.
\<close>

theorem relay_tick_drops_idle:
  assumes "reachable env node s"
  shows "rl_map (tick ex buffered s) =
    filter (\<lambda>p. \<not> 600000 < w_now (rl_world s) - rs_lastActivity (rl_heap s ! snd p)) (rl_map s)"
  using tick_keeps_recent[of env s ex buffered] reachable_inv[OF assms] by (simp add: idle_def IDLE_MS_def)

theorem relay_tick_drops_idle_witness:
  "map fst (rl_map (tick mem_redis (\<lambda>_. 0) demo_pair)) = [''s1'']"
proof -
  have "map fst (filter (\<lambda>p. \<not> 600000 < w_now (rl_world demo_pair) - rs_lastActivity (rl_heap demo_pair ! snd p)) (rl_map demo_pair)) = [''s1'']"
    by code_simp
  with relay_tick_drops_idle[OF demo_reachable, of mem_redis "\<lambda>_. 0"] show ?thesis by simp
qed

text \<open>
  Sessions that are over stay over: a step of the relay that is not one of the other services
  writes to no table but the sessions, and no row that is closed or failed changes.
\<close>

theorem relay_final_sessions:
  assumes "step env s s'"
  shows "(\<exists>w. s' = s\<lparr>rl_world := w\<rparr>) \<or>
    ((\<exists>t. w_db (rl_world s') = (w_db (rl_world s))\<lparr>tb_sessions := t\<rparr>) \<and>
     (\<forall>sid r. map_of (tb_sessions (w_db (rl_world s))) sid = Some r \<longrightarrow> ss_state r \<in> {Closed, Failed} \<longrightarrow>
        map_of (tb_sessions (w_db (rl_world s'))) sid = Some r))"
  using final_step[OF assms] by (auto simp: final_kept_def final_db_def)


theorem relay_final_sessions_witness:
  "map_of (tb_sessions (w_db (rl_world (onClose mem_redis 0 demo_over)))) ''s1'' = Some over_row"
proof -
  have "step demo_env demo_over (onClose (re_redis demo_env) 0 demo_over)" by (rule step.sock_close; code_simp)
  moreover have "map_of (tb_sessions (w_db (rl_world demo_over))) ''s1'' = Some over_row" "ss_state over_row = Closed"
    by code_simp+
  moreover have "\<forall>w. onClose (re_redis demo_env) 0 demo_over \<noteq> demo_over\<lparr>rl_world := w\<rparr>"
  proof
    fix w
    have "rl_open (onClose (re_redis demo_env) 0 demo_over) \<noteq> rl_open demo_over" by code_simp
    then show "onClose (re_redis demo_env) 0 demo_over \<noteq> demo_over\<lparr>rl_world := w\<rparr>" by auto
  qed
  moreover have "re_redis demo_env = mem_redis" by (simp add: demo_env_def)
  ultimately show ?thesis using relay_final_sessions[of demo_env demo_over "onClose (re_redis demo_env) 0 demo_over"] by simp
qed

end
