(* ===== verification/JsonText.thy ===== *)
theory JsonText
  imports Json
begin

text \<open>
  The text \<open>JSON.stringify\<close> and \<open>stableStringify\<close> produce determines the value: no two different
  values print alike, and a value's text is never a proper prefix of another's. So the string
  that \<open>capsHash\<close> digests determines the capabilities (up to key order) and the agent version.
\<close>

section \<open>Scalars\<close>

definition num_char :: "char \<Rightarrow> bool" where
  "num_char c = (is_digit c \<or> c \<in> set ''.e+-'')"

text \<open>Where a text may be followed by \<open>s\<close>: after a number, not by a character of numbers.\<close>

definition delimits :: "json \<Rightarrow> string \<Rightarrow> bool" where
  "delimits v s = (case v of JNum _ \<Rightarrow> s = [] \<or> \<not> num_char (hd s) | _ \<Rightarrow> True)"

fun plain_json :: "json \<Rightarrow> bool" where
  "plain_json (JNum n) = (case n of Fin q \<Rightarrow> is_double q | _ \<Rightarrow> False)"
| "plain_json (JArr js) = (\<forall>j \<in> set js. plain_json j)"
| "plain_json (JObj kvs) = (\<forall>(k, v) \<in> set kvs. plain_json v)"
| "plain_json _ = True"

lemma number_text:
  assumes "is_double q"
  shows "\<exists>c r. num_to_string (Fin q) = c # r \<and> (is_digit c \<or> c = CHR ''-'') \<and> (\<forall>x \<in> set (c # r). num_char x)"
proof -
  have "number_like (pos_to_string \<bar>q\<bar>)"
    using assms parse_pos_to_string[of "\<bar>q\<bar>"] pos_to_string_number_like[of "\<bar>q\<bar>"]
    by (simp add: is_double_def)
  then obtain c r where "pos_to_string \<bar>q\<bar> = c # r" "is_digit c" "set r \<subseteq> Collect is_digit \<union> set ''.e+-''"
    by (auto simp: number_like_def)
  then show ?thesis by (cases "q < 0") (auto simp: num_char_def)
qed

lemma takeWhile_num:
  assumes "\<forall>x \<in> set n. num_char x" "s = [] \<or> \<not> num_char (hd s)"
  shows "takeWhile num_char (n @ s) = n"
  using assms by (cases s) (auto simp: takeWhile_append takeWhile_eq_all_conv[THEN iffD2])

lemma number_prefix:
  assumes "is_double a" "is_double b" "s = [] \<or> \<not> num_char (hd s)" "t = [] \<or> \<not> num_char (hd t)"
    and "num_to_string (Fin a) @ s = num_to_string (Fin b) @ t"
  shows "a = b \<and> s = t"
proof -
  have "\<forall>x \<in> set (num_to_string (Fin a)). num_char x" "\<forall>x \<in> set (num_to_string (Fin b)). num_char x"
    using number_text[OF assms(1)] number_text[OF assms(2)] by auto
  then have e: "num_to_string (Fin a) = num_to_string (Fin b)"
    using assms(3-5) takeWhile_num by metis
  then have "Fin a = Fin b"
    using assms(1,2) to_number_num_to_string by metis
  with e assms(5) show ?thesis by simp
qed

text \<open>Reading one escaped character back.\<close>

definition unhex :: "char \<Rightarrow> nat" where
  "unhex c = (case hex_val c of Some v \<Rightarrow> v | None \<Rightarrow> 0)"

fun unescape :: "string \<Rightarrow> (char \<times> string) option" where
  "unescape [] = None"
| "unescape (x # r) =
     (if x \<noteq> CHR 0x5C then Some (x, r)
      else case r of
        [] \<Rightarrow> None
      | y # r' \<Rightarrow>
          (if y = CHR ''b'' then Some (CHR 0x08, r')
           else if y = CHR ''t'' then Some (CHR 0x09, r')
           else if y = CHR ''n'' then Some (CHR 0x0A, r')
           else if y = CHR ''f'' then Some (CHR 0x0C, r')
           else if y = CHR ''r'' then Some (CHR 0x0D, r')
           else if y = CHR ''u'' then
             (case r' of a # b # h # l # t \<Rightarrow> Some (char_of (16 * unhex h + unhex l), t) | _ \<Rightarrow> None)
           else Some (y, r')))"

lemma unhex_hex_char [simp]: "n < 16 \<Longrightarrow> unhex (hex_char n) = n"
  by (auto simp: unhex_def hex_val_def hex_char_def Let_def)

lemma char_codes:
  "((of_char c :: nat) = 34) = (c = CHR 0x22)"
  "((of_char c :: nat) = 92) = (c = CHR 0x5C)"
  "((of_char c :: nat) = 8) = (c = CHR 0x08)"
  "((of_char c :: nat) = 9) = (c = CHR 0x09)"
  "((of_char c :: nat) = 10) = (c = CHR 0x0A)"
  "((of_char c :: nat) = 12) = (c = CHR 0x0C)"
  "((of_char c :: nat) = 13) = (c = CHR 0x0D)"
  using of_char_eq_iff[of c "CHR 0x22", where 'a = nat]
    of_char_eq_iff[of c "CHR 0x5C", where 'a = nat]
    of_char_eq_iff[of c "CHR 0x08", where 'a = nat]
    of_char_eq_iff[of c "CHR 0x09", where 'a = nat]
    of_char_eq_iff[of c "CHR 0x0A", where 'a = nat]
    of_char_eq_iff[of c "CHR 0x0C", where 'a = nat]
    of_char_eq_iff[of c "CHR 0x0D", where 'a = nat]
  by simp_all

lemma unescape_escape: "unescape (escape_char c @ s) = Some (c, s)"
proof (cases "c \<in> {CHR 0x22, CHR 0x5C, CHR 0x08, CHR 0x09, CHR 0x0A, CHR 0x0C, CHR 0x0D}")
  case True
  then show ?thesis by (auto simp: escape_char_def)
next
  case False
  have "char_of (16 * ((of_char c :: nat) div 16) + of_char c mod 16) = c" by simp
  with False show ?thesis by (simp add: escape_char_def Let_def char_codes)
qed

lemma escape_char_prefix: "escape_char c @ s = escape_char d @ t \<Longrightarrow> c = d \<and> s = t"
  by (metis unescape_escape option.inject prod.inject)

lemma escape_char_head: "\<exists>x r. escape_char c = x # r \<and> x \<noteq> CHR 0x22"
  by (auto simp: escape_char_def Let_def)

lemma quote_prefix: "quote a @ s = quote b @ t \<Longrightarrow> a = b \<and> s = t"
proof -
  have "concat (map escape_char a) @ CHR 0x22 # s = concat (map escape_char b) @ CHR 0x22 # t \<Longrightarrow> a = b \<and> s = t"
  proof (induction a arbitrary: b)
    case Nil
    then show ?case using escape_char_head[of "hd b"] by (cases b) auto
  next
    case (Cons c a)
    show ?case
    proof (cases b)
      case Nil
      then show ?thesis using Cons.prems escape_char_head[of c] by auto
    next
      case (Cons d b')
      with Cons.prems have "escape_char c @ concat (map escape_char a) @ CHR 0x22 # s =
          escape_char d @ concat (map escape_char b') @ CHR 0x22 # t" by simp
      from escape_char_prefix[OF this] Cons Cons.IH[of b'] show ?thesis by simp
    qed
  qed
  then show "quote a @ s = quote b @ t \<Longrightarrow> a = b \<and> s = t" by (simp add: quote_def)
qed

section \<open>Sequences of members\<close>

text \<open>
  \<open>decodes f x\<close>: wherever a separator or the closing character \<open>c\<close> follows, the text of \<open>x\<close> is
  told from the text of any other admissible element.
\<close>

definition decodes :: "char \<Rightarrow> ('a \<Rightarrow> bool) \<Rightarrow> ('a \<Rightarrow> string) \<Rightarrow> 'a \<Rightarrow> bool" where
  "decodes c ok f x = (\<forall>y s t. ok y \<longrightarrow> s \<noteq> [] \<longrightarrow> t \<noteq> [] \<longrightarrow> hd s \<in> {CHR '','', c} \<longrightarrow>
     hd t \<in> {CHR '','', c} \<longrightarrow> f x @ s = f y @ t \<longrightarrow> x = y \<and> s = t)"

lemma decodes_tail:
  assumes "\<forall>x \<in> set xs. decodes c ok f x" "\<forall>y \<in> set ys. ok y" "c \<noteq> CHR '',''"
    and "concat (map (\<lambda>u. CHR '','' # f u) xs) @ c # s = concat (map (\<lambda>u. CHR '','' # f u) ys) @ c # t"
  shows "xs = ys \<and> s = t"
  using assms
proof (induction xs arbitrary: ys)
  case Nil
  then show ?case by (cases ys) auto
next
  case (Cons x xs)
  let ?T = "\<lambda>us z. concat (map (\<lambda>u. CHR '','' # f u) us) @ c # z"
  have hdT: "?T us z \<noteq> []" "hd (?T us z) \<in> {CHR '','', c}" for us z by (cases us; simp)+
  obtain y ys' where ys: "ys = y # ys'"
    using Cons.prems(3,4) by (cases ys) auto
  with Cons.prems(4) have "f x @ ?T xs s = f y @ ?T ys' t" by simp
  moreover have "decodes c ok f x" "ok y" using Cons.prems(1,2) ys by auto
  ultimately have "x = y \<and> ?T xs s = ?T ys' t" using hdT unfolding decodes_def by blast
  with Cons.IH[of ys'] Cons.prems ys show ?case by simp
qed

lemma decodes_join:
  assumes "\<forall>x \<in> set xs. decodes c ok f x" "\<forall>y \<in> set ys. ok y" "c \<noteq> CHR '',''"
    and ne: "\<forall>x \<in> set xs \<union> set ys. f x \<noteq> [] \<and> hd (f x) \<noteq> c"
    and "join '','' (map f xs) @ c # s = join '','' (map f ys) @ c # t"
  shows "xs = ys \<and> s = t"
proof (cases xs; cases ys)
  fix x xs' y ys' assume xy: "xs = x # xs'" "ys = y # ys'"
  let ?T = "\<lambda>us z. concat (map (\<lambda>u. CHR '','' # f u) us) @ c # z"
  have hdT: "?T us z \<noteq> []" "hd (?T us z) \<in> {CHR '','', c}" for us z by (cases us; simp)+
  from xy assms(5) have "f x @ ?T xs' s = f y @ ?T ys' t" by (simp add: join_def comp_def)
  moreover have "decodes c ok f x" "ok y" using assms(1,2) xy by auto
  ultimately have "x = y \<and> ?T xs' s = ?T ys' t" using hdT unfolding decodes_def by blast
  with decodes_tail[of xs' c ok f ys' s t] assms(1-3) xy show ?thesis by simp
next
  fix y ys' assume "xs = []" "ys = y # ys'"
  with assms(5) ne show ?thesis by (cases "f y") (auto simp: join_def)
next
  fix x xs' assume "xs = x # xs'" "ys = []"
  with assms(5) ne show ?thesis by (cases "f x") (auto simp: join_def)
next
  assume "xs = []" "ys = []"
  with assms(5) show ?thesis by (simp add: join_def)
qed

section \<open>Values\<close>

definition member_text :: "string \<times> json \<Rightarrow> string" where
  "member_text p = (case p of (k, v) \<Rightarrow> quote k @ '':'' @ json_stringify v)"

lemma json_stringify_JObj: "json_stringify (JObj kvs) = braces (map member_text kvs)"
proof -
  have "(\<lambda>(k, v). quote k @ '':'' @ json_stringify v) = member_text"
    by (auto simp: member_text_def)
  then show ?thesis by simp
qed

text \<open>The first character tells the kind of value.\<close>

definition lead :: "json \<Rightarrow> char set" where
  "lead v = (case v of
      JNull \<Rightarrow> {CHR ''n''} | JBool b \<Rightarrow> (if b then {CHR ''t''} else {CHR ''f''})
    | JNum _ \<Rightarrow> {c. is_digit c \<or> c = CHR ''-''} | JStr _ \<Rightarrow> {CHR 0x22}
    | JArr _ \<Rightarrow> {CHR ''[''} | JObj _ \<Rightarrow> {CHR ''{''})"

lemma stringify_lead:
  "plain_json v \<Longrightarrow> \<exists>c r. json_stringify v = c # r \<and> c \<in> lead v"
proof (cases v)
  case (JNum n)
  assume "plain_json v"
  with JNum show ?thesis using number_text by (cases n) (fastforce simp: scalar_string_def lead_def)+
qed (auto simp: scalar_string_def lead_def quote_def brackets_def braces_def simp del: append.simps)

lemma lead_close: "c \<in> lead v \<Longrightarrow> c \<noteq> CHR '']'' \<and> c \<noteq> CHR ''}''"
  by (cases v) (auto simp: lead_def is_digit_def split: if_splits)

lemma stringify_head: "plain_json v \<Longrightarrow> json_stringify v \<noteq> [] \<and> hd (json_stringify v) \<in> lead v"
  using stringify_lead by fastforce

theorem stringify_prefix:
  "plain_json v \<Longrightarrow> plain_json w \<Longrightarrow> delimits v s \<Longrightarrow> delimits w t \<Longrightarrow>
   json_stringify v @ s = json_stringify w @ t \<Longrightarrow> v = w \<and> s = t"
proof (induction v arbitrary: w s t)
  case (JArr js)
  have "CHR ''['' \<in> lead w" using JArr.prems stringify_head[of w]
    by (cases "json_stringify w") (auto simp: brackets_def)
  then obtain ks where w: "w = JArr ks"
    by (cases w) (auto simp: lead_def is_digit_def split: if_splits)
  have close: "delimits u r" if "hd r \<in> {CHR '','', CHR '']''}" for u r
    using that by (auto simp: delimits_def num_char_def is_digit_def split: json.split)
  have "decodes (CHR '']'') plain_json json_stringify x" if x: "x \<in> set js" for x
    unfolding decodes_def
  proof (intro allI impI)
    fix y s' t' assume "plain_json y" "hd s' \<in> {CHR '','', CHR '']''}"
      "hd t' \<in> {CHR '','', CHR '']''}" "json_stringify x @ s' = json_stringify y @ t'"
    then show "x = y \<and> s' = t'"
      using JArr.prems(1) x by (intro JArr.IH[OF x] close) auto
  qed
  moreover have "\<forall>x \<in> set js \<union> set ks. json_stringify x \<noteq> [] \<and> hd (json_stringify x) \<noteq> CHR '']''"
    using JArr.prems(1,2) w stringify_head lead_close by fastforce
  ultimately have "js = ks \<and> s = t"
    using JArr.prems w
    by (intro decodes_join[where c = "CHR '']''" and f = json_stringify and ok = plain_json])
       (auto simp: brackets_def)
  with w show ?case by simp
next
  case (JObj kvs)
  have "CHR ''{'' \<in> lead w" using JObj.prems stringify_head[of w]
    by (cases "json_stringify w") (auto simp: braces_def)
  then obtain ks where w: "w = JObj ks"
    by (cases w) (auto simp: lead_def is_digit_def split: if_splits)
  have close: "delimits u r" if "hd r \<in> {CHR '','', CHR ''}''}" for u r
    using that by (auto simp: delimits_def num_char_def is_digit_def split: json.split)
  have "decodes (CHR ''}'') (\<lambda>p. plain_json (snd p)) member_text x" if "x \<in> set kvs" for x
    unfolding decodes_def
  proof (intro allI impI)
    fix y s' t' assume y: "plain_json (snd y)" and hs: "hd s' \<in> {CHR '','', CHR ''}''}"
      "hd t' \<in> {CHR '','', CHR ''}''}" and eq: "member_text x @ s' = member_text y @ t'"
    obtain k v k' v' where xy: "x = (k, v)" "y = (k', v')" by (cases x; cases y) auto
    have "k = k' \<and> CHR '':'' # json_stringify v @ s' = CHR '':'' # json_stringify v' @ t'"
      using eq xy by (intro quote_prefix) (simp add: member_text_def)
    moreover have "plain_json v" using JObj.prems(1) that xy by auto
    ultimately show "x = y \<and> s' = t'"
      using JObj.IH[of x v v' s' t'] that xy y close[OF hs(1)] close[OF hs(2)] by auto
  qed
  moreover have "member_text x \<noteq> [] \<and> hd (member_text x) \<noteq> CHR ''}''" for x
    by (cases x) (simp add: member_text_def quote_def)
  ultimately have "kvs = ks \<and> s = t"
    using JObj.prems w
    by (intro decodes_join[where c = "CHR ''}''" and f = member_text and ok = "\<lambda>p. plain_json (snd p)"])
       (auto simp: braces_def json_stringify_JObj simp del: json_stringify.simps)
  with w show ?case by simp
next
  case (JNum n)
  obtain q where q: "n = Fin q" "is_double q" using JNum.prems(1) by (cases n) auto
  have "hd (json_stringify w) \<in> {c. is_digit c \<or> c = CHR ''-''}"
    using JNum.prems stringify_head[of "JNum n"] stringify_head[of w]
    by (cases "json_stringify w"; cases "json_stringify (JNum n)") (auto simp: lead_def)
  then obtain m where w: "w = JNum m"
    using stringify_head[OF JNum.prems(2)] by (cases w) (auto simp: lead_def is_digit_def split: if_splits)
  obtain p where p: "m = Fin p" "is_double p" using JNum.prems(2) w by (cases m) auto
  show ?case using number_prefix[of q p s t] JNum.prems q p w
    by (simp add: scalar_string_def delimits_def)
next
  case (JStr a)
  have "CHR 0x22 \<in> lead w" using JStr.prems stringify_head[of w]
    by (cases "json_stringify w") (auto simp: scalar_string_def quote_def)
  then obtain b where w: "w = JStr b"
    by (cases w) (auto simp: lead_def is_digit_def split: if_splits)
  show ?case using JStr.prems(5) w quote_prefix[of a s b t] by (simp add: scalar_string_def)
next
  case JNull
  have "CHR ''n'' \<in> lead w" using JNull.prems stringify_head[of w]
    by (cases "json_stringify w") (auto simp: scalar_string_def)
  then have "w = JNull" by (cases w) (auto simp: lead_def is_digit_def split: if_splits)
  with JNull.prems(5) show ?case by simp
next
  case (JBool b)
  have "(if b then CHR ''t'' else CHR ''f'') \<in> lead w" using JBool.prems stringify_head[of w]
    by (cases "json_stringify w") (auto simp: scalar_string_def split: if_splits)
  then have "w = JBool b" by (cases w) (auto simp: lead_def is_digit_def split: if_splits)
  with JBool.prems(5) show ?case by simp
qed

lemma plain_canon: "plain_json j \<Longrightarrow> plain_json (canon j)"
  by (induction j rule: canon.induct) auto

lemma capsHash_input_determines:
  assumes "plain_json (JObj a)" "plain_json (JObj b)"
    and "stableStringify (JObj a) @ va = stableStringify (JObj b) @ vb"
  shows "canon (JObj a) = canon (JObj b) \<and> va = vb"
proof (rule stringify_prefix)
  show "plain_json (canon (JObj a))" "plain_json (canon (JObj b))"
    using assms plain_canon by blast+
  show "delimits (canon (JObj a)) va" "delimits (canon (JObj b)) vb"
    by (simp_all add: delimits_def)
  show "json_stringify (canon (JObj a)) @ va = json_stringify (canon (JObj b)) @ vb"
    using assms(3) by (simp only: stableStringify_canon)
qed

section \<open>Properties\<close>

text \<open>
  C30 The hash of the capabilities sees what it should: capabilities that differ only in the order of
  their keys have the same hash, and when the digest does not collide on the two inputs, equal
  hashes mean equal capabilities (up to that order) and the same agent version: nothing can move
  from the version into the capabilities or back.
\<close>

theorem caps_hash_faithful:
  assumes "plain_json (JObj a)" "plain_json (JObj b)" "distinct (map fst a)"
    and no_collision: "\<forall>x y. sha1 x = sha1 y \<longrightarrow> x = y \<or> x \<notin> inputs \<or> y \<notin> inputs"
    and "stableStringify (JObj a) @ va \<in> inputs" "stableStringify (JObj b) @ vb \<in> inputs"
  shows "(capsHash sha1 (JObj a) va = capsHash sha1 (JObj b) vb \<longleftrightarrow> canon (JObj a) = canon (JObj b) \<and> va = vb) \<and>
    (mset a = mset a' \<longrightarrow> capsHash sha1 (JObj a') va = capsHash sha1 (JObj a) va)"
proof
  show "capsHash sha1 (JObj a) va = capsHash sha1 (JObj b) vb \<longleftrightarrow> canon (JObj a) = canon (JObj b) \<and> va = vb"
    using capsHash_input_determines[OF assms(1,2)] no_collision assms(5,6)
    unfolding capsHash_def stableStringify_canon by metis
  show "mset a = mset a' \<longrightarrow> capsHash sha1 (JObj a') va = capsHash sha1 (JObj a) va"
    using canon_perm[OF _ assms(3)] unfolding capsHash_def stableStringify_canon by metis
qed

theorem caps_hash_faithful_witness:
  "capsHash id (JObj [(''a11y'', JBool True), (''knox'', JStr ''x'')]) ''1.4.8'' =
     capsHash id (JObj [(''knox'', JStr ''x''), (''a11y'', JBool True)]) ''1.4.8'' \<and>
   capsHash id (JObj [(''a11y'', JBool True), (''knox'', JStr ''x'')]) ''1.4.8'' \<noteq>
     capsHash id (JObj [(''a11y'', JBool False)]) ''1.4.8''"
  using caps_hash_faithful[of "[(''a11y'', JBool True), (''knox'', JStr ''x'')]" "[(''a11y'', JBool False)]" id UNIV
      "''1.4.8''" "''1.4.8''" "[(''knox'', JStr ''x''), (''a11y'', JBool True)]"]
  by simp

text \<open>
  Merging a patch into an object works field by field: each field of the result is the merge of
  the base's field with the patch's; fields the patch lacks are the base's, and nothing else appears.
\<close>

theorem deep_merge_pointwise:
  assumes "distinct (map fst patch)"
  shows "\<exists>out'. deepMerge (Some (JObj out)) (Some (JObj patch)) = Some (JObj out') \<and>
     (\<forall>k. map_of out' k = deepMerge (map_of out k) (map_of patch k))"
  using assms by (rule deepMerge_pointwise)

theorem deep_merge_pointwise_witness:
  "\<exists>out'. deepMerge (Some (JObj [(''a'', JBool True)])) (Some (JObj [(''b'', JNull)])) = Some (JObj out') \<and>
     (\<forall>k. map_of out' k = deepMerge (map_of [(''a'', JBool True)] k) (map_of [(''b'', JNull)] k))"
  by (rule deep_merge_pointwise) simp

end
