(* ===== verification/JsonParse.thy ===== *)
theory JsonParse
  imports JsonText
begin

text \<open>
  \<open>JSON.parse\<close>, by recursive descent: what the services make of the payloads they receive. Strings
  of the model are sequences of code units below 256, so an escape beyond \<open>\u00ff\<close> is outside it
  (such a text is not read). A key that occurs twice keeps its first place and its last value.
\<close>

section \<open>Tokens\<close>

definition json_space :: "char \<Rightarrow> bool" where
  "json_space c = ((of_char c :: nat) \<in> {9, 10, 13, 32})"

definition skip :: "string \<Rightarrow> string" where
  "skip s = dropWhile json_space s"

text \<open>A character of a string literal, with its escapes; a bare control character is an error.\<close>

definition hex_byte :: "char \<Rightarrow> char \<Rightarrow> char option" where
  "hex_byte h l = (case (hex_val h, hex_val l) of (Some a, Some b) \<Rightarrow> Some (char_of (16 * a + b)) | _ \<Rightarrow> None)"

fun literal_char :: "string \<Rightarrow> (char \<times> string) option" where
  "literal_char [] = None"
| "literal_char (x # r) =
     (if x \<noteq> CHR 0x5C then (if (of_char x :: nat) < 32 then None else Some (x, r))
      else case r of
        [] \<Rightarrow> None
      | y # r' \<Rightarrow>
          (if y = CHR ''b'' then Some (CHR 0x08, r')
           else if y = CHR ''t'' then Some (CHR 0x09, r')
           else if y = CHR ''n'' then Some (CHR 0x0A, r')
           else if y = CHR ''f'' then Some (CHR 0x0C, r')
           else if y = CHR ''r'' then Some (CHR 0x0D, r')
           else if y \<in> {CHR 0x22, CHR 0x5C, CHR ''/''} then Some (y, r')
           else if y = CHR ''u'' then
             (case r' of a # b # h # l # t \<Rightarrow>
                (if a = CHR ''0'' \<and> b = CHR ''0'' then map_option (\<lambda>c. (c, t)) (hex_byte h l) else None)
              | _ \<Rightarrow> None)
           else None))"

lemma literal_char_shorter: "literal_char s = Some (c, t) \<Longrightarrow> length t < length s"
  by (cases s) (auto split: if_splits list.splits)

function parse_string :: "string \<Rightarrow> (string \<times> string) option" where
  "parse_string s = (case s of
      [] \<Rightarrow> None
    | x # r \<Rightarrow> if x = CHR 0x22 then Some ([], r)
        else (case literal_char s of
            None \<Rightarrow> None
          | Some (c, t) \<Rightarrow> map_option (\<lambda>(cs, u). (c # cs, u)) (parse_string t)))"
  by auto
termination
  by (relation "measure length") (auto dest: literal_char_shorter simp del: literal_char.simps)

declare parse_string.simps [simp del]

text \<open>\<open>-? (0 | [1-9][0-9]*) (. [0-9]+)? ([eE] [+-]? [0-9]+)?\<close>\<close>

definition digits_ok :: "string \<Rightarrow> bool" where
  "digits_ok s = (s \<noteq> [] \<and> (\<forall>c \<in> set s. is_digit c))"

definition exponent_ok :: "string \<Rightarrow> bool" where
  "exponent_ok s = (case s of [] \<Rightarrow> True
     | c # r \<Rightarrow> c \<in> set ''eE'' \<and> digits_ok (case r of d # r' \<Rightarrow> if d \<in> set ''+-'' then r' else r | [] \<Rightarrow> []))"

definition fraction_ok :: "string \<Rightarrow> bool" where
  "fraction_ok s = (case s of [] \<Rightarrow> True
     | c # r \<Rightarrow> if c = CHR ''.'' then takeWhile is_digit r \<noteq> [] \<and> exponent_ok (dropWhile is_digit r) else exponent_ok s)"

definition number_ok :: "string \<Rightarrow> bool" where
  "number_ok s0 = (let s = (case s0 of c # r \<Rightarrow> if c = CHR ''-'' then r else s0 | [] \<Rightarrow> []);
       i = takeWhile is_digit s
     in i \<noteq> [] \<and> (hd i = CHR ''0'' \<longrightarrow> i = ''0'') \<and> fraction_ok (dropWhile is_digit s))"

definition json_num_char :: "char \<Rightarrow> bool" where
  "json_num_char c = (num_char c \<or> c = CHR ''E'')"

definition parse_number :: "string \<Rightarrow> (json \<times> string) option" where
  "parse_number s = (let t = takeWhile json_num_char s in
     if number_ok t then Some (JNum (to_number_str t), dropWhile json_num_char s) else None)"

definition parse_word :: "string \<Rightarrow> json \<Rightarrow> string \<Rightarrow> (json \<times> string) option" where
  "parse_word w j s = (if prefix w s then Some (j, drop (length w) s) else None)"

section \<open>Values\<close>

fun parse_value :: "nat \<Rightarrow> string \<Rightarrow> (json \<times> string) option"
  and parse_elems :: "nat \<Rightarrow> json list \<Rightarrow> string \<Rightarrow> (json \<times> string) option"
  and parse_members :: "nat \<Rightarrow> (string \<times> json) list \<Rightarrow> string \<Rightarrow> (json \<times> string) option" where
  "parse_value 0 s = None"
| "parse_value (Suc n) s0 = (case skip s0 of
      [] \<Rightarrow> None
    | c # r \<Rightarrow>
        if c = CHR ''n'' then parse_word ''null'' JNull (c # r)
        else if c = CHR ''t'' then parse_word ''true'' (JBool True) (c # r)
        else if c = CHR ''f'' then parse_word ''false'' (JBool False) (c # r)
        else if c = CHR 0x22 then map_option (\<lambda>(s, t). (JStr s, t)) (parse_string r)
        else if c = CHR ''['' then
          (case skip r of [] \<Rightarrow> None | d # t \<Rightarrow> if d = CHR '']'' then Some (JArr [], t) else parse_elems n [] r)
        else if c = CHR ''{'' then
          (case skip r of [] \<Rightarrow> None | d # t \<Rightarrow> if d = CHR ''}'' then Some (JObj [], t) else parse_members n [] r)
        else parse_number (c # r))"
| "parse_elems 0 js s = None"
| "parse_elems (Suc n) js s = (case parse_value n s of
      None \<Rightarrow> None
    | Some (j, t) \<Rightarrow> (case skip t of
        [] \<Rightarrow> None
      | d # u \<Rightarrow> if d = CHR '','' then parse_elems n (js @ [j]) u
          else if d = CHR '']'' then Some (JArr (js @ [j]), u) else None))"
| "parse_members 0 kvs s = None"
| "parse_members (Suc n) kvs s = (case skip s of
      [] \<Rightarrow> None
    | q # r \<Rightarrow> if q \<noteq> CHR 0x22 then None else (case parse_string r of
        None \<Rightarrow> None
      | Some (k, t) \<Rightarrow> (case skip t of
          [] \<Rightarrow> None
        | d # u \<Rightarrow> if d \<noteq> CHR '':'' then None else (case parse_value n u of
            None \<Rightarrow> None
          | Some (v, x) \<Rightarrow> (case skip x of
              [] \<Rightarrow> None
            | e # y \<Rightarrow> if e = CHR '','' then parse_members n (AList.update k v kvs) y
                else if e = CHR ''}'' then Some (JObj (AList.update k v kvs), y) else None)))))"

text \<open>Every call consumes a character, so twice the length of the text is fuel enough.\<close>

definition json_parse :: "string \<Rightarrow> json option" where
  "json_parse s = (case parse_value (2 * length s + 1) s of
      Some (j, t) \<Rightarrow> if skip t = [] then Some j else None | None \<Rightarrow> None)"

end
