(* ===== verification/Ingest.thy ===== *)
theory Ingest
  imports World LiveHash Conn JsonParse
begin

text \<open>
  \<open>apps/rc-ingest/src/ingest.service.ts\<close>: what the devices and the broker publish is checked, rate
  limited and written to the live hashes in Redis and to the tables. Messages are handled one after
  the other; each is untrusted JSON whose fields may have any type.
\<close>

section \<open>Configuration and clients\<close>

definition HOUR_MS :: int where "HOUR_MS = 3600000"
definition DAY_MS :: int where "DAY_MS = 24 * HOUR_MS"
definition MAX_DUMP_SAMPLES :: nat where "MAX_DUMP_SAMPLES = 200"
definition TTL_device :: int where "TTL_device = 180"

definition envNum :: "(string \<Rightarrow> string option) \<Rightarrow> string \<Rightarrow> rat \<Rightarrow> rat" where
  "envNum env name fallback = (case env name of
      None \<Rightarrow> fallback
    | Some s \<Rightarrow> (case to_number_str s of Fin n \<Rightarrow> if 0 \<le> n then n else fallback | _ \<Rightarrow> fallback))"

definition saneTs :: "json option \<Rightarrow> int \<Rightarrow> rat" where
  "saneTs ts now = (case to_number ts of
      Fin n \<Rightarrow> if 0 < n \<and> \<bar>n - of_int now\<bar> < of_int DAY_MS then n else of_int now
    | _ \<Rightarrow> of_int now)"

record ingest_cfg =
  ic_hbStoreSec :: rat
  ic_autoDump :: bool
  ic_sampleDays :: int
  ic_connDays :: int
  ic_eventDays :: int

definition lower_ascii :: "char \<Rightarrow> char" where
  "lower_ascii c = (if 65 \<le> (of_char c :: nat) \<and> (of_char c :: nat) \<le> 90 then char_of (of_char c + 32 :: nat) else c)"

definition ingest_cfg :: "(string \<Rightarrow> string option) \<Rightarrow> ingest_cfg" where
  "ingest_cfg env = \<lparr>ic_hbStoreSec = envNum env ''HW_HB_STORE_SEC'' 90,
     ic_autoDump = (map lower_ascii (case env ''HW_AUTO_DUMP'' of None \<Rightarrow> ''1'' | Some s \<Rightarrow> s) \<notin> {''0'', ''false''}),
     ic_sampleDays = max 1 \<lfloor>envNum env ''HW_SAMPLE_RETENTION_DAYS'' 14\<rfloor>,
     ic_connDays = max 1 \<lfloor>envNum env ''CONN_EVENT_RETENTION_DAYS'' 30\<rfloor>,
     ic_eventDays = max 1 \<lfloor>envNum env ''HW_EVENT_RETENTION_DAYS'' 90\<rfloor>\<rparr>"

text \<open>
  What the client libraries and PostgreSQL make of a value whose type nobody checked is theirs:
  \<open>cv_text\<close> and \<open>cv_bool\<close> say what a \<open>NOT NULL\<close> text or boolean column holds afterwards (\<open>None\<close>
  rejects the statement), \<open>cv_time\<close> is \<open>to_timestamp(ms / 1000)\<close>, \<open>cv_arg\<close> an argument of a Redis
  command. The locale states what is documented and the properties need.
\<close>

record conv =
  cv_text :: "json \<Rightarrow> string option"
  cv_bool :: "json \<Rightarrow> bool option"
  cv_time :: "rat \<Rightarrow> rat option"
  cv_arg :: "json \<Rightarrow> string"

locale client_conv =
  fixes cv :: conv
  assumes text_plain: "CHR 0x00 \<notin> set s \<Longrightarrow> cv_text cv (JStr s) = Some s"
    and text_nul: "CHR 0x00 \<in> set s \<Longrightarrow> cv_text cv (JStr s) = None"
    and bool_plain: "cv_bool cv (JBool b) = Some b"
    and arg_plain: "cv_arg cv (JStr s) = s"

definition pg_conv :: conv where
  "pg_conv = \<lparr>cv_text = (\<lambda>j. case j of JStr s \<Rightarrow> if CHR 0x00 \<in> set s then None else Some s | JNull \<Rightarrow> None
       | JObj kvs \<Rightarrow> Some (json_stringify j) | _ \<Rightarrow> Some (to_str j)),
     cv_bool = (\<lambda>j. case j of JBool b \<Rightarrow> Some b | _ \<Rightarrow> None),
     cv_time = (\<lambda>ms. if \<bar>ms\<bar> \<le> 10 ^ 14 then Some (of_int (round (ms * 1000)) / 1000) else None),
     cv_arg = (\<lambda>j. case j of JNull \<Rightarrow> [] | _ \<Rightarrow> to_str j)\<rparr>"

interpretation pg_client: client_conv pg_conv
  by unfold_locales (simp_all add: pg_conv_def)

definition type_error :: error where
  "type_error = ThrownError ''TypeError''"

text \<open>Reading a property of \<open>null\<close> throws.\<close>

definition defined :: "json \<Rightarrow> ('r, unit) handler" where
  "defined msg = (if msg = JNull then raise type_error else ret ())"

definition field :: "json \<Rightarrow> string \<Rightarrow> json" where
  "field j k = nullish (oget j k) JNull"

section \<open>Devices and capabilities\<close>

definition new_device :: "int \<Rightarrow> int \<Rightarrow> device_row" where
  "new_device g now = \<lparr>dv_hmdmId = None, dv_androidId = None, dv_model = None, dv_osVersion = None,
     dv_groupId = Some g, dv_label = None, dv_firstSeen = now, dv_lastSeen = None, dv_syncedAt = None,
     dv_stale = False, dv_needsReprovisioning = False\<rparr>"

text \<open>\<open>INSERT .. SELECT .. ON CONFLICT DO NOTHING\<close>; group names are unique.\<close>

definition default_group :: "db \<Rightarrow> int option" where
  "default_group d = map_option fst (find (\<lambda>g. snd g = ''default'') (tb_groups d))"

definition sql_ensure_device :: "string \<Rightarrow> int \<Rightarrow> db \<Rightarrow> (bool \<times> db) option" where
  "sql_ensure_device dev now d = (case default_group d of
      None \<Rightarrow> Some (False, d)
    | Some g \<Rightarrow> if map_of (tb_devices d) dev \<noteq> None then Some (False, d)
        else Some (True, d\<lparr>tb_devices := tb_devices d @ [(dev, new_device g now)]\<rparr>))"

definition pg_at :: "(int \<Rightarrow> db \<Rightarrow> ('a \<times> db) option) \<Rightarrow> ('r, 'a) handler" where
  "pg_at q w = pg (q (w_now w)) w"

definition ensureDevice :: "'r redis_exec \<Rightarrow> string \<Rightarrow> ('r, unit) handler" where
  "ensureDevice ex dev = bindE (pg_at (sql_ensure_device dev))
     (\<lambda>created. whenE created (redis_do ex (Del [key_string (KDeviceCaps dev)])))"

definition update_device :: "string \<Rightarrow> (device_row \<Rightarrow> device_row) \<Rightarrow> db \<Rightarrow> db" where
  "update_device dev f d = d\<lparr>tb_devices := update_where (\<lambda>k _. k = dev) f (tb_devices d)\<rparr>"

definition sql_last_seen :: "string \<Rightarrow> int \<Rightarrow> db \<Rightarrow> (unit \<times> db) option" where
  "sql_last_seen dev now d = Some ((), update_device dev (\<lambda>r. r\<lparr>dv_lastSeen := Some now\<rparr>) d)"

definition sql_android :: "conv \<Rightarrow> string \<Rightarrow> json \<Rightarrow> bool \<Rightarrow> db \<Rightarrow> (unit \<times> db) option" where
  "sql_android cv dev reported reset d = (case cv_text cv reported of
      None \<Rightarrow> None
    | Some a \<Rightarrow> Some ((), update_device dev (\<lambda>r. r\<lparr>dv_androidId := Some a,
         dv_needsReprovisioning := (reset \<or> dv_needsReprovisioning r)\<rparr>) d))"

definition sql_reset_caps :: "string \<Rightarrow> int \<Rightarrow> db \<Rightarrow> (unit \<times> db) option" where
  "sql_reset_caps dev now d = Some ((), d\<lparr>tb_caps := update_where (\<lambda>k _. k = dev)
     (\<lambda>c. c\<lparr>cp_a11y := False, cp_overlay := False, cp_secureSettings := False, cp_projectMedia := ''blocked'',
        cp_knox := ''unlicensed'', cp_updatedAt := now\<rparr>) (tb_caps d)\<rparr>)"

definition stored_android :: "db \<Rightarrow> string \<Rightarrow> string" where
  "stored_android d dev = (case map_of (tb_devices d) dev of
      None \<Rightarrow> [] | Some r \<Rightarrow> (case dv_androidId r of None \<Rightarrow> [] | Some a \<Rightarrow> a))"

definition checkFactoryReset :: "'r redis_exec \<Rightarrow> conv \<Rightarrow> string \<Rightarrow> json \<Rightarrow> ('r, bool) handler" where
  "checkFactoryReset ex cv dev reported =
     bindE (pg_read (\<lambda>d. stored_android d dev)) (\<lambda>stored.
       if stored \<noteq> [] \<and> reported \<noteq> JStr stored
       then thenE (pg (sql_android cv dev reported True))
           (thenE (pg_at (sql_reset_caps dev))
           (thenE (redis_do ex (Del [key_string (KDeviceCaps dev)])) (ret True)))
       else thenE (pg (sql_android cv dev reported False)) (ret False))"

text \<open>\<open>findCaps\<close>: an absent encoder is a property with the value \<open>undefined\<close>.\<close>

definition caps_json :: "caps_row \<Rightarrow> json" where
  "caps_json r = JObj ([(''projectMedia'', JStr (cp_projectMedia r)), (''a11y'', JBool (cp_a11y r)),
      (''knox'', JStr (cp_knox r)), (''overlay'', JBool (cp_overlay r)), (''secureSettings'', JBool (cp_secureSettings r))] @
     (case cp_encoderName r of None \<Rightarrow> []
      | Some n \<Rightarrow> if n = [] then [] else
          [(''encoder'', JObj [(''name'', JStr n), (''hw'', JBool (cp_encoderHw r = Some True))])]))"

definition findCaps :: "string \<Rightarrow> ('r, json option) handler" where
  "findCaps dev = pg_read (\<lambda>d. map_option caps_json (map_of (tb_caps d) dev))"

definition nullable :: "(json \<Rightarrow> 'a option) \<Rightarrow> json \<Rightarrow> 'a option option" where
  "nullable f j = (if j = JNull then Some None else map_option Some (f j))"

definition caps_row_of :: "conv \<Rightarrow> json \<Rightarrow> json \<Rightarrow> string \<Rightarrow> int \<Rightarrow> caps_row option" where
  "caps_row_of cv caps agentVer hash now =
     (let enc = field caps ''encoder'' in
      case (cv_text cv agentVer, cv_text cv (field caps ''projectMedia''), cv_bool cv (field caps ''a11y''),
            cv_text cv (field caps ''knox''), cv_bool cv (field caps ''overlay''), cv_bool cv (field caps ''secureSettings''),
            nullable (cv_text cv) (field enc ''name''), nullable (cv_bool cv) (field enc ''hw'')) of
        (Some v, Some pm, Some ax, Some kn, Some ov, Some se, Some en, Some eh) \<Rightarrow>
          Some \<lparr>cp_agentVer = v, cp_projectMedia = pm, cp_a11y = ax, cp_knox = kn, cp_overlay = ov,
            cp_secureSettings = se, cp_encoderName = en, cp_encoderHw = eh, cp_capsHash = hash, cp_updatedAt = now\<rparr>
      | _ \<Rightarrow> None)"

text \<open>\<open>device_capabilities.device_id\<close> references \<open>devices\<close>.\<close>

definition sql_upsert_caps :: "conv \<Rightarrow> string \<Rightarrow> json \<Rightarrow> json \<Rightarrow> string \<Rightarrow> int \<Rightarrow> db \<Rightarrow> (unit \<times> db) option" where
  "sql_upsert_caps cv dev caps agentVer hash now d =
     (case caps_row_of cv caps agentVer hash now of
        None \<Rightarrow> None
      | Some r \<Rightarrow> if map_of (tb_devices d) dev = None then None
          else Some ((), d\<lparr>tb_caps := AList.update dev r (tb_caps d)\<rparr>))"

definition upsertCaps :: "conv \<Rightarrow> string \<Rightarrow> json \<Rightarrow> json \<Rightarrow> string \<Rightarrow> ('r, unit) handler" where
  "upsertCaps cv dev caps agentVer hash = pg_at (sql_upsert_caps cv dev caps agentVer hash)"

definition changed_json :: "(string \<times> json option \<times> json option) list \<Rightarrow> json" where
  "changed_json ch = JObj (map (\<lambda>(k, a, b). (k, JArr [nullish a JNull, nullish b JNull])) ch)"

definition sql_cap_event :: "string \<Rightarrow> json \<Rightarrow> int \<Rightarrow> db \<Rightarrow> (unit \<times> db) option" where
  "sql_cap_event dev ch now d = Some ((), d\<lparr>tb_capEvents := tb_capEvents d @
     [\<lparr>ev_deviceId = dev, ev_changed = ch, ev_at = now\<rparr>]\<rparr>)"

section \<open>The live state\<close>

text \<open>\<open>ON CONFLICT (device_id, source, sample_ts) DO NOTHING\<close>; the result says whether a row was added.\<close>

definition add_sample :: "hw_sample_row \<Rightarrow> db \<Rightarrow> bool \<times> db" where
  "add_sample r d = (if \<exists>x \<in> set (tb_hwSamples d). hs_deviceId x = hs_deviceId r \<and> hs_source x = hs_source r \<and>
       hs_sampleTs x = hs_sampleTs r then (False, d) else (True, d\<lparr>tb_hwSamples := tb_hwSamples d @ [r]\<rparr>))"

definition sample_row :: "string \<Rightarrow> string \<Rightarrow> rat \<Rightarrow> json \<Rightarrow> int \<Rightarrow> hw_sample_row" where
  "sample_row dev src ts data now = \<lparr>hs_deviceId = dev, hs_source = src, hs_sampleTs = ts, hs_receivedAt = now, hs_data = data\<rparr>"

definition sql_hb_sample :: "conv \<Rightarrow> string \<Rightarrow> rat \<Rightarrow> json \<Rightarrow> int \<Rightarrow> db \<Rightarrow> (unit \<times> db) option" where
  "sql_hb_sample cv dev ts data now d = (case cv_time cv ts of
      None \<Rightarrow> None | Some t \<Rightarrow> Some ((), snd (add_sample (sample_row dev ''hb'' t data now) d)))"

text \<open>\<open>{ ...msg.volatile, ts }\<close>\<close>

definition with_ts :: "json \<Rightarrow> rat \<Rightarrow> json" where
  "with_ts v ts = JObj (AList.update ''ts'' (JNum (Fin ts)) (case v of JObj kvs \<Rightarrow> kvs | _ \<Rightarrow> []))"

definition redis_exists :: "'r redis_exec \<Rightarrow> string \<Rightarrow> ('r, bool) handler" where
  "redis_exists ex k = bindE (redis_int ex (Exists k)) (\<lambda>n. ret (n \<noteq> 0))"

definition write_sample :: "'r redis_exec \<Rightarrow> conv \<Rightarrow> ingest_cfg \<Rightarrow> string \<Rightarrow> json \<Rightarrow> ('r, unit) handler" where
  "write_sample ex cv cfg dev msg = bindE (gets w_now) (\<lambda>now.
     let ts = saneTs (oget msg ''ts'') now in
     case normalizeHwSample (Some (with_ts (field msg ''volatile'') ts)) of
       None \<Rightarrow> ret ()
     | Some data \<Rightarrow> thenE (pg_at (sql_hb_sample cv dev ts data))
         (whenE (0 < ic_hbStoreSec cfg)
           (redis_do ex (SetEx (key_string (KHwHeartbeat dev)) ''1'' \<lceil>ic_hbStoreSec cfg\<rceil>))))"

definition storeHeartbeatSample :: "'r redis_exec \<Rightarrow> conv \<Rightarrow> ingest_cfg \<Rightarrow> string \<Rightarrow> json \<Rightarrow> ('r, unit) handler" where
  "storeHeartbeatSample ex cv cfg dev msg =
     (if oget msg ''online'' = Some (JBool False) then ret ()
      else case volatileHasHw (oget msg ''volatile'') of
          None \<Rightarrow> raise type_error
        | Some False \<Rightarrow> ret ()
        | Some True \<Rightarrow>
            if 0 < ic_hbStoreSec cfg then
              bindE (redis_exists ex (key_string (KHwHeartbeat dev)))
                (\<lambda>recent. if recent then ret () else write_sample ex cv cfg dev msg)
            else write_sample ex cv cfg dev msg)"

definition write_hw :: "'r redis_exec \<Rightarrow> conv \<Rightarrow> ingest_cfg \<Rightarrow> string \<Rightarrow> json \<Rightarrow> ('r, unit) handler" where
  "write_hw ex cv cfg dev msg = (case hwLivePatch (oget msg ''volatile'') of
      None \<Rightarrow> raise type_error
    | Some p \<Rightarrow> thenE (whenE (hp_set p \<noteq> []) (redis_do ex (HSet (key_string (KDevice dev)) (hp_set p))))
        (thenE (whenE (hp_del p \<noteq> []) (redis_do ex (HDel (key_string (KDevice dev)) (hp_del p))))
          (storeHeartbeatSample ex cv cfg dev msg)))"

definition live_fields :: "conv \<Rightarrow> json \<Rightarrow> (string \<times> string) list" where
  "live_fields cv msg = map (\<lambda>(k, v). (k, cv_arg cv v)) (liveHashPatch msg)"

definition writeLive :: "'r redis_exec \<Rightarrow> conv \<Rightarrow> ingest_cfg \<Rightarrow> string \<Rightarrow> json \<Rightarrow> ('r, unit) handler" where
  "writeLive ex cv cfg dev msg =
     thenE (redis_do ex (HSet (key_string (KDevice dev)) (live_fields cv msg)))
       (catchE (write_hw ex cv cfg dev msg) (\<lambda>_. ret ()))"

definition touch :: "'r redis_exec \<Rightarrow> conv \<Rightarrow> ingest_cfg \<Rightarrow> string \<Rightarrow> json \<Rightarrow> ('r, unit) handler" where
  "touch ex cv cfg dev msg =
     thenE (writeLive ex cv cfg dev msg)
    (thenE (redis_do ex (Expire (key_string (KDevice dev)) TTL_device))
      (pg_at (sql_last_seen dev)))"

text \<open>\<open>sha1\<close> is the digest of \<open>node:crypto\<close>. The cache holds the hash of the capabilities last stored.\<close>

definition cached_caps :: "conv \<Rightarrow> json \<Rightarrow> json \<Rightarrow> string \<Rightarrow> (string \<times> string) list" where
  "cached_caps cv caps agentVer hash = [(''agentVer'', cv_arg cv agentVer),
     (''projectMedia'', cv_arg cv (field caps ''projectMedia'')), (''a11y'', str_opt (oget caps ''a11y'')),
     (''knox'', cv_arg cv (field caps ''knox'')), (''overlay'', str_opt (oget caps ''overlay'')),
     (''secureSettings'', str_opt (oget caps ''secureSettings'')), (''capsHash'', hash)]"

definition store_caps :: "'r redis_exec \<Rightarrow> conv \<Rightarrow> string \<Rightarrow> json \<Rightarrow> json \<Rightarrow> string \<Rightarrow> ('r, unit) handler" where
  "store_caps ex cv dev caps agentVer hash =
     bindE (findCaps dev) (\<lambda>prev.
       thenE (upsertCaps cv dev caps agentVer hash)
      (let changed = capsDiff prev caps in
       thenE (whenE (changed \<noteq> []) (pg_at (sql_cap_event dev (changed_json changed))))
        (redis_do ex (HSet (key_string (KDeviceCaps dev)) (cached_caps cv caps agentVer hash)))))"

definition sync_caps :: "'r redis_exec \<Rightarrow> conv \<Rightarrow> (string \<Rightarrow> string) \<Rightarrow> string \<Rightarrow> json \<Rightarrow> ('r, unit) handler" where
  "sync_caps ex cv sha1 dev msg =
     (if \<not> truthy (oget msg ''caps'') \<or> \<not> truthy (oget msg ''agentVer'') then ret ()
      else let caps = field msg ''caps''; agentVer = field msg ''agentVer'';
               hash = capsHash sha1 caps (to_str agentVer) in
        bindE (redis_hget ex (key_string (KDeviceCaps dev)) ''capsHash'') (\<lambda>cached.
          if cached = Some hash then ret () else store_caps ex cv dev caps agentVer hash))"

definition onState :: "'r redis_exec \<Rightarrow> conv \<Rightarrow> ingest_cfg \<Rightarrow> (string \<Rightarrow> string) \<Rightarrow> string \<Rightarrow> json \<Rightarrow> ('r, unit) handler" where
  "onState ex cv cfg sha1 dev msg =
     thenE (ensureDevice ex dev)
    (thenE (defined msg)
    (bindE (if truthy (oget msg ''androidId'') then checkFactoryReset ex cv dev (field msg ''androidId'') else ret False)
      (\<lambda>reset. thenE (touch ex cv cfg dev msg)
        (if reset then ret () else sync_caps ex cv sha1 dev msg))))"

section \<open>Events\<close>

text \<open>At most \<open>max\<close> calls per key and window; \<open>INCR\<close> creates the counter.\<close>

definition allow :: "'r redis_exec \<Rightarrow> redis_key \<Rightarrow> int \<Rightarrow> int \<Rightarrow> ('r, bool) handler" where
  "allow ex key max_n windowSec =
     bindE (redis_int ex (Incr (key_string key))) (\<lambda>n.
       thenE (whenE (n = 1) (redis_do ex (Expire (key_string key) windowSec))) (ret (n \<le> max_n)))"

definition add_conn_event :: "conn_event_row \<Rightarrow> db \<Rightarrow> db" where
  "add_conn_event r d = (if \<exists>x \<in> set (tb_connEvents d). ce_deviceId x = ce_deviceId r \<and> ce_source x = ce_source r \<and>
       ce_event x = ce_event r \<and> ce_at x = ce_at r then d else d\<lparr>tb_connEvents := tb_connEvents d @ [r]\<rparr>)"

text \<open>\<open>keepalive\<close> is a 32-bit column.\<close>

definition int4 :: "int \<Rightarrow> bool" where
  "int4 i = (- (2 ^ 31) \<le> i \<and> i < 2 ^ 31)"

definition sql_broker_event :: "conv \<Rightarrow> string \<Rightarrow> broker_event \<Rightarrow> int \<Rightarrow> db \<Rightarrow> (unit \<times> db) option" where
  "sql_broker_event cv client e now d =
     (if pred_option int4 (be_keepalive e) then
        (if map_of (tb_devices d) client = None then Some ((), d)
         else case (cv_time cv (be_at e), case be_connectedAt e of None \<Rightarrow> Some None | Some c \<Rightarrow> map_option Some (cv_time cv c)) of
             (Some t, Some c) \<Rightarrow> Some ((), add_conn_event \<lparr>ce_deviceId = client, ce_source = ''broker'',
                 ce_event = kind_string (be_kind e), ce_reason = be_reason e, ce_connectedAt = c, ce_at = t,
                 ce_ip = be_ip e, ce_keepalive = map_option of_int (be_keepalive e), ce_detail = None, ce_receivedAt = now\<rparr> d)
           | _ \<Rightarrow> None)
      else None)"

definition onSys :: "'r redis_exec \<Rightarrow> conv \<Rightarrow> string \<Rightarrow> string \<Rightarrow> ('r, unit) handler" where
  "onSys ex cv topic raw = (case parseSysClientTopic topic of
      None \<Rightarrow> ret ()
    | Some (client, kind) \<Rightarrow> (case json_parse raw of
        None \<Rightarrow> ret ()
      | Some body \<Rightarrow> (case normalizeBrokerEvent kind (Some body) of
          None \<Rightarrow> ret ()
        | Some e \<Rightarrow> bindE (allow ex (KConnRate client) 600 3600)
            (\<lambda>ok. if ok then pg_at (sql_broker_event cv client e) else ret ()))))"

text \<open>
  The automatic dump, once in ten minutes per device. The publish is not awaited; when it fails its
  callback gives the cooldown back.
\<close>

definition dump_cmd :: "nat \<Rightarrow> string \<Rightarrow> json" where
  "dump_cmd n nonce = JObj [(''type'', JStr ''hw.dump''), (''n'', JNum (Fin (of_nat n))), (''nonce'', JStr nonce)]"

definition requestDump :: "'r redis_exec \<Rightarrow> string \<Rightarrow> nat \<Rightarrow> string \<Rightarrow> ('r, unit) handler" where
  "requestDump ex dev n uuid =
     bindE (redis_setnx ex (key_string (KHwAutoDump dev)) ''1'' 600) (\<lambda>first.
       if \<not> first then ret ()
       else catchE (publish (topic_cmd dev) (dump_cmd n (''auto-'' @ uuid)))
         (\<lambda>_. catchE (redis_do ex (Del [key_string (KHwAutoDump dev)])) (\<lambda>_. ret ())))"

text \<open>Agent rows: flaps and the lines of the connection log. Text with a NUL is rejected.\<close>

definition text_ok :: "string option \<Rightarrow> bool" where
  "text_ok t = pred_option (\<lambda>s. CHR 0x00 \<notin> set s) t"

definition agent_row :: "string \<Rightarrow> string \<Rightarrow> string option \<Rightarrow> rat \<Rightarrow> json option \<Rightarrow> int \<Rightarrow> conn_event_row" where
  "agent_row dev ev reason t detail now = \<lparr>ce_deviceId = dev, ce_source = ''agent'', ce_event = ev, ce_reason = reason,
     ce_connectedAt = None, ce_at = t, ce_ip = None, ce_keepalive = None, ce_detail = detail, ce_receivedAt = now\<rparr>"

definition sql_flap :: "conv \<Rightarrow> string \<Rightarrow> string option \<Rightarrow> rat \<Rightarrow> int \<Rightarrow> db \<Rightarrow> (unit \<times> db) option" where
  "sql_flap cv dev reason ts now d = (case cv_time cv ts of
      None \<Rightarrow> None
    | Some t \<Rightarrow> if text_ok reason then Some ((), add_conn_event (agent_row dev ''flap'' reason t None now) d) else None)"

definition sql_hw_event :: "conv \<Rightarrow> string \<Rightarrow> string \<Rightarrow> string option \<Rightarrow> rat \<Rightarrow> int \<Rightarrow> db \<Rightarrow> (bool \<times> db) option" where
  "sql_hw_event cv dev code msg ts now d = (case cv_time cv ts of
      None \<Rightarrow> None
    | Some t \<Rightarrow> if \<not> text_ok msg then None
        else if \<exists>x \<in> set (tb_hwEvents d). he_deviceId x = dev \<and> he_code x = code \<and> he_ts x = t then Some (False, d)
        else Some (True, d\<lparr>tb_hwEvents := tb_hwEvents d @
          [\<lparr>he_deviceId = dev, he_code = code, he_msg = msg, he_ts = t, he_at = now\<rparr>]\<rparr>))"

definition onFlap :: "'r redis_exec \<Rightarrow> conv \<Rightarrow> ingest_cfg \<Rightarrow> string \<Rightarrow> string \<Rightarrow> json \<Rightarrow> ('r, unit) handler" where
  "onFlap ex cv cfg uuid dev msg =
     bindE (allow ex (KEventRate dev) 60 600) (\<lambda>ok.
       if \<not> ok then ret ()
       else thenE (ensureDevice ex dev)
        (bindE (gets w_now) (\<lambda>now.
         thenE (pg_at (sql_flap cv dev (map_option (clean_to 500) (as_str (oget msg ''msg''))) (saneTs (oget msg ''ts'') now)))
          (whenE (ic_autoDump cfg) (requestDump ex dev 100 uuid)))))"

definition onHwEvent :: "'r redis_exec \<Rightarrow> conv \<Rightarrow> ingest_cfg \<Rightarrow> string \<Rightarrow> string \<Rightarrow> string \<Rightarrow> json \<Rightarrow> ('r, unit) handler" where
  "onHwEvent ex cv cfg uuid dev code msg =
     bindE (allow ex (KEventRate dev) 60 600) (\<lambda>ok.
       if \<not> ok then ret ()
       else thenE (ensureDevice ex dev)
        (bindE (gets w_now) (\<lambda>now.
         bindE (pg_at (sql_hw_event cv dev code (map_option (take 500) (as_str (oget msg ''msg''))) (saneTs (oget msg ''ts'') now)))
          (\<lambda>inserted. whenE (inserted \<and> ic_autoDump cfg \<and> code \<in> set HW_AUTO_DUMP_CODES) (requestDump ex dev 100 uuid)))))"

definition onEvent :: "'r redis_exec \<Rightarrow> conv \<Rightarrow> ingest_cfg \<Rightarrow> string \<Rightarrow> string \<Rightarrow> json \<Rightarrow> ('r, unit) handler" where
  "onEvent ex cv cfg uuid dev msg =
     thenE (defined msg)
       (if oget msg ''code'' = Some (JStr ''MQTT_FLAP'') then onFlap ex cv cfg uuid dev msg
        else if \<not> isHwEventCode (oget msg ''code'') then ret ()
        else onHwEvent ex cv cfg uuid dev (the (as_str (oget msg ''code''))) msg)"

section \<open>Dumps\<close>

text \<open>\<open>count\<close> and \<open>inserted\<close> are variables the \<open>finally\<close> block reads: they live beside the world.\<close>

type_synonym ('r, 'a) dump = "('r world \<times> nat \<times> nat, error, 'a) prog"

definition lift_dump :: "('r, 'a) handler \<Rightarrow> ('r, 'a) dump" where
  "lift_dump m x = (case x of (w, l) \<Rightarrow> (case m w of (r, w') \<Rightarrow> (r, w', l)))"

definition run_dump :: "('r, 'a) dump \<Rightarrow> ('r, 'a) handler" where
  "run_dump m w = (case m (w, 0, 0) of (r, w', l) \<Rightarrow> (r, w'))"

definition recent :: "rat \<Rightarrow> int \<Rightarrow> int \<Rightarrow> bool" where
  "recent ts now window = (\<bar>ts - of_int now\<bar> < of_int window)"

definition sample_ts :: "json \<Rightarrow> rat" where
  "sample_ts j = (case as_fin (oget j ''ts'') of Some q \<Rightarrow> q | None \<Rightarrow> 0)"

definition dump_samples :: "json list \<Rightarrow> int \<Rightarrow> json list" where
  "dump_samples raw now = filter (\<lambda>x. recent (sample_ts x) now DAY_MS)
     (List.map_filter (\<lambda>x. normalizeHwSample (Some x)) (slice_last MAX_DUMP_SAMPLES raw))"

fun add_dump_samples :: "conv \<Rightarrow> string \<Rightarrow> int \<Rightarrow> json list \<Rightarrow> db \<Rightarrow> (nat \<times> db) option" where
  "add_dump_samples cv dev now [] d = Some (0, d)"
| "add_dump_samples cv dev now (x # xs) d = (case cv_time cv (sample_ts x) of
      None \<Rightarrow> None
    | Some t \<Rightarrow> (case add_sample (sample_row dev ''dump'' t x now) d of (new, d1) \<Rightarrow>
        map_option (\<lambda>(n, d2). (n + (if new then 1 else 0), d2)) (add_dump_samples cv dev now xs d1)))"

definition conn_rows :: "json list \<Rightarrow> int \<Rightarrow> agent_conn list" where
  "conn_rows raw now = filter (\<lambda>e. recent (ac_ts e) now (7 * DAY_MS))
     (List.map_filter (\<lambda>x. normalizeAgentConn (Some x)) (slice_last 100 raw))"

fun add_agent_conns :: "conv \<Rightarrow> string \<Rightarrow> int \<Rightarrow> agent_conn list \<Rightarrow> db \<Rightarrow> (unit \<times> db) option" where
  "add_agent_conns cv dev now [] d = Some ((), d)"
| "add_agent_conns cv dev now (e # es) d = (case cv_time cv (ac_ts e) of
      None \<Rightarrow> None
    | Some t \<Rightarrow> add_agent_conns cv dev now es
        (add_conn_event (agent_row dev (ac_ev e) (ac_reason e) t (Some (JObj (ac_detail e))) now) d))"

definition storeAgentConn :: "conv \<Rightarrow> string \<Rightarrow> json list \<Rightarrow> int \<Rightarrow> ('r, unit) handler" where
  "storeAgentConn cv dev raw now = (let rows = conn_rows raw now in
     if rows = [] then ret () else pg_at (\<lambda>t. add_agent_conns cv dev t rows))"

definition store_samples :: "conv \<Rightarrow> string \<Rightarrow> json list \<Rightarrow> ('r, unit) dump" where
  "store_samples cv dev samples =
     bindE (modifyE (\<lambda>(w, c, i). (w, length samples, i))) (\<lambda>_.
       if samples = [] then ret ()
       else bindE (lift_dump (pg_at (\<lambda>t. add_dump_samples cv dev t samples)))
         (\<lambda>n. modifyE (\<lambda>(w, c, i). (w, c, n))))"

definition dump_body :: "'r redis_exec \<Rightarrow> conv \<Rightarrow> string \<Rightarrow> json \<Rightarrow> json list \<Rightarrow> ('r, unit) dump" where
  "dump_body ex cv dev msg raw =
     bindE (lift_dump (allow ex (KDumpRate dev) 12 60)) (\<lambda>ok.
       if \<not> ok then ret ()
       else thenE (lift_dump (ensureDevice ex dev))
        (bindE (lift_dump (gets w_now)) (\<lambda>now.
         thenE (store_samples cv dev (dump_samples raw now))
        (thenE (lift_dump (case oget msg ''conn'' of Some (JArr conn) \<Rightarrow> storeAgentConn cv dev conn now | _ \<Rightarrow> ret ()))
          (lift_dump (pg_at (sql_last_seen dev)))))))"

definition dump_reply :: "nat \<Rightarrow> nat \<Rightarrow> string" where
  "dump_reply c i = json_stringify (JObj [(''count'', JNum (Fin (of_nat c))), (''inserted'', JNum (Fin (of_nat i)))])"

definition answer_dump :: "'r redis_exec \<Rightarrow> string \<Rightarrow> ('r, unit) dump" where
  "answer_dump ex nonce =
     bindE (gets (\<lambda>(w, c, i). dump_reply c i)) (\<lambda>reply.
       thenE (lift_dump (redis_do ex (LPush (key_string (KHwDump nonce)) reply)))
        (lift_dump (redis_do ex (Expire (key_string (KHwDump nonce)) 30))))"

definition dump_nonce :: "json \<Rightarrow> string" where
  "dump_nonce msg = (case as_str (oget msg ''nonce'') of Some s \<Rightarrow> if length s \<le> 64 then s else [] | None \<Rightarrow> [])"

definition onHwDump :: "'r redis_exec \<Rightarrow> conv \<Rightarrow> string \<Rightarrow> json \<Rightarrow> json list \<Rightarrow> ('r, unit) handler" where
  "onHwDump ex cv dev msg raw = (let nonce = dump_nonce msg in
     bindE (if nonce \<noteq> [] \<and> \<not> prefix ''auto-'' nonce
         then bindE (redis_int ex (Del [key_string (KHwDumpReq nonce)])) (\<lambda>n. ret (n = 1)) else ret False)
      (\<lambda>waited. run_dump (finallyE (dump_body ex cv dev msg raw)
          (whenE waited (answer_dump ex nonce)))))"

section \<open>Retention and messages\<close>

definition prune :: "ingest_cfg \<Rightarrow> ('r, unit) handler" where
  "prune cfg = catchE
     (thenE (pg_at (\<lambda>now d. Some ((), d\<lparr>tb_hwSamples := filter (\<lambda>r. \<not> hs_receivedAt r < now - ic_sampleDays cfg * DAY_MS) (tb_hwSamples d)\<rparr>)))
     (thenE (pg_at (\<lambda>now d. Some ((), d\<lparr>tb_hwEvents := filter (\<lambda>r. \<not> he_at r < now - ic_eventDays cfg * DAY_MS) (tb_hwEvents d)\<rparr>)))
       (pg_at (\<lambda>now d. Some ((), d\<lparr>tb_connEvents := filter (\<lambda>r. \<not> ce_at r < of_int (now - ic_connDays cfg * DAY_MS)) (tb_connEvents d)\<rparr>)))))
     (\<lambda>_. ret ())"

definition onProbe :: "'r redis_exec \<Rightarrow> conv \<Rightarrow> ingest_cfg \<Rightarrow> (string \<Rightarrow> string) \<Rightarrow> string \<Rightarrow> string \<Rightarrow> json \<Rightarrow> ('r, unit) handler" where
  "onProbe ex cv cfg sha1 dev raw msg =
     thenE (defined msg) (case oget msg ''hw'' of
         Some (JArr hw) \<Rightarrow> onHwDump ex cv dev msg hw
       | _ \<Rightarrow> thenE (redis_do ex (LPush (key_string (KProbeWait dev)) raw))
           (thenE (redis_do ex (Expire (key_string (KProbeWait dev)) 10))
             (whenE (truthy (oget msg ''caps'') \<and> truthy (oget msg ''agentVer'')) (onState ex cv cfg sha1 dev msg))))"

definition onMessage :: "'r redis_exec \<Rightarrow> conv \<Rightarrow> ingest_cfg \<Rightarrow> (string \<Rightarrow> string) \<Rightarrow> string \<Rightarrow> string \<Rightarrow> string \<Rightarrow> ('r, unit) handler" where
  "onMessage ex cv cfg sha1 uuid topic raw =
     (if prefix ''$SYS/'' topic then onSys ex cv topic raw
      else let dev = deviceIdFromTopic topic in
        if dev = [] then ret ()
        else case json_parse raw of
            None \<Rightarrow> ret ()
          | Some msg \<Rightarrow>
              if str_includes topic ''/event/'' then onEvent ex cv cfg uuid dev msg
              else if str_includes topic ''/probe/'' then onProbe ex cv cfg sha1 dev raw msg
              else onState ex cv cfg sha1 dev msg)"

text \<open>The chain of messages: a rejected one is logged, and the next begins when it has ended.\<close>

definition on_message :: "'r redis_exec \<Rightarrow> conv \<Rightarrow> ingest_cfg \<Rightarrow> (string \<Rightarrow> string) \<Rightarrow> string \<times> string \<times> string \<Rightarrow> ('r, unit) handler" where
  "on_message ex cv cfg sha1 m = (case m of (uuid, topic, raw) \<Rightarrow>
     catchE (onMessage ex cv cfg sha1 uuid topic raw) (\<lambda>_. ret ()))"

definition ingest :: "'r redis_exec \<Rightarrow> conv \<Rightarrow> ingest_cfg \<Rightarrow> (string \<Rightarrow> string) \<Rightarrow> (string \<times> string \<times> string) list \<Rightarrow> ('r, unit) handler" where
  "ingest ex cv cfg sha1 ms = eachE (on_message ex cv cfg sha1) ms"

end
