(* ===== verification/IngestRules.thy ===== *)
theory IngestRules
  imports Ingest Frames Devices
begin

text \<open>
  What a message may touch, and what the handlers of \<open>ingest.service.ts\<close> promise.
\<close>

section \<open>Everything a device does stays with the device\<close>

text \<open>The tables without the rows of a device.\<close>

definition without_device :: "string \<Rightarrow> db \<Rightarrow> db" where
  "without_device dev d = d\<lparr>tb_devices := filter (\<lambda>p. fst p \<noteq> dev) (tb_devices d),
     tb_caps := filter (\<lambda>p. fst p \<noteq> dev) (tb_caps d),
     tb_capEvents := filter (\<lambda>r. ev_deviceId r \<noteq> dev) (tb_capEvents d),
     tb_hwSamples := filter (\<lambda>r. hs_deviceId r \<noteq> dev) (tb_hwSamples d),
     tb_hwEvents := filter (\<lambda>r. he_deviceId r \<noteq> dev) (tb_hwEvents d),
     tb_connEvents := filter (\<lambda>r. ce_deviceId r \<noteq> dev) (tb_connEvents d)\<rparr>"

text \<open>The keys of a device, and those of the dump request a message answers.\<close>

definition device_keys :: "string \<Rightarrow> string set" where
  "device_keys dev = key_string ` {KDevice dev, KDeviceCaps dev, KHwHeartbeat dev, KEventRate dev, KDumpRate dev,
     KHwAutoDump dev, KProbeWait dev}"

definition dump_keys :: "string \<Rightarrow> string set" where
  "dump_keys nonce = key_string ` {KHwDump nonce, KHwDumpReq nonce}"

lemma without_update_where:
  "filter (\<lambda>p. fst p \<noteq> dev) (update_where (\<lambda>k _. k = dev) f t) = filter (\<lambda>p. fst p \<noteq> dev) t"
  by (induction t) (auto simp: update_where_def)

lemma without_alist_update:
  "filter (\<lambda>p. fst p \<noteq> dev) (AList.update dev r t) = filter (\<lambda>p. fst p \<noteq> dev) t"
  by (induction t) auto

lemma without_update [simp]: "without_device dev (update_device dev f d) = without_device dev d"
  by (simp add: without_device_def update_device_def without_update_where)

lemma without_sample [simp]: "hs_deviceId r = dev \<Longrightarrow> without_device dev (snd (add_sample r d)) = without_device dev d"
  by (simp add: without_device_def add_sample_def)

lemma without_conn [simp]: "ce_deviceId r = dev \<Longrightarrow> without_device dev (add_conn_event r d) = without_device dev d"
  by (simp add: without_device_def add_conn_event_def)

lemma row_ids [simp]: "hs_deviceId (sample_row dev src ts data now) = dev" "ce_deviceId (agent_row dev ev reason t detail now) = dev"
  by (simp_all add: sample_row_def agent_row_def)

lemma frame_defined [frame_intros]: "frame peek v K T (defined msg)"
  by (simp add: defined_def frame_intros)

lemma frame_pg_at: "(\<And>now d a e. q now d = Some (a, e) \<Longrightarrow> v e = v d) \<Longrightarrow> frame peek v K T (pg_at q)"
  by (auto simp: kept_by_def stays_def pg_at_def pg_def Let_def split: list.split bool.split option.split)

context redis_service
begin

lemma frame_ensureDevice:
  "key_string (KDeviceCaps dev) \<in> K \<Longrightarrow> Frames.frame peek (without_device dev) K T (ensureDevice ex dev)"
  unfolding ensureDevice_def
  by (intro frame_intros frame_pg_at frame_calls)
    (auto simp: sql_ensure_device_def without_device_def cmd_writes_def split: option.splits if_splits)

lemma frame_allow: "key_string key \<in> K \<Longrightarrow> Frames.frame peek v K T (allow ex key n s)"
  unfolding allow_def by (intro frame_intros frame_calls; simp add: cmd_writes_def)

lemma frame_checkFactoryReset:
  "key_string (KDeviceCaps dev) \<in> K \<Longrightarrow> Frames.frame peek (without_device dev) K T (checkFactoryReset ex cv dev a)"
  unfolding checkFactoryReset_def
  by (intro frame_intros frame_pg frame_pg_at frame_calls)
    (auto simp: sql_android_def sql_reset_caps_def without_device_def update_device_def without_update_where cmd_writes_def
      split: option.splits)

lemma frame_writeLive:
  assumes "key_string (KDevice dev) \<in> K" "key_string (KHwHeartbeat dev) \<in> K"
    and "\<And>t data now d. v (snd (add_sample (sample_row dev ''hb'' t data now) d)) = v d"
  shows "Frames.frame peek v K T (writeLive ex cv cfg dev msg)"
proof -
  have w: "Frames.frame peek v K T (write_sample ex cv cfg dev msg)"
    unfolding write_sample_def Let_def
    by (intro frame_intros frame_pg_at frame_calls)
      (use assms in \<open>auto simp: sql_hb_sample_def cmd_writes_def split: option.splits\<close>)
  have s: "Frames.frame peek v K T (storeHeartbeatSample ex cv cfg dev msg)"
    unfolding storeHeartbeatSample_def redis_exists_def
    by (auto intro!: frame_intros w frame_calls simp: cmd_writes_def split: option.split bool.split)
  show ?thesis
    unfolding writeLive_def write_hw_def
    by (intro frame_intros frame_calls s; use assms in \<open>simp add: cmd_writes_def\<close>)
qed

lemma frame_touch:
  assumes "key_string (KDevice dev) \<in> K" "key_string (KHwHeartbeat dev) \<in> K"
    and "\<And>t data now d. v (snd (add_sample (sample_row dev ''hb'' t data now) d)) = v d"
    and "\<And>now d. v (update_device dev (\<lambda>r. r\<lparr>dv_lastSeen := Some now\<rparr>) d) = v d"
  shows "Frames.frame peek v K T (touch ex cv cfg dev msg)"
  unfolding touch_def
  by (intro frame_intros frame_calls frame_writeLive frame_pg_at) (use assms in \<open>auto simp: sql_last_seen_def cmd_writes_def\<close>)

lemma frame_store_caps:
  "key_string (KDeviceCaps dev) \<in> K \<Longrightarrow> Frames.frame peek (without_device dev) K T (store_caps ex cv dev caps ver hash)"
  unfolding store_caps_def findCaps_def upsertCaps_def
  by (intro frame_intros frame_pg_at frame_calls)
    (auto simp: sql_upsert_caps_def sql_cap_event_def without_device_def without_alist_update cmd_writes_def
      split: option.splits if_splits)

lemma frame_onState:
  assumes "device_keys dev \<subseteq> K"
  shows "Frames.frame peek (without_device dev) K T (onState ex cv cfg sha1 dev msg)"
  unfolding onState_def sync_caps_def
  by (intro frame_intros frame_ensureDevice frame_checkFactoryReset frame_touch frame_store_caps frame_calls)
    (use assms in \<open>auto simp: device_keys_def\<close>)

text \<open>Events and automatic dumps.\<close>

lemma frame_requestDump:
  "key_string (KHwAutoDump dev) \<in> K \<Longrightarrow> topic_cmd dev \<in> T \<Longrightarrow> Frames.frame peek v K T (requestDump ex dev n uuid)"
  unfolding requestDump_def by (intro frame_intros frame_calls; simp add: cmd_writes_def)

lemma frame_onEvent:
  assumes "device_keys dev \<subseteq> K" "topic_cmd dev \<in> T"
  shows "Frames.frame peek (without_device dev) K T (onEvent ex cv cfg uuid dev msg)"
  unfolding onEvent_def onFlap_def onHwEvent_def
  by (intro frame_intros frame_allow frame_ensureDevice frame_requestDump frame_pg_at)
    (use assms in \<open>auto simp: device_keys_def sql_flap_def sql_hw_event_def split: option.splits if_splits\<close>,
      simp_all add: without_device_def)

text \<open>Dumps: the counters beside the world are nobody else's.\<close>

lemma without_dump_samples: "add_dump_samples cv dev now xs d = Some (n, e) \<Longrightarrow> without_device dev e = without_device dev d"
proof (induction xs arbitrary: d n)
  case (Cons x xs)
  obtain t where t: "cv_time cv (sample_ts x) = Some t" using Cons.prems by (auto split: option.splits)
  obtain new d1 where a: "add_sample (sample_row dev ''dump'' t x now) d = (new, d1)" by force
  from Cons.prems t a obtain k where "add_dump_samples cv dev now xs d1 = Some (k, e)" by auto
  from Cons.IH[OF this] without_sample[of "sample_row dev ''dump'' t x now" dev d] a show ?case by simp
qed simp

lemma without_agent_conns: "add_agent_conns cv dev now xs d = Some (u, e) \<Longrightarrow> without_device dev e = without_device dev d"
  by (induction xs arbitrary: d) (auto split: option.splits)

end

definition dump_stays :: "('r \<Rightarrow> store) \<Rightarrow> (db \<Rightarrow> 'v) \<Rightarrow> string set \<Rightarrow> string set \<Rightarrow> 'r world \<times> 'l \<Rightarrow> 'r world \<times> 'l \<Rightarrow> bool" where
  "dump_stays peek v K T x y \<longleftrightarrow> stays peek v K T (fst x) (fst y)"

interpretation dump_order: effect_order "dump_stays peek v K T" for peek v K T
  by unfold_locales (simp_all add: dump_stays_def, rule stays_trans)

lemma frame_lift [frame_intros]: "frame peek v K T m \<Longrightarrow> kept_by (dump_stays peek v K T) (lift_dump m)"
  by (auto simp: kept_by_def dump_stays_def lift_dump_def split: prod.split) (metis snd_conv)

lemma frame_run: "kept_by (dump_stays peek v K T) m \<Longrightarrow> frame peek v K T (run_dump m)"
  by (auto simp: kept_by_def dump_stays_def run_dump_def split: prod.split) (metis fst_conv snd_conv)

lemma frame_locals [frame_intros]: "(\<And>w l. fst (f (w, l)) = w) \<Longrightarrow> kept_by (dump_stays peek v K T) (modifyE f)"
  by (auto simp: kept_by_def dump_stays_def modifyE_def)

context redis_service
begin

lemma frame_dump_body:
  assumes "device_keys dev \<subseteq> K"
  shows "kept_by (dump_stays peek (without_device dev) K T) (dump_body ex cv dev msg raw)"
  unfolding dump_body_def store_samples_def storeAgentConn_def Let_def
  by (intro frame_intros frame_allow frame_ensureDevice frame_pg_at)
    (use assms in \<open>auto simp: device_keys_def sql_last_seen_def without_dump_samples without_agent_conns\<close>)

lemma frame_onHwDump:
  assumes "device_keys dev \<subseteq> K" "dump_keys (dump_nonce msg) \<subseteq> K"
  shows "Frames.frame peek (without_device dev) K T (onHwDump ex cv dev msg raw)"
  unfolding onHwDump_def Let_def answer_dump_def
  by (intro frame_intros frame_run frame_dump_body frame_calls) (use assms in \<open>auto simp: dump_keys_def cmd_writes_def\<close>)

lemma frame_onProbe:
  assumes "device_keys dev \<subseteq> K" "dump_keys (dump_nonce msg) \<subseteq> K"
  shows "Frames.frame peek (without_device dev) K T (onProbe ex cv cfg sha1 dev raw msg)"
  unfolding onProbe_def
  by (intro frame_intros frame_onHwDump frame_onState frame_calls) (use assms in \<open>auto simp: device_keys_def cmd_writes_def\<close>)

lemma frame_onMessage:
  assumes "\<not> prefix ''$SYS/'' topic" "deviceIdFromTopic topic = dev" "device_keys dev \<subseteq> K" "topic_cmd dev \<in> T"
    and "\<And>msg. json_parse raw = Some msg \<Longrightarrow> dump_keys (dump_nonce msg) \<subseteq> K"
  shows "Frames.frame peek (without_device dev) K T (onMessage ex cv cfg sha1 uuid topic raw)"
  unfolding onMessage_def Let_def
  by (intro frame_intros) (use assms frame_onEvent frame_onProbe frame_onState in \<open>auto intro: frame_intros\<close>)

end

section \<open>The cache of the capabilities\<close>

text \<open>
  The hash in Redis is that of the row in the table. A state that changes nothing may then skip the
  table.
\<close>

definition cached_hash :: "store \<Rightarrow> string \<Rightarrow> string option" where
  "cached_hash st dev = (case hash_at st (key_string (KDeviceCaps dev)) of None \<Rightarrow> None | Some h \<Rightarrow> map_of h ''capsHash'')"

definition stored_hash :: "db \<Rightarrow> string \<Rightarrow> string option" where
  "stored_hash d dev = map_option cp_capsHash (map_of (tb_caps d) dev)"

definition coherent :: "string \<Rightarrow> store \<Rightarrow> db \<Rightarrow> bool" where
  "coherent dev st d \<longleftrightarrow> (\<forall>h. cached_hash st dev = Some h \<longrightarrow> stored_hash d dev = Some h)"

lemma caps_key_apart:
  "key_string (KDeviceCaps d) \<noteq> key_string (KDevice d)" "key_string (KDeviceCaps d) \<noteq> key_string (KHwHeartbeat d)"
proof -
  have "length (''caps:'' @ d) \<noteq> length d" by simp
  then show "key_string (KDeviceCaps d) \<noteq> key_string (KDevice d)" by (auto simp: key_string.simps)
  show "key_string (KDeviceCaps d) \<noteq> key_string (KHwHeartbeat d)" by (simp add: key_string.simps)
qed

lemma coherent_cong:
  "st' (key_string (KDeviceCaps dev)) = st (key_string (KDeviceCaps dev)) \<Longrightarrow> tb_caps d' = tb_caps d \<Longrightarrow>
   coherent dev st' d' = coherent dev st d"
  by (simp add: coherent_def cached_hash_def stored_hash_def hash_at_def)

lemma coherent_no_cache: "st (key_string (KDeviceCaps dev)) = None \<Longrightarrow> coherent dev st d"
  by (simp add: coherent_def cached_hash_def hash_at_def)

lemma wp_pg_at:
  assumes "\<And>fs. E PgError (w\<lparr>w_pgFaults := fs\<rparr>)"
    and "\<And>fs a d. q (w_now w) (w_db w) = Some (a, d) \<Longrightarrow> Q a (w\<lparr>w_pgFaults := fs, w_db := d\<rparr>)"
  shows "wp (pg_at q) Q E w"
  using wp_pg[of E w "q (w_now w)" Q] assms by (simp add: wp_def pg_at_def)

lemma wp_frame:
  assumes "frame peek v K T m" "\<And>a w'. stays peek v K T w w' \<Longrightarrow> Q a w'" "\<And>e w'. stays peek v K T w w' \<Longrightarrow> E e w'"
  shows "wp m Q E w"
  using kept_byD[OF assms(1)] assms(2,3) by (auto simp: wp_def split: prod.split sum.split)

definition caps_of :: "('r \<Rightarrow> store) \<Rightarrow> string \<Rightarrow> 'r world \<Rightarrow> bool" where
  "caps_of peek dev w = coherent dev (peek (w_redis w)) (w_db w)"

context redis_service
begin

lemma ensureDevice_coherent:
  assumes "caps_of peek dev w"
    and "\<And>w'. caps_of peek dev w' \<Longrightarrow> stored_android (w_db w') dev = stored_android (w_db w) dev \<Longrightarrow> Q () w'"
  shows "wp (ensureDevice ex dev) Q (\<lambda>_ _. True) w"
  unfolding ensureDevice_def wp_simps
proof (rule wp_pg_at)
  fix fs created d
  assume q: "sql_ensure_device dev (w_now w) (w_db w) = Some (created, d)"
  have a: "stored_android d dev = stored_android (w_db w) dev"
    using q by (auto simp: sql_ensure_device_def stored_android_def new_device_def split: option.splits if_splits)
  have t: "tb_caps d = tb_caps (w_db w)"
    using q by (auto simp: sql_ensure_device_def split: option.splits if_splits)
  show "(if created then wp (redis_do ex (Del [key_string (KDeviceCaps dev)])) Q (\<lambda>_ _. True) else Q ())
      (w\<lparr>w_pgFaults := fs, w_db := d\<rparr>)"
  proof (cases created)
    case True
    have "wp (redis_do ex (Del [key_string (KDeviceCaps dev)])) Q (\<lambda>_ _. True) (w\<lparr>w_pgFaults := fs, w_db := d\<rparr>)"
    proof (rule wp_del)
      fix r assume r: "peek r = (\<lambda>k. if k \<in> set [key_string (KDeviceCaps dev)] then None
        else peek (w_redis (w\<lparr>w_pgFaults := fs, w_db := d\<rparr>)) k)"
      have "caps_of peek dev (w\<lparr>w_pgFaults := fs, w_db := d, w_redis := r\<rparr>)"
        by (simp add: caps_of_def coherent_no_cache r)
      from assms(2)[OF this] a show "Q () (w\<lparr>w_pgFaults := fs, w_db := d, w_redis := r\<rparr>)" by simp
    qed simp
    with True show ?thesis by simp
  next
    case False
    have "caps_of peek dev (w\<lparr>w_pgFaults := fs, w_db := d\<rparr>)"
      using assms(1) t coherent_cong[of "peek (w_redis w)" dev "peek (w_redis w)" d "w_db w"] by (simp add: caps_of_def)
    from assms(2)[OF this] a False show ?thesis by simp
  qed
qed simp

lemma touch_coherent:
  assumes "\<And>w'. tb_caps (w_db w') = tb_caps (w_db w) \<Longrightarrow>
      peek (w_redis w') (key_string (KDeviceCaps dev)) = peek (w_redis w) (key_string (KDeviceCaps dev)) \<Longrightarrow> Q () w'"
  shows "wp (touch ex cv cfg dev msg) Q (\<lambda>_ _. True) w"
proof (rule wp_frame[OF frame_touch[of dev "{key_string (KDevice dev), key_string (KHwHeartbeat dev)}" tb_caps "{}"]])
  fix a :: unit and w' assume "stays peek tb_caps {key_string (KDevice dev), key_string (KHwHeartbeat dev)} {} w w'"
  then show "Q a w'" using assms caps_key_apart by (simp add: stays_def)
qed (simp_all add: add_sample_def update_device_def)

lemma store_caps_coherent:
  "wp (store_caps ex cv dev caps ver hash)
     (\<lambda>_ w'. caps_of peek dev w' \<and> stored_hash (w_db w') dev = Some hash) (\<lambda>_ _. True) w"
proof -
  let ?k = "key_string (KDeviceCaps dev)"
  have up: "map_of (tb_caps d) dev = Some r \<and> cp_capsHash r = hash"
    if "sql_upsert_caps cv dev caps ver hash now d0 = Some (u, d)" "caps_row_of cv caps ver hash now = Some r" for now d0 u d r
    using that by (auto simp: sql_upsert_caps_def caps_row_of_def Let_def update_conv' split: option.splits if_splits)
  have up: "stored_hash d dev = Some hash" if q: "sql_upsert_caps cv dev caps ver hash now d0 = Some (u, d)" for now d0 u d
  proof -
    obtain r where "caps_row_of cv caps ver hash now = Some r" using q by (auto simp: sql_upsert_caps_def split: option.splits)
    from up[OF q this] show ?thesis by (simp add: stored_hash_def)
  qed
  have set_hash: "wp (redis_do ex (HSet ?k (cached_caps cv caps ver hash)))
      (\<lambda>_ w'. caps_of peek dev w' \<and> stored_hash (w_db w') dev = Some hash) (\<lambda>_ _. True) w1"
    if s: "stored_hash (w_db w1) dev = Some hash" for w1
  proof (rule wp_hset)
    fix r h assume "hash_at (peek (w_redis w1)) ?k = Some h"
      and p: "peek r = keep_ttl (peek (w_redis w1)) ?k (RHash (hset_all (cached_caps cv caps ver hash) h))"
    have "map_of (hset_all (cached_caps cv caps ver hash) h) ''capsHash'' = Some hash"
      by (rule hset_all_mem) (simp_all add: cached_caps_def)
    then have "cached_hash (peek r) dev = Some hash"
      by (simp add: cached_hash_def hash_at_def p keep_ttl_def)
    with s show "caps_of peek dev (w1\<lparr>w_redis := r\<rparr>) \<and> stored_hash (w_db (w1\<lparr>w_redis := r\<rparr>)) dev = Some hash"
      by (simp add: caps_of_def coherent_def)
  qed simp
  have event: "wp (pg_at (sql_cap_event dev ch)) (\<lambda>_. wp (redis_do ex (HSet ?k (cached_caps cv caps ver hash)))
        (\<lambda>_ w'. caps_of peek dev w' \<and> stored_hash (w_db w') dev = Some hash) (\<lambda>_ _. True)) (\<lambda>_ _. True) w1"
    if h: "stored_hash (w_db w1) dev = Some hash" for ch w1
  proof (rule wp_pg_at[OF TrueI])
    fix fs u d assume "sql_cap_event dev ch (w_now w1) (w_db w1) = Some (u, d)"
    then have "tb_caps d = tb_caps (w_db w1)" by (auto simp: sql_cap_event_def)
    then show "wp (redis_do ex (HSet ?k (cached_caps cv caps ver hash)))
        (\<lambda>_ w'. caps_of peek dev w' \<and> stored_hash (w_db w') dev = Some hash) (\<lambda>_ _. True) (w1\<lparr>w_pgFaults := fs, w_db := d\<rparr>)"
      using h by (intro set_hash) (simp add: stored_hash_def)
  qed
  show ?thesis
    unfolding store_caps_def findCaps_def upsertCaps_def Let_def wp_simps
  proof (rule wp_pg_read[OF TrueI], rule wp_pg_at[OF TrueI])
    fix fs fs' u d assume "sql_upsert_caps cv dev caps ver hash (w_now (w\<lparr>w_pgFaults := fs\<rparr>)) (w_db (w\<lparr>w_pgFaults := fs\<rparr>)) = Some (u, d)"
    then have "stored_hash (w_db (w\<lparr>w_pgFaults := fs, w_pgFaults := fs', w_db := d\<rparr>)) dev = Some hash" by (simp add: up)
    from set_hash[OF this] event[OF this]
    show "(if capsDiff (map_option caps_json (map_of (tb_caps (w_db w)) dev)) caps \<noteq> []
        then wp (pg_at (sql_cap_event dev (changed_json (capsDiff (map_option caps_json (map_of (tb_caps (w_db w)) dev)) caps))))
          (\<lambda>_. wp (redis_do ex (HSet ?k (cached_caps cv caps ver hash)))
            (\<lambda>_ w'. caps_of peek dev w' \<and> stored_hash (w_db w') dev = Some hash) (\<lambda>_ _. True)) (\<lambda>_ _. True)
        else wp (redis_do ex (HSet ?k (cached_caps cv caps ver hash)))
            (\<lambda>_ w'. caps_of peek dev w' \<and> stored_hash (w_db w') dev = Some hash) (\<lambda>_ _. True))
        (w\<lparr>w_pgFaults := fs, w_pgFaults := fs', w_db := d\<rparr>)" by simp
  qed
qed

lemma sync_caps_coherent:
  assumes "caps_of peek dev w"
  shows "wp (sync_caps ex cv sha1 dev msg)
     (\<lambda>_ w'. caps_of peek dev w' \<and> (truthy (oget msg ''caps'') \<longrightarrow> truthy (oget msg ''agentVer'') \<longrightarrow>
        stored_hash (w_db w') dev = Some (capsHash sha1 (field msg ''caps'') (to_str (field msg ''agentVer''))))) (\<lambda>_ _. True) w"
    (is "wp _ ?Q _ _")
proof (cases "truthy (oget msg ''caps'') \<and> truthy (oget msg ''agentVer'')")
  case True
  define hash where "hash = capsHash sha1 (field msg ''caps'') (to_str (field msg ''agentVer''))"
  have "wp (bindE (redis_hget ex (key_string (KDeviceCaps dev)) ''capsHash'')
      (\<lambda>cached. if cached = Some hash then ret () else store_caps ex cv dev (field msg ''caps'') (field msg ''agentVer'') hash))
      (\<lambda>_ w'. caps_of peek dev w' \<and> stored_hash (w_db w') dev = Some hash) (\<lambda>_ _. True) w"
    unfolding redis_hget_def wp_simps
  proof (rule wp_redis[OF TrueI])
    fix rep r assume "answers (HGet (key_string (KDeviceCaps dev)) ''capsHash'') (peek (w_redis w)) rep (peek r)"
    then obtain h where h: "hash_at (peek (w_redis w)) (key_string (KDeviceCaps dev)) = Some h" "peek r = peek (w_redis w)"
        "rep = (case map_of h ''capsHash'' of None \<Rightarrow> RNil | Some v \<Rightarrow> RBulk v)"
      by (auto split: option.splits)
    let ?w = "w\<lparr>w_redis := r\<rparr>"
    have c: "caps_of peek dev ?w" using assms h by (simp add: caps_of_def)
    have s: "stored_hash (w_db ?w) dev = Some hash" if "(case rep of RBulk s \<Rightarrow> Some s | _ \<Rightarrow> None) = Some hash"
      using assms h that by (auto simp: caps_of_def coherent_def cached_hash_def split: option.splits)
    from c s store_caps_coherent[of cv dev "field msg ''caps''" "field msg ''agentVer''" hash ?w]
    show "(if (case rep of RBulk s \<Rightarrow> Some s | _ \<Rightarrow> None) = Some hash
        then (\<lambda>w'. caps_of peek dev w' \<and> stored_hash (w_db w') dev = Some hash)
        else wp (store_caps ex cv dev (field msg ''caps'') (field msg ''agentVer'') hash)
          (\<lambda>_ w'. caps_of peek dev w' \<and> stored_hash (w_db w') dev = Some hash) (\<lambda>_ _. True)) ?w" by simp
  qed
  with True show ?thesis by (simp add: sync_caps_def Let_def flip: hash_def cong: if_cong)
qed (use assms in \<open>auto simp: sync_caps_def wp_ret\<close>)

end

text \<open>A factory reset: the device reports another Android id than the one stored.\<close>

definition blocked_row :: "caps_row \<Rightarrow> bool" where
  "blocked_row c \<longleftrightarrow> \<not> cp_a11y c \<and> \<not> cp_overlay c \<and> \<not> cp_secureSettings c \<and> cp_projectMedia c = ''blocked''"

definition wiped :: "string \<Rightarrow> store \<Rightarrow> db \<Rightarrow> bool" where
  "wiped dev st d \<longleftrightarrow> st (key_string (KDeviceCaps dev)) = None \<and> pred_option blocked_row (map_of (tb_caps d) dev) \<and>
     (\<exists>r. map_of (tb_devices d) dev = Some r \<and> dv_needsReprovisioning r)"

context redis_service
begin

lemma reset_coherent:
  assumes "caps_of peek dev w"
    and reset: "stored_android (w_db w) dev \<noteq> [] \<Longrightarrow> a \<noteq> JStr (stored_android (w_db w) dev) \<Longrightarrow>
      (\<And>w'. wiped dev (peek (w_redis w')) (w_db w') \<Longrightarrow> Q True w')"
    and same: "stored_android (w_db w) dev = [] \<or> a = JStr (stored_android (w_db w) dev) \<Longrightarrow>
      (\<And>w'. caps_of peek dev w' \<Longrightarrow> Q False w')"
  shows "wp (checkFactoryReset ex cv dev a) Q (\<lambda>_ _. True) w"
  unfolding checkFactoryReset_def wp_bind
proof (rule wp_pg_read[OF TrueI])
  fix fs
  define stored where "stored = stored_android (w_db w) dev"
  let ?w = "w\<lparr>w_pgFaults := fs\<rparr>"
  show "wp (if stored_android (w_db w) dev \<noteq> [] \<and> a \<noteq> JStr (stored_android (w_db w) dev)
       then thenE (pg (sql_android cv dev a True)) (thenE (pg_at (sql_reset_caps dev))
           (thenE (redis_do ex (Del [key_string (KDeviceCaps dev)])) (ret True)))
       else thenE (pg (sql_android cv dev a False)) (ret False)) Q (\<lambda>_ _. True) ?w"
  proof (cases "stored \<noteq> [] \<and> a \<noteq> JStr stored")
    case True
    then obtain r0 where r0: "map_of (tb_devices (w_db w)) dev = Some r0"
      by (auto simp: stored_def stored_android_def split: option.splits)
    have "wp (thenE (pg (sql_android cv dev a True)) (thenE (pg_at (sql_reset_caps dev))
           (thenE (redis_do ex (Del [key_string (KDeviceCaps dev)])) (ret True)))) Q (\<lambda>_ _. True) ?w"
      unfolding wp_simps
    proof (rule wp_pg[OF TrueI], rule wp_pg_at[OF TrueI], rule wp_del[OF TrueI])
      fix fs1 u d fs2 u' d' r
      let ?w' = "?w\<lparr>w_pgFaults := fs1, w_db := d, w_pgFaults := fs2, w_db := d'\<rparr>"
      assume d: "sql_android cv dev a True (w_db ?w) = Some (u, d)"
        "sql_reset_caps dev (w_now (?w\<lparr>w_pgFaults := fs1, w_db := d\<rparr>)) (w_db (?w\<lparr>w_pgFaults := fs1, w_db := d\<rparr>)) = Some (u', d')"
        and r: "peek r = (\<lambda>k. if k \<in> set [key_string (KDeviceCaps dev)] then None else peek (w_redis ?w') k)"
      have "wiped dev (peek (w_redis (?w'\<lparr>w_redis := r\<rparr>))) (w_db (?w'\<lparr>w_redis := r\<rparr>))"
        using d r0 by (auto simp: wiped_def r sql_android_def sql_reset_caps_def update_device_def blocked_row_def
            option.pred_map split: option.splits) (auto simp: blocked_row_def option.pred_set)
      from reset[OF _ _ this] True show "Q True (?w'\<lparr>w_redis := r\<rparr>)" by (simp add: stored_def)
    qed
    with True show ?thesis by (simp add: stored_def)
  next
    case False
    have "wp (thenE (pg (sql_android cv dev a False)) (ret False)) Q (\<lambda>_ _. True) ?w"
      unfolding wp_simps
    proof (rule wp_pg[OF TrueI])
      fix fs1 u d assume "sql_android cv dev a False (w_db ?w) = Some (u, d)"
      then have "tb_caps d = tb_caps (w_db w)" by (auto simp: sql_android_def update_device_def split: option.splits)
      then have "caps_of peek dev (?w\<lparr>w_pgFaults := fs1, w_db := d\<rparr>)"
        using assms(1) coherent_cong[of "peek (w_redis w)" dev "peek (w_redis w)" d "w_db w"] by (simp add: caps_of_def)
      from same[OF _ this] False show "Q False (?w\<lparr>w_pgFaults := fs1, w_db := d\<rparr>)" by (auto simp: stored_def)
    qed
    with False show ?thesis by (auto simp: stored_def)
  qed
qed

end

text \<open>A state message handled to its end.\<close>

definition reports_reset :: "string \<Rightarrow> json \<Rightarrow> db \<Rightarrow> bool" where
  "reports_reset dev msg d \<longleftrightarrow> truthy (oget msg ''androidId'') \<and> stored_android d dev \<noteq> [] \<and>
     field msg ''androidId'' \<noteq> JStr (stored_android d dev)"

definition state_stored :: "('r \<Rightarrow> store) \<Rightarrow> (string \<Rightarrow> string) \<Rightarrow> string \<Rightarrow> json \<Rightarrow> bool \<Rightarrow> 'r world \<Rightarrow> bool" where
  "state_stored peek sha1 dev msg reset w \<longleftrightarrow> caps_of peek dev w \<and>
     (if reset then wiped dev (peek (w_redis w)) (w_db w)
      else truthy (oget msg ''caps'') \<longrightarrow> truthy (oget msg ''agentVer'') \<longrightarrow>
        stored_hash (w_db w) dev = Some (capsHash sha1 (field msg ''caps'') (to_str (field msg ''agentVer''))))"

lemma wiped_coherent: "wiped dev st d \<Longrightarrow> coherent dev st d"
  by (simp add: wiped_def coherent_no_cache)

definition wiped_view :: "string \<Rightarrow> db \<Rightarrow> (string \<times> caps_row) list \<times> bool option" where
  "wiped_view dev d = (tb_caps d, map_option dv_needsReprovisioning (map_of (tb_devices d) dev))"

context redis_service
begin

lemma touch_wiped:
  assumes "wiped dev (peek (w_redis w)) (w_db w)" "\<And>w'. wiped dev (peek (w_redis w')) (w_db w') \<Longrightarrow> Q () w'"
  shows "wp (touch ex cv cfg dev msg) Q (\<lambda>_ _. True) w"
proof (rule wp_frame[OF frame_touch[of dev "{key_string (KDevice dev), key_string (KHwHeartbeat dev)}" "wiped_view dev" "{}"]])
  fix a :: unit and w' assume "stays peek (wiped_view dev) {key_string (KDevice dev), key_string (KHwHeartbeat dev)} {} w w'"
  then have "wiped dev (peek (w_redis w')) (w_db w')"
    using assms(1) caps_key_apart by (auto simp: stays_def wiped_def wiped_view_def map_option_eq_Some)
  then show "Q a w'" using assms(2) by simp
qed (simp_all add: add_sample_def update_device_def wiped_view_def option.map_comp comp_def)

lemma onState_stored:
  assumes "caps_of peek dev w"
  shows "wp (onState ex cv cfg sha1 dev msg) (\<lambda>_. state_stored peek sha1 dev msg (reports_reset dev msg (w_db w))) (\<lambda>_ _. True) w"
    (is "wp _ ?Q ?E _")
proof -
  let ?handle = "\<lambda>reset. thenE (touch ex cv cfg dev msg) (if reset then ret () else sync_caps ex cv sha1 dev msg)"
  have go_on: "wp (?handle False) ?Q ?E w'" if "caps_of peek dev w'" "\<not> reports_reset dev msg (w_db w)" for w'
    unfolding wp_simps
  proof (rule touch_coherent)
    fix u :: "'r world" assume t: "tb_caps (w_db u) = tb_caps (w_db w')"
      "peek (w_redis u) (key_string (KDeviceCaps dev)) = peek (w_redis w') (key_string (KDeviceCaps dev))"
    have "caps_of peek dev u" using that(1) coherent_cong[of "peek (w_redis u)" dev "peek (w_redis w')" "w_db u" "w_db w'"] t by (simp add: caps_of_def)
    from sync_caps_coherent[OF this, of cv sha1 msg] that(2)
    show "(if False then ?Q () else wp (sync_caps ex cv sha1 dev msg) ?Q ?E) u"
      by (simp add: state_stored_def[abs_def])
  qed
  have ended: "wp (?handle True) ?Q ?E w'" if "wiped dev (peek (w_redis w')) (w_db w')" "reports_reset dev msg (w_db w)" for w'
    unfolding wp_simps
    by (rule touch_wiped[OF that(1)]) (use that(2) in \<open>simp add: state_stored_def caps_of_def wiped_coherent\<close>)
  show ?thesis
    unfolding onState_def wp_then wp_bind
  proof (rule ensureDevice_coherent[OF assms])
    fix u :: "'r world" assume c: "caps_of peek dev u" and a: "stored_android (w_db u) dev = stored_android (w_db w) dev"
    have r: "reports_reset dev msg (w_db u) = reports_reset dev msg (w_db w)" by (simp add: reports_reset_def a)
    have "wp (if truthy (oget msg ''androidId'') then checkFactoryReset ex cv dev (field msg ''androidId'') else ret False)
        (\<lambda>reset. wp (?handle reset) ?Q ?E) ?E u"
    proof (cases "truthy (oget msg ''androidId'')")
      case True
      have "wp (checkFactoryReset ex cv dev (field msg ''androidId'')) (\<lambda>reset. wp (?handle reset) ?Q ?E) ?E u"
      proof (rule reset_coherent[OF c])
        fix w' :: "'r world" assume "stored_android (w_db u) dev \<noteq> []" "field msg ''androidId'' \<noteq> JStr (stored_android (w_db u) dev)"
          and "wiped dev (peek (w_redis w')) (w_db w')"
        then show "wp (?handle True) ?Q ?E w'" using ended True by (simp only: reports_reset_def a simp_thms)
      next
        fix w' :: "'r world" assume "stored_android (w_db u) dev = [] \<or> field msg ''androidId'' = JStr (stored_android (w_db u) dev)"
          and "caps_of peek dev w'"
        then show "wp (?handle False) ?Q ?E w'" by (intro go_on) (auto simp: reports_reset_def a)
      qed
      with True show ?thesis by simp
    next
      case False
      then show ?thesis using go_on[OF c] by (simp add: wp_ret reports_reset_def)
    qed
    then show "wp (defined msg) (\<lambda>_. wp (if truthy (oget msg ''androidId'') then checkFactoryReset ex cv dev (field msg ''androidId'') else ret False)
        (\<lambda>reset. wp (touch ex cv cfg dev msg) (\<lambda>_. wp (if reset then ret () else sync_caps ex cv sha1 dev msg) ?Q ?E) ?E) ?E) ?E u"
      by (simp add: defined_def wp_simps)
  qed
qed

end

section \<open>Rates\<close>

text \<open>The value of a counter.\<close>

definition counter_at :: "store \<Rightarrow> string \<Rightarrow> nat option" where
  "counter_at st k = (case st k of None \<Rightarrow> Some 0
     | Some (RStr v, _) \<Rightarrow> if v \<noteq> [] \<and> (\<forall>c \<in> set v. is_digit c) then Some (digits_val v) else None
     | _ \<Rightarrow> None)"

lemma one: "is_digit CHR ''1''" "digits_val ''1'' = Suc 0"
  by code_simp+

lemma incr_counter:
  assumes "redis_sem (Incr k) st = Some (rep, st')"
  obtains n where "counter_at st k = Some n" "rep = RInt (int n + 1)" "counter_at st' k = Some (n + 1)"
  using assms one by (auto simp: counter_at_def show_nat_digits split: option.splits rval.splits if_splits prod.splits)

lemma expire_counter: "redis_sem (Expire k t) st = Some (rep, st') \<Longrightarrow> counter_at st' k = counter_at st k"
  by (auto simp: counter_at_def split: option.splits prod.splits rval.splits)

context redis_service
begin

lemma wp_allow:
  assumes "\<And>w' e. (\<And>k. k \<noteq> key_string key \<Longrightarrow> peek (w_redis w') k = peek (w_redis w) k) \<Longrightarrow>
      w' = w\<lparr>w_redis := w_redis w'\<rparr> \<Longrightarrow> E RedisError w'"
    and "\<And>n r. counter_at (peek (w_redis w)) (key_string key) = Some n \<Longrightarrow>
      counter_at (peek r) (key_string key) = Some (n + 1) \<Longrightarrow>
      (\<And>k. k \<noteq> key_string key \<Longrightarrow> peek r k = peek (w_redis w) k) \<Longrightarrow> Q (int n + 1 \<le> max_n) (w\<lparr>w_redis := r\<rparr>)"
  shows "wp (allow ex key max_n s) Q E w"
  unfolding allow_def redis_int_def redis_do_def wp_simps
proof (rule wp_redis)
  let ?k = "key_string key"
  fix r assume "\<And>k. k \<notin> set (cmd_writes (Incr ?k)) \<Longrightarrow> peek r k = peek (w_redis w) k"
  then show "E RedisError (w\<lparr>w_redis := r\<rparr>)" by (intro assms(1)) (auto simp: cmd_writes_def)
next
  let ?k = "key_string key"
  fix rep r assume a: "answers (Incr ?k) (peek (w_redis w)) rep (peek r)"
  then have sem: "redis_sem (Incr ?k) (peek (w_redis w)) = Some (rep, peek r)" by simp
  obtain n where n: "counter_at (peek (w_redis w)) ?k = Some n" "rep = RInt (int n + 1)" "counter_at (peek r) ?k = Some (n + 1)"
    by (rule incr_counter[OF sem])
  have fr: "peek r k = peek (w_redis w) k" if "k \<noteq> ?k" for k
    using answers_frame[OF a, of k] that by (simp add: cmd_writes_def)
  have exp: "wp (redis ex (Expire ?k s)) (\<lambda>_. Q (int n + 1 \<le> max_n)) E (w\<lparr>w_redis := r\<rparr>)"
  proof (rule wp_redis)
    fix r' assume "\<And>k. k \<notin> set (cmd_writes (Expire ?k s)) \<Longrightarrow> peek r' k = peek (w_redis (w\<lparr>w_redis := r\<rparr>)) k"
    with fr show "E RedisError (w\<lparr>w_redis := r, w_redis := r'\<rparr>)" by (intro assms(1)) (auto simp: cmd_writes_def)
  next
    fix rep' r' assume b: "answers (Expire ?k s) (peek (w_redis (w\<lparr>w_redis := r\<rparr>))) rep' (peek r')"
    then have "redis_sem (Expire ?k s) (peek r) = Some (rep', peek r')" by simp
    from expire_counter[OF this] answers_frame[OF b] fr n
    show "Q (int n + 1 \<le> max_n) (w\<lparr>w_redis := r, w_redis := r'\<rparr>)"
      using assms(2)[of n r'] by (simp add: cmd_writes_def)
  qed
  show "(if (case rep of RInt n \<Rightarrow> n | _ \<Rightarrow> 0) = 1
        then wp (redis ex (Expire ?k s)) (\<lambda>_. Q ((case rep of RInt n \<Rightarrow> n | _ \<Rightarrow> 0) \<le> max_n)) E
        else Q ((case rep of RInt n \<Rightarrow> n | _ \<Rightarrow> 0) \<le> max_n)) (w\<lparr>w_redis := r\<rparr>)"
    using exp assms(2)[OF n(1,3) fr] by (cases "n = 0") (simp_all add: n(2))
qed

text \<open>With the window used up an event changes nothing but the counter.\<close>

lemma event_refused:
  assumes "counter_at (peek (w_redis w)) (key_string (KEventRate dev)) = Some n" "60 \<le> n"
    and "Q w" "\<And>w'. w' = w\<lparr>w_redis := w_redis w'\<rparr> \<Longrightarrow>
      (\<And>k. k \<noteq> key_string (KEventRate dev) \<Longrightarrow> peek (w_redis w') k = peek (w_redis w) k) \<Longrightarrow> Q w'"
  shows "wp (onEvent ex cv cfg uuid dev msg) (\<lambda>_. Q) (\<lambda>_. Q) w"
proof -
  have stop: "wp (bindE (allow ex (KEventRate dev) 60 600) (\<lambda>ok. if \<not> ok then ret () else m)) (\<lambda>_. Q) (\<lambda>_. Q) w" for m
    unfolding wp_simps by (rule wp_allow) (use assms in \<open>auto simp: wp_ret\<close>)
  show ?thesis
    unfolding onEvent_def onFlap_def onHwEvent_def wp_then wp_if using assms(3) stop
    by (simp add: defined_def wp_simps(1,2))
qed

end

section \<open>Answers to dump requests\<close>

lemma wp_finally [wp_simps]:
  "wp (finallyE m n) Q E = wp m (\<lambda>a. wp n (\<lambda>_. Q a) E) (\<lambda>e. wp n (\<lambda>_. E e) E)"
  by (auto simp: fun_eq_iff wp_def finallyE_def split: prod.split sum.split)

lemma wp_lift_dump: "wp (lift_dump m) Q E (w, l) = wp m (\<lambda>a w'. Q a (w', l)) (\<lambda>e w'. E e (w', l)) w"
  by (simp add: wp_def lift_dump_def split: prod.split sum.split)

lemma wp_run_dump: "wp (run_dump m) Q E w = wp m (\<lambda>a x. Q a (fst x)) (\<lambda>e x. E e (fst x)) (w, 0, 0)"
  by (simp add: wp_def run_dump_def split: prod.split sum.split)

lemma wp_kept:
  assumes "kept_by R m" "\<And>a w'. R w w' \<Longrightarrow> Q a w'" "\<And>e w'. R w w' \<Longrightarrow> E e w'"
  shows "wp m Q E w"
  using kept_byD[OF assms(1)] assms(2,3) by (auto simp: wp_def split: prod.split sum.split)

text \<open>The list a waiting call of the API pops from holds a new answer, for half a minute.\<close>

definition answered_dump :: "string \<Rightarrow> store \<Rightarrow> store \<Rightarrow> bool" where
  "answered_dump nonce st st' \<longleftrightarrow> (\<exists>l c i. list_key st (key_string (KHwDump nonce)) = Some l \<and>
     st' (key_string (KHwDump nonce)) = Some (RList (dump_reply c i # l), Some 30))"

lemma dump_key_apart:
  "key_string (KHwDump nonce) \<notin> device_keys dev" "key_string (KHwDumpReq nonce) \<notin> device_keys dev"
  "key_string (KHwDump nonce) \<noteq> key_string (KHwDumpReq m)" "key_string (KHwDumpReq m) \<noteq> key_string (KHwDump nonce)"
  by (auto simp: device_keys_def key_string.simps)

context redis_service
begin

lemma wp_push_answer:
  assumes "peek (w_redis w) (key_string (KHwDump nonce)) = st (key_string (KHwDump nonce))"
    and "\<And>w'. answered_dump nonce st (peek (w_redis w')) \<Longrightarrow>
      (\<And>k. k \<noteq> key_string (KHwDump nonce) \<Longrightarrow> peek (w_redis w') k = peek (w_redis w) k) \<Longrightarrow> Q w'"
    and "\<And>w'. E RedisError w'"
  shows "wp (answer_dump ex nonce) (\<lambda>_ x. Q (fst x)) (\<lambda>e x. E e (fst x)) (w, l)"
proof -
  let ?k = "key_string (KHwDump nonce)"
  obtain c i where l: "l = (c, i)" by force
  show ?thesis
    unfolding answer_dump_def wp_simps wp_lift_dump redis_do_def l split_conv
  proof (rule wp_redis)
    fix rep r assume a: "answers (LPush ?k (dump_reply c i)) (peek (w_redis w)) rep (peek r)"
    then obtain l where l: "list_key (peek (w_redis w)) ?k = Some l"
        "peek r = keep_ttl (peek (w_redis w)) ?k (RList (dump_reply c i # l))" by (auto split: option.splits)
    show "wp (redis ex (Expire ?k 30)) (\<lambda>_ w'. Q (fst (w', c, i))) (\<lambda>e w'. E e (fst (w', c, i))) (w\<lparr>w_redis := r\<rparr>)"
    proof (rule wp_redis)
      fix rep' r' assume "answers (Expire ?k 30) (peek (w_redis (w\<lparr>w_redis := r\<rparr>))) rep' (peek r')"
      then have r': "peek r' = (peek r)(?k \<mapsto> (RList (dump_reply c i # l), Some 30))"
        by (auto simp: l keep_ttl_def)
      have "answered_dump nonce st (peek r')"
        using l(1) assms(1) by (auto simp: answered_dump_def r' list_key_def)
      then show "Q (fst (w\<lparr>w_redis := r, w_redis := r'\<rparr>, c, i))"
        by (auto intro: assms(2) simp: r' l(2) keep_ttl_def)
    qed (simp add: assms(3))
  qed (simp add: assms(3))
qed

lemma wp_del_one:
  assumes "\<And>w'. E RedisError w'"
    and "\<And>r. peek r = (peek (w_redis w))(k := None) \<Longrightarrow> Q (if peek (w_redis w) k = None then 0 else 1) (w\<lparr>w_redis := r\<rparr>)"
  shows "wp (redis_int ex (Del [k])) Q E w"
  unfolding redis_int_def wp_simps
proof (rule wp_redis)
  fix rep r assume "answers (Del [k]) (peek (w_redis w)) rep (peek r)"
  then show "Q (case rep of RInt n \<Rightarrow> n | _ \<Rightarrow> 0) (w\<lparr>w_redis := r\<rparr>)"
    using assms(2)[of r] by (cases "peek (w_redis w) k") (auto simp: live_keys_def fun_upd_def)
qed (simp add: assms)

lemma dump_answered:
  fixes dev msg raw and w :: "'r world"
  defines "st \<equiv> peek (w_redis w)" and "nonce \<equiv> dump_nonce msg"
  defines "waits \<equiv> nonce \<noteq> [] \<and> \<not> prefix ''auto-'' nonce \<and> st (key_string (KHwDumpReq nonce)) \<noteq> None"
  defines "Q \<equiv> \<lambda>w'. if waits then answered_dump nonce st (peek (w_redis w')) \<and> peek (w_redis w') (key_string (KHwDumpReq nonce)) = None
      else peek (w_redis w') (key_string (KHwDump nonce)) = st (key_string (KHwDump nonce))"
  shows "wp (onHwDump ex cv dev msg raw) (\<lambda>_. Q) (\<lambda>e w'. e \<noteq> RedisError \<longrightarrow> Q w') w"
proof -
  let ?E = "\<lambda>e w'. e \<noteq> RedisError \<longrightarrow> Q w'"
  let ?R = "dump_stays peek (without_device dev) (device_keys dev) {topic_cmd dev}"
  have body: "kept_by ?R (dump_body ex cv dev msg raw)" by (rule frame_dump_body) simp
  have rest: "wp (run_dump (finallyE (dump_body ex cv dev msg raw) (whenE b (answer_dump ex nonce)))) (\<lambda>_. Q) ?E u"
    if b: "b = waits" and u: "peek (w_redis u) (key_string (KHwDump nonce)) = st (key_string (KHwDump nonce))"
      and d: "waits \<Longrightarrow> peek (w_redis u) (key_string (KHwDumpReq nonce)) = None" for b u
  proof -
    have after: "wp (whenE b (answer_dump ex nonce)) (\<lambda>_ x. Q (fst x)) (\<lambda>e x. ?E e (fst x)) x"
      if "?R (u, 0, 0) x" for x
    proof -
      obtain v l where x: "x = (v, l)" by (cases x) auto
      have k: "peek (w_redis v) (key_string (KHwDump nonce)) = st (key_string (KHwDump nonce))"
        "waits \<Longrightarrow> peek (w_redis v) (key_string (KHwDumpReq nonce)) = None"
        using that u d dump_key_apart(1,2)[of nonce dev] by (simp_all add: dump_stays_def stays_def x)
      show ?thesis
      proof (cases waits)
        case True
        have "wp (answer_dump ex nonce) (\<lambda>_ x. Q (fst x)) (\<lambda>e x. ?E e (fst x)) (v, l)"
          by (rule wp_push_answer[where st = st]) (use k True dump_key_apart(4) in \<open>simp_all add: Q_def\<close>)
        with True b x show ?thesis by (simp add: whenE_def)
      qed (use k b x in \<open>simp add: whenE_def wp_ret Q_def\<close>)
    qed
    have fin: "wp (whenE b (answer_dump ex nonce)) (\<lambda>_ x. ?E e (fst x)) (\<lambda>e x. ?E e (fst x)) x" if "?R (u, 0, 0) x" for e x
      by (rule wp_conseq[OF after[OF that]]) simp_all
    show ?thesis unfolding wp_run_dump wp_finally
      by (rule wp_kept[OF body after fin])
  qed
  show ?thesis
  proof (cases "nonce \<noteq> [] \<and> \<not> prefix ''auto-'' nonce")
    case True
    have "wp (redis_int ex (Del [key_string (KHwDumpReq nonce)]))
      (\<lambda>n. wp (run_dump (finallyE (dump_body ex cv dev msg raw) (whenE (n = 1) (answer_dump ex nonce)))) (\<lambda>_. Q) ?E) ?E w"
      by (rule wp_del_one, simp, rule rest) (use True dump_key_apart(3,4) in \<open>simp_all add: waits_def st_def\<close>)
    with True show ?thesis by (simp add: onHwDump_def Let_def wp_simps flip: nonce_def)
  next
    case False
    have "wp (run_dump (finallyE (dump_body ex cv dev msg raw) (whenE False (answer_dump ex nonce)))) (\<lambda>_. Q) ?E w"
      by (rule rest) (use False in \<open>auto simp: waits_def st_def\<close>)
    with False show ?thesis by (auto simp: onHwDump_def Let_def wp_bind wp_ret simp flip: nonce_def)
  qed
qed

end

section \<open>Properties\<close>

definition demo_cfg :: ingest_cfg where
  "demo_cfg = \<lparr>ic_hbStoreSec = 90, ic_autoDump = True, ic_sampleDays = 14, ic_connDays = 30, ic_eventDays = 90\<rparr>"

text \<open>The nonce of the dump request a message claims to answer.\<close>

definition nonce_of :: "string \<Rightarrow> string" where
  "nonce_of raw = (case json_parse raw of None \<Rightarrow> [] | Some msg \<Rightarrow> dump_nonce msg)"

text \<open>
  C13 Confinement: whatever a device publishes on its topics, the handler of the message never
  rejects, changes no row of another device and no other table, writes only the device's own Redis
  keys and those of the dump request it names, and sends messages only to the device itself.
\<close>

theorem ingest_confined:
  fixes w :: "'r world" and cv cfg sha1 and uuid raw :: string
  assumes R: "redis_service ex peek" and topic: "\<not> prefix ''$SYS/'' topic"
  defines "dev \<equiv> deviceIdFromTopic topic"
  defines "w' \<equiv> snd (on_message ex cv cfg sha1 (uuid, topic, raw) w)"
  shows "fst (on_message ex cv cfg sha1 (uuid, topic, raw) w) = Inr () \<and>
    without_device dev (w_db w') = without_device dev (w_db w) \<and>
    (\<forall>k. k \<notin> device_keys dev \<union> dump_keys (nonce_of raw) \<longrightarrow> peek (w_redis w') k = peek (w_redis w) k) \<and>
    (\<exists>ms. w_mqtt w' = w_mqtt w @ ms \<and> fst ` set ms \<subseteq> {topic_cmd dev})"
proof -
  have "frame peek (without_device dev) (device_keys dev \<union> dump_keys (nonce_of raw)) {topic_cmd dev}
      (on_message ex cv cfg sha1 (uuid, topic, raw))"
    unfolding on_message_def split_conv
    by (intro frame_intros redis_service.frame_onMessage[OF R topic dev_def[symmetric, THEN meta_eq_to_obj_eq]]) (auto simp: nonce_of_def)
  then have "stays peek (without_device dev) (device_keys dev \<union> dump_keys (nonce_of raw)) {topic_cmd dev} w w'"
    by (simp add: kept_by_def w'_def)
  moreover have "fst (on_message ex cv cfg sha1 (uuid, topic, raw) w) = Inr ()"
    by (auto simp: on_message_def catchE_def ret_def split: prod.split sum.split)
  ultimately show ?thesis unfolding stays_def by blast
qed

definition demo_flap :: string where
  "demo_flap = ''{\"code\":\"MQTT_FLAP\",\"msg\":\"down\"}''"

theorem ingest_confined_witness:
  "fst (on_message mem_redis pg_conv demo_cfg id (''u1'', ''rc/event/d1'', demo_flap) (demo_world Map.empty)) = Inr ()"
  using ingest_confined[OF mem.redis_service_axioms, of "''rc/event/d1''"] by simp

text \<open>
  C17 Capabilities stay in step: when the hash cached in Redis is that of the stored row and a state
  message is handled without an error, it is so afterwards, and either the device reported a
  factory reset and its stored permissions are cleared, with the device marked for provisioning, or
  the row holds the hash of the capabilities it reported, whether or not the message was skipped.
\<close>

theorem state_keeps_caps_cache:
  fixes w :: "'r world"
  assumes "redis_service ex peek" "coherent dev (peek (w_redis w)) (w_db w)"
    and "onState ex cv cfg sha1 dev msg w = (Inr (), w')"
  shows "coherent dev (peek (w_redis w')) (w_db w') \<and>
    (if reports_reset dev msg (w_db w) then wiped dev (peek (w_redis w')) (w_db w')
     else truthy (oget msg ''caps'') \<longrightarrow> truthy (oget msg ''agentVer'') \<longrightarrow>
       stored_hash (w_db w') dev = Some (capsHash sha1 (field msg ''caps'') (to_str (field msg ''agentVer''))))"
  using wp_okD[OF redis_service.onState_stored[OF assms(1)] assms(3)] assms(2)
  by (simp add: state_stored_def caps_of_def)

definition demo_state :: json where
  "demo_state = JObj [(''agentVer'', JStr ''1.0.0''), (''caps'', JObj [(''projectMedia'', JStr ''auto''), (''a11y'', JBool True),
     (''knox'', JStr ''unlicensed''), (''overlay'', JBool True), (''secureSettings'', JBool False)])]"

theorem state_keeps_caps_cache_witness:
  "\<exists>w'. onState mem_redis pg_conv demo_cfg id ''d1'' demo_state (demo_world Map.empty) = (Inr (), w') \<and>
    stored_hash (w_db w') ''d1'' = Some (capsHash id (field demo_state ''caps'') ''1.0.0'')"
proof -
  let ?w = "demo_world Map.empty"
  have "fst (onState mem_redis pg_conv demo_cfg id ''d1'' demo_state ?w) = Inr ()" by code_simp
  then obtain w' where run: "onState mem_redis pg_conv demo_cfg id ''d1'' demo_state ?w = (Inr (), w')"
    by (metis prod.collapse)
  have "coherent ''d1'' (snd (w_redis ?w)) (w_db ?w)" by (simp add: coherent_no_cache demo_world_def)
  moreover have "\<not> reports_reset ''d1'' demo_state (w_db ?w)" by code_simp
  moreover have "truthy (oget demo_state ''caps'')" "truthy (oget demo_state ''agentVer'')"
    "to_str (field demo_state ''agentVer'') = ''1.0.0''" by code_simp+
  ultimately show ?thesis using state_keeps_caps_cache[OF mem.redis_service_axioms _ run] run by auto
qed

text \<open>
  C18 Every dump request is answered: when the nonce of a dump is registered and not one of the
  automatic ones, the list the API waits on holds an answer for half a minute and the registration
  is spent, whether the samples were stored, the rate limit refused them or the database failed; an
  unregistered nonce puts nothing there. Only Redis itself can prevent it.
\<close>

theorem dump_request_answered:
  fixes w :: "'r world"
  assumes "redis_service ex peek" "onHwDump ex cv dev msg raw w = (r, w')" "r \<noteq> Inl RedisError"
  defines "nonce \<equiv> dump_nonce msg"
  shows "if nonce \<noteq> [] \<and> \<not> prefix ''auto-'' nonce \<and> peek (w_redis w) (key_string (KHwDumpReq nonce)) \<noteq> None
    then answered_dump nonce (peek (w_redis w)) (peek (w_redis w')) \<and> peek (w_redis w') (key_string (KHwDumpReq nonce)) = None
    else peek (w_redis w') (key_string (KHwDump nonce)) = peek (w_redis w) (key_string (KHwDump nonce))"
  using redis_service.dump_answered[OF assms(1), where cv = cv and dev = dev and msg = msg and raw = raw and w = w] assms(2,3) unfolding nonce_def
  by (cases r) (simp_all add: wp_def)

definition demo_dump :: json where
  "demo_dump = JObj [(''nonce'', JStr ''n7''), (''hw'', JArr [])]"

text \<open>The database rejects everything; the request is answered all the same.\<close>

definition dump_world :: "mem world" where
  "dump_world = (demo_world [''hw:dumpreq:n7'' \<mapsto> (RStr ''1'', Some 30)])\<lparr>w_pgFaults := [True, True, True]\<rparr>"

theorem dump_request_answered_witness:
  "\<exists>w'. onHwDump mem_redis pg_conv ''d1'' demo_dump [] dump_world = (Inl PgError, w') \<and>
    answered_dump ''n7'' (snd (w_redis dump_world)) (snd (w_redis w'))"
proof -
  have "fst (onHwDump mem_redis pg_conv ''d1'' demo_dump [] dump_world) = Inl PgError" by code_simp
  then obtain w' where run: "onHwDump mem_redis pg_conv ''d1'' demo_dump [] dump_world = (Inl PgError, w')"
    by (metis prod.collapse)
  have "dump_nonce demo_dump = ''n7''" "\<not> prefix ''auto-'' ''n7''" by code_simp+
  moreover have "snd (w_redis dump_world) (key_string (KHwDumpReq ''n7'')) \<noteq> None"
    by (simp add: dump_world_def demo_world_def key_string.simps)
  ultimately show ?thesis using dump_request_answered[OF mem.redis_service_axioms run] run by simp
qed

text \<open>
  C19 Events are rate limited: when a device has used up its sixty events of the window, a further one
  changes no table, sends nothing, and writes nothing to Redis but the counter.
\<close>

theorem event_rate_limit:
  fixes w :: "'r world"
  assumes "redis_service ex peek"
    and "counter_at (peek (w_redis w)) (key_string (KEventRate dev)) = Some n" "60 \<le> n"
    and "onEvent ex cv cfg uuid dev msg w = (r, w')"
  shows "w_db w' = w_db w \<and> w_mqtt w' = w_mqtt w \<and>
    (\<forall>k. k \<noteq> key_string (KEventRate dev) \<longrightarrow> peek (w_redis w') k = peek (w_redis w) k)"
proof -
  let ?Q = "\<lambda>u. w_db u = w_db w \<and> w_mqtt u = w_mqtt w \<and>
    (\<forall>k. k \<noteq> key_string (KEventRate dev) \<longrightarrow> peek (w_redis u) k = peek (w_redis w) k)"
  have "wp (onEvent ex cv cfg uuid dev msg) (\<lambda>_. ?Q) (\<lambda>_. ?Q) w"
  proof (rule redis_service.event_refused[OF assms(1-3)])
    fix u assume "u = w\<lparr>w_redis := w_redis u\<rparr>"
    then have "w_db u = w_db w" "w_mqtt u = w_mqtt w" by (metis world.select_convs world.surjective world.update_convs(2))+
    moreover assume "\<And>k. k \<noteq> key_string (KEventRate dev) \<Longrightarrow> peek (w_redis u) k = peek (w_redis w) k"
    ultimately show "?Q u" by simp
  qed simp
  with assms(4) show ?thesis by (cases r) (simp_all add: wp_def)
qed

definition full_window :: "mem world" where
  "full_window = demo_world [''hw:rl:ev:d1'' \<mapsto> (RStr ''60'', Some 500)]"

theorem event_rate_limit_witness:
  "\<exists>r w'. onEvent mem_redis pg_conv demo_cfg ''u1'' ''d1'' (JObj [(''code'', JStr ''MQTT_FLAP'')]) full_window = (r, w') \<and>
    tb_connEvents (w_db w') = []"
proof -
  let ?m = "JObj [(''code'', JStr ''MQTT_FLAP'')]"
  obtain r w' where run: "onEvent mem_redis pg_conv demo_cfg ''u1'' ''d1'' ?m full_window = (r, w')" by force
  have "counter_at (snd (w_redis full_window)) (key_string (KEventRate ''d1'')) = Some 60" by code_simp
  from event_rate_limit[OF mem.redis_service_axioms this _ run]
  have "w_db w' = w_db full_window" by simp
  with run show ?thesis by (simp add: full_window_def demo_world_def demo_db_def)
qed

end
