(* ===== verification/Mdm.thy ===== *)
theory Mdm
  imports Ingest Frames
begin

text \<open>
  \<open>apps/rc-api/src/config.ts\<close> and \<open>apps/rc-api/src/hmdm\<close>: the settings of the API, the client of
  the Headwind MDM server with its cached token, and the job that copies the MDM's devices into the
  tables. The remote server is a parameter: \<open>fetch\<close> answers a request on a state of its own, or
  rejects.
\<close>

section \<open>Configuration\<close>

type_synonym env = "string \<Rightarrow> string option"

definition env_or :: "env \<Rightarrow> string \<Rightarrow> string \<Rightarrow> string" where
  "env_or env name fallback = (case env name of None \<Rightarrow> fallback | Some v \<Rightarrow> v)"

definition requiredEnv :: "env \<Rightarrow> string \<Rightarrow> string option \<Rightarrow> error + string" where
  "requiredEnv env name fallback = (case (case env name of None \<Rightarrow> fallback | Some v \<Rightarrow> Some v) of
      None \<Rightarrow> Inl (ThrownError (''Missing env '' @ name))
    | Some v \<Rightarrow> if v = [] then Inl (ThrownError (''Missing env '' @ name)) else Inr v)"

text \<open>\<open>.replace(/\/$/, '')\<close> drops one slash at the end.\<close>

definition drop_slash :: "string \<Rightarrow> string" where
  "drop_slash s = (if s \<noteq> [] \<and> last s = CHR ''/'' then butlast s else s)"

record config =
  cf_databaseUrl :: "error + string"
  cf_redisUrl :: "error + string"
  cf_mqttUrl :: "error + string"
  cf_jwtSecret :: "error + string"
  cf_jwtExpiresIn :: jsnum
  cf_agentJwtExpiresIn :: jsnum
  cf_relayNode :: string
  cf_relayPublicHost :: string
  cf_relayWsScheme :: string
  cf_hmdmBaseUrl :: string
  cf_hmdmUsername :: string
  cf_hmdmPassword :: string
  cf_hmdmAgentPackage :: string
  cf_hmdmWakeAction :: string
  cf_rustdeskApiUrl :: string
  cf_rustdeskApiKey :: string

definition config_of :: "env \<Rightarrow> config" where
  "config_of env = \<lparr>
     cf_databaseUrl = requiredEnv env ''DATABASE_URL'' (Some ''postgres://rc:rc@localhost:5432/rc''),
     cf_redisUrl = requiredEnv env ''REDIS_URL'' (Some ''redis://localhost:6379''),
     cf_mqttUrl = requiredEnv env ''MQTT_URL'' (Some ''mqtt://localhost:1883''),
     cf_jwtSecret = requiredEnv env ''JWT_SECRET'' (Some ''change-me-in-production''),
     cf_jwtExpiresIn = to_number_str (env_or env ''JWT_EXPIRES_IN_SEC'' ''28800''),
     cf_agentJwtExpiresIn = to_number_str (env_or env ''AGENT_JWT_EXPIRES_SEC'' ''60''),
     cf_relayNode = env_or env ''RELAY_NODE'' ''local'',
     cf_relayPublicHost = env_or env ''RELAY_PUBLIC_HOST'' ''localhost:3001'',
     cf_relayWsScheme = relayWsScheme env,
     cf_hmdmBaseUrl = env_or env ''HMDM_BASE_URL'' [],
     cf_hmdmUsername = env_or env ''HMDM_USERNAME'' [],
     cf_hmdmPassword = env_or env ''HMDM_PASSWORD'' [],
     cf_hmdmAgentPackage = env_or env ''HMDM_AGENT_PACKAGE'' ''com.you.rcagent'',
     cf_hmdmWakeAction = env_or env ''HMDM_WAKE_ACTION'' ''com.you.rcagent.WAKE'',
     cf_rustdeskApiUrl = drop_slash (env_or env ''RUSTDESK_API_URL'' []),
     cf_rustdeskApiKey = env_or env ''RUSTDESK_API_KEY'' []\<rparr>"

section \<open>Requests to other servers\<close>

record request =
  rq_method :: string
  rq_url :: string
  rq_headers :: "(string \<times> string) list"
  rq_body :: "json option"

text \<open>A response's body is \<open>None\<close> when it is not JSON; \<open>fetch\<close> itself may reject.\<close>

datatype fetched = Rejected | Response nat "json option"

type_synonym 'h fetch = "request \<Rightarrow> 'h \<Rightarrow> fetched \<times> 'h"

text \<open>The client keeps a token until it expires.\<close>

record 'h mdm =
  md_server :: 'h
  md_cached :: "(json \<times> int) option"

type_synonym ('r, 'h, 'a) net = "('r world \<times> 'h mdm, error, 'a) prog"

definition lift_net :: "('r, 'a) handler \<Rightarrow> ('r, 'h, 'a) net" where
  "lift_net m x = (case x of (w, s) \<Rightarrow> (case m w of (r, w') \<Rightarrow> (r, w', s)))"

definition call :: "'h fetch \<Rightarrow> request \<Rightarrow> ('r, 'h, nat \<times> json option) net" where
  "call fetch q x = (case x of (w, s) \<Rightarrow> (case fetch q (md_server s) of
      (Rejected, h) \<Rightarrow> (Inl (ThrownError ''fetch failed''), w, s\<lparr>md_server := h\<rparr>)
    | (Response st b, h) \<Rightarrow> (Inr (st, b), w, s\<lparr>md_server := h\<rparr>)))"

definition ok :: "nat \<Rightarrow> bool" where
  "ok status = (200 \<le> status \<and> status < 300)"

lemma wp_lift_net: "wp (lift_net m) Q E (w, s) = wp m (\<lambda>a w'. Q a (w', s)) (\<lambda>e w'. E e (w', s)) w"
  by (simp add: wp_def lift_net_def split: prod.split sum.split)

lemma wp_call: "wp (call fetch q) Q E (w, s) = (case fetch q (md_server s) of
    (Rejected, h) \<Rightarrow> E (ThrownError ''fetch failed'') (w, s\<lparr>md_server := h\<rparr>)
  | (Response st b, h) \<Rightarrow> Q (st, b) (w, s\<lparr>md_server := h\<rparr>))"
  by (simp add: wp_def call_def split: prod.split fetched.split)

text \<open>\<open>await res.json()\<close>, then a property of the result: \<open>null\<close> has none.\<close>

definition json_of :: "json option \<Rightarrow> ('w, error, json) prog" where
  "json_of b = (case b of None \<Rightarrow> raise (ThrownError ''SyntaxError'') | Some j \<Rightarrow> ret j)"

definition object_of :: "json option \<Rightarrow> ('w, error, json) prog" where
  "object_of b = bindE (json_of b) (\<lambda>j. if j = JNull then raise type_error else ret j)"

definition post :: "string \<Rightarrow> (string \<times> string) list \<Rightarrow> json \<Rightarrow> request" where
  "post url headers body = \<lparr>rq_method = ''POST'', rq_url = url,
     rq_headers = headers @ [(''content-type'', ''application/json'')], rq_body = Some body\<rparr>"

definition bearer :: "json \<Rightarrow> string \<times> string" where
  "bearer token = (''Authorization'', ''Bearer '' @ to_str token)"

section \<open>The client\<close>

definition TOKEN_MS :: int where "TOKEN_MS = 50 * 60000"

definition login_request :: "config \<Rightarrow> request" where
  "login_request cfg = post (cf_hmdmBaseUrl cfg @ ''/rest/public/jwt/login'') []
     (JObj [(''login'', JStr (cf_hmdmUsername cfg)), (''password'', JStr (cf_hmdmPassword cfg))])"

definition fresh_token :: "config \<Rightarrow> 'h fetch \<Rightarrow> ('r, 'h, json) net" where
  "fresh_token cfg fetch =
     (if cf_hmdmBaseUrl cfg = [] then raise (ThrownError ''HMDM_BASE_URL is not set'')
      else bindE (call fetch (login_request cfg)) (\<lambda>(status, b).
        if \<not> ok status then raise (ThrownError (''Headwind login failed: '' @ show_nat status))
        else bindE (object_of b) (\<lambda>body.
          let value = nullish (oget body ''id_token'') (field body ''token'') in
          if \<not> truthy (Some value) then raise (ThrownError ''Headwind login returned no token'')
          else bindE (modifyE (\<lambda>(w, s). (w, s\<lparr>md_cached := Some (value, w_now w + TOKEN_MS)\<rparr>))) (\<lambda>_. ret value))))"

definition token :: "config \<Rightarrow> 'h fetch \<Rightarrow> ('r, 'h, json) net" where
  "token cfg fetch = bindE (gets (\<lambda>(w, s). (w_now w, md_cached s))) (\<lambda>(now, cached).
     case cached of
       Some (value, expiry) \<Rightarrow> if now < expiry then ret value else fresh_token cfg fetch
     | None \<Rightarrow> fresh_token cfg fetch)"

text \<open>\<open>verifyLoginToken\<close>: the login and the id of the user the token belongs to.\<close>

definition verifyLoginToken :: "config \<Rightarrow> 'h fetch \<Rightarrow> string \<Rightarrow> ('r, 'h, json \<times> json) net" where
  "verifyLoginToken cfg fetch hmdmToken =
     (if cf_hmdmBaseUrl cfg = [] then raise (ThrownError ''HMDM_BASE_URL is not set'')
      else bindE (call fetch \<lparr>rq_method = ''GET'', rq_url = cf_hmdmBaseUrl cfg @ ''/rest/private/users/current'',
            rq_headers = [bearer (JStr hmdmToken)], rq_body = None\<rparr>) (\<lambda>(status, b).
        if \<not> ok status then raise (ThrownError (''Headwind user lookup failed: '' @ show_nat status))
        else bindE (object_of b) (\<lambda>body.
          ret (nullish (oget body ''login'') (nullish (oget body ''name'') (JStr ''unknown'')),
               nullish (oget body ''id'') (JNum (Fin 0))))))"

definition searchDevices :: "config \<Rightarrow> 'h fetch \<Rightarrow> json \<Rightarrow> ('r, 'h, json) net" where
  "searchDevices cfg fetch tok =
     bindE (call fetch (post (cf_hmdmBaseUrl cfg @ ''/rest/private/devices/search'') [bearer tok] (JObj []))) (\<lambda>(status, b).
       if \<not> ok status then raise (ThrownError (''Headwind device search failed: '' @ show_nat status))
       else bindE (json_of b) (\<lambda>body. case body of
           JArr ds \<Rightarrow> ret (JArr ds)
         | JNull \<Rightarrow> raise type_error
         | _ \<Rightarrow> ret (nullish (oget body ''data'') (JArr []))))"

definition push_body :: "config \<Rightarrow> string \<Rightarrow> json" where
  "push_body cfg dev = JObj [(''deviceNumber'', JStr dev), (''messageType'', JStr ''runApp''),
     (''payload'', JObj [(''pkg'', JStr (cf_hmdmAgentPackage cfg)), (''action'', JStr (cf_hmdmWakeAction cfg)),
        (''extra'', JObj [(''reason'', JStr ''rc_session'')])])]"

definition wake_device :: "config \<Rightarrow> 'h fetch \<Rightarrow> string \<Rightarrow> ('r, 'h, bool) net" where
  "wake_device cfg fetch dev =
     (if cf_hmdmBaseUrl cfg = [] then ret False
      else catchE (bindE (token cfg fetch) (\<lambda>tok.
          bindE (call fetch (post (cf_hmdmBaseUrl cfg @ ''/rest/plugins/devicelog/device/push'') [bearer tok] (push_body cfg dev)))
            (\<lambda>(status, b). ret (ok status))))
        (\<lambda>_. ret False))"

section \<open>The device sync\<close>

text \<open>Ids of new rows come from a sequence of the database: a number no row has.\<close>

locale serial_ids =
  fixes serial :: "int list \<Rightarrow> int"
  assumes fresh: "serial ids \<notin> set ids"

definition max_serial :: "int list \<Rightarrow> int" where
  "max_serial ids = fold max ids 0 + 1"

lemma fold_max_bound: "(i :: int) \<in> set ids \<or> i \<le> a \<Longrightarrow> i \<le> fold max ids a"
  by (induction ids arbitrary: a) (auto simp: max_def)

interpretation pg_serial: serial_ids max_serial
proof
  fix ids :: "int list"
  have "i \<le> fold max ids 0" if "i \<in> set ids" for i using fold_max_bound[of i ids 0] that by simp
  then show "max_serial ids \<notin> set ids" by (force simp: max_serial_def)
qed

text \<open>
  What the driver makes of the MDM's values: \<open>cv_text\<close> as for the ingest service, and \<open>int_of\<close> an
  integer column. The column \<open>hmdm_group_id\<close> of the groups, which nothing reads, is left out.
\<close>

definition sql_map_group :: "(int list \<Rightarrow> int) \<Rightarrow> (json \<Rightarrow> int option) \<Rightarrow> json \<Rightarrow> db \<Rightarrow> (int \<times> db) option" where
  "sql_map_group serial int_of g d = (case int_of g of
      None \<Rightarrow> None
    | Some _ \<Rightarrow> let name = ''hmdm-'' @ to_str g in
        (case find (\<lambda>p. snd p = name) (tb_groups d) of
           Some p \<Rightarrow> Some (fst p, d)
         | None \<Rightarrow> let i = serial (map fst (tb_groups d)) in Some (i, d\<lparr>tb_groups := tb_groups d @ [(i, name)]\<rparr>)))"

definition mapGroup :: "(int list \<Rightarrow> int) \<Rightarrow> (json \<Rightarrow> int option) \<Rightarrow> json option \<Rightarrow> ('r, int) handler" where
  "mapGroup serial int_of g =
     (if \<not> truthy g then bindE (pg_read default_group) (\<lambda>i. case i of None \<Rightarrow> raise type_error | Some i \<Rightarrow> ret i)
      else pg (sql_map_group serial int_of (the g)))"

definition device_number :: "json \<Rightarrow> string" where
  "device_number d = to_str (nullish (oget d ''number'') (nullish (oget d ''deviceNumber'') (JStr [])))"

text \<open>The columns the MDM owns; the others are the agent's.\<close>

definition synced_row :: "int option \<Rightarrow> string option \<Rightarrow> string option \<Rightarrow> int \<Rightarrow> string option \<Rightarrow> int \<Rightarrow> device_row \<Rightarrow> device_row" where
  "synced_row hmdmId model os g label now r = r\<lparr>dv_hmdmId := hmdmId, dv_model := model, dv_osVersion := os,
     dv_groupId := Some g, dv_label := (if label = None then dv_label r else label), dv_syncedAt := Some now, dv_stale := False\<rparr>"

definition sql_sync_device :: "conv \<Rightarrow> (json \<Rightarrow> int option) \<Rightarrow> string \<Rightarrow> json \<Rightarrow> int \<Rightarrow> int \<Rightarrow> db \<Rightarrow> (unit \<times> db) option" where
  "sql_sync_device cv int_of number j g now d =
     (case (nullable int_of (field j ''id''), nullable (cv_text cv) (field j ''model''),
            nullable (cv_text cv) (nullish (oget j ''osVersion'') (field j ''os_version'')),
            nullable (cv_text cv) (nullish (oget j ''name'') (field j ''description''))) of
        (Some i, Some m, Some os, Some label) \<Rightarrow>
          if CHR 0x00 \<in> set number then None
          else if map_of (tb_devices d) number = None
            then Some ((), d\<lparr>tb_devices := tb_devices d @ [(number, synced_row i m os g label now (new_device g now))]\<rparr>)
            else Some ((), update_device number (synced_row i m os g label now) d)
      | _ \<Rightarrow> None)"

text \<open>\<open>for .. of\<close> takes the elements of an array, the characters of a string, and nothing else.\<close>

definition iterate :: "json \<Rightarrow> json list option" where
  "iterate j = (case j of JArr ds \<Rightarrow> Some ds | JStr s \<Rightarrow> Some (map (\<lambda>c. JStr [c]) s) | _ \<Rightarrow> None)"

definition sync_device :: "conv \<Rightarrow> (json \<Rightarrow> int option) \<Rightarrow> (int list \<Rightarrow> int) \<Rightarrow> json \<Rightarrow> ('r, unit) handler" where
  "sync_device cv int_of serial j =
     (if j = JNull then raise type_error
      else if device_number j = [] then ret ()
      else bindE (mapGroup serial int_of (oget j ''groupId''))
        (\<lambda>g. pg_at (sql_sync_device cv int_of (device_number j) j g)))"

definition sql_mark_stale :: "string list \<Rightarrow> db \<Rightarrow> db" where
  "sql_mark_stale numbers d = d\<lparr>tb_devices := update_where (\<lambda>k _. k \<notin> set numbers) (\<lambda>r. r\<lparr>dv_stale := True\<rparr>) (tb_devices d)\<rparr>"

definition listed :: "json list \<Rightarrow> string list" where
  "listed ds = filter (\<lambda>n. n \<noteq> []) (map device_number ds)"

definition sync_devices :: "conv \<Rightarrow> (json \<Rightarrow> int option) \<Rightarrow> (int list \<Rightarrow> int) \<Rightarrow> json list \<Rightarrow> ('r, unit) handler" where
  "sync_devices cv int_of serial ds =
     thenE (eachE (sync_device cv int_of serial) ds)
       (whenE (listed ds \<noteq> []) (pg_write (sql_mark_stale (listed ds))))"

definition fetch_devices :: "config \<Rightarrow> 'h fetch \<Rightarrow> ('r, 'h, json list) net" where
  "fetch_devices cfg fetch = bindE (token cfg fetch) (\<lambda>tok. bindE (searchDevices cfg fetch tok) (\<lambda>j.
     case iterate j of None \<Rightarrow> raise type_error | Some ds \<Rightarrow> ret ds))"

definition syncFromHeadwind :: "config \<Rightarrow> 'h fetch \<Rightarrow> conv \<Rightarrow> (json \<Rightarrow> int option) \<Rightarrow> (int list \<Rightarrow> int) \<Rightarrow> ('r, 'h, unit) net" where
  "syncFromHeadwind cfg fetch cv int_of serial =
     (if cf_hmdmBaseUrl cfg = [] then ret ()
      else catchE (bindE (fetch_devices cfg fetch) (\<lambda>ds. lift_net (sync_devices cv int_of serial ds)))
        (\<lambda>_. ret ()))"

section \<open>What the sync keeps\<close>

text \<open>The columns the agent's messages fill.\<close>

definition agent_columns :: "device_row \<Rightarrow> string option \<times> int \<times> int option \<times> bool" where
  "agent_columns r = (dv_androidId r, dv_firstSeen r, dv_lastSeen r, dv_needsReprovisioning r)"

text \<open>
  What any run may do to the tables: no device goes, the agent's columns stay, a label is not lost,
  and only a device outside a non-empty listing \<open>ns\<close> becomes stale.
\<close>

definition row_kept :: "string list \<Rightarrow> string \<Rightarrow> device_row \<Rightarrow> device_row \<Rightarrow> bool" where
  "row_kept ns dev r r' \<longleftrightarrow> agent_columns r' = agent_columns r \<and> (dv_label r \<noteq> None \<longrightarrow> dv_label r' \<noteq> None) \<and>
     (\<not> dv_stale r \<longrightarrow> dv_stale r' \<longrightarrow> ns \<noteq> [] \<and> dev \<notin> set ns)"

definition sync_kept :: "string list \<Rightarrow> db \<Rightarrow> db \<Rightarrow> bool" where
  "sync_kept ns d e \<longleftrightarrow> e = d\<lparr>tb_groups := tb_groups e, tb_devices := tb_devices e\<rparr> \<and>
     (\<forall>dev r. map_of (tb_devices d) dev = Some r \<longrightarrow>
        (\<exists>r'. map_of (tb_devices e) dev = Some r' \<and> row_kept ns dev r r'))"

lemma row_kept_refl [simp]: "row_kept ns dev r r"
  by (simp add: row_kept_def)

lemma row_kept_trans: "row_kept ns dev r r' \<Longrightarrow> row_kept ns dev r' r'' \<Longrightarrow> row_kept ns dev r r''"
  unfolding row_kept_def by metis

lemma sync_kept_refl [simp]: "sync_kept ns d d"
  by (simp add: sync_kept_def)

lemma sync_kept_trans:
  assumes "sync_kept ns d e" "sync_kept ns e f"
  shows "sync_kept ns d f"
proof -
  have "f = d\<lparr>tb_groups := tb_groups f, tb_devices := tb_devices f\<rparr>"
  proof -
    have e: "e = d\<lparr>tb_groups := tb_groups e, tb_devices := tb_devices e\<rparr>" using assms(1) by (simp add: sync_kept_def)
    have "f = e\<lparr>tb_groups := tb_groups f, tb_devices := tb_devices f\<rparr>" using assms(2) by (simp add: sync_kept_def)
    with e show ?thesis by (cases d; cases e; cases f) simp
  qed
  moreover have "\<exists>r''. map_of (tb_devices f) dev = Some r'' \<and> row_kept ns dev r r''"
    if r: "map_of (tb_devices d) dev = Some r" for dev r
  proof -
    obtain r' where r': "map_of (tb_devices e) dev = Some r'" "row_kept ns dev r r'" using assms(1) r unfolding sync_kept_def by blast
    obtain r'' where "map_of (tb_devices f) dev = Some r''" "row_kept ns dev r' r''" using assms(2) r'(1) unfolding sync_kept_def by blast
    with row_kept_trans[OF r'(2)] show ?thesis by blast
  qed
  ultimately show ?thesis by (simp add: sync_kept_def)
qed

definition sync_world :: "string list \<Rightarrow> 'r world \<Rightarrow> 'r world \<Rightarrow> bool" where
  "sync_world ns w w' \<longleftrightarrow> sync_kept ns (w_db w) (w_db w') \<and> w_redis w' = w_redis w \<and> w_mqtt w' = w_mqtt w"

interpretation sync_order: effect_order "sync_world ns" for ns
  by unfold_locales (auto simp: sync_world_def intro: sync_kept_trans)

lemma sync_pg:
  assumes "\<And>d a e. q d = Some (a, e) \<Longrightarrow> sync_kept ns d e"
  shows "kept_by (sync_world ns) (pg q)"
  using assms by (auto simp: kept_by_def sync_world_def pg_def Let_def split: list.split bool.split option.split)

lemma sync_pg_at: "(\<And>now d a e. q now d = Some (a, e) \<Longrightarrow> sync_kept ns d e) \<Longrightarrow> kept_by (sync_world ns) (pg_at q)"
  by (auto simp: kept_by_def sync_world_def pg_at_def pg_def Let_def split: list.split bool.split option.split)

lemma synced_row_kept: "row_kept ns dev r (synced_row i m os g label now r)"
  by (simp add: row_kept_def synced_row_def agent_columns_def)

lemma sync_device_kept: "kept_by (sync_world ns) (sync_device cv int_of serial j)"
proof -
  have "sync_kept ns d e" if "sql_sync_device cv int_of n j g now d = Some (a, e)" for n g now d a e
    using that by (auto simp: sql_sync_device_def sync_kept_def update_device_def map_add_def synced_row_kept
        split: option.splits if_splits)
  moreover have "sync_kept ns d e" if "sql_map_group serial int_of g d = Some (a, e)" for g d a e
    using that by (auto simp: sql_map_group_def sync_kept_def Let_def split: option.splits)
  ultimately show ?thesis
    unfolding sync_device_def mapGroup_def pg_read_def
    by (intro frame_intros sync_pg sync_pg_at) auto
qed

lemma sync_devices_kept: "kept_by (sync_world (listed ds)) (sync_devices cv int_of serial ds)"
  unfolding sync_devices_def pg_write_def
  by (intro frame_intros sync_device_kept sync_pg)
    (auto simp: sql_mark_stale_def sync_kept_def row_kept_def agent_columns_def)

text \<open>A run that completes: the listed devices are there and not stale, the others are stale.\<close>

definition current :: "string \<Rightarrow> db \<Rightarrow> bool" where
  "current n d \<longleftrightarrow> (\<exists>r. map_of (tb_devices d) n = Some r \<and> \<not> dv_stale r)"

lemma sql_sync_current:
  assumes "sql_sync_device cv int_of n j g now d = Some (a, e)"
  shows "current n e \<and> (\<forall>m. current m d \<longrightarrow> current m e)"
  using assms by (auto simp: sql_sync_device_def current_def update_device_def synced_row_def map_add_def
      split: option.splits if_splits)

lemma wp_sync_device:
  "wp (sync_device cv int_of serial j) (\<lambda>_ w'. (device_number j \<noteq> [] \<longrightarrow> current (device_number j) (w_db w')) \<and>
     (\<forall>m. current m (w_db w) \<longrightarrow> current m (w_db w'))) (\<lambda>_ _. True) w"
proof -
  have same: "current m e = current m d" if "tb_devices e = tb_devices d" for m e d using that by (simp add: current_def)
  have store: "wp (pg_at (sql_sync_device cv int_of (device_number j) j g))
      (\<lambda>_ w'. current (device_number j) (w_db w') \<and> (\<forall>m. current m (w_db u) \<longrightarrow> current m (w_db w'))) (\<lambda>_ _. True) u" for g u
    using sql_sync_current by (fastforce simp: wp_def pg_at_def pg_def Let_def split: list.split bool.split option.split)
  have group: "wp (mapGroup serial int_of x) (\<lambda>_ u. tb_devices (w_db u) = tb_devices (w_db w)) (\<lambda>_ _. True) w" for x
    unfolding mapGroup_def wp_simps
    by (auto intro!: wp_pg_read wp_pg simp: sql_map_group_def Let_def wp_simps split: option.splits)
  have both: "wp (bindE (mapGroup serial int_of x) (\<lambda>g. pg_at (sql_sync_device cv int_of (device_number j) j g)))
      (\<lambda>_ w'. current (device_number j) (w_db w') \<and> (\<forall>m. current m (w_db w) \<longrightarrow> current m (w_db w'))) (\<lambda>_ _. True) w" for x
    unfolding wp_bind
  proof (rule wp_conseq[OF group])
    fix g and u :: "'a world" assume "tb_devices (w_db u) = tb_devices (w_db w)"
    then have "current m (w_db u) = current m (w_db w)" for m by (rule same)
    then show "wp (pg_at (sql_sync_device cv int_of (device_number j) j g))
        (\<lambda>_ w'. current (device_number j) (w_db w') \<and> (\<forall>m. current m (w_db w) \<longrightarrow> current m (w_db w'))) (\<lambda>_ _. True) u"
      using store[of g u] by simp
  qed simp
  show ?thesis
  proof (cases "j = JNull \<or> device_number j = []")
    case True
    then show ?thesis by (auto simp: sync_device_def wp_ret wp_raise)
  next
    case False
    then show ?thesis using both[of "oget j ''groupId''"] by (simp add: sync_device_def)
  qed
qed

lemma wp_sync_each:
  "wp (eachE (sync_device cv int_of serial) ds) (\<lambda>_ w'. (\<forall>n \<in> set (listed ds). current n (w_db w')) \<and>
     (\<forall>m. current m (w_db w) \<longrightarrow> current m (w_db w'))) (\<lambda>_ _. True) w"
proof (induction ds arbitrary: w)
  case (Cons j ds)
  show ?case
    unfolding eachE.simps wp_bind
    by (rule wp_conseq[OF wp_sync_device])
      (auto simp: listed_def intro!: wp_conseq[OF Cons.IH])
qed (simp add: wp_ret listed_def)

lemma wp_sync_devices:
  "wp (sync_devices cv int_of serial ds) (\<lambda>_ w'. (\<forall>n \<in> set (listed ds). current n (w_db w')) \<and>
     (listed ds \<noteq> [] \<longrightarrow> (\<forall>dev. dev \<notin> set (listed ds) \<longrightarrow> \<not> current dev (w_db w')))) (\<lambda>_ _. True) w"
  unfolding sync_devices_def wp_simps
  by (rule wp_conseq[OF wp_sync_each])
    (auto simp: current_def sql_mark_stale_def intro!: wp_pg_write split: if_splits)

text \<open>Asking the MDM changes nothing here.\<close>

definition same_world :: "'r world \<times> 'h mdm \<Rightarrow> 'r world \<times> 'h mdm \<Rightarrow> bool" where
  "same_world x y \<longleftrightarrow> fst y = fst x"

interpretation remote_order: effect_order same_world
  by unfold_locales (simp_all add: same_world_def)

lemma remote_calls [frame_intros]:
  "kept_by same_world (call fetch q)" "kept_by same_world (json_of b)" "kept_by same_world (object_of b)"
  by (simp add: kept_by_def same_world_def call_def split: prod.split fetched.split)
    (auto simp: json_of_def object_of_def intro!: frame_intros split: option.split)

lemma fetch_devices_remote: "kept_by same_world (fetch_devices cfg fetch)"
proof -
  have t: "kept_by same_world (fresh_token cfg fetch)"
    unfolding fresh_token_def Let_def
    by (intro frame_intros) (auto simp: kept_by_def same_world_def modifyE_def)
  have "kept_by same_world (searchDevices cfg fetch tok)" for tok
    unfolding searchDevices_def by (auto intro!: frame_intros split: json.split)
  then show ?thesis unfolding fetch_devices_def token_def by (intro frame_intros t) 
qed

section \<open>Properties\<close>


text \<open>A server that lists one device, and a database with another.\<close>

definition one_device :: "unit fetch" where
  "one_device q h = (Response 200 (Some (if rq_method q = ''POST'' \<and> rq_headers q = [(''content-type'', ''application/json'')]
     then JObj [(''id_token'', JStr ''t'')] else JObj [(''data'', JArr [JObj [(''number'', JStr ''d2'')]])])), h)"

definition mdm_config :: config where
  "mdm_config = \<lparr>cf_databaseUrl = Inr [], cf_redisUrl = Inr [], cf_mqttUrl = Inr [], cf_jwtSecret = Inr [],
     cf_jwtExpiresIn = Fin 28800, cf_agentJwtExpiresIn = Fin 60, cf_relayNode = [], cf_relayPublicHost = [],
     cf_relayWsScheme = ''ws'', cf_hmdmBaseUrl = ''https://mdm'', cf_hmdmUsername = [], cf_hmdmPassword = [],
     cf_hmdmAgentPackage = [], cf_hmdmWakeAction = [], cf_rustdeskApiUrl = ''https://api'', cf_rustdeskApiKey = ''k''\<rparr>"

definition mdm_world :: "mem world" where
  "mdm_world = \<lparr>w_db = \<lparr>tb_groups = [(1, ''default'')], tb_devices = [(''d1'', new_device 1 0)], tb_caps = [], tb_capEvents = [],
       tb_operators = [], tb_sessions = [], tb_access = [], tb_hwSamples = [], tb_hwEvents = [], tb_connEvents = []\<rparr>,
     w_redis = ([], Map.empty), w_mqtt = [], w_now = 5, w_pgFaults = [], w_mqttFaults = []\<rparr>"


end
