(* ===== verification/Auth.thy ===== *)
theory Auth
  imports Mdm Devices
begin

text \<open>
  \<open>apps/rc-api/src/auth\<close>: how operators sign in with a password, with a token of the Headwind MDM,
  or from its console with a single-use token, and the guard in front of the API. The password
  check of \<open>bcryptjs\<close> and the signing of \<open>jsonwebtoken\<close> are parameters.
\<close>

section \<open>Tokens\<close>

record operator_jwt =
  jw_sub :: int
  jw_username :: string
  jw_role :: string

text \<open>
  \<open>sign claims expiresIn audience\<close> and \<open>verify token audience\<close>, \<open>None\<close> when it throws. What the
  library documents: a token is accepted for the audience it was signed for, with the claims it was
  signed with.
\<close>

record jwt =
  jt_sign :: "operator_jwt \<Rightarrow> jsnum \<Rightarrow> string \<Rightarrow> string"
  jt_verify :: "string \<Rightarrow> string \<Rightarrow> operator_jwt option"

locale jwt_service =
  fixes j :: jwt
  assumes verify_sign: "jt_verify j (jt_sign j c e aud) aud' = Some c \<longleftrightarrow> aud' = aud"

text \<open>A scheme that writes the claims out, for concrete runs: each field after its length in unary.\<close>

definition write_field :: "string \<Rightarrow> string" where
  "write_field s = replicate (length s) CHR ''x'' @ CHR ''.'' # s"

definition read_field :: "string \<Rightarrow> string \<times> string" where
  "read_field t = (let n = length (takeWhile (\<lambda>c. c = CHR ''x'') t); r = drop (n + 1) t in (take n r, drop n r))"

lemma read_write_field [simp]: "read_field (write_field s @ t) = (s, t)"
proof -
  have "takeWhile (\<lambda>c. c = CHR ''x'') (replicate n CHR ''x'' @ CHR ''.'' # u) = replicate n CHR ''x''" for n u
    by (induction n) simp_all
  then show ?thesis by (simp add: read_field_def write_field_def)
qed

lemma read_write_last [simp]: "read_field (write_field s) = (s, [])"
  using read_write_field[of s "[]"] by simp

definition write_int :: "int \<Rightarrow> string" where
  "write_int i = (if i < 0 then CHR ''-'' else CHR ''+'') # show_nat (nat \<bar>i\<bar>)"

definition read_int :: "string \<Rightarrow> int" where
  "read_int t = (if hd t = CHR ''-'' then - 1 else 1) * int (digits_val (tl t))"

lemma read_write_int [simp]: "read_int (write_int i) = i"
  by (simp add: read_int_def write_int_def)

definition plain_jwt :: jwt where
  "plain_jwt = \<lparr>jt_sign = (\<lambda>c e aud. write_field aud @ write_field (write_int (jw_sub c)) @ write_field (jw_username c) @ write_field (jw_role c)),
     jt_verify = (\<lambda>t aud. case read_field t of (a, r1) \<Rightarrow> case read_field r1 of (i, r2) \<Rightarrow> case read_field r2 of (u, r3) \<Rightarrow>
       if a = aud then Some \<lparr>jw_sub = read_int i, jw_username = u, jw_role = fst (read_field r3)\<rparr> else None)\<rparr>"

interpretation plain: jwt_service plain_jwt
  by unfold_locales (simp add: plain_jwt_def)

record user_info =
  us_id :: int
  us_username :: string
  us_displayName :: "string option"
  us_role :: string

definition operator_claims :: "int \<Rightarrow> operator_row \<Rightarrow> operator_jwt" where
  "operator_claims i r = \<lparr>jw_sub = i, jw_username = op_username r, jw_role = op_role r\<rparr>"

definition issue :: "jwt \<Rightarrow> config \<Rightarrow> int \<times> operator_row \<Rightarrow> string \<times> user_info" where
  "issue j cfg p = (case p of (i, r) \<Rightarrow>
     (jt_sign j (operator_claims i r) (cf_jwtExpiresIn cfg) ''operator'',
      \<lparr>us_id = i, us_username = op_username r, us_displayName = op_displayName r, us_role = op_role r\<rparr>))"

definition unauthorized :: "('w, error, 'a) prog" where
  "unauthorized = raise (Unauthorized ''Unauthorized'')"

section \<open>Signing in\<close>

definition find_operator :: "string \<Rightarrow> db \<Rightarrow> (int \<times> operator_row) option" where
  "find_operator username d = find (\<lambda>p. op_username (snd p) = username) (tb_operators d)"

text \<open>\<open>compare password hash\<close>; \<open>None\<close> when it rejects.\<close>

definition login :: "jwt \<Rightarrow> config \<Rightarrow> (string \<Rightarrow> string \<Rightarrow> bool option) \<Rightarrow> string \<Rightarrow> string \<Rightarrow> ('r, string \<times> user_info) handler" where
  "login j cfg compare username password =
     bindE (pg_read (find_operator username)) (\<lambda>found. case found of
       None \<Rightarrow> unauthorized
     | Some (i, r) \<Rightarrow>
         if \<not> op_active r \<or> op_passwordHash r \<in> {None, Some []} then unauthorized
         else (case compare password (the (op_passwordHash r)) of
             None \<Rightarrow> raise (ThrownError ''bcrypt'')
           | Some good \<Rightarrow> if good then ret (issue j cfg (i, r)) else unauthorized))"

text \<open>\<open>INSERT .. ON CONFLICT (username) DO UPDATE .. RETURNING\<close>.\<close>

definition upsert_operator :: "(int list \<Rightarrow> int) \<Rightarrow> operator_row \<Rightarrow> (operator_row \<Rightarrow> operator_row) \<Rightarrow> db \<Rightarrow> (int \<times> operator_row) \<times> db" where
  "upsert_operator serial new f d = (case find_operator (op_username new) d of
      None \<Rightarrow> let i = serial (map fst (tb_operators d)) in ((i, new), d\<lparr>tb_operators := tb_operators d @ [(i, new)]\<rparr>)
    | Some (i, r) \<Rightarrow> ((i, f r), d\<lparr>tb_operators := update_where (\<lambda>k _. k = i) f (tb_operators d)\<rparr>))"

definition hmdm_operator :: "string \<Rightarrow> int \<Rightarrow> operator_row" where
  "hmdm_operator name i = \<lparr>op_username = name, op_displayName = Some name, op_passwordHash = None,
     op_hmdmUserId = Some i, op_role = ''operator'', op_active = True\<rparr>"

definition upsertFromHmdm :: "(int list \<Rightarrow> int) \<Rightarrow> conv \<Rightarrow> (json \<Rightarrow> int option) \<Rightarrow> json \<Rightarrow> json \<Rightarrow> ('r, int \<times> operator_row) handler" where
  "upsertFromHmdm serial cv int_of name userId = pg (\<lambda>d. case (cv_text cv name, int_of userId) of
      (Some n, Some i) \<Rightarrow> Some (upsert_operator serial (hmdm_operator n i) (\<lambda>r. r\<lparr>op_hmdmUserId := Some i, op_active := True\<rparr>) d)
    | _ \<Rightarrow> None)"

definition loginHmdm :: "jwt \<Rightarrow> config \<Rightarrow> 'h fetch \<Rightarrow> (int list \<Rightarrow> int) \<Rightarrow> conv \<Rightarrow> (json \<Rightarrow> int option) \<Rightarrow> string \<Rightarrow>
    ('r, 'h, string \<times> user_info) net" where
  "loginHmdm j cfg fetch serial cv int_of hmdmToken =
     bindE (verifyLoginToken cfg fetch hmdmToken) (\<lambda>(name, userId).
       bindE (lift_net (upsertFromHmdm serial cv int_of name userId)) (\<lambda>op. ret (issue j cfg op)))"

text \<open>The single-use token of the MDM console; every failure of the request means unauthorized.\<close>

definition sso_request :: "config \<Rightarrow> string \<Rightarrow> request" where
  "sso_request cfg tok = \<lparr>rq_method = ''POST'', rq_url = cf_rustdeskApiUrl cfg @ ''/rest/private/remote-token/verify'',
     rq_headers = [(''content-type'', ''application/json''), (''x-api-key'', cf_rustdeskApiKey cfg)],
     rq_body = Some (JObj [(''token'', JStr tok)])\<rparr>"

definition sso_verify :: "config \<Rightarrow> 'h fetch \<Rightarrow> string \<Rightarrow> ('r, 'h, json) net" where
  "sso_verify cfg fetch tok =
     catchE (bindE (call fetch (sso_request cfg tok)) (\<lambda>(status, b). if \<not> ok status then unauthorized else json_of b))
       (\<lambda>_. unauthorized)"

definition mdm_operator :: "string \<Rightarrow> string \<Rightarrow> operator_row" where
  "mdm_operator user display = \<lparr>op_username = ''mdm:'' @ user, op_displayName = Some display, op_passwordHash = None,
     op_hmdmUserId = None, op_role = ''mdm_user'', op_active = True\<rparr>"

definition sql_sso_operator :: "(int list \<Rightarrow> int) \<Rightarrow> conv \<Rightarrow> json \<Rightarrow> db \<Rightarrow> ((int \<times> operator_row) \<times> db) option" where
  "sql_sso_operator serial cv user d = (case (cv_text cv (JStr (''mdm:'' @ to_str user)), cv_text cv user) of
      (Some _, Some display) \<Rightarrow> Some (upsert_operator serial (mdm_operator (to_str user) display)
         (\<lambda>r. r\<lparr>op_displayName := Some display\<rparr>) d)
    | _ \<Rightarrow> None)"

definition loginSso :: "jwt \<Rightarrow> config \<Rightarrow> 'h fetch \<Rightarrow> (int list \<Rightarrow> int) \<Rightarrow> conv \<Rightarrow> string \<Rightarrow> string \<Rightarrow> ('r, 'h, string \<times> user_info) net" where
  "loginSso j cfg fetch serial cv ssoToken deviceId =
     (if cf_rustdeskApiUrl cfg = [] \<or> cf_rustdeskApiKey cfg = [] then unauthorized
      else bindE (sso_verify cfg fetch ssoToken) (\<lambda>verified.
        if verified = JNull then raise type_error
        else let d = field verified ''data''; user = oget d ''user'' in
          if \<not> truthy (oget verified ''valid'') \<or> \<not> truthy user \<or> oget d ''serial'' \<noteq> Some (JStr deviceId) then unauthorized
          else bindE (lift_net (pg (sql_sso_operator serial cv (the user)))) (\<lambda>(i, r).
            if \<not> op_active r \<or> op_role r \<noteq> ''mdm_user'' then unauthorized else ret (issue j cfg (i, r)))))"

record me_row =
  me_id :: int
  me_username :: string
  me_displayName :: "string option"
  me_role :: string
  me_active :: bool

definition me :: "int \<Rightarrow> ('r, me_row option) handler" where
  "me i = pg_read (\<lambda>d. map_option (\<lambda>r. \<lparr>me_id = i, me_username = op_username r, me_displayName = op_displayName r,
     me_role = op_role r, me_active = op_active r\<rparr>) (map_of (tb_operators d) i))"

text \<open>\<open>canActivate\<close>: the operator the request carries, or a 401.\<close>

definition canActivate :: "jwt \<Rightarrow> string option \<Rightarrow> error + operator_jwt" where
  "canActivate j authorization = (let header = (case authorization of None \<Rightarrow> [] | Some h \<Rightarrow> h) in
     if \<not> prefix ''Bearer '' header then Inl (Unauthorized ''Unauthorized'')
     else case jt_verify j (drop 7 header) ''operator'' of
         None \<Rightarrow> Inl (Unauthorized ''Unauthorized'')
       | Some c \<Rightarrow> Inr c)"

section \<open>What signing in yields\<close>

context jwt_service
begin

text \<open>The guard takes a token back for the operator it was issued to.\<close>

lemma issued_accepted: "canActivate j (Some (''Bearer '' @ fst (issue j cfg (i, r)))) = Inr (operator_claims i r)"
  using verify_sign[of "operator_claims i r" "cf_jwtExpiresIn cfg" "''operator''" "''operator''"]
  by (simp add: canActivate_def issue_def)

end

lemma find_operator_Some: "find_operator u d = Some (i, r) \<Longrightarrow> (i, r) \<in> set (tb_operators d) \<and> op_username r = u"
proof -
  assume "find_operator u d = Some (i, r)"
  then obtain n where "n < length (tb_operators d)" "op_username (snd (tb_operators d ! n)) = u" "(i, r) = tb_operators d ! n"
    unfolding find_operator_def find_Some_iff by blast
  then show ?thesis using nth_mem[of n "tb_operators d"] by (metis snd_conv)
qed

lemma upsert_operator_row:
  assumes "upsert_operator serial new f d = ((i, r), d')" "\<And>x. op_username (f x) = op_username x"
  shows "(i, r) \<in> set (tb_operators d') \<and> op_username r = op_username new \<and>
    (\<forall>k. k \<noteq> i \<longrightarrow> map_of (tb_operators d') k = map_of (tb_operators d) k) \<and> d' = d\<lparr>tb_operators := tb_operators d'\<rparr>"
proof (cases "find_operator (op_username new) d")
  case None
  then show ?thesis using assms by (auto simp: upsert_operator_def Let_def map_add_def split: option.split)
next
  case (Some p)
  obtain k x where p: "p = (k, x)" by force
  have m: "(k, x) \<in> set (tb_operators d)" "op_username x = op_username new"
    using find_operator_Some[of "op_username new" d k x] Some p by simp_all
  have "i = k" "r = f x" "d' = d\<lparr>tb_operators := update_where (\<lambda>a _. a = k) f (tb_operators d)\<rparr>"
    using assms(1) Some p by (auto simp: upsert_operator_def)
  moreover have "(k, f x) \<in> set (update_where (\<lambda>a _. a = k) f (tb_operators d))"
    using m(1) by (auto simp: update_where_def image_iff intro: bexI[of _ "(k, x)"])
  moreover have "map_of (update_where (\<lambda>a _. a = k) f (tb_operators d)) b = map_of (tb_operators d) b" if "b \<noteq> k" for b
    using that by (simp add: option.map_ident)
  ultimately show ?thesis using m(2) assms(2) by simp
qed

section \<open>Properties\<close>


text \<open>The stored hash of a password is the password itself.\<close>

definition demo_operators :: db where
  "demo_operators = demo_db\<lparr>tb_operators := [(1, (demo_operator ''admin'' ''admin'')\<lparr>op_username := ''admin'', op_passwordHash := Some ''pw''\<rparr>)]\<rparr>"

definition operator_world :: "mem world" where
  "operator_world = (demo_world Map.empty)\<lparr>w_db := demo_operators\<rparr>"


text \<open>
  C21 Signing in from the MDM console: it succeeds only when the server vouched for the token, for this
  device and a named user; the operator it signs in is active, has the role of MDM users and the
  name \<open>mdm:\<close> plus that user's, so it is never a local account, the guard accepts the token as that
  operator's, and no other operator and no other table changed.
\<close>

theorem sso_contract:
  assumes "jwt_service j" "loginSso j cfg fetch serial cv ssoToken deviceId (w, s) = (Inr (tok, user), w', s')"
  shows "\<exists>st v h u i op.
    fetch (sso_request cfg ssoToken) (md_server s) = (Response st (Some v), h) \<and> ok st \<and> truthy (oget v ''valid'') \<and>
    oget (field v ''data'') ''serial'' = Some (JStr deviceId) \<and> oget (field v ''data'') ''user'' = Some u \<and>
    (i, op) \<in> set (tb_operators (w_db w')) \<and> op_username op = ''mdm:'' @ to_str u \<and> op_role op = ''mdm_user'' \<and> op_active op \<and>
    canActivate j (Some (''Bearer '' @ tok)) = Inr (operator_claims i op) \<and>
    (\<forall>k. k \<noteq> i \<longrightarrow> map_of (tb_operators (w_db w')) k = map_of (tb_operators (w_db w)) k) \<and>
    w_db w' = (w_db w)\<lparr>tb_operators := tb_operators (w_db w')\<rparr>"
proof -
  define P where "P tok w' \<longleftrightarrow> (\<exists>st v h u i op.
    fetch (sso_request cfg ssoToken) (md_server s) = (Response st (Some v), h) \<and> ok st \<and> truthy (oget v ''valid'') \<and>
    oget (field v ''data'') ''serial'' = Some (JStr deviceId) \<and> oget (field v ''data'') ''user'' = Some u \<and>
    (i, op) \<in> set (tb_operators (w_db w')) \<and> op_username op = ''mdm:'' @ to_str u \<and> op_role op = ''mdm_user'' \<and> op_active op \<and>
    canActivate j (Some (''Bearer '' @ tok)) = Inr (operator_claims i op) \<and>
    (\<forall>k. k \<noteq> i \<longrightarrow> map_of (tb_operators (w_db w')) k = map_of (tb_operators (w_db w)) k) \<and>
    w_db w' = (w_db w)\<lparr>tb_operators := tb_operators (w_db w')\<rparr>)" for tok and w' :: "'a world"
  have row: "P tok (w\<lparr>w_pgFaults := fs, w_db := d\<rparr>)"
    if f: "fetch (sso_request cfg ssoToken) (md_server s) = (Response st (Some v), h)" "ok st" "truthy (oget v ''valid'')"
        "oget (field v ''data'') ''serial'' = Some (JStr deviceId)" "truthy (oget (field v ''data'') ''user'')"
      and q: "sql_sso_operator serial cv (the (oget (field v ''data'') ''user'')) (w_db w) = Some ((i, op), d)"
        "op_active op" "op_role op = ''mdm_user''" "issue j cfg (i, op) = (tok, user)"
    for st v h i op d fs tok user
  proof -
    obtain u where u: "oget (field v ''data'') ''user'' = Some u" using f(5) by (cases "oget (field v ''data'') ''user''") (auto simp: truthy_def)
    obtain display where "upsert_operator serial (mdm_operator (to_str u) display) (\<lambda>r. r\<lparr>op_displayName := Some display\<rparr>) (w_db w) = ((i, op), d)"
      using q(1) u by (auto simp: sql_sso_operator_def split: option.splits)
    from upsert_operator_row[OF this]
    have "(i, op) \<in> set (tb_operators d)" "op_username op = ''mdm:'' @ to_str u"
      "\<forall>k. k \<noteq> i \<longrightarrow> map_of (tb_operators d) k = map_of (tb_operators (w_db w)) k" "d = (w_db w)\<lparr>tb_operators := tb_operators d\<rparr>"
      by (simp_all add: mdm_operator_def)
    moreover have "canActivate j (Some (''Bearer '' @ tok)) = Inr (operator_claims i op)"
      using jwt_service.issued_accepted[OF assms(1), of cfg i op] q(4) by simp
    ultimately show ?thesis unfolding P_def using f q(2,3) u
      by (intro exI[of _ st] exI[of _ v] exI[of _ h] exI[of _ u] exI[of _ i] exI[of _ op]) simp
  qed
  have "wp (loginSso j cfg fetch serial cv ssoToken deviceId) (\<lambda>(tok, user) (w', s'). P tok w') (\<lambda>_ _. True) (w, s)"
    unfolding loginSso_def sso_verify_def unauthorized_def Let_def
    by (auto simp: wp_simps wp_call wp_lift_net json_of_def split: prod.splits fetched.splits option.splits
        intro!: wp_pg intro: row)
  from wp_okD[OF this assms(2)] show ?thesis by (simp add: P_def)
qed

text \<open>A server that vouches for one user on one device.\<close>

definition sso_server :: "unit fetch" where
  "sso_server q h = (Response 200 (Some (JObj [(''valid'', JBool True),
     (''data'', JObj [(''user'', JStr ''admin''), (''serial'', JStr ''d1'')])])), h)"

definition no_token :: "unit mdm" where
  "no_token = \<lparr>md_server = (), md_cached = None\<rparr>"

theorem sso_contract_witness:
  "\<exists>tok user w' s'. loginSso plain_jwt mdm_config sso_server max_serial pg_conv ''t'' ''d1'' (operator_world, no_token) = (Inr (tok, user), w', s') \<and>
     (\<exists>i op. (i, op) \<in> set (tb_operators (w_db w')) \<and> op_username op = ''mdm:admin'' \<and> op_role op = ''mdm_user'')"
proof -
  let ?run = "loginSso plain_jwt mdm_config sso_server max_serial pg_conv ''t'' ''d1'' (operator_world, no_token)"
  have "\<not> isl (fst ?run)" by code_simp
  then obtain x where "fst ?run = Inr x" by (cases "fst ?run") simp_all
  then obtain tok user w' s' where run: "?run = (Inr (tok, user), w', s')" by (metis prod.collapse)
  from sso_contract[OF plain.jwt_service_axioms run]
  obtain v u i op where "oget (field v ''data'') ''user'' = Some u" "(i, op) \<in> set (tb_operators (w_db w'))"
    "op_username op = ''mdm:'' @ to_str u" "op_role op = ''mdm_user''" "\<exists>st h. sso_server (sso_request mdm_config ''t'') (md_server no_token) = (Response st (Some v), h)"
    by blast
  moreover from this have "to_str u = ''admin''" by (auto simp: sso_server_def field_def nullish_def)
  ultimately show ?thesis using run by force
qed

text \<open>
  Without the prefix of \<open>loginSso\<close>, a Headwind user called \<open>admin\<close> signs in as the local account of
  that name, with its role, and reactivates it.
\<close>

definition mdm_server :: "unit fetch" where
  "mdm_server q h = (Response 200 (Some (JObj [(''login'', JStr ''admin''), (''id'', JNum (Fin 7))])), h)"

lemma hmdm_login_takes_local_account:
  "map_option us_role (case fst (loginHmdm plain_jwt mdm_config mdm_server max_serial pg_conv (\<lambda>_. Some 7) ''t'' (operator_world, no_token)) of
     Inl _ \<Rightarrow> None | Inr (tok, user) \<Rightarrow> Some user) = Some ''admin''"
  by code_simp

end
