(* ===== verification/Dashboard.thy ===== *)
theory Dashboard
  imports Readiness Hw
begin

text \<open>
  The fleet dashboard, \<open>packages/shared/src/dashboard.ts\<close>. The loop body of \<open>summarizeFleet\<close> is a
  sequence of emissions: every \<open>add(key, r.deviceId)\<close> emits a list key, every \<open>reasons.push(code)\<close>
  a reason, and \<open>flag(code, key)\<close> both. The accumulators of the loop are folds over the rows.
  The lists are then characterised by one predicate per key.
\<close>

section \<open>Limits and rows\<close>

definition lagMs :: rat where "lagMs = 1500"
definition hotBattC :: rat where "hotBattC = 47"
definition hotThermal :: rat where "hotThermal = 3"
definition lowMemMb :: rat where "lowMemMb = 250"
definition lowDiskMb :: rat where "lowDiskMb = 300"
definition lowBatteryPct :: rat where "lowBatteryPct = 20"
definition weakRssi :: rat where "weakRssi = -100"
definition idleLongMs :: rat where "idleLongMs = 6 * 3600000"
definition idleVeryLongMs :: rat where "idleVeryLongMs = 24 * 3600000"
definition offlineLongMs :: int where "offlineLongMs = 24 * 3600000"
definition noSessionMs :: int where "noSessionMs = 7 * 24 * 3600000"
definition flappingDrops :: nat where "flappingDrops = 5"

lemmas limits = lagMs_def hotBattC_def hotThermal_def lowMemMb_def lowDiskMb_def lowBatteryPct_def
  weakRssi_def idleLongMs_def idleVeryLongMs_def offlineLongMs_def noSessionMs_def flappingDrops_def

record partial_volatile =
  pv_screenOn :: "bool option"
  pv_charging :: "bool option"
  pv_batteryPct :: "jsnum option"
  pv_net :: "string option"
  pv_rssi :: "jsnum option"

record dash_row =
  dr_deviceId :: string
  dr_label :: "string option"
  dr_group :: "string option"
  dr_online :: bool
  dr_lastSeenMs :: "int option"
  dr_agentVer :: "string option"
  dr_caps :: "caps option"
  dr_needsReprovisioning :: bool
  dr_volatile :: partial_volatile
  dr_hw :: "hw_volatile option"
  dr_lastSessionMs :: "int option"
  dr_drops24h :: nat
  dr_hwEvents24h :: "string list"

definition or_else :: "'a option \<Rightarrow> 'a \<Rightarrow> 'a" where
  "or_else x d = (case x of None \<Rightarrow> d | Some a \<Rightarrow> a)"

definition no_caps :: caps where
  "no_caps = \<lparr>projectMedia = Blocked, a11y = False, knox = Unsupported, overlay = False,
     secureSettings = False, encoder = None\<rparr>"

definition toState :: "dash_row \<Rightarrow> device_state" where
  "toState r = \<lparr>ds_online = dr_online r, ds_agentVer = or_else (dr_agentVer r) ''0.0.0'',
     ds_caps = or_else (dr_caps r) no_caps,
     ds_volatile = \<lparr>screenOn = or_else (pv_screenOn (dr_volatile r)) False,
       charging = or_else (pv_charging (dr_volatile r)) False,
       batteryPct = or_else (pv_batteryPct (dr_volatile r)) (Fin 0),
       net = or_else (pv_net (dr_volatile r)) ''unknown'',
       rssi = or_else (pv_rssi (dr_volatile r)) (Fin 0)\<rparr>,
     ds_needsReprovisioning = dr_needsReprovisioning r\<rparr>"

definition row_tier :: "dash_row \<Rightarrow> tier" where
  "row_tier r = r_tier (computeReadiness (toState r))"

section \<open>The loop body\<close>

type_synonym emit = "string list \<times> string list"

definition add_key :: "string \<Rightarrow> emit" where "add_key k = ([k], [])"
definition add_reason :: "string \<Rightarrow> emit" where "add_reason c = ([], [c])"
definition flag :: "string \<Rightarrow> string \<Rightarrow> emit" where "flag c k = ([k], [c])"
definition nothing :: emit where "nothing = ([], [])"
definition emits :: "emit list \<Rightarrow> emit" where
  "emits es = (concat (map fst es), concat (map snd es))"

definition since_over :: "int \<Rightarrow> int option \<Rightarrow> int \<Rightarrow> bool" where
  "since_over now t limit = (case t of None \<Rightarrow> False | Some x \<Rightarrow> now - x > limit)"

definition connection_part :: "int \<Rightarrow> dash_row \<Rightarrow> emit" where
  "connection_part now r = emits [
     add_key (''tier:'' @ tier_string (row_tier r)),
     (if dr_online r then add_key ''online''
      else emits [add_key ''offline'',
        (if dr_lastSeenMs r = None then add_key ''neverSeen''
         else if since_over now (dr_lastSeenMs r) offlineLongMs
         then emits [add_key ''offlineOver24h'', add_reason ''OFFLINE_OVER_24H''] else nothing)]),
     (if row_tier r = NOT_READY then flag ''NOT_READY'' ''notReady'' else nothing)]"

definition missing_keys :: "caps \<Rightarrow> string list" where
  "missing_keys c = push_if (\<not> overlay c) ''missingOverlay''
     (push_if (\<not> a11y c) ''missingA11y'' (push_if (\<not> secureSettings c) ''missingSecureSettings'' []))"

definition permission_part :: "dash_row \<Rightarrow> emit" where
  "permission_part r = (case dr_caps r of
      None \<Rightarrow> add_key ''permissionsUnknown''
    | Some c \<Rightarrow> (let miss = missing_keys c in
        if miss \<noteq> [] then emits ([add_key ''permissionsIncomplete''] @ map add_key miss @ [add_reason ''MISSING_PERMISSIONS''])
        else add_key ''permissionsComplete''))"

definition row_version :: "dash_row \<Rightarrow> string" where
  "row_version r = or_else (dr_agentVer r) ''unknown''"

definition row_outdated :: "dash_row \<Rightarrow> bool" where
  "row_outdated r = (case dr_agentVer r of None \<Rightarrow> False | Some v \<Rightarrow> v \<noteq> [] \<and> semverLt v MIN_AGENT_VER)"

definition history_part :: "int \<Rightarrow> dash_row \<Rightarrow> emit" where
  "history_part now r = emits [
     add_key (''ver:'' @ row_version r),
     (if row_outdated r then add_key ''outdated'' else nothing),
     (if dr_drops24h r \<ge> flappingDrops then flag ''FLAPPING'' ''flapping'' else nothing),
     (if dr_lastSessionMs r = None \<or> since_over now (dr_lastSessionMs r) noSessionMs
      then add_key ''noSession7d'' else nothing)]"

definition row_net :: "dash_row \<Rightarrow> string" where
  "row_net r = or_else (pv_net (dr_volatile r)) ''unknown''"

definition known_nets :: "string list" where
  "known_nets = [''wifi'', ''cellular'', ''ethernet'']"

definition weak_signal :: "dash_row \<Rightarrow> bool" where
  "weak_signal r = (let x = or_else (pv_rssi (dr_volatile r)) (Fin 0) in
     row_net r = ''cellular'' \<and> x \<noteq> Fin 0 \<and> num_lt x (Fin weakRssi))"

definition row_charging :: "dash_row \<Rightarrow> bool" where
  "row_charging r = (pv_charging (dr_volatile r) = Some True)"

definition power_part :: "dash_row \<Rightarrow> emit" where
  "power_part r = emits [
     (if row_net r \<in> set known_nets then add_key (row_net r) else nothing),
     (if weak_signal r then add_key ''weakSignal'' else nothing),
     (if \<not> row_charging r then emits [add_key ''notCharging'',
        (if num_lt (or_else (pv_batteryPct (dr_volatile r)) (Fin 100)) (Fin lowBatteryPct)
         then flag ''LOW_BATTERY'' ''lowBattery'' else nothing)]
      else nothing)]"

definition num_at_least :: "hw_volatile \<Rightarrow> string \<Rightarrow> rat \<Rightarrow> bool" where
  "num_at_least h k limit = num_le (Fin limit) (or_else (hw_num h k) (Fin 0))"

definition num_below :: "hw_volatile \<Rightarrow> string \<Rightarrow> rat \<Rightarrow> bool" where
  "num_below h k limit = (case hw_num h k of None \<Rightarrow> False | Some x \<Rightarrow> num_lt x (Fin limit))"

definition num_reached :: "hw_volatile \<Rightarrow> string \<Rightarrow> rat \<Rightarrow> bool" where
  "num_reached h k limit = (case hw_num h k of None \<Rightarrow> False | Some x \<Rightarrow> num_le (Fin limit) x)"

definition panel_off :: "dash_row \<Rightarrow> hw_volatile \<Rightarrow> bool" where
  "panel_off r h = (pv_screenOn (dr_volatile r) = Some True \<and>
     (case hw_num h ''display'' of None \<Rightarrow> False | Some x \<Rightarrow> x \<in> {Fin 1, Fin 3, Fin 4}))"

definition hardware_part :: "dash_row \<Rightarrow> emit" where
  "hardware_part r = (case dr_hw r of
      None \<Rightarrow> add_key ''noHwData''
    | Some h \<Rightarrow> emits [
        (if num_at_least h ''mainLagMs'' lagMs then flag ''LAG'' ''lagging'' else nothing),
        (if num_at_least h ''battTempC'' hotBattC \<or> num_at_least h ''thermal'' hotThermal then flag ''HOT'' ''hot'' else nothing),
        (if num_below h ''memAvailMb'' lowMemMb then flag ''LOW_MEM'' ''lowMem'' else nothing),
        (if num_below h ''diskFreeMb'' lowDiskMb then flag ''LOW_DISK'' ''lowDisk'' else nothing),
        (if panel_off r h then flag ''PANEL_OFF'' ''panelOff'' else nothing),
        (if hw_num h ''touchDevs'' = Some (Fin 0) then flag ''TOUCH_GONE'' ''touchGone'' else nothing),
        (if num_reached h ''uiIdleMs'' idleVeryLongMs then emits [add_key ''uiIdle24h'', add_key ''uiIdle6h'']
         else if num_reached h ''uiIdleMs'' idleLongMs then add_key ''uiIdle6h'' else nothing)])"

definition row_emits :: "int \<Rightarrow> dash_row \<Rightarrow> emit" where
  "row_emits now r = emits [connection_part now r, permission_part r, history_part now r,
     (if dr_online r then emits [power_part r, hardware_part r] else nothing)]"

section \<open>Scores\<close>

definition WEIGHT :: "(string \<times> nat) list" where
  "WEIGHT = [(''NOT_READY'', 5), (''PANEL_OFF'', 5), (''TOUCH_GONE'', 5), (''LAG'', 3), (''HOT'', 3),
     (''LOW_MEM'', 2), (''LOW_DISK'', 2), (''FLAPPING'', 3), (''MISSING_PERMISSIONS'', 2),
     (''LOW_BATTERY'', 1), (''OFFLINE_OVER_24H'', 1)]"

definition score_of :: "string list \<Rightarrow> nat" where
  "score_of reasons = foldl (\<lambda>s c. s + or_else (map_of WEIGHT c) 1) 0 reasons"

record attention_item =
  at_deviceId :: string
  at_label :: "string option"
  at_group :: "string option"
  at_score :: nat
  at_reasons :: "string list"

definition attention_item :: "dash_row \<Rightarrow> string list \<Rightarrow> attention_item list" where
  "attention_item r reasons = (let score = score_of reasons in
     if score > 0 then [\<lparr>at_deviceId = dr_deviceId r, at_label = dr_label r, at_group = dr_group r,
       at_score = score, at_reasons = reasons\<rparr>] else [])"

definition offline_reasons :: "int \<Rightarrow> dash_row \<Rightarrow> string list" where
  "offline_reasons now r =
     push_if (case dr_caps r of None \<Rightarrow> False | Some c \<Rightarrow> \<not> a11y c \<or> \<not> overlay c \<or> \<not> secureSettings c) ''MISSING_PERMISSIONS''
       (push_if (since_over now (dr_lastSeenMs r) offlineLongMs) ''OFFLINE_OVER_24H''
         (push_if (dr_drops24h r \<ge> flappingDrops) ''FLAPPING'' []))"

text \<open>The two loops that fill \<open>attention\<close>: online rows first, then the offline rows not yet scored.\<close>

definition attention_online :: "int \<Rightarrow> dash_row list \<Rightarrow> attention_item list" where
  "attention_online now rows =
     concat (map (\<lambda>r. if dr_online r then attention_item r (snd (row_emits now r)) else []) rows)"

definition attention_all :: "int \<Rightarrow> dash_row list \<Rightarrow> attention_item list" where
  "attention_all now rows =
     (let first = attention_online now rows; scored = at_deviceId ` set first in
      first @ concat (map (\<lambda>r. if dr_online r \<or> dr_deviceId r \<in> scored then []
                              else attention_item r (offline_reasons now r)) rows))"

text \<open>\<open>localeCompare\<close> depends on the locale of the process: a parameter.\<close>

definition attention_cmp :: "(string \<Rightarrow> string \<Rightarrow> int) \<Rightarrow> attention_item \<Rightarrow> attention_item \<Rightarrow> int" where
  "attention_cmp localeCompare a b =
     (let d = int (at_score b) - int (at_score a) in
      if d \<noteq> 0 then d else localeCompare (at_deviceId a) (at_deviceId b))"

section \<open>\<open>summarizeFleet\<close>\<close>

definition push_all :: "string list \<Rightarrow> string \<Rightarrow> (string \<times> string list) list \<Rightarrow> (string \<times> string list) list" where
  "push_all ks i m = fold (\<lambda>k. push_at k i) ks m"

definition fleet_lists :: "int \<Rightarrow> dash_row list \<Rightarrow> (string \<times> string list) list" where
  "fleet_lists now rows = fold (\<lambda>r. push_all (fst (row_emits now r)) (dr_deviceId r)) rows []"

definition tier_counts :: "dash_row list \<Rightarrow> tier \<Rightarrow> nat" where
  "tier_counts rows = fold (\<lambda>r f. f(row_tier r := f (row_tier r) + 1)) rows (\<lambda>_. 0)"

record net_counts =
  n_wifi :: nat
  n_cellular :: nat
  n_ethernet :: nat
  n_unknown :: nat
  n_weakSignal :: nat

definition count_net :: "dash_row \<Rightarrow> net_counts \<Rightarrow> net_counts" where
  "count_net r c =
     (if \<not> dr_online r then c
      else let c = (if row_net r = ''wifi'' then c\<lparr>n_wifi := n_wifi c + 1\<rparr>
             else if row_net r = ''cellular'' then c\<lparr>n_cellular := n_cellular c + 1\<rparr>
             else if row_net r = ''ethernet'' then c\<lparr>n_ethernet := n_ethernet c + 1\<rparr>
             else c\<lparr>n_unknown := n_unknown c + 1\<rparr>)
        in if weak_signal r then c\<lparr>n_weakSignal := n_weakSignal c + 1\<rparr> else c)"

definition net_zero :: net_counts where
  "net_zero = \<lparr>n_wifi = 0, n_cellular = 0, n_ethernet = 0, n_unknown = 0, n_weakSignal = 0\<rparr>"

definition version_counts :: "dash_row list \<Rightarrow> (string \<times> nat) list" where
  "version_counts rows = fold (\<lambda>r. bump (row_version r)) rows []"

definition event_counts :: "dash_row list \<Rightarrow> (string \<times> nat) list" where
  "event_counts rows = fold (\<lambda>r m. fold bump (uniq (dr_hwEvents24h r)) m) rows []"

definition by_count :: "string \<times> nat \<Rightarrow> string \<times> nat \<Rightarrow> int" where
  "by_count a b = int (snd b) - int (snd a)"

record dashboard =
  d_generatedAt :: int
  d_total :: nat
  d_online :: nat
  d_offline :: nat
  d_offlineOver24h :: nat
  d_neverSeen :: nat
  d_tiers :: "tier \<Rightarrow> nat"
  d_permComplete :: nat
  d_permIncomplete :: nat
  d_permUnknown :: nat
  d_missingSecureSettings :: nat
  d_missingA11y :: nat
  d_missingOverlay :: nat
  d_performance :: "(string \<times> nat) list"
  d_uiIdle6h :: nat
  d_uiIdle24h :: nat
  d_noSession7d :: nat
  d_batteryLow :: nat
  d_notCharging :: nat
  d_network :: net_counts
  d_versions :: "(string \<times> nat) list"
  d_outdated :: nat
  d_flapping :: nat
  d_drops24h :: nat
  d_events24h :: "(string \<times> nat) list"
  d_lists :: "(string \<times> string list) list"
  d_attention :: "attention_item list"

definition summarizeFleet :: "(string \<Rightarrow> string \<Rightarrow> int) \<Rightarrow> dash_row list \<Rightarrow> int \<Rightarrow> nat \<Rightarrow> dashboard" where
  "summarizeFleet localeCompare rows now maxAttention =
     (let lists = fleet_lists now rows; len = (\<lambda>k. length (list_at lists k)) in
      \<lparr>d_generatedAt = now, d_total = length rows,
       d_online = len ''online'', d_offline = len ''offline'', d_offlineOver24h = len ''offlineOver24h'',
       d_neverSeen = fold (\<lambda>r n. if \<not> dr_online r \<and> dr_lastSeenMs r = None then n + 1 else n) rows 0,
       d_tiers = tier_counts rows,
       d_permComplete = len ''permissionsComplete'', d_permIncomplete = len ''permissionsIncomplete'',
       d_permUnknown = length rows - length (filter (\<lambda>r. dr_caps r \<noteq> None) rows),
       d_missingSecureSettings = len ''missingSecureSettings'', d_missingA11y = len ''missingA11y'',
       d_missingOverlay = len ''missingOverlay'',
       d_performance = map (\<lambda>k. (k, len k))
         [''lagging'', ''hot'', ''lowMem'', ''lowDisk'', ''panelOff'', ''touchGone'', ''noHwData''],
       d_uiIdle6h = len ''uiIdle6h'', d_uiIdle24h = len ''uiIdle24h'', d_noSession7d = len ''noSession7d'',
       d_batteryLow = len ''lowBattery'', d_notCharging = len ''notCharging'',
       d_network = fold count_net rows net_zero,
       d_versions = sort_by by_count (version_counts rows),
       d_outdated = len ''outdated'', d_flapping = len ''flapping'',
       d_drops24h = fold (\<lambda>r n. n + dr_drops24h r) rows 0,
       d_events24h = sort_by by_count (event_counts rows),
       d_lists = lists,
       d_attention = take maxAttention (sort_by (attention_cmp localeCompare) (attention_all now rows))\<rparr>)"


section \<open>\<open>briefOf\<close>\<close>

record device_brief =
  b_deviceId :: string
  b_label :: "string option"
  b_group :: "string option"
  b_online :: bool
  b_tier :: tier
  b_lastSeenMs :: "int option"
  b_agentVer :: "string option"
  b_missing :: "string list option"
  b_drops24h :: nat
  b_lastSessionMs :: "int option"
  b_batteryPct :: "jsnum option"
  b_charging :: "bool option"
  b_net :: "string option"
  b_rssi :: "jsnum option"
  b_hw :: "hw_volatile option"
  b_hwEvents24h :: "string list"

definition missing_caps :: "caps \<Rightarrow> string list" where
  "missing_caps c = push_if (\<not> overlay c) ''overlay''
     (push_if (\<not> a11y c) ''a11y'' (push_if (\<not> secureSettings c) ''secureSettings'' []))"

definition briefOf :: "dash_row \<Rightarrow> device_brief" where
  "briefOf r =
     \<lparr>b_deviceId = dr_deviceId r, b_label = dr_label r, b_group = dr_group r, b_online = dr_online r,
      b_tier = row_tier r, b_lastSeenMs = dr_lastSeenMs r, b_agentVer = dr_agentVer r,
      b_missing = map_option missing_caps (dr_caps r), b_drops24h = dr_drops24h r,
      b_lastSessionMs = dr_lastSessionMs r,
      b_batteryPct = (if dr_online r then pv_batteryPct (dr_volatile r) else None),
      b_charging = (if dr_online r then pv_charging (dr_volatile r) else None),
      b_net = (if dr_online r then pv_net (dr_volatile r) else None),
      b_rssi = (if dr_online r then pv_rssi (dr_volatile r) else None),
      b_hw = (if dr_online r then dr_hw r else None),
      b_hwEvents24h = uniq (dr_hwEvents24h r)\<rparr>"

section \<open>What each list holds\<close>

text \<open>How often an emission names a key, computed along the structure of the loop body.\<close>

named_theorems emit_simps

definition hits :: "emit \<Rightarrow> string \<Rightarrow> nat" where
  "hits e k = count_list (fst e) k"

lemma hits_basic [emit_simps]:
  "hits (add_key a) k = (if k = a then 1 else 0)"
  "hits (add_reason c) k = 0"
  "hits (flag c a) k = (if k = a then 1 else 0)"
  "hits nothing k = 0"
  "hits (if b then e1 else e2) k = (if b then hits e1 k else hits e2 k)"
  by (simp_all add: hits_def add_key_def add_reason_def flag_def nothing_def)

lemma hits_emits [emit_simps]:
  "hits (emits []) k = 0"
  "hits (emits (e # es)) k = hits e k + hits (emits es) k"
  by (simp_all add: hits_def emits_def)

lemma hits_emits_append [emit_simps]: "hits (emits (xs @ ys)) k = hits (emits xs) k + hits (emits ys) k"
  by (simp add: hits_def emits_def)

lemma hits_emits_keys [emit_simps]: "hits (emits (map add_key ks)) k = count_list ks k"
  by (simp add: hits_def emits_def add_key_def comp_def)

lemma list_at_push_all:
  "list_at (push_all ks i m) k = list_at m k @ replicate (count_list ks k) i"
  unfolding push_all_def
  by (induction ks arbitrary: m) (auto simp: replicate_app_Cons_same)

lemma list_at_fleet_lists:
  "list_at (fleet_lists now rows) k =
     concat (map (\<lambda>r. replicate (hits (row_emits now r) k) (dr_deviceId r)) rows)"
proof -
  have "list_at (fold (\<lambda>r. push_all (fst (row_emits now r)) (dr_deviceId r)) rows m) k =
    list_at m k @ concat (map (\<lambda>r. replicate (hits (row_emits now r) k) (dr_deviceId r)) rows)" for m
    by (induction rows arbitrary: m) (simp_all add: list_at_push_all hits_def)
  then show ?thesis by (simp add: fleet_lists_def)
qed

lemma list_at_fleet_filter:
  assumes "\<And>r. hits (row_emits now r) k = (if P r then 1 else 0)"
  shows "list_at (fleet_lists now rows) k = map dr_deviceId (filter P rows)"
  unfolding list_at_fleet_lists assms by (induction rows) simp_all

text \<open>
  The predicate of every list of the dashboard. \<open>key_table\<close> is the specification the web client
  relies on when it opens a figure of the dashboard as a list of devices.
\<close>

definition has_caps_without :: "(caps \<Rightarrow> bool) \<Rightarrow> dash_row \<Rightarrow> bool" where
  "has_caps_without f r = (case dr_caps r of None \<Rightarrow> False | Some c \<Rightarrow> \<not> f c)"

definition full_caps :: "caps \<Rightarrow> bool" where
  "full_caps c = (secureSettings c \<and> a11y c \<and> overlay c)"

definition on_hw :: "(hw_volatile \<Rightarrow> bool) \<Rightarrow> dash_row \<Rightarrow> bool" where
  "on_hw f r = (dr_online r \<and> (case dr_hw r of None \<Rightarrow> False | Some h \<Rightarrow> f h))"

definition key_table :: "int \<Rightarrow> (string \<times> (dash_row \<Rightarrow> bool)) list" where
  "key_table now =
    [(''online'', dr_online),
     (''offline'', \<lambda>r. \<not> dr_online r),
     (''neverSeen'', \<lambda>r. \<not> dr_online r \<and> dr_lastSeenMs r = None),
     (''offlineOver24h'', \<lambda>r. \<not> dr_online r \<and> since_over now (dr_lastSeenMs r) offlineLongMs),
     (''notReady'', \<lambda>r. row_tier r = NOT_READY),
     (''permissionsUnknown'', \<lambda>r. dr_caps r = None),
     (''permissionsIncomplete'', has_caps_without full_caps),
     (''permissionsComplete'', \<lambda>r. dr_caps r \<noteq> None \<and> \<not> has_caps_without full_caps r),
     (''missingSecureSettings'', has_caps_without secureSettings),
     (''missingA11y'', has_caps_without a11y),
     (''missingOverlay'', has_caps_without overlay),
     (''outdated'', row_outdated),
     (''flapping'', \<lambda>r. flappingDrops \<le> dr_drops24h r),
     (''noSession7d'', \<lambda>r. dr_lastSessionMs r = None \<or> since_over now (dr_lastSessionMs r) noSessionMs),
     (''wifi'', \<lambda>r. dr_online r \<and> row_net r = ''wifi''),
     (''cellular'', \<lambda>r. dr_online r \<and> row_net r = ''cellular''),
     (''ethernet'', \<lambda>r. dr_online r \<and> row_net r = ''ethernet''),
     (''weakSignal'', \<lambda>r. dr_online r \<and> weak_signal r),
     (''notCharging'', \<lambda>r. dr_online r \<and> \<not> row_charging r),
     (''lowBattery'', \<lambda>r. dr_online r \<and> \<not> row_charging r \<and>
        num_lt (or_else (pv_batteryPct (dr_volatile r)) (Fin 100)) (Fin lowBatteryPct)),
     (''noHwData'', \<lambda>r. dr_online r \<and> dr_hw r = None),
     (''lagging'', on_hw (\<lambda>h. num_at_least h ''mainLagMs'' lagMs)),
     (''hot'', on_hw (\<lambda>h. num_at_least h ''battTempC'' hotBattC \<or> num_at_least h ''thermal'' hotThermal)),
     (''lowMem'', on_hw (\<lambda>h. num_below h ''memAvailMb'' lowMemMb)),
     (''lowDisk'', on_hw (\<lambda>h. num_below h ''diskFreeMb'' lowDiskMb)),
     (''panelOff'', \<lambda>r. on_hw (panel_off r) r),
     (''touchGone'', on_hw (\<lambda>h. hw_num h ''touchDevs'' = Some (Fin 0))),
     (''uiIdle24h'', on_hw (\<lambda>h. num_reached h ''uiIdleMs'' idleVeryLongMs)),
     (''uiIdle6h'', on_hw (\<lambda>h. num_reached h ''uiIdleMs'' idleLongMs))]"

lemma num_reached_mono: "a \<le> b \<Longrightarrow> num_reached h k b \<Longrightarrow> num_reached h k a"
  by (cases "the (hw_num h k)") (auto simp: num_reached_def num_le_def num_eq_def split: option.splits)

lemma idle_nested: "num_reached h k idleVeryLongMs \<Longrightarrow> num_reached h k idleLongMs"
  by (rule num_reached_mono[of _ idleVeryLongMs]) (simp_all add: limits)

lemma hits_row_emits:
  "hits (row_emits now r) k =
     hits (connection_part now r) k + hits (permission_part r) k + hits (history_part now r) k +
     (if dr_online r then hits (power_part r) k + hits (hardware_part r) k else 0)"
  by (simp add: row_emits_def emit_simps)

lemmas part_defs = connection_part_def permission_part_def history_part_def power_part_def
  hardware_part_def missing_keys_def push_if_def has_caps_without_def full_caps_def on_hw_def


lemma since_over_None [simp]: "\<not> since_over now None d"
  by (simp add: since_over_def)

text \<open>Each part of the loop body names keys of its own only.\<close>

lemma other_prefix: "take 5 k \<noteq> ''tier:'' \<Longrightarrow> k \<noteq> ''tier:'' @ t" "take 4 k \<noteq> ''ver:'' \<Longrightarrow> k \<noteq> ''ver:'' @ t"
  by auto

lemma hits_permission_other:
  "k \<notin> {''permissionsUnknown'', ''permissionsIncomplete'', ''permissionsComplete'', ''missingSecureSettings'',
     ''missingA11y'', ''missingOverlay''} \<Longrightarrow> hits (permission_part r) k = 0"
  by (simp add: permission_part_def missing_keys_def push_if_def Let_def emit_simps split: option.splits)

lemma hits_connection_other:
  "k \<notin> {''online'', ''offline'', ''neverSeen'', ''offlineOver24h'', ''notReady''} \<Longrightarrow> take 5 k \<noteq> ''tier:'' \<Longrightarrow>
   hits (connection_part now r) k = 0"
  using other_prefix(1)[of k]
  by (simp add: connection_part_def emit_simps)

lemma hits_history_other:
  "k \<notin> {''outdated'', ''flapping'', ''noSession7d''} \<Longrightarrow> take 4 k \<noteq> ''ver:'' \<Longrightarrow> hits (history_part now r) k = 0"
  using other_prefix(2)[of k]
  by (simp add: history_part_def emit_simps)

lemma hits_power_other:
  "k \<notin> {''wifi'', ''cellular'', ''ethernet'', ''weakSignal'', ''notCharging'', ''lowBattery''} \<Longrightarrow> hits (power_part r) k = 0"
  by (simp add: power_part_def emit_simps known_nets_def)

lemma hits_hardware_other:
  "k \<notin> {''noHwData'', ''lagging'', ''hot'', ''lowMem'', ''lowDisk'', ''panelOff'', ''touchGone'', ''uiIdle24h'', ''uiIdle6h''} \<Longrightarrow>
   hits (hardware_part r) k = 0"
  by (simp add: hardware_part_def emit_simps split: option.split)

lemmas hits_other = hits_permission_other hits_connection_other hits_history_other hits_power_other
  hits_hardware_other

lemma hits_key_table:
  "(k, P) \<in> set (key_table now) \<Longrightarrow> hits (row_emits now r) k = (if P r then 1 else 0)"
  unfolding key_table_def list.set insert_iff empty_iff prod.inject
  apply (elim disjE conjE FalseE; hypsubst)
  apply (simp_all add: hits_row_emits hits_other known_nets_def split del: if_split cong: if_cong)
  apply (simp_all add: part_defs known_nets_def Let_def emit_simps idle_nested
    option.case_eq_if split del: if_split cong: if_cong)
  apply (auto simp: idle_nested split: option.splits)
  done

lemma hits_tier: "hits (row_emits now r) (''tier:'' @ tier_string t) = (if row_tier r = t then 1 else 0)"
proof -
  have "tier_string a = tier_string b \<longleftrightarrow> a = b" for a b by (cases a; cases b) simp_all
  then show ?thesis
    by (simp add: hits_row_emits hits_other known_nets_def) (simp add: connection_part_def emit_simps)
qed

lemma hits_version: "hits (row_emits now r) (''ver:'' @ v) = (if row_version r = v then 1 else 0)"
  by (simp add: hits_row_emits hits_other known_nets_def) (simp add: history_part_def emit_simps)

lemma list_of_key:
  "(k, P) \<in> set (key_table now) \<Longrightarrow> list_at (fleet_lists now rows) k = map dr_deviceId (filter P rows)"
  by (rule list_at_fleet_filter) (rule hits_key_table)

lemma list_of_tier:
  "list_at (fleet_lists now rows) (''tier:'' @ tier_string t) = map dr_deviceId (filter (\<lambda>r. row_tier r = t) rows)"
  by (rule list_at_fleet_filter) (rule hits_tier)

lemma list_of_version:
  "list_at (fleet_lists now rows) (''ver:'' @ v) = map dr_deviceId (filter (\<lambda>r. row_version r = v) rows)"
  by (rule list_at_fleet_filter) (rule hits_version)

text \<open>No other key is ever created: an unknown key names no device.\<close>

lemma list_of_other:
  assumes "k \<notin> fst ` set (key_table now)" "take 5 k \<noteq> ''tier:''" "take 4 k \<noteq> ''ver:''"
  shows "list_at (fleet_lists now rows) k = []"
proof -
  have "hits (row_emits now r) k = (if False then 1 else 0)" for r
    using assms by (simp add: hits_row_emits hits_other key_table_def known_nets_def)
  from list_at_fleet_filter[where P = "\<lambda>_. False", OF this] show ?thesis by simp
qed

section \<open>Figures, partitions and rankings\<close>

lemma count_of_key:
  "(k, P) \<in> set (key_table now) \<Longrightarrow> length (list_at (fleet_lists now rows) k) = length (filter P rows)"
  by (simp add: list_of_key)

lemma never_seen_fold:
  "fold (\<lambda>r n. if P r then n + 1 else n) rows n = n + length (filter P rows)"
  by (induction rows arbitrary: n) simp_all

lemma tier_counts_eq: "tier_counts rows t = length (filter (\<lambda>r. row_tier r = t) rows)"
proof -
  have "fold (\<lambda>r f. f(row_tier r := f (row_tier r) + 1)) rows f t =
    f t + length (filter (\<lambda>r. row_tier r = t) rows)" for f :: "tier \<Rightarrow> nat"
    by (induction rows arbitrary: f) auto
  then show ?thesis by (simp add: tier_counts_def)
qed

lemma tier_counts_total:
  "tier_counts rows READY + tier_counts rows DEGRADED + tier_counts rows NOT_READY + tier_counts rows OFFLINE = length rows"
  unfolding tier_counts_eq
proof (induction rows)
  case (Cons r rows)
  then show ?case by (cases "row_tier r") simp_all
qed simp

lemma count_net_fold:
  "n_wifi (fold count_net rows c) + n_cellular (fold count_net rows c) + n_ethernet (fold count_net rows c) +
     n_unknown (fold count_net rows c) =
   n_wifi c + n_cellular c + n_ethernet c + n_unknown c + length (filter dr_online rows)"
  by (induction rows arbitrary: c) (simp_all add: count_net_def Let_def)

lemma count_net_fields:
  "n_wifi (fold count_net rows c) = n_wifi c + length (filter (\<lambda>r. dr_online r \<and> row_net r = ''wifi'') rows)"
  "n_cellular (fold count_net rows c) = n_cellular c + length (filter (\<lambda>r. dr_online r \<and> row_net r = ''cellular'') rows)"
  "n_ethernet (fold count_net rows c) = n_ethernet c + length (filter (\<lambda>r. dr_online r \<and> row_net r = ''ethernet'') rows)"
  "n_weakSignal (fold count_net rows c) = n_weakSignal c + length (filter (\<lambda>r. dr_online r \<and> weak_signal r) rows)"
  by (induction rows arbitrary: c) (simp_all add: count_net_def Let_def)

lemma version_counts_eq: "version_counts rows = fold bump (map row_version rows) []"
  by (simp add: version_counts_def fold_map comp_def)

lemma event_counts_eq: "event_counts rows = fold bump (concat (map (\<lambda>r. uniq (dr_hwEvents24h r)) rows)) []"
proof -
  have "fold (\<lambda>r. fold bump (uniq (dr_hwEvents24h r))) rows m =
    fold bump (concat (map (\<lambda>r. uniq (dr_hwEvents24h r)) rows)) m" for m
    by (induction rows arbitrary: m) simp_all
  then show ?thesis by (simp add: event_counts_def)
qed

text \<open>A device that reports a code several times counts once for that code.\<close>

lemma count_list_concat: "count_list (concat xss) x = sum_list (map (\<lambda>xs. count_list xs x) xss)"
  by (induction xss) simp_all

lemma event_code_count:
  "count_list (concat (map (\<lambda>r. uniq (dr_hwEvents24h r)) rows)) c =
     length (filter (\<lambda>r. c \<in> set (dr_hwEvents24h r)) rows)"
  by (induction rows) (simp_all add: count_list_distinct)

interpretation ranking: comparator by_count
  by unfold_locales (simp_all add: by_count_def sgn_if)

lemma ranking_desc: "sorted_wrt (\<lambda>x y. snd y \<le> snd x) (sort_by by_count xs)"
  using ranking.sorted_sort_by[of xs] by (simp add: by_count_def)

lemma attention_comparator:
  assumes "comparator lc"
  shows "comparator (attention_cmp lc)"
proof
  fix x y z :: attention_item
  show "sgn (attention_cmp lc x y) = - sgn (attention_cmp lc y x)"
    using comparator.cmp_sgn[OF assms, of "at_deviceId x" "at_deviceId y"]
    by (cases "at_score x = at_score y") (simp_all add: attention_cmp_def Let_def, simp add: sgn_if)
  show "attention_cmp lc x y \<le> 0 \<Longrightarrow> attention_cmp lc y z \<le> 0 \<Longrightarrow> attention_cmp lc x z \<le> 0"
    using comparator.cmp_trans[OF assms, of "at_deviceId x" "at_deviceId y" "at_deviceId z"]
    by (simp add: attention_cmp_def Let_def split: if_splits)
qed

lemma sorted_take_drop:
  "sorted_wrt R xs \<Longrightarrow> x \<in> set (take n xs) \<Longrightarrow> y \<in> set (drop n xs) \<Longrightarrow> R x y"
  by (metis append_take_drop_id sorted_wrt_append)

lemma attention_all_mem:
  assumes "a \<in> set (attention_all now rows)"
  shows "0 < at_score a \<and> at_score a = score_of (at_reasons a) \<and>
    (\<exists>r \<in> set rows. at_deviceId a = dr_deviceId r \<and> at_label a = dr_label r \<and> at_group a = dr_group r \<and>
       at_reasons a = (if dr_online r then snd (row_emits now r) else offline_reasons now r))"
  using assms
  by (auto simp: attention_all_def attention_online_def attention_item_def Let_def split: if_splits)

lemma score_of_eq: "score_of rs = sum_list (map (\<lambda>c. or_else (map_of WEIGHT c) 1) rs)"
proof -
  have "foldl (\<lambda>s c. s + f c) n rs = n + sum_list (map f rs)" for f :: "string \<Rightarrow> nat" and n
    by (induction rs arbitrary: n) simp_all
  then show ?thesis by (simp add: score_of_def)
qed

text \<open>Every reason has a positive weight: a row is scored exactly when it has a reason.\<close>

lemma WEIGHT_pos: "0 < or_else (map_of WEIGHT c) 1"
  by (simp add: WEIGHT_def or_else_def)

lemma score_pos_iff: "0 < score_of rs \<longleftrightarrow> rs \<noteq> []"
  unfolding score_of_eq by (cases rs) (use WEIGHT_pos in simp_all)

definition row_reasons :: "int \<Rightarrow> dash_row \<Rightarrow> string list" where
  "row_reasons now r = (if dr_online r then snd (row_emits now r) else offline_reasons now r)"

lemma attention_complete:
  assumes d: "distinct (map dr_deviceId rows)" and r: "r \<in> set rows" "row_reasons now r \<noteq> []"
  shows "\<lparr>at_deviceId = dr_deviceId r, at_label = dr_label r, at_group = dr_group r,
     at_score = score_of (row_reasons now r), at_reasons = row_reasons now r\<rparr> \<in> set (attention_all now rows)"
proof (cases "dr_online r")
  case True
  with r show ?thesis
    by (force simp: attention_all_def attention_online_def attention_item_def Let_def score_pos_iff row_reasons_def)
next
  case False
  have "r' = r" if "r' \<in> set rows" "dr_deviceId r' = dr_deviceId r" for r'
    using d r(1) that by (auto simp: distinct_map dest: inj_onD)
  then have "dr_deviceId r \<notin> at_deviceId ` set (attention_online now rows)"
    using False by (auto simp: attention_online_def attention_item_def Let_def split: if_splits)
  with False r show ?thesis
    by (force simp: attention_all_def attention_item_def Let_def score_pos_iff row_reasons_def)
qed

section \<open>Properties\<close>

text \<open>Two rows for the witnesses: an online device on a hot phone, and one offline for two days.\<close>

definition demo_rows :: "dash_row list" where
  "demo_rows = [
     \<lparr>dr_deviceId = ''d1'', dr_label = None, dr_group = None, dr_online = True, dr_lastSeenMs = Some 0,
      dr_agentVer = Some ''1.4.9'', dr_caps = Some no_caps, dr_needsReprovisioning = False,
      dr_volatile = \<lparr>pv_screenOn = Some True, pv_charging = Some True, pv_batteryPct = None, pv_net = Some ''wifi'', pv_rssi = None\<rparr>,
      dr_hw = None, dr_lastSessionMs = None, dr_drops24h = 0, dr_hwEvents24h = []\<rparr>,
     \<lparr>dr_deviceId = ''d2'', dr_label = None, dr_group = None, dr_online = False, dr_lastSeenMs = Some 0,
      dr_agentVer = None, dr_caps = None, dr_needsReprovisioning = False,
      dr_volatile = \<lparr>pv_screenOn = None, pv_charging = None, pv_batteryPct = None, pv_net = None, pv_rssi = None\<rparr>,
      dr_hw = None, dr_lastSessionMs = None, dr_drops24h = 0, dr_hwEvents24h = []\<rparr>]"

definition code_unit_order :: "string \<Rightarrow> string \<Rightarrow> int" where
  "code_unit_order a b = (if a = b then 0 else if (a, b) \<in> lexord {(c, d). (of_char c :: nat) < of_char d} then -1 else 1)"

text \<open>
  C26 Every list of the dashboard holds exactly the devices its figure is about, in row order: for
  each of the 29 named keys the rows satisfying the key's predicate, for \<open>tier:t\<close> the rows of
  that tier, for \<open>ver:v\<close> the rows of that agent version; no other key holds a device.
\<close>

theorem dashboard_lists_exact:
  fixes lc rows now n
  defines "ls \<equiv> d_lists (summarizeFleet lc rows now n)"
  shows "(\<forall>(k, P) \<in> set (key_table now). list_at ls k = map dr_deviceId (filter P rows)) \<and>
    (\<forall>t. list_at ls (''tier:'' @ tier_string t) = map dr_deviceId (filter (\<lambda>r. row_tier r = t) rows)) \<and>
    (\<forall>v. list_at ls (''ver:'' @ v) = map dr_deviceId (filter (\<lambda>r. row_version r = v) rows)) \<and>
    (\<forall>k. list_at ls k \<noteq> [] \<longrightarrow> k \<in> fst ` set (key_table now) \<or> take 5 k = ''tier:'' \<or> take 4 k = ''ver:'')"
proof -
  have ls: "ls = fleet_lists now rows" by (simp add: ls_def summarizeFleet_def Let_def)
  show ?thesis unfolding ls using list_of_key list_of_tier list_of_version list_of_other by fast
qed

lemma dashboard_lists_exact_witness:
  "list_at (d_lists (summarizeFleet code_unit_order demo_rows 172800000 30)) ''offlineOver24h'' = [''d2'']"
proof -
  have "(''offlineOver24h'', \<lambda>r. \<not> dr_online r \<and> since_over 172800000 (dr_lastSeenMs r) offlineLongMs)
      \<in> set (key_table 172800000)" by (simp add: key_table_def)
  with dashboard_lists_exact[of 172800000 code_unit_order demo_rows 30]
  show ?thesis by (auto simp: demo_rows_def since_over_def limits)
qed

text \<open>
  The figures of the dashboard are partitions of the fleet: the four tiers, online and offline,
  and complete, incomplete and unknown permissions each sum to the number of rows; the network
  counters sum to the online rows and the version counters to all rows.
\<close>

theorem dashboard_partitions:
  fixes lc rows now n
  defines "d \<equiv> summarizeFleet lc rows now n"
  shows "d_total d = length rows \<and> d_online d + d_offline d = d_total d \<and>
    d_tiers d READY + d_tiers d DEGRADED + d_tiers d NOT_READY + d_tiers d OFFLINE = d_total d \<and>
    d_tiers d OFFLINE = d_offline d \<and>
    d_permComplete d + d_permIncomplete d + d_permUnknown d = d_total d \<and>
    n_wifi (d_network d) + n_cellular (d_network d) + n_ethernet (d_network d) + n_unknown (d_network d) = d_online d \<and>
    n_weakSignal (d_network d) \<le> n_cellular (d_network d) \<and>
    sum_list (map snd (d_versions d)) = d_total d \<and>
    d_offlineOver24h d + d_neverSeen d \<le> d_offline d"
proof -
  have key:
    "length (list_at (fleet_lists now rows) ''online'') = length (filter dr_online rows)"
    "length (list_at (fleet_lists now rows) ''offline'') = length (filter (\<lambda>r. \<not> dr_online r) rows)"
    "length (list_at (fleet_lists now rows) ''offlineOver24h'') =
       length (filter (\<lambda>r. \<not> dr_online r \<and> since_over now (dr_lastSeenMs r) offlineLongMs) rows)"
    "length (list_at (fleet_lists now rows) ''permissionsIncomplete'') = length (filter (has_caps_without full_caps) rows)"
    "length (list_at (fleet_lists now rows) ''permissionsComplete'') =
       length (filter (\<lambda>r. dr_caps r \<noteq> None \<and> \<not> has_caps_without full_caps r) rows)"
    by (rule count_of_key[where now = now]; simp add: key_table_def)+
  have split: "length (filter P rows) + length (filter (\<lambda>r. \<not> P r) rows) = length rows" for P
    by (rule sum_length_filter_compl)
  have perm: "length (filter (\<lambda>r. dr_caps r \<noteq> None \<and> \<not> has_caps_without full_caps r) rows) +
      length (filter (has_caps_without full_caps) rows) = length (filter (\<lambda>r. dr_caps r \<noteq> None) rows)"
    by (induction rows) (auto simp: has_caps_without_def split: option.splits)
  have weak: "length (filter (\<lambda>r. dr_online r \<and> weak_signal r) rows) \<le> length (filter (\<lambda>r. dr_online r \<and> row_net r = ''cellular'') rows)"
    by (induction rows) (auto simp: weak_signal_def Let_def)
  have off: "length (filter (\<lambda>r. \<not> dr_online r \<and> since_over now (dr_lastSeenMs r) offlineLongMs) rows) +
      length (filter (\<lambda>r. \<not> dr_online r \<and> dr_lastSeenMs r = None) rows) \<le> length (filter (\<lambda>r. \<not> dr_online r) rows)"
    by (induction rows) auto
  have tier: "row_tier r = OFFLINE \<longleftrightarrow> \<not> dr_online r" for r
    by (simp add: row_tier_def toState_def computeReadiness_def Let_def)
  have ver: "sum_list (map snd (sort_by by_count (version_counts rows))) = length rows"
    by (metis length_map mset_map mset_sort_by sum_counts_fold_bump sum_mset_sum_list version_counts_eq)
  show ?thesis
    unfolding d_def summarizeFleet_def Let_def
    using split[of dr_online] perm weak off ver length_filter_le[of "\<lambda>r. dr_caps r \<noteq> None" rows]
      count_net_fold[of rows net_zero] tier_counts_total[of rows] never_seen_fold[of _ rows 0]
    by (simp add: key count_net_fields net_zero_def tier_counts_eq tier)
qed

text \<open>
  The attention list is a ranking: for a comparison of ids that is a total preorder it is sorted
  by falling score (ties by id) and has at most \<open>maxAttention\<close> entries; every entry is a row of the
  fleet with the row's reasons and the positive sum of their weights; a row with a reason is shown,
  or the list is full and every entry shown scores at least as high.
\<close>

theorem attention_ranked:
  fixes lc rows now n
  assumes lc: "comparator lc" and d: "distinct (map dr_deviceId rows)"
  defines "shown \<equiv> d_attention (summarizeFleet lc rows now n)"
  shows "sorted_wrt (\<lambda>a b. at_score b < at_score a \<or>
            at_score a = at_score b \<and> lc (at_deviceId a) (at_deviceId b) \<le> 0) shown \<and>
    length shown \<le> n \<and>
    (\<forall>a \<in> set shown. 0 < at_score a \<and> at_score a = score_of (at_reasons a) \<and>
       (\<exists>r \<in> set rows. at_deviceId a = dr_deviceId r \<and> at_reasons a = row_reasons now r)) \<and>
    (\<forall>r \<in> set rows. row_reasons now r \<noteq> [] \<longrightarrow> dr_deviceId r \<in> at_deviceId ` set shown \<or>
       length shown = n \<and> (\<forall>a \<in> set shown. score_of (row_reasons now r) \<le> at_score a))"
proof -
  let ?all = "attention_all now rows"
  let ?sorted = "sort_by (attention_cmp lc) ?all"
  have shown: "shown = take n ?sorted" by (simp add: shown_def summarizeFleet_def Let_def)
  have sorted: "sorted_wrt (\<lambda>a b. attention_cmp lc a b \<le> 0) ?sorted"
    by (rule total_cmp.sorted_sort_by[OF comparator_total_cmp[OF attention_comparator[OF lc]]])
  have cmp: "attention_cmp lc a b \<le> 0 \<longleftrightarrow> at_score b < at_score a \<or>
      at_score a = at_score b \<and> lc (at_deviceId a) (at_deviceId b) \<le> 0" for a b
    by (auto simp: attention_cmp_def Let_def)
  have rest: "dr_deviceId r \<in> at_deviceId ` set shown \<or>
      length shown = n \<and> (\<forall>a \<in> set shown. score_of (row_reasons now r) \<le> at_score a)"
    if r: "r \<in> set rows" "row_reasons now r \<noteq> []" for r
  proof -
    from attention_complete[OF d r]
    obtain b where b: "b \<in> set ?sorted" "at_deviceId b = dr_deviceId r" "at_score b = score_of (row_reasons now r)"
      by fastforce
    show ?thesis
    proof (cases "b \<in> set (take n ?sorted)")
      case True
      then show ?thesis using b(2) unfolding shown by force
    next
      case False
      with b(1) have d: "b \<in> set (drop n ?sorted)" by (metis UnE append_take_drop_id set_append)
      then have "n < length ?sorted" by (metis drop_all empty_iff empty_set not_le_imp_less)
      then show ?thesis using b(3) sorted_take_drop[OF sorted _ d] unfolding shown cmp
        by (intro disjI2) fastforce
    qed
  qed
  have mem: "a \<in> set ?all" if "a \<in> set shown" for a
    using that set_take_subset[of n ?sorted] unfolding shown by auto
  show ?thesis
  proof (intro conjI ballI impI)
    show "sorted_wrt (\<lambda>a b. at_score b < at_score a \<or>
        at_score a = at_score b \<and> lc (at_deviceId a) (at_deviceId b) \<le> 0) shown"
      using sorted unfolding shown cmp by (rule sorted_wrt_take)
    show "length shown \<le> n" by (simp add: shown)
  qed (use attention_all_mem[OF mem] rest in \<open>fastforce simp: row_reasons_def\<close>)+
qed

lemma zero_comparator: "comparator (\<lambda>_ _. 0)"
  by unfold_locales simp_all

lemma attention_ranked_witness:
  "length (d_attention (summarizeFleet (\<lambda>_ _. 0) demo_rows 0 1)) \<le> 1"
proof -
  have "distinct (map dr_deviceId demo_rows)" by (simp add: demo_rows_def)
  from attention_ranked[OF zero_comparator this, of 0 1] show ?thesis by simp
qed

text \<open>
  The rankings of agent versions and hardware events: each version in use and each code
  reported is listed once, with the number of its devices (a device reporting a code often counts
  once), in falling order of the counts.
\<close>

theorem rankings_exact:
  fixes lc rows now n
  defines "vs \<equiv> d_versions (summarizeFleet lc rows now n)"
    and "es \<equiv> d_events24h (summarizeFleet lc rows now n)"
  shows "set vs = {(v, length (filter (\<lambda>r. row_version r = v) rows)) | v. v \<in> row_version ` set rows} \<and>
    set es = {(c, length (filter (\<lambda>r. c \<in> set (dr_hwEvents24h r)) rows)) | c. \<exists>r \<in> set rows. c \<in> set (dr_hwEvents24h r)} \<and>
    distinct (map fst vs) \<and> distinct (map fst es) \<and>
    sorted_wrt (\<lambda>x y. snd y \<le> snd x) vs \<and> sorted_wrt (\<lambda>x y. snd y \<le> snd x) es"
proof -
  have vs: "vs = sort_by by_count (fold bump (map row_version rows) [])"
    by (simp add: vs_def summarizeFleet_def Let_def version_counts_eq)
  have es: "es = sort_by by_count (fold bump (concat (map (\<lambda>r. uniq (dr_hwEvents24h r)) rows)) [])"
    by (simp add: es_def summarizeFleet_def Let_def event_counts_eq)
  have count: "count_list (map row_version rows) v = length (filter (\<lambda>r. row_version r = v) rows)" for v
    by (induction rows) auto
  have d: "distinct (map fst (sort_by by_count (fold bump ks [])))" for ks :: "string list"
    by (metis distinct.simps(1) distinct_fold_bump list.simps(8) mset_eq_imp_distinct_iff mset_map mset_sort_by)
  show ?thesis
    unfolding vs es using d ranking_desc by (auto simp: set_fold_bump count event_code_count)
qed

end
