(* ===== verification/Doubles.thy ===== *)
theory Doubles
  imports Complex_Main
begin

text \<open>
  IEEE double arithmetic as far as the program computes with fractions: rounding of a positive
  rational to 53 significant bits, ties to even. Exponents are unbounded: the values are shares
  and percentages. \<open>JsNumber\<close> says how numbers are read and printed; this theory says what a
  division or a product does to the value.
\<close>

fun bitlen :: "nat \<Rightarrow> nat" where
  "bitlen n = (if n = 0 then 0 else Suc (bitlen (n div 2)))"

declare bitlen.simps [simp del]

lemma bitlen_bounds: "0 < n \<Longrightarrow> 2 ^ (bitlen n - 1) \<le> n \<and> n < 2 ^ bitlen n \<and> 0 < bitlen n"
proof (induction n rule: less_induct)
  case (less n)
  show ?case
  proof (cases "n div 2 = 0")
    case True
    with less.prems have "n = 1" by linarith
    then show ?thesis by (simp add: bitlen.simps)
  next
    case False
    with less.prems less.IH[of "n div 2"] have ih: "2 ^ (bitlen (n div 2) - 1) \<le> n div 2"
      "n div 2 < 2 ^ bitlen (n div 2)" "0 < bitlen (n div 2)" by simp_all
    have b: "bitlen n = Suc (bitlen (n div 2))" using less.prems by (simp add: bitlen.simps)
    have "(2 :: nat) ^ bitlen (n div 2) = 2 * 2 ^ (bitlen (n div 2) - 1)"
      using ih(3) by (metis Suc_diff_1 power_Suc)
    then have "2 ^ bitlen (n div 2) \<le> n" using ih(1) by linarith
    moreover have "n < 2 * 2 ^ bitlen (n div 2)" using ih(2) by linarith
    ultimately show ?thesis by (simp add: b)
  qed
qed

text \<open>The binary exponent of a positive rational.\<close>

definition expo :: "rat \<Rightarrow> int" where
  "expo x = (case quotient_of x of (p, q) \<Rightarrow>
     let k = int (bitlen (nat p)) - int (bitlen (nat q)) in if x < 2 powi k then k - 1 else k)"

lemma expo_le:
  assumes "0 < x"
  shows "2 powi expo x \<le> x"
proof -
  obtain p q where pq: "quotient_of x = (p, q)" by force
  have q: "0 < q" using quotient_of_denom_pos[OF pq] .
  have x: "x = of_int p / of_int q" by (rule quotient_of_div[OF pq])
  have p: "0 < p" using assms q unfolding x by (simp add: zero_less_divide_iff)
  define a where "a = bitlen (nat p)"
  define b where "b = bitlen (nat q)"
  have pa: "2 ^ (a - 1) \<le> nat p" "0 < a" using bitlen_bounds[of "nat p"] p unfolding a_def by simp_all
  have qb: "nat q < 2 ^ b" using bitlen_bounds[of "nat q"] q unfolding b_def by simp
  have p': "(2 :: rat) ^ (a - 1) \<le> of_int p"
  proof -
    have "int (2 ^ (a - 1)) \<le> p" using pa(1) p by linarith
    then have "rat_of_int (int (2 ^ (a - 1))) \<le> of_int p" by (simp only: of_int_le_iff)
    then show ?thesis by simp
  qed
  have q': "of_int q < (2 :: rat) ^ b"
  proof -
    have "q < int (2 ^ b)" using qb q by linarith
    then have "rat_of_int q < of_int (int (2 ^ b))" by (simp only: of_int_less_iff)
    then show ?thesis by simp
  qed
  have "2 powi (int a - int b - 1) = (2 :: rat) ^ (a - 1) / 2 ^ b"
    using pa(2) by (simp add: power_int_diff power_diff)
  also have "\<dots> \<le> of_int p / of_int q"
    using p' q' p q by (intro frac_le) simp_all
  finally have "2 powi (int a - int b - 1) \<le> x" unfolding x .
  then show ?thesis by (simp add: expo_def pq Let_def a_def b_def)
qed

definition round_even :: "rat \<Rightarrow> int" where
  "round_even y = (let f = \<lfloor>y\<rfloor>; d = y - of_int f in
     if d < 1 / 2 then f else if 1 / 2 < d then f + 1 else if even f then f else f + 1)"

lemma round_even_error: "\<bar>of_int (round_even y) - y\<bar> \<le> 1 / 2"
  proof -
  have "of_int \<lfloor>y\<rfloor> \<le> y" "y < of_int \<lfloor>y\<rfloor> + 1" by linarith+
  then show ?thesis unfolding round_even_def Let_def abs_if by (simp split: if_splits) linarith?
qed

definition rnd :: "rat \<Rightarrow> rat" where
  "rnd x = (if x \<le> 0 then x else
     (let u = 2 powi (expo x - 52) in of_int (round_even (x / u)) * u))"

text \<open>Half a unit in the last place, relative to the value.\<close>

definition eps :: rat where "eps = 1 / 2 ^ 53"

lemma eps_pos: "0 < eps" "eps < 1"
  by (simp_all add: eps_def)

lemma rnd_error: "0 \<le> x \<Longrightarrow> \<bar>rnd x - x\<bar> \<le> x * eps"
proof (cases "x = 0")
  case False
  assume "0 \<le> x"
  with False have x: "0 < x" by simp
  define u where "u = (2 :: rat) powi (expo x - 52)"
  have u: "0 < u" by (simp add: u_def)
  have "rnd x - x = (of_int (round_even (x / u)) - x / u) * u"
    using x u by (simp add: rnd_def Let_def u_def[symmetric] left_diff_distrib)
  then have "\<bar>rnd x - x\<bar> = \<bar>of_int (round_even (x / u)) - x / u\<bar> * u"
    using u by (simp add: abs_mult)
  also have "\<dots> \<le> 1 / 2 * u" using round_even_error[of "x / u"] u by (intro mult_right_mono) simp_all
  also have "u = 2 powi expo x / 2 ^ 52" by (simp add: u_def power_int_diff)
  also have "1 / 2 * (2 powi expo x / 2 ^ 52) = (2 powi expo x) * eps" by (simp add: eps_def)
  also have "\<dots> \<le> x * eps" using expo_le[OF x] eps_pos by (intro mult_right_mono) simp_all
  finally show ?thesis .
qed (simp add: rnd_def)

lemma rnd_upper: "0 \<le> x \<Longrightarrow> rnd x \<le> x * (1 + eps)"
  using rnd_error[of x] by (simp add: abs_le_iff distrib_left)

lemma rnd_lower: "0 \<le> x \<Longrightarrow> x * (1 - eps) \<le> rnd x"
  using rnd_error[of x] by (simp add: abs_le_iff right_diff_distrib)

lemma rnd_nonneg: "0 \<le> x \<Longrightarrow> 0 \<le> rnd x"
proof -
  assume x: "0 \<le> x"
  then have "0 \<le> x * (1 - eps)" using eps_pos by simp
  with rnd_lower[OF x] show ?thesis by linarith
qed

lemma rnd_1 [simp]: "rnd 1 = 1" and rnd_1000 [simp]: "rnd 1000 = 1000"
  by code_simp+

text \<open>\<open>Math.round\<close>: to the nearest integer, halves up.\<close>

definition js_round :: "rat \<Rightarrow> int" where
  "js_round q = \<lfloor>q + 1 / 2\<rfloor>"

text \<open>\<open>Math.floor((a / b) * c)\<close> for counts \<open>a\<close>, \<open>b\<close> and a constant \<open>c\<close>.\<close>

definition floor_share :: "nat \<Rightarrow> nat \<Rightarrow> nat \<Rightarrow> int" where
  "floor_share a b c = \<lfloor>rnd (rnd (of_nat a / of_nat b) * of_nat c)\<rfloor>"

lemma floor_share_full: "0 < b \<Longrightarrow> floor_share b b 1000 = 1000"
  by (simp add: floor_share_def)

lemma floor_share_nonneg: "0 \<le> floor_share a b c"
  by (simp add: floor_share_def rnd_nonneg)

lemma near_one: "0 < e \<Longrightarrow> (1 - 8 * e) * (1 + e) * (1 + e) < (1 :: rat)"
proof -
  assume e: "0 < e"
  have "(1 - 8 * e) * (1 + e) * (1 + e) = 1 - 6 * e - 15 * (e * e) - 8 * (e * (e * e))"
    by (simp add: algebra_simps)
  moreover have "0 < e * e" "0 < e * (e * e)" using e by simp_all
  ultimately show ?thesis using e by linarith
qed

lemma floor_share_part:
  assumes "a < b" "b \<le> 2 ^ 50"
  shows "floor_share a b 1000 < 1000"
proof -
  define x where "x = (of_nat a / of_nat b :: rat)"
  have b: "(0 :: rat) < of_nat b" using assms(1) by simp
  have "of_nat (Suc a) \<le> (of_nat b :: rat)" using assms(1) by (simp only: of_nat_le_iff Suc_le_eq)
  then have x1: "x \<le> 1 - 1 / of_nat b" using b by (simp add: x_def field_simps)
  have "of_nat b \<le> (of_nat (2 ^ 50) :: rat)" using assms(2) by (simp only: of_nat_le_iff)
  then have "8 * eps \<le> 1 / of_nat b" using b by (simp add: eps_def field_simps)
  with x1 have x: "x \<le> 1 - 8 * eps" "0 \<le> x" by (simp_all add: x_def)
  have r: "0 \<le> rnd x" "rnd x \<le> x * (1 + eps)" using x rnd_nonneg rnd_upper by simp_all
  have "rnd (rnd x * 1000) \<le> rnd x * 1000 * (1 + eps)" using r by (intro rnd_upper) simp
  also have "\<dots> \<le> x * (1 + eps) * 1000 * (1 + eps)" using r eps_pos by (intro mult_right_mono) simp_all
  also have "\<dots> \<le> (1 - 8 * eps) * (1 + eps) * 1000 * (1 + eps)" using x eps_pos by (intro mult_right_mono) simp_all
  also have "\<dots> = 1000 * ((1 - 8 * eps) * (1 + eps) * (1 + eps))" by (simp only: mult_ac)
  also have "\<dots> < 1000" using near_one[OF eps_pos(1)] by linarith
  finally show ?thesis by (simp add: floor_share_def x_def floor_less_iff)
qed

end
