(* ===== verification/Rollout.thy ===== *)
theory Rollout
  imports Dashboard Doubles
begin

text \<open>
  Following an agent update through the fleet, \<open>packages/shared/src/rollout.ts\<close>: every device is in
  exactly one bucket, and the rollout is complete only when all are in \<open>done\<close>, which asks for the
  version, the connection and the health of the device.
\<close>

section \<open>Definitions\<close>

datatype rollout_bucket = Done | UpdatedUnhealthy | UpdatedOffline | PendingOnline | PendingOffline | Unknown

fun bucket_string :: "rollout_bucket \<Rightarrow> string" where
  "bucket_string Done = ''done''"
| "bucket_string UpdatedUnhealthy = ''updatedUnhealthy''"
| "bucket_string UpdatedOffline = ''updatedOffline''"
| "bucket_string PendingOnline = ''pendingOnline''"
| "bucket_string PendingOffline = ''pendingOffline''"
| "bucket_string Unknown = ''unknown''"

definition ROLLOUT_BUCKETS :: "rollout_bucket list" where
  "ROLLOUT_BUCKETS = [Done, UpdatedUnhealthy, UpdatedOffline, PendingOnline, PendingOffline, Unknown]"

definition isRolloutBucket :: "json \<Rightarrow> bool" where
  "isRolloutBucket v = (case v of JStr s \<Rightarrow> s \<in> set (map bucket_string ROLLOUT_BUCKETS) | _ \<Rightarrow> False)"

definition HW_SINCE :: string where "HW_SINCE = ''1.4.7''"

definition atOrAbove :: "string \<Rightarrow> string \<Rightarrow> bool" where
  "atOrAbove ver target = (\<not> semverLt ver target)"

text \<open>\<open>if (ver)\<close>: the empty string counts as no version.\<close>

definition ver_of :: "dash_row \<Rightarrow> string option" where
  "ver_of r = (case dr_agentVer r of None \<Rightarrow> None | Some v \<Rightarrow> if v = [] then None else Some v)"

text \<open>\<open>stateOf\<close> is the same code as \<open>toState\<close> of \<open>dashboard.ts\<close>.\<close>

definition healthProblems :: "dash_row \<Rightarrow> string list" where
  "healthProblems r =
     (let out = push_if (row_tier r = NOT_READY) ''NOT_READY'' [];
          out = push_if (has_caps_without a11y r) ''NO_ACCESSIBILITY'' out;
          out = push_if (dr_drops24h r \<ge> flappingDrops) ''FLAPPING'' out
      in case dr_hw r of
          None \<Rightarrow> push_if (case ver_of r of None \<Rightarrow> False | Some v \<Rightarrow> atOrAbove v HW_SINCE) ''NO_HW_DATA'' out
        | Some h \<Rightarrow>
            (let out = push_if (num_at_least h ''mainLagMs'' lagMs) ''LAG'' out;
                 out = push_if (panel_off r h) ''PANEL_OFF'' out
             in push_if (hw_num h ''touchDevs'' = Some (Fin 0)) ''TOUCH_GONE'' out))"

definition bucket_of :: "string \<Rightarrow> dash_row \<Rightarrow> rollout_bucket" where
  "bucket_of target r = (case ver_of r of
      None \<Rightarrow> Unknown
    | Some ver \<Rightarrow>
        if atOrAbove ver target then
          (if \<not> dr_online r then UpdatedOffline
           else if healthProblems r \<noteq> [] then UpdatedUnhealthy else Done)
        else if dr_online r then PendingOnline else PendingOffline)"

text \<open>The accumulators of the loop.\<close>

record rollout_acc =
  ra_buckets :: "rollout_bucket \<Rightarrow> string list"
  ra_reasons :: "(string \<times> string list) list"
  ra_versions :: "(string \<times> nat) list"
  ra_suggested :: "string option"

definition rollout_step :: "string \<Rightarrow> dash_row \<Rightarrow> rollout_acc \<Rightarrow> rollout_acc" where
  "rollout_step target r acc =
     (let acc = (case ver_of r of
            None \<Rightarrow> acc
          | Some ver \<Rightarrow> acc\<lparr>ra_versions := bump ver (ra_versions acc),
              ra_suggested := (case ra_suggested acc of None \<Rightarrow> Some ver
                | Some s \<Rightarrow> if semverLt s ver then Some ver else Some s)\<rparr>);
          b = bucket_of target r;
          acc = (if b = UpdatedUnhealthy
            then acc\<lparr>ra_reasons := AList.update (dr_deviceId r) (healthProblems r) (ra_reasons acc)\<rparr> else acc)
      in acc\<lparr>ra_buckets := (ra_buckets acc)(b := ra_buckets acc b @ [dr_deviceId r])\<rparr>)"

definition rollout_start :: rollout_acc where
  "rollout_start = \<lparr>ra_buckets = (\<lambda>_. []), ra_reasons = [], ra_versions = [], ra_suggested = None\<rparr>"

record rollout =
  ro_target :: string
  ro_suggestedTarget :: "string option"
  ro_generatedAt :: int
  ro_total :: nat
  ro_counts :: "rollout_bucket \<Rightarrow> nat"
  ro_percentDone :: rat
  ro_complete :: bool
  ro_versions :: "(string \<times> nat) list"
  ro_buckets :: "rollout_bucket \<Rightarrow> string list"
  ro_reasons :: "(string \<times> string list) list"

text \<open>The comparison never returns 0: the order of versions that compare equal is the engine's.\<close>

definition by_version :: "string \<times> nat \<Rightarrow> string \<times> nat \<Rightarrow> int" where
  "by_version a b = (if semverLt (fst a) (fst b) then 1 else -1)"

definition summarizeRollout :: "dash_row list \<Rightarrow> string \<Rightarrow> int \<Rightarrow> rollout" where
  "summarizeRollout rows target now =
     (let acc = fold (rollout_step target) rows rollout_start;
          counts = (\<lambda>b. length (ra_buckets acc b));
          total = length rows
      in \<lparr>ro_target = target, ro_suggestedTarget = ra_suggested acc, ro_generatedAt = now, ro_total = total,
          ro_counts = counts,
          ro_percentDone = (if total \<noteq> 0 then of_int (floor_share (counts Done) total 1000) / 10 else 0),
          ro_complete = (0 < total \<and> counts Done = total),
          ro_versions = sort_by by_version (ra_versions acc),
          ro_buckets = ra_buckets acc, ro_reasons = ra_reasons acc\<rparr>)"

section \<open>The accumulators\<close>

lemma buckets_fold:
  "ra_buckets (fold (rollout_step target) rows acc) b =
     ra_buckets acc b @ map dr_deviceId (filter (\<lambda>r. bucket_of target r = b) rows)"
  by (induction rows arbitrary: acc) (auto simp: rollout_step_def Let_def split: option.splits)

lemma versions_fold:
  "ra_versions (fold (rollout_step target) rows acc) = fold bump (List.map_filter ver_of rows) (ra_versions acc)"
  by (induction rows arbitrary: acc)
    (auto simp: rollout_step_def Let_def List.map_filter_simps split: option.splits)

lemma suggested_fold:
  "ra_suggested (fold (rollout_step target) rows acc) =
     newest semverLt (ra_suggested acc) (List.map_filter ver_of rows)"
proof (induction rows arbitrary: acc)
  case (Cons r rows)
  have "ra_suggested (rollout_step target r acc) = (case ver_of r of None \<Rightarrow> ra_suggested acc
      | Some ver \<Rightarrow> (case ra_suggested acc of None \<Rightarrow> Some ver | Some s \<Rightarrow> if semverLt s ver then Some ver else Some s))"
    by (simp add: rollout_step_def Let_def split: option.splits)
  then show ?case using Cons.IH by (simp add: List.map_filter_simps split: option.splits)
qed (simp add: List.map_filter_simps)

lemma reasons_fold:
  assumes "distinct (map dr_deviceId rows)" "dom (map_of (ra_reasons acc)) \<inter> dr_deviceId ` set rows = {}"
  shows "map_of (ra_reasons (fold (rollout_step target) rows acc)) d =
    (case find (\<lambda>r. dr_deviceId r = d) rows of
       Some r \<Rightarrow> if bucket_of target r = UpdatedUnhealthy then Some (healthProblems r) else None
     | None \<Rightarrow> map_of (ra_reasons acc) d)"
  using assms
proof (induction rows arbitrary: acc)
  case (Cons r rows)
  let ?acc = "rollout_step target r acc"
  have m: "map_of (ra_reasons ?acc) = (if bucket_of target r = UpdatedUnhealthy
      then (map_of (ra_reasons acc))(dr_deviceId r \<mapsto> healthProblems r) else map_of (ra_reasons acc))"
    by (auto simp: rollout_step_def Let_def update_conv' split: option.splits)
  have disj: "dom (map_of (ra_reasons ?acc)) \<inter> dr_deviceId ` set rows = {}"
    using Cons.prems unfolding m by auto
  have none: "map_of (ra_reasons acc) (dr_deviceId r) = None" using Cons.prems(2) by auto
  have notin: "find (\<lambda>r'. dr_deviceId r' = dr_deviceId r) rows = None"
    using Cons.prems(1) by (auto simp: find_None_iff image_iff)
  show ?case
    using Cons.IH[OF _ disj] Cons.prems(1) notin none by (auto simp: m split: option.splits)
qed simp

text \<open>The comparison of the version list is only a preorder, enough for a sorted result.\<close>

interpretation version_list: total_cmp by_version
proof
  fix x y z :: "string \<times> nat"
  show "by_version x y \<le> 0 \<or> by_version y x \<le> 0"
    using semver.lt_asym[of "fst x" "fst y"] by (auto simp: by_version_def)
  show "by_version x y \<le> 0 \<Longrightarrow> by_version y z \<le> 0 \<Longrightarrow> by_version x z \<le> 0"
    using semver.not_lt_trans[of "fst x" "fst y" "fst z"] by (auto simp: by_version_def split: if_splits)
qed

lemma bucket_count: "ro_counts (summarizeRollout rows target now) b = length (filter (\<lambda>r. bucket_of target r = b) rows)"
  by (simp add: summarizeRollout_def Let_def buckets_fold rollout_start_def)

lemma all_done_iff: "length (filter P rows) = length rows \<longleftrightarrow> (\<forall>r \<in> set rows. P r)"
  by (metis filter_True length_filter_less nat_neq_iff)

lemma buckets_of: "ro_buckets (summarizeRollout rows target now) b = map dr_deviceId (filter (\<lambda>r. bucket_of target r = b) rows)"
  by (simp add: summarizeRollout_def Let_def buckets_fold rollout_start_def)

lemma complete_iff: "ro_complete (summarizeRollout rows target now) \<longleftrightarrow> rows \<noteq> [] \<and> (\<forall>r \<in> set rows. bucket_of target r = Done)"
  by (simp add: summarizeRollout_def Let_def buckets_fold rollout_start_def all_done_iff)

lemma bucket_sum:
  "sum_list (map (\<lambda>b. length (filter (\<lambda>r. f r = b) rows)) ROLLOUT_BUCKETS) = length rows"
proof (induction rows)
  case (Cons r rows)
  then show ?case by (cases "f r") (simp_all add: ROLLOUT_BUCKETS_def)
qed (simp add: ROLLOUT_BUCKETS_def)

lemma not_by_version: "by_version a b \<le> 0 \<longleftrightarrow> \<not> semverLt (fst a) (fst b)"
  by (simp add: by_version_def)

section \<open>Properties\<close>

lemma bucket_Done_iff:
  "bucket_of target r = Done \<longleftrightarrow>
     (\<exists>v. dr_agentVer r = Some v \<and> v \<noteq> [] \<and> \<not> semverLt v target) \<and> dr_online r \<and> healthProblems r = []"
  by (auto simp: bucket_of_def ver_of_def atOrAbove_def split: option.splits if_splits)

lemma healthy_iff:
  "healthProblems r = [] \<longleftrightarrow> row_tier r \<noteq> NOT_READY \<and> \<not> has_caps_without a11y r \<and>
     dr_drops24h r < flappingDrops \<and>
     (case dr_hw r of
        None \<Rightarrow> (\<forall>v. ver_of r = Some v \<longrightarrow> semverLt v HW_SINCE)
      | Some h \<Rightarrow> \<not> num_at_least h ''mainLagMs'' lagMs \<and> \<not> panel_off r h \<and> hw_num h ''touchDevs'' \<noteq> Some (Fin 0))"
  by (auto simp: healthProblems_def Let_def atOrAbove_def split: option.splits)

text \<open>
  Every device of a rollout is in exactly one bucket: the buckets hold the devices in row order,
  each counted where \<open>bucket_of\<close> puts it, and the six counts sum to the number of devices.
\<close>

theorem rollout_buckets_partition:
  "(\<forall>b. ro_buckets (summarizeRollout rows target now) b =
        map dr_deviceId (filter (\<lambda>r. bucket_of target r = b) rows) \<and>
      ro_counts (summarizeRollout rows target now) b = length (ro_buckets (summarizeRollout rows target now) b)) \<and>
   sum_list (map (ro_counts (summarizeRollout rows target now)) ROLLOUT_BUCKETS) =
     ro_total (summarizeRollout rows target now) \<and>
   ro_total (summarizeRollout rows target now) = length rows"
proof -
  have "ro_total (summarizeRollout rows target now) = length rows"
    by (simp add: summarizeRollout_def Let_def)
  then show ?thesis
    using bucket_sum[of "bucket_of target" rows] buckets_of[of rows target now]
    by (simp add: bucket_count[abs_def] bucket_count)
qed

text \<open>
  C27 A rollout is complete exactly when the fleet is not empty and every device runs the target
  version or a newer one, is online, and is healthy: not \<open>NOT_READY\<close>, accessibility granted, not
  flapping, no lag, panel and touch working, and hardware figures present where the agent sends them.
\<close>

theorem rollout_complete_iff:
  "ro_complete (summarizeRollout rows target now) \<longleftrightarrow> rows \<noteq> [] \<and>
     (\<forall>r \<in> set rows. (\<exists>v. dr_agentVer r = Some v \<and> v \<noteq> [] \<and> \<not> semverLt v target) \<and> dr_online r \<and>
        row_tier r \<noteq> NOT_READY \<and> \<not> has_caps_without a11y r \<and> dr_drops24h r < flappingDrops \<and>
        (case dr_hw r of
           None \<Rightarrow> (\<forall>v. dr_agentVer r = Some v \<longrightarrow> semverLt v HW_SINCE)
         | Some h \<Rightarrow> \<not> num_at_least h ''mainLagMs'' lagMs \<and> \<not> panel_off r h \<and> hw_num h ''touchDevs'' \<noteq> Some (Fin 0)))"
proof -
  have "bucket_of target r = Done \<longleftrightarrow> (\<exists>v. dr_agentVer r = Some v \<and> v \<noteq> [] \<and> \<not> semverLt v target) \<and> dr_online r \<and>
        row_tier r \<noteq> NOT_READY \<and> \<not> has_caps_without a11y r \<and> dr_drops24h r < flappingDrops \<and>
        (case dr_hw r of
           None \<Rightarrow> (\<forall>v. dr_agentVer r = Some v \<longrightarrow> semverLt v HW_SINCE)
         | Some h \<Rightarrow> \<not> num_at_least h ''mainLagMs'' lagMs \<and> \<not> panel_off r h \<and> hw_num h ''touchDevs'' \<noteq> Some (Fin 0))" for r
  proof (cases "dr_agentVer r")
    case None
    then show ?thesis by (simp add: bucket_of_def ver_of_def)
  next
    case (Some v)
    then have "v \<noteq> [] \<Longrightarrow> ver_of r = Some v" by (simp add: ver_of_def)
    with Some show ?thesis by (cases "v = []") (simp_all add: bucket_Done_iff healthy_iff split: option.split)
  qed
  then show ?thesis by (simp only: complete_iff)
qed

definition demo_hw :: hw_volatile where
  "demo_hw = \<lparr>hw_num = (\<lambda>k. if k = ''touchDevs'' then Some (Fin 2) else None), hw_fgPkg = None\<rparr>"

definition demo_done :: dash_row where
  "demo_done = (hd demo_rows)\<lparr>dr_caps := Some \<lparr>projectMedia = Allow, a11y = True, knox = Licensed, overlay = True,
     secureSettings = True, encoder = None\<rparr>, dr_hw := Some demo_hw\<rparr>"

theorem rollout_complete_iff_witness:
  "ro_complete (summarizeRollout [demo_done] ''1.4.8'' 0) \<and> \<not> ro_complete (summarizeRollout (demo_done # demo_rows) ''1.4.8'' 0)"
proof -
  have "dr_agentVer demo_done = Some ''1.4.9''" "dr_online demo_done" "dr_drops24h demo_done < flappingDrops"
    "row_tier demo_done \<noteq> NOT_READY" "\<not> has_caps_without a11y demo_done" "\<not> semverLt ''1.4.9'' ''1.4.8''"
    "\<not> panel_off demo_done demo_hw" "\<not> num_at_least demo_hw ''mainLagMs'' lagMs" "hw_num demo_hw ''touchDevs'' = Some (Fin 2)"
    by code_simp+
  moreover have "dr_hw demo_done = Some demo_hw" by (simp add: demo_done_def)
  moreover have "\<exists>r \<in> set demo_rows. \<not> dr_online r" by (simp add: demo_rows_def)
  ultimately show ?thesis
    using rollout_complete_iff[of "[demo_done]" "''1.4.8''" 0] rollout_complete_iff[of "demo_done # demo_rows" "''1.4.8''" 0]
    by auto
qed

text \<open>
  The percentage shown is 100 exactly for a complete rollout, for fleets of up to \<open>2 ^ 50\<close> devices:
  the two roundings of the floating-point expression never lift an unfinished rollout to 100, nor
  keep a finished one below; it is never negative or above 100.
\<close>

theorem rollout_percent:
  assumes "length rows \<le> 2 ^ 50"
  shows "(ro_percentDone (summarizeRollout rows target now) = 100 \<longleftrightarrow> ro_complete (summarizeRollout rows target now)) \<and>
    0 \<le> ro_percentDone (summarizeRollout rows target now) \<and> ro_percentDone (summarizeRollout rows target now) \<le> 100"
proof -
  let ?done = "length (filter (\<lambda>r. bucket_of target r = Done) rows)"
  have pct: "ro_percentDone (summarizeRollout rows target now) =
      (if rows = [] then 0 else of_int (floor_share ?done (length rows) 1000) / 10)"
    and cpl: "ro_complete (summarizeRollout rows target now) \<longleftrightarrow> rows \<noteq> [] \<and> ?done = length rows"
    by (simp_all add: summarizeRollout_def Let_def buckets_fold rollout_start_def)
  have le: "?done \<le> length rows" by simp
  show ?thesis
  proof (cases "rows = [] \<or> ?done = length rows")
    case True
    then show ?thesis by (auto simp: pct cpl floor_share_full)
  next
    case False
    then have "?done < length rows" using le by linarith
    from floor_share_part[OF this assms] have lt: "floor_share ?done (length rows) 1000 < 1000" .
    have "0 \<le> floor_share ?done (length rows) 1000" by (rule floor_share_nonneg)
    then have "0 \<le> (of_int (floor_share ?done (length rows) 1000) :: rat)" by simp
    moreover have "of_int (floor_share ?done (length rows) 1000) < (1000 :: rat)"
      using lt by (metis of_int_less_iff of_int_numeral)
    ultimately show ?thesis using False by (simp add: pct cpl)
  qed
qed

lemma rollout_percent_witness:
  "ro_percentDone (summarizeRollout demo_rows ''1.4.9'' 0) \<noteq> 100 \<and> length demo_rows \<le> 2 ^ 50"
proof -
  have l: "length demo_rows \<le> 2 ^ 50" by (simp add: demo_rows_def)
  have "\<not> ro_complete (summarizeRollout demo_rows ''1.4.9'' 0)"
    by (simp add: complete_iff bucket_Done_iff demo_rows_def)
  with rollout_percent[OF l, of "''1.4.9''" 0] l show ?thesis by simp
qed

text \<open>
  The suggested target is a version some device runs and no device runs a newer one; there is no
  suggestion exactly when no device reports a version.
\<close>

theorem rollout_suggested_newest:
  "(case ro_suggestedTarget (summarizeRollout rows target now) of
      None \<Rightarrow> (\<forall>r \<in> set rows. dr_agentVer r = None \<or> dr_agentVer r = Some [])
    | Some s \<Rightarrow> (\<exists>r \<in> set rows. dr_agentVer r = Some s \<and> s \<noteq> []) \<and>
        (\<forall>r \<in> set rows. \<forall>v. dr_agentVer r = Some v \<and> v \<noteq> [] \<longrightarrow> \<not> semverLt s v))"
proof -
  have sug: "ro_suggestedTarget (summarizeRollout rows target now) = newest semverLt None (List.map_filter ver_of rows)"
    by (simp add: summarizeRollout_def Let_def suggested_fold rollout_start_def)
  have ver: "ver_of r = Some v \<longleftrightarrow> dr_agentVer r = Some v \<and> v \<noteq> []" for r v
    by (auto simp: ver_of_def split: option.splits)
  show ?thesis
  proof (cases "newest semverLt None (List.map_filter ver_of rows)")
    case None
    then have "\<forall>r \<in> set rows. ver_of r = None"
      unfolding newest_None_iff by (metis empty_iff empty_set not_Some_eq set_map_filter)
    moreover have "ver_of r = None \<longleftrightarrow> dr_agentVer r = None \<or> dr_agentVer r = Some []" for r
      by (simp add: ver_of_def split: option.splits)
    ultimately show ?thesis by (simp add: sug None)
  next
    case (Some s)
    from semver.newest_greatest[OF this] show ?thesis
      by (auto simp: sug Some set_map_filter ver)
  qed
qed

lemma rollout_suggested_newest_witness:
  "ro_suggestedTarget (summarizeRollout demo_rows ''1.0.0'' 0) = Some ''1.4.9''"
  using rollout_suggested_newest[of demo_rows "''1.0.0''" 0]
  by (simp add: demo_rows_def split: option.splits)

text \<open>
  Reasons are given for the updated but unhealthy devices and for no other: with distinct device
  ids the entry of a device is its list of health problems, and it is not empty. The list of versions
  holds each version once with its count, newest first.
\<close>

theorem rollout_reasons_and_versions:
  assumes "distinct (map dr_deviceId rows)"
  shows "(\<forall>r \<in> set rows. map_of (ro_reasons (summarizeRollout rows target now)) (dr_deviceId r) =
        (if bucket_of target r = UpdatedUnhealthy then Some (healthProblems r) else None)) \<and>
    (\<forall>r \<in> set rows. bucket_of target r = UpdatedUnhealthy \<longrightarrow> healthProblems r \<noteq> []) \<and>
    set (ro_versions (summarizeRollout rows target now)) =
      {(v, length (filter (\<lambda>r. dr_agentVer r = Some v) rows)) | v. v \<noteq> [] \<and> Some v \<in> dr_agentVer ` set rows} \<and>
    sorted_wrt (\<lambda>a b. \<not> semverLt (fst a) (fst b)) (ro_versions (summarizeRollout rows target now))"
proof -
  have vs: "ro_versions (summarizeRollout rows target now) =
      sort_by by_version (fold bump (List.map_filter ver_of rows) [])"
    by (simp add: summarizeRollout_def Let_def versions_fold rollout_start_def)
  have cnt: "v \<noteq> [] \<Longrightarrow> count_list (List.map_filter ver_of rows) v = length (filter (\<lambda>r. dr_agentVer r = Some v) rows)" for v
    by (induction rows) (auto simp: List.map_filter_simps ver_of_def split: option.splits)
  have ver: "ver_of r = Some v \<longleftrightarrow> dr_agentVer r = Some v \<and> v \<noteq> []" for r v
    by (auto simp: ver_of_def split: option.splits)
  have mem: "v \<in> set (List.map_filter ver_of rows) \<longleftrightarrow> v \<noteq> [] \<and> Some v \<in> dr_agentVer ` set rows" for v
    unfolding set_map_filter ver by (force simp: image_iff)
  have find: "find (\<lambda>r'. dr_deviceId r' = dr_deviceId r) rows = Some r" if "r \<in> set rows" for r
    using assms that by (induction rows) auto
  show ?thesis
  proof (intro conjI ballI impI)
    fix r assume "r \<in> set rows"
    then show "map_of (ro_reasons (summarizeRollout rows target now)) (dr_deviceId r) =
        (if bucket_of target r = UpdatedUnhealthy then Some (healthProblems r) else None)"
      using reasons_fold[OF assms, of rollout_start target "dr_deviceId r"] find
      by (simp add: summarizeRollout_def Let_def rollout_start_def)
  next
    fix r assume "bucket_of target r = UpdatedUnhealthy"
    then show "healthProblems r \<noteq> []" by (auto simp: bucket_of_def split: option.splits if_splits)
  next
    show "set (ro_versions (summarizeRollout rows target now)) =
        {(v, length (filter (\<lambda>r. dr_agentVer r = Some v) rows)) | v. v \<noteq> [] \<and> Some v \<in> dr_agentVer ` set rows}"
      unfolding vs set_sort_by set_fold_bump mem using cnt by auto
    show "sorted_wrt (\<lambda>a b. \<not> semverLt (fst a) (fst b)) (ro_versions (summarizeRollout rows target now))"
      using version_list.sorted_sort_by unfolding vs not_by_version .
  qed
qed

lemma rollout_reasons_and_versions_witness:
  "map_of (ro_reasons (summarizeRollout demo_rows ''1.0.0'' 0)) ''d2'' = None"
proof -
  have "distinct (map dr_deviceId demo_rows)" by (simp add: demo_rows_def)
  from rollout_reasons_and_versions[OF this, of "''1.0.0''" 0]
  show ?thesis by (simp add: demo_rows_def bucket_of_def ver_of_def)
qed

end
