(* ===== verification/Fleet.thy ===== *)
theory Fleet
  imports Devices Rollout
begin

text \<open>
  \<open>apps/rc-api/src/fleet/fleet.service.ts\<close>: the rows behind the dashboard, gathered from the tables
  and from the live hashes, and the answers built on them. Where a query has no \<open>ORDER BY\<close>, or
  leaves ties, the model takes the order of the table.
\<close>

section \<open>The rows of the dashboard\<close>

definition DAY :: int where "DAY = 86400000"

definition fleet_rows :: "db \<Rightarrow> int \<Rightarrow> joined_row list" where
  "fleet_rows d op = filter (\<lambda>r. \<not> dv_stale (jr_dev r) \<and> may_list d op (jr_dev r)) (map (join_row d) (tb_devices d))"

definition last_session :: "db \<Rightarrow> string \<Rightarrow> int option" where
  "last_session d dev = (let ts = map (\<lambda>p. ss_requestedAt (snd p)) (filter (\<lambda>p. ss_deviceId (snd p) = dev) (tb_sessions d))
     in if ts = [] then None else Some (Max (set ts)))"

definition drop_event :: "int \<Rightarrow> conn_event_row \<Rightarrow> bool" where
  "drop_event since e = (ce_source e = ''broker'' \<and> ce_event e = ''disconnected'' \<and> of_int since \<le> ce_at e)"

definition drops_since :: "db \<Rightarrow> int \<Rightarrow> string \<Rightarrow> nat" where
  "drops_since d since dev = length (filter (\<lambda>e. drop_event since e \<and> ce_deviceId e = dev) (tb_connEvents d))"

definition hw_codes_since :: "db \<Rightarrow> int \<Rightarrow> string \<Rightarrow> string list" where
  "hw_codes_since d since dev = uniq (map he_code (filter (\<lambda>e. since \<le> he_at e \<and> he_deviceId e = dev) (tb_hwEvents d)))"

definition live_volatile :: "(string \<Rightarrow> string option) \<Rightarrow> partial_volatile" where
  "live_volatile hash = \<lparr>pv_screenOn = Some (hash_flag hash ''screenOn''), pv_charging = Some (hash_flag hash ''charging''),
     pv_batteryPct = Some (hash_number hash ''batteryPct''),
     pv_net = Some (case hash ''net'' of None \<Rightarrow> ''unknown'' | Some s \<Rightarrow> s), pv_rssi = Some (hash_number hash ''rssi'')\<rparr>"

definition dash_row_of :: "(string \<Rightarrow> int option) \<Rightarrow> (string \<Rightarrow> nat) \<Rightarrow> (string \<Rightarrow> string list) \<Rightarrow> joined_row \<Rightarrow>
    (string \<Rightarrow> string option) \<Rightarrow> dash_row" where
  "dash_row_of session drops codes r hash = \<lparr>dr_deviceId = jr_deviceId r, dr_label = dv_label (jr_dev r),
     dr_group = jr_groupName r, dr_online = hash_flag hash ''online'', dr_lastSeenMs = dv_lastSeen (jr_dev r),
     dr_agentVer = map_option cp_agentVer (jr_caps r),
     dr_caps = map_option (\<lambda>c. (row_caps (Some c))\<lparr>encoder := None\<rparr>) (jr_caps r),
     dr_needsReprovisioning = dv_needsReprovisioning (jr_dev r), dr_volatile = live_volatile hash,
     dr_hw = hwFromHash hash, dr_lastSessionMs = session (jr_deviceId r), dr_drops24h = drops (jr_deviceId r),
     dr_hwEvents24h = codes (jr_deviceId r)\<rparr>"

text \<open>The three counts are queries of their own; PostgreSQL's \<open>now()\<close> is read when each runs.\<close>

definition pg_since :: "(db \<Rightarrow> int \<Rightarrow> 'a) \<Rightarrow> ('r, 'a) handler" where
  "pg_since f w = pg_read (\<lambda>d. f d (w_now w - DAY)) w"

definition live_hashes :: "'r redis_exec \<Rightarrow> joined_row list \<Rightarrow> ('r, (string \<Rightarrow> string option) list) handler" where
  "live_hashes ex rows = bindE (pipe ex (map (\<lambda>r. HGetAll (key_string (KDevice (jr_deviceId r)))) rows))
     (\<lambda>live. ret (map reply_hash live))"

definition loadDashRows :: "'r redis_exec \<Rightarrow> int \<Rightarrow> ('r, dash_row list \<times> int) handler" where
  "loadDashRows ex op =
     bindE (gets w_now) (\<lambda>now.
     bindE (pg_read (\<lambda>d. fleet_rows d op)) (\<lambda>rows.
     bindE (live_hashes ex rows) (\<lambda>live.
     bindE (pg_read last_session) (\<lambda>session.
     bindE (pg_since drops_since) (\<lambda>drops.
     bindE (pg_since hw_codes_since) (\<lambda>codes.
     ret (map2 (dash_row_of session drops codes) rows live, now)))))))"

section \<open>Dashboard and lists\<close>

definition names_of :: "dash_row list \<Rightarrow> (string \<times> string) list" where
  "names_of rows = fold (\<lambda>r m. case dr_label r of None \<Rightarrow> m | Some l \<Rightarrow> if l = [] then m else AList.update (dr_deviceId r) l m) rows []"

definition fleet_dashboard :: "'r redis_exec \<Rightarrow> (string \<Rightarrow> string \<Rightarrow> int) \<Rightarrow> int \<Rightarrow> ('r, dashboard \<times> (string \<times> string) list) handler" where
  "fleet_dashboard ex localeCompare op = bindE (loadDashRows ex op)
     (\<lambda>(rows, now). ret (summarizeFleet localeCompare rows now 30, names_of rows))"

definition KNOWN_LIST_KEYS :: "string list" where
  "KNOWN_LIST_KEYS = [''online'', ''offline'', ''offlineOver24h'', ''neverSeen'', ''notReady'', ''flapping'',
     ''permissionsComplete'', ''permissionsIncomplete'', ''permissionsUnknown'', ''missingSecureSettings'', ''missingA11y'', ''missingOverlay'',
     ''lagging'', ''hot'', ''lowMem'', ''lowDisk'', ''panelOff'', ''touchGone'', ''noHwData'',
     ''uiIdle6h'', ''uiIdle24h'', ''noSession7d'', ''lowBattery'', ''notCharging'', ''weakSignal'', ''wifi'', ''cellular'', ''ethernet'', ''outdated'',
     ''tier:READY'', ''tier:DEGRADED'', ''tier:NOT_READY'', ''tier:OFFLINE'']"

text \<open>\<open>/^ver:[\w.\-]{1,32}$/\<close>\<close>

definition is_letter :: "char \<Rightarrow> bool" where
  "is_letter c = (let n = (of_char c :: nat) in 65 \<le> n \<and> n \<le> 90 \<or> 97 \<le> n \<and> n \<le> 122)"

definition is_word_char :: "char \<Rightarrow> bool" where
  "is_word_char c = (is_letter c \<or> is_digit c \<or> c \<in> set ''_.-'')"

definition version_key :: "string \<Rightarrow> bool" where
  "version_key k = (prefix ''ver:'' k \<and> (let v = drop 4 k in v \<noteq> [] \<and> length v \<le> 32 \<and> (\<forall>c \<in> set v. is_word_char c)))"

definition valid_list_key :: "string \<Rightarrow> bool" where
  "valid_list_key k = (k \<in> set KNOWN_LIST_KEYS \<or> version_key k)"

text \<open>\<open>briefOf(byId.get(id)!)\<close> for each id; a missing id would throw.\<close>

definition by_id :: "dash_row list \<Rightarrow> string \<Rightarrow> dash_row option" where
  "by_id rows dev = find (\<lambda>r. dr_deviceId r = dev) (rev rows)"

definition brief_rows :: "dash_row list \<Rightarrow> string list \<Rightarrow> device_brief list option" where
  "brief_rows rows ids = those (map (\<lambda>i. map_option briefOf (by_id rows i)) ids)"

definition or_throw :: "'a option \<Rightarrow> ('r, 'a) handler" where
  "or_throw x = (case x of None \<Rightarrow> raise (ThrownError ''TypeError'') | Some a \<Rightarrow> ret a)"

record list_answer =
  la_key :: string
  la_count :: nat
  la_generatedAt :: int
  la_rows :: "(device_brief \<times> string list) list"

definition list_answer_of :: "string \<Rightarrow> int \<Rightarrow> (device_brief \<times> string list) list \<Rightarrow> list_answer" where
  "list_answer_of key now rows = \<lparr>la_key = key, la_count = length rows, la_generatedAt = now, la_rows = rows\<rparr>"

text \<open>\<open>/^rollout:([A-Za-z]+):(\d{1,4}\.\d{1,4}\.\d{1,4})$/\<close>\<close>

definition parse_rollout_key :: "string \<Rightarrow> (rollout_bucket \<times> string) option" where
  "parse_rollout_key key = (if \<not> prefix ''rollout:'' key then None else
     (let r = drop 8 key; b = takeWhile is_letter r; v = dropWhile is_letter r in
      case v of [] \<Rightarrow> None
      | c # ver \<Rightarrow> if c \<noteq> CHR '':'' \<or> \<not> isValidVersion ver then None
          else map_option (\<lambda>x. (x, ver)) (find (\<lambda>x. bucket_string x = b) ROLLOUT_BUCKETS)))"

definition rolloutList :: "'r redis_exec \<Rightarrow> int \<Rightarrow> string \<Rightarrow> ('r, list_answer) handler" where
  "rolloutList ex op key = (case parse_rollout_key key of
      None \<Rightarrow> raise NotFound
    | Some (b, ver) \<Rightarrow> bindE (loadDashRows ex op) (\<lambda>(rows, now).
        let r = summarizeRollout rows ver now; ids = ro_buckets r b in
        bindE (or_throw (brief_rows rows ids)) (\<lambda>bs.
          ret (list_answer_of key now (zip bs (map (\<lambda>i. list_at (ro_reasons r) i) ids))))))"

definition dashboardList :: "'r redis_exec \<Rightarrow> (string \<Rightarrow> string \<Rightarrow> int) \<Rightarrow> int \<Rightarrow> string \<Rightarrow> ('r, list_answer) handler" where
  "dashboardList ex localeCompare op key =
     (if prefix ''rollout:'' key then rolloutList ex op key
      else bindE (loadDashRows ex op) (\<lambda>(rows, now).
        let lists = d_lists (summarizeFleet localeCompare rows now 0) in
        if \<not> valid_list_key key then raise NotFound
        else bindE (or_throw (brief_rows rows (list_at lists key))) (\<lambda>bs.
          ret (list_answer_of key now (map (\<lambda>b. (b, [])) bs)))))"

section \<open>Rollout\<close>

record rollout_summary =
  rs_target :: string
  rs_suggestedTarget :: "string option"
  rs_generatedAt :: int
  rs_total :: nat
  rs_counts :: "rollout_bucket \<Rightarrow> nat"
  rs_percentDone :: rat
  rs_complete :: bool
  rs_versions :: "(string \<times> nat) list"
  rs_problemDevices :: nat

definition summary_of :: "rollout \<Rightarrow> rollout_summary" where
  "summary_of r = \<lparr>rs_target = ro_target r, rs_suggestedTarget = ro_suggestedTarget r, rs_generatedAt = ro_generatedAt r,
     rs_total = ro_total r, rs_counts = ro_counts r, rs_percentDone = ro_percentDone r, rs_complete = ro_complete r,
     rs_versions = ro_versions r, rs_problemDevices = length (ro_reasons r)\<rparr>"

definition target_of :: "string option \<Rightarrow> string option \<Rightarrow> string" where
  "target_of raw suggested = (if raw \<noteq> None \<and> raw \<noteq> Some [] then the raw
     else case suggested of None \<Rightarrow> ''0.0.0'' | Some s \<Rightarrow> if s = [] then ''0.0.0'' else s)"

definition fleet_rollout :: "'r redis_exec \<Rightarrow> int \<Rightarrow> string option \<Rightarrow> ('r, rollout_summary) handler" where
  "fleet_rollout ex op targetRaw =
     (if targetRaw \<noteq> None \<and> targetRaw \<noteq> Some [] \<and> \<not> isValidVersion (the targetRaw) then raise (BadRequest ''BAD_TARGET'')
      else bindE (loadDashRows ex op) (\<lambda>(rows, now).
        let probe = summarizeRollout rows ''0.0.0'' now in
        ret (summary_of (summarizeRollout rows (target_of targetRaw (ro_suggestedTarget probe)) now))))"

section \<open>Connections\<close>

text \<open>A group of rows, in the order the keys first occur.\<close>

definition group_by :: "('a \<Rightarrow> 'k) \<Rightarrow> 'a list \<Rightarrow> ('k \<times> 'a list) list" where
  "group_by f xs = map (\<lambda>k. (k, filter (\<lambda>x. f x = k) xs)) (uniq (map f xs))"

definition clamp_hours :: "jsnum option \<Rightarrow> int" where
  "clamp_hours h = (case h of Some (Fin q) \<Rightarrow> min 720 (max 1 (trunc q)) | _ \<Rightarrow> 24)"

text \<open>\<open>JOIN devices\<close>: the disconnects of devices that exist and that the operator may see.\<close>

definition visible_device :: "db \<Rightarrow> int \<Rightarrow> string \<Rightarrow> bool" where
  "visible_device d op dev = (case map_of (tb_devices d) dev of None \<Rightarrow> False | Some r \<Rightarrow> may_list d op r)"

definition disconnects :: "db \<Rightarrow> int \<Rightarrow> int \<Rightarrow> conn_event_row list" where
  "disconnects d op since = filter (\<lambda>e. drop_event since e \<and> visible_device d op (ce_deviceId e)) (tb_connEvents d)"

definition reason_rows :: "conn_event_row list \<Rightarrow> (string option \<times> nat \<times> nat) list" where
  "reason_rows es = sort_by (\<lambda>a b. int (fst (snd b)) - int (fst (snd a)))
     (map (\<lambda>(r, g). (r, length g, length (uniq (map ce_deviceId g)))) (group_by ce_reason es))"

text \<open>\<open>mode()\<close> ignores nulls; among the most frequent values it takes the first in their order.\<close>

definition mode_of :: "string list \<Rightarrow> string option" where
  "mode_of xs = (case filter (\<lambda>x. \<forall>y \<in> set xs. count_list xs y \<le> count_list xs x) (sort xs) of
      [] \<Rightarrow> None | x # _ \<Rightarrow> Some x)"

definition label_of :: "db \<Rightarrow> string \<Rightarrow> string option" where
  "label_of d dev = (case map_of (tb_devices d) dev of None \<Rightarrow> None | Some r \<Rightarrow> dv_label r)"

record top_device =
  td_deviceId :: string
  td_label :: "string option"
  td_disconnects :: nat
  td_topReason :: string

definition top_rows :: "db \<Rightarrow> conn_event_row list \<Rightarrow> top_device list" where
  "top_rows d es = take 20 (sort_by (\<lambda>a b. int (td_disconnects b) - int (td_disconnects a))
     (map (\<lambda>(dev, g). \<lparr>td_deviceId = dev, td_label = label_of d dev, td_disconnects = length g,
        td_topReason = (case mode_of (List.map_filter ce_reason g) of None \<Rightarrow> ''unknown'' | Some r \<Rightarrow> r)\<rparr>)
       (group_by ce_deviceId es)))"

text \<open>\<open>hint\<close> is the table of texts in \<open>conn.ts\<close>.\<close>

record reason_count =
  rc_reason :: string
  rc_count :: nat
  rc_devices :: nat
  rc_hint :: "string option"

definition connections :: "(string \<Rightarrow> string option) \<Rightarrow> int \<Rightarrow> jsnum option \<Rightarrow> ('r, int \<times> reason_count list \<times> top_device list) handler" where
  "connections hint op hoursRaw = (let hours = clamp_hours hoursRaw in
     bindE (gets (\<lambda>w. w_now w - hours * 3600000)) (\<lambda>since.
     bindE (pg_read (\<lambda>d. reason_rows (disconnects d op since))) (\<lambda>reasons.
     bindE (pg_read (\<lambda>d. top_rows d (disconnects d op since))) (\<lambda>top.
     ret (hours, map (\<lambda>(r, n, k). \<lparr>rc_reason = (case r of None \<Rightarrow> ''unknown'' | Some x \<Rightarrow> x), rc_count = n,
            rc_devices = k, rc_hint = hint (case r of None \<Rightarrow> [] | Some x \<Rightarrow> x)\<rparr>) reasons, top)))))"

section \<open>Health\<close>

record health_acc =
  ha_tier :: "tier \<Rightarrow> nat"
  ha_byBlocker :: "(blocker_code \<times> nat) list"
  ha_secureSettings :: nat
  ha_a11y :: nat
  ha_overlay :: nat

definition health_start :: health_acc where
  "health_start = \<lparr>ha_tier = (\<lambda>_. 0), ha_byBlocker = [], ha_secureSettings = 0, ha_a11y = 0, ha_overlay = 0\<rparr>"

definition lacks :: "(caps_row \<Rightarrow> bool) \<Rightarrow> joined_row \<Rightarrow> bool" where
  "lacks f r = (case jr_caps r of None \<Rightarrow> False | Some c \<Rightarrow> cp_agentVer c \<noteq> [] \<and> \<not> f c)"

definition rowToState :: "joined_row \<Rightarrow> (string \<Rightarrow> string option) \<Rightarrow> device_state" where
  "rowToState r hash = (toDeviceState r hash)\<lparr>ds_caps := (row_caps (jr_caps r))\<lparr>encoder := None\<rparr>\<rparr>"

definition health_step :: "joined_row \<times> (string \<Rightarrow> string option) \<Rightarrow> health_acc \<Rightarrow> health_acc" where
  "health_step p h = (case p of (row, hash) \<Rightarrow>
     (let r = computeReadiness (rowToState row hash); t = r_tier r; on = (t \<noteq> OFFLINE);
          bump_if = (\<lambda>b n. if b then n + 1 else (n :: nat))
      in h\<lparr>ha_tier := (ha_tier h)(t := ha_tier h t + 1),
           ha_byBlocker := (if t = NOT_READY
              then fold (\<lambda>b m. bump (code b) m) (case r_blockers r of None \<Rightarrow> [] | Some bs \<Rightarrow> bs) (ha_byBlocker h)
              else ha_byBlocker h),
           ha_secureSettings := bump_if (on \<and> lacks cp_secureSettings row) (ha_secureSettings h),
           ha_a11y := bump_if (on \<and> lacks cp_a11y row) (ha_a11y h),
           ha_overlay := bump_if (on \<and> lacks cp_overlay row) (ha_overlay h)\<rparr>))"

definition fleet_health :: "'r redis_exec \<Rightarrow> ('r, nat \<times> health_acc) handler" where
  "fleet_health ex =
     bindE (pg_read (\<lambda>d. filter (\<lambda>r. \<not> dv_stale (jr_dev r)) (map (join_row d) (tb_devices d)))) (\<lambda>rows.
     bindE (live_hashes ex rows) (\<lambda>live.
     ret (length rows, fold health_step (zip rows live) health_start)))"

section \<open>What a gathering returns\<close>

lemma pipe_answers: "\<exists>reps r. pipe ex cs w = (Inr reps, w\<lparr>w_redis := r\<rparr>) \<and> length reps = length cs"
proof (induction cs arbitrary: w)
  case Nil
  have "pipe ex [] w = (Inr [], w\<lparr>w_redis := w_redis w\<rparr>)" by (simp add: ret_def)
  then show ?case by (intro exI[of _ "[]"] exI[of _ "w_redis w"]) simp
next
  case (Cons c cs)
  obtain rep r where e: "ex c (w_redis w) = (rep, r)" by force
  obtain reps r' where "pipe ex cs (w\<lparr>w_redis := r\<rparr>) = (Inr reps, w\<lparr>w_redis := r\<rparr>\<lparr>w_redis := r'\<rparr>)" "length reps = length cs"
    using Cons.IH[of "w\<lparr>w_redis := r\<rparr>"] by auto
  then have "pipe ex (c # cs) w = (Inr (rep # reps), w\<lparr>w_redis := r'\<rparr>) \<and> length (rep # reps) = length (c # cs)"
    by (simp add: bindE_def e ret_def)
  then show ?case by blast
qed

lemma wp_live_hashes:
  assumes "\<And>r live. length live = length rows \<Longrightarrow> Q live (w\<lparr>w_redis := r\<rparr>)"
  shows "wp (live_hashes ex rows) Q E w"
proof -
  obtain reps r where "pipe ex (map (\<lambda>r. HGetAll (key_string (KDevice (jr_deviceId r)))) rows) w = (Inr reps, w\<lparr>w_redis := r\<rparr>)"
    "length reps = length rows" using pipe_answers[of ex _ w] by fastforce
  then show ?thesis using assms[of "map reply_hash reps" r] by (simp add: live_hashes_def bindE_def wp_def ret_def)
qed

definition visible_ids :: "db \<Rightarrow> int \<Rightarrow> string list" where
  "visible_ids d op = map fst (filter (\<lambda>p. \<not> dv_stale (snd p) \<and> may_list d op (snd p)) (tb_devices d))"

lemma fleet_rows_ids: "map jr_deviceId (fleet_rows d op) = visible_ids d op"
  by (simp add: fleet_rows_def visible_ids_def filter_map comp_def join_row_def)

text \<open>Gathering the rows reads the tables and survives a Redis that answers nothing.\<close>

definition gathered :: "'r world \<Rightarrow> int \<Rightarrow> dash_row list \<times> int \<Rightarrow> 'r world \<Rightarrow> bool" where
  "gathered w op x w' \<longleftrightarrow> snd x = w_now w \<and> map dr_deviceId (fst x) = visible_ids (w_db w) op \<and> w_db w' = w_db w"

lemma wp_pg_since:
  assumes "\<And>fs. E PgError (w\<lparr>w_pgFaults := fs\<rparr>)" "\<And>fs a. Q a (w\<lparr>w_pgFaults := fs\<rparr>)"
  shows "wp (pg_since f) Q E w"
  using wp_pg_read[of E w Q "\<lambda>d. f d (w_now w - DAY)"] assms by (simp add: wp_def pg_since_def)

lemma wp_loadDashRows:
  "wp (loadDashRows ex op) (gathered w op) (\<lambda>e w'. e = PgError \<and> w_db w' = w_db w) w"
  unfolding loadDashRows_def wp_simps
  by (intro wp_pg_read wp_live_hashes wp_pg_since)
    (simp_all add: gathered_def flip: fleet_rows_ids, simp add: list_eq_iff_nth_eq dash_row_of_def)

text \<open>Every id of a list stands for a row, so no brief is missing.\<close>

lemma by_id_mem: "dev \<in> dr_deviceId ` set rows \<Longrightarrow> \<exists>r \<in> set rows. by_id rows dev = Some r \<and> dr_deviceId r = dev"
proof -
  assume "dev \<in> dr_deviceId ` set rows"
  then have "by_id rows dev \<noteq> None" by (auto simp: by_id_def find_None_iff)
  then obtain r where r: "by_id rows dev = Some r" by auto
  then have "r \<in> set (rev rows) \<and> dr_deviceId r = dev" by (simp add: by_id_def find_Some_iff) (metis nth_mem length_rev set_rev)
  with r show ?thesis by auto
qed

lemma brief_id [simp]: "b_deviceId (briefOf r) = dr_deviceId r"
  by (simp add: briefOf_def)

lemma brief_rows_total:
  assumes "set ids \<subseteq> dr_deviceId ` set rows"
  shows "\<exists>bs. brief_rows rows ids = Some bs \<and> map b_deviceId bs = ids \<and> set bs \<subseteq> briefOf ` set rows"
  using assms
proof (induction ids)
  case (Cons i ids)
  then obtain bs where bs: "brief_rows rows ids = Some bs" "map b_deviceId bs = ids" "set bs \<subseteq> briefOf ` set rows" by auto
  obtain r where r: "r \<in> set rows" "by_id rows i = Some r" "dr_deviceId r = i" using by_id_mem[of i rows] Cons.prems by auto
  have "brief_rows rows (i # ids) = Some (briefOf r # bs)" using bs r by (simp add: brief_rows_def)
  with bs r show ?case by auto
qed (simp add: brief_rows_def)

lemma dashboard_list_ids: "set (list_at (d_lists (summarizeFleet lc rows now n)) k) \<subseteq> dr_deviceId ` set rows"
  by (auto simp: summarizeFleet_def Let_def list_at_fleet_lists)

lemma rollout_list_ids: "set (ro_buckets (summarizeRollout rows v now) b) \<subseteq> dr_deviceId ` set rows"
  by (auto simp: buckets_of)

section \<open>Properties\<close>

text \<open>The ids a list key stands for.\<close>

definition key_ids :: "(string \<Rightarrow> string \<Rightarrow> int) \<Rightarrow> dash_row list \<Rightarrow> int \<Rightarrow> string \<Rightarrow> string list" where
  "key_ids lc rows now key = (case parse_rollout_key key of
      Some (b, v) \<Rightarrow> ro_buckets (summarizeRollout rows v now) b
    | None \<Rightarrow> list_at (d_lists (summarizeFleet lc rows now 0)) key)"

text \<open>
  C25 Lists of the fleet: a list is built on exactly the devices that are not stale and that the
  operator may see, holds one entry per device its key stands for, in that order, with the figures
  of the same gathering, and fails only for an unknown key or when the database fails: a missing
  device never breaks it, nor does a Redis that answers nothing. Nothing is written.
\<close>

theorem fleet_list_exact:
  "case dashboardList ex lc op key w of
     (Inl e, w') \<Rightarrow> (e = PgError \<or> e = NotFound \<and> parse_rollout_key key = None \<and> \<not> valid_list_key key) \<and> w_db w' = w_db w
   | (Inr a, w') \<Rightarrow> w_db w' = w_db w \<and> la_key a = key \<and> la_count a = length (la_rows a) \<and>
       (\<exists>rows. map dr_deviceId rows = visible_ids (w_db w) op \<and> fst (loadDashRows ex op w) = Inr (rows, w_now w) \<and>
          map (\<lambda>x. b_deviceId (fst x)) (la_rows a) = key_ids lc rows (w_now w) key \<and>
          fst ` set (la_rows a) \<subseteq> briefOf ` set rows)"
proof (cases "loadDashRows ex op w")
  case (Pair r w1)
  note g = wp_loadDashRows[of ex op w]
  have roll: "parse_rollout_key key = None" if "\<not> prefix ''rollout:'' key" using that by (simp add: parse_rollout_key_def)
  have invalid: "\<not> valid_list_key key" if "prefix ''rollout:'' key"
    using that by (auto simp: valid_list_key_def version_key_def KNOWN_LIST_KEYS_def prefix_def)
  show ?thesis
  proof (cases r)
    case (Inl e)
    then have "e = PgError" "w_db w1 = w_db w" using g Pair by (simp_all add: wp_def)
    then show ?thesis using Pair Inl invalid
      by (auto simp: dashboardList_def rolloutList_def bindE_def raise_def split: option.split)
  next
    case (Inr x)
    obtain rows where x: "x = (rows, w_now w)" "map dr_deviceId rows = visible_ids (w_db w) op" "w_db w1 = w_db w"
      using g Pair Inr by (cases x) (simp add: wp_def gathered_def)
    obtain bs where bs: "brief_rows rows (list_at (d_lists (summarizeFleet lc rows (w_now w) 0)) key) = Some bs"
      "map b_deviceId bs = list_at (d_lists (summarizeFleet lc rows (w_now w) 0)) key" "set bs \<subseteq> briefOf ` set rows"
      using brief_rows_total[OF dashboard_list_ids] by metis
    have rb: "\<exists>bs. brief_rows rows (ro_buckets (summarizeRollout rows v (w_now w)) b) = Some bs \<and>
        map b_deviceId bs = ro_buckets (summarizeRollout rows v (w_now w)) b \<and> set bs \<subseteq> briefOf ` set rows" for v b
      by (rule brief_rows_total[OF rollout_list_ids])
    show ?thesis
    proof (cases "prefix ''rollout:'' key")
      case False
      then show ?thesis using Pair Inr x bs roll[OF False]
        by (auto simp: dashboardList_def bindE_def raise_def ret_def or_throw_def Let_def list_answer_of_def key_ids_def comp_def)
    next
      case True
      show ?thesis
      proof (cases "parse_rollout_key key")
        case None
        then show ?thesis using True invalid by (simp add: dashboardList_def rolloutList_def raise_def)
      next
        case (Some p)
        obtain b v where p: "p = (b, v)" by force
        obtain cs where cs: "brief_rows rows (ro_buckets (summarizeRollout rows v (w_now w)) b) = Some cs"
          "map b_deviceId cs = ro_buckets (summarizeRollout rows v (w_now w)) b" "set cs \<subseteq> briefOf ` set rows" using rb by blast
        have len: "length cs = length (ro_buckets (summarizeRollout rows v (w_now w)) b)" using cs(2) by (metis length_map)
        have z: "map (\<lambda>x. b_deviceId (fst x)) (zip cs (map f (ro_buckets (summarizeRollout rows v (w_now w)) b))) = map b_deviceId cs"
          "fst ` set (zip cs (map f (ro_buckets (summarizeRollout rows v (w_now w)) b))) = set cs" for f :: "string \<Rightarrow> string list"
          using len map_fst_zip[of cs "map f (ro_buckets (summarizeRollout rows v (w_now w)) b)"]
          by (simp_all flip: map_map[unfolded comp_def] set_map add: map_fst_zip)
        show ?thesis using Pair Inr x cs True Some p z
          by (simp add: dashboardList_def rolloutList_def bindE_def ret_def or_throw_def Let_def list_answer_of_def key_ids_def)
      qed
    qed
  qed
qed

end
