(* ===== verification/JsonTrip.thy ===== *)
theory JsonTrip
  imports JsonParse
begin

text \<open>
  What \<open>JSON.stringify\<close> writes, \<open>JSON.parse\<close> reads back: the services exchange values, not texts.
  The fuel of the parser is enough for every such text.
\<close>

section \<open>Numbers\<close>

lemma number_okI:
  assumes "\<forall>c \<in> set i. is_digit c" "i \<noteq> []" "hd i = CHR ''0'' \<longrightarrow> i = ''0''" "fraction_ok r" "r = [] \<or> \<not> is_digit (hd r)"
  shows "number_ok (i @ r)" "number_ok (CHR ''-'' # i @ r)"
proof -
  have t: "takeWhile is_digit (i @ r) = i" "dropWhile is_digit (i @ r) = r"
    using assms(1,5) by (cases r; simp add: takeWhile_append dropWhile_append takeWhile_eq_all_conv[THEN iffD2] dropWhile_eq_Nil_conv[THEN iffD2])+
  obtain c i' where i: "i = c # i'" using assms(2) by (cases i) auto
  have "c \<noteq> CHR ''-''" using assms(1) i by (auto simp: is_digit_def)
  then have "(case i @ r of c # x \<Rightarrow> if c = CHR ''-'' then x else i @ r | [] \<Rightarrow> []) = i @ r" using i by simp
  then show "number_ok (i @ r)" using t assms(2-4) unfolding number_ok_def by (simp only: Let_def) blast
  show "number_ok (CHR ''-'' # i @ r)" using t assms(2-4) unfolding number_ok_def by (simp only: Let_def list.case simp_thms if_True)
qed

lemma show_nat_lead: "0 < n \<Longrightarrow> hd (show_nat n) \<noteq> CHR ''0''"
proof (induction n rule: less_induct)
  case (less n)
  show ?case
  proof (cases "n < 10")
    case True
    then show ?thesis using digit_char_val[of n] less.prems by (auto simp: show_nat_small digit_val_def)
  next
    case False
    then have "hd (show_nat (n div 10)) \<noteq> CHR ''0''" by (intro less.IH) auto
    then show ?thesis using False by (simp add: show_nat_step hd_append)
  qed
qed

lemma exponent_ok_show_exp: "exponent_ok (show_exp e)"
  using show_nat_digits[of "nat e"] show_nat_digits[of "nat (- e)"] by (auto simp: exponent_ok_def show_exp_def digits_ok_def)

lemma fixed_form_ok:
  assumes "0 < s"
  shows "\<exists>i r. fixed_form j (show_nat s) = i @ r \<and> (\<forall>c \<in> set i. is_digit c) \<and> i \<noteq> [] \<and>
    (hd i = CHR ''0'' \<longrightarrow> i = ''0'') \<and> fraction_ok r \<and> (r = [] \<or> \<not> is_digit (hd r))"
proof (cases "j = 0")
  case True
  then show ?thesis using show_nat_digits[of s] show_nat_lead[OF assms]
    by (intro exI[of _ "show_nat s"] exI[of _ "[]"]) (auto simp: fixed_form_def fraction_ok_def)
next
  case False
  define ds where "ds = show_nat s"
  define p where "p = replicate (j + 1 - length ds) CHR ''0'' @ ds"
  have ds: "ds \<noteq> []" "\<forall>c \<in> set ds. is_digit c" "hd ds \<noteq> CHR ''0''"
    using show_nat_digits[of s] show_nat_lead[OF assms] by (auto simp: ds_def)
  have p: "\<forall>c \<in> set p. is_digit c" "j < length p" using ds(2) by (auto simp: p_def is_digit_def)
  let ?i = "take (length p - j) p" and ?r = "CHR ''.'' # drop (length p - j) p"
  have d: "\<forall>c \<in> set ?i. is_digit c" "\<forall>c \<in> set (drop (length p - j) p). is_digit c"
    using p(1) by (auto dest: in_set_takeD in_set_dropD)
  have "drop (length p - j) p \<noteq> []" using False p(2) by simp
  then have "fraction_ok ?r"
    using d(2) by (simp add: fraction_ok_def exponent_ok_def takeWhile_eq_all_conv[THEN iffD2] dropWhile_eq_Nil_conv[THEN iffD2])
  moreover have "?i \<noteq> []" using p(2) by auto
  moreover have "hd ?i = CHR ''0'' \<longrightarrow> ?i = ''0''"
  proof (cases "length ds \<le> j")
    case True
    then have "length p = j + 1" by (simp add: p_def)
    moreover obtain t where "p = CHR ''0'' # t" using True by (cases "j + 1 - length ds") (auto simp: p_def)
    ultimately show ?thesis by simp
  next
    case False
    then have "p = ds" by (simp add: p_def)
    with ds(1,3) p(2) show ?thesis by simp
  qed
  moreover have "fixed_form j (show_nat s) = ?i @ ?r"
    using False by (simp add: fixed_form_def Let_def p_def ds_def)
  moreover have "\<not> is_digit (hd ?r)" by (simp add: is_digit_def)
  ultimately show ?thesis using d(1) by blast
qed

lemma sci_form_ok:
  assumes "0 < s"
  shows "\<exists>i r. sci_form j (show_nat s) = i @ r \<and> (\<forall>c \<in> set i. is_digit c) \<and> i \<noteq> [] \<and>
    (hd i = CHR ''0'' \<longrightarrow> i = ''0'') \<and> fraction_ok r \<and> (r = [] \<or> \<not> is_digit (hd r))"
proof -
  define e where "e = int (length (show_nat s)) - int j - 1"
  define sig where "sig = strip_zeros (show_nat s)"
  have dig: "\<forall>c \<in> set sig. is_digit c"
    using show_nat_digits[of s] strip_zeros_set[of "show_nat s"] by (auto simp: sig_def)
  obtain z where z: "show_nat s = sig @ replicate z CHR ''0''" using strip_zeros_split sig_def by blast
  have "sig \<noteq> []"
  proof
    assume "sig = []"
    with z have "show_nat s = replicate z CHR ''0''" by simp
    then show False using show_nat_lead[OF assms] show_nat_nonempty[of s] by (cases z) auto
  qed
  then obtain d t where dt: "sig = d # t" by (cases sig) auto
  obtain x where x: "show_exp e = CHR ''e'' # x" by (simp add: show_exp_def)
  have ex: "\<not> is_digit CHR ''e''" "\<not> is_digit CHR ''.''" by (simp_all add: is_digit_def)
  have f: "fraction_ok (show_exp e)" using exponent_ok_show_exp[of e] unfolding x by (simp add: fraction_ok_def)
  have "\<forall>c \<in> set t. is_digit c" using dig dt by simp
  then have w: "takeWhile is_digit (t @ show_exp e) = t" "dropWhile is_digit (t @ show_exp e) = show_exp e"
    unfolding x using ex(1) by (simp_all add: takeWhile_append dropWhile_append takeWhile_eq_all_conv[THEN iffD2])
  have r: "sci_form j (show_nat s) = [d] @ ((if t = [] then [] else CHR ''.'' # t) @ show_exp e)"
    unfolding sci_form_def sig_def[symmetric] e_def[symmetric] dt by (cases t) simp_all
  have "fraction_ok ((if t = [] then [] else CHR ''.'' # t) @ show_exp e)"
    using f w exponent_ok_show_exp[of e] by (cases "t = []") (simp_all add: fraction_ok_def)
  moreover have "\<not> is_digit (hd ((if t = [] then [] else CHR ''.'' # t) @ show_exp e))"
    using ex x by simp
  ultimately show ?thesis using r dig dt
    by (intro exI[of _ "[d]"] exI[of _ "(if t = [] then [] else CHR ''.'' # t) @ show_exp e"]) auto
qed

lemma num_to_string_ok: "is_double q \<Longrightarrow> number_ok (num_to_string (Fin q))"
proof -
  assume d: "is_double q"
  define a where "a = \<bar>q\<bar>"
  have a: "0 \<le> a" "is_int_at a (places max_places a)" using d by (simp_all add: a_def is_double_def)
  have "\<exists>i r. pos_to_string a = i @ r \<and> (\<forall>c \<in> set i. is_digit c) \<and> i \<noteq> [] \<and>
    (hd i = CHR ''0'' \<longrightarrow> i = ''0'') \<and> fraction_ok r \<and> (r = [] \<or> \<not> is_digit (hd r))"
  proof (cases "a = 0")
    case True
    then show ?thesis
      by (intro exI[of _ "''0''"] exI[of _ "[]"]) (simp add: pos_to_string_def is_digit_def fraction_ok_def)
  next
    case False
    define j where "j = places max_places a"
    define s where "s = nat \<lfloor>a * 10 ^ j\<rfloor>"
    have "of_nat s = a * 10 ^ j" using a unfolding s_def j_def is_int_at_def by simp
    then have "0 < s" using False a(1) by (metis mult_eq_0_iff of_nat_0 power_not_zero zero_neq_numeral neq0_conv)
    then have f: "\<exists>i r. t = i @ r \<and> (\<forall>c \<in> set i. is_digit c) \<and> i \<noteq> [] \<and> (hd i = CHR ''0'' \<longrightarrow> i = ''0'') \<and>
        fraction_ok r \<and> (r = [] \<or> \<not> is_digit (hd r))" if "t = fixed_form j (show_nat s) \<or> t = sci_form j (show_nat s)" for t
      using that by (elim disjE) (simp_all only: fixed_form_ok sci_form_ok)
    show ?thesis
      by (rule f) (use False in \<open>simp add: pos_to_string_def Let_def j_def s_def\<close>)
  qed
  then obtain i r where ir: "pos_to_string a = i @ r" and ok: "\<forall>c \<in> set i. is_digit c" "i \<noteq> []"
    "hd i = CHR ''0'' \<longrightarrow> i = ''0''" "fraction_ok r" "r = [] \<or> \<not> is_digit (hd r)" by blast
  show "number_ok (num_to_string (Fin q))"
  proof (cases "q < 0")
    case True
    then have "num_to_string (Fin q) = CHR ''-'' # i @ r" using ir by (simp add: a_def)
    then show ?thesis by (simp only: number_okI(2)[OF ok])
  next
    case False
    then have "num_to_string (Fin q) = i @ r" using ir by (simp add: a_def)
    then show ?thesis by (simp only: number_okI(1)[OF ok])
  qed
qed

text \<open>After a number, no character that could belong to it.\<close>

definition ends_number :: "json \<Rightarrow> string \<Rightarrow> bool" where
  "ends_number v s \<longleftrightarrow> (case v of JNum _ \<Rightarrow> s = [] \<or> \<not> json_num_char (hd s) | _ \<Rightarrow> True)"

lemma parse_number_text:
  assumes "is_double q" "s = [] \<or> \<not> json_num_char (hd s)"
  shows "parse_number (num_to_string (Fin q) @ s) = Some (JNum (Fin q), s)"
proof -
  let ?n = "num_to_string (Fin q)"
  have n: "\<forall>x \<in> set ?n. json_num_char x"
    using number_text[OF assms(1)] by (auto simp: json_num_char_def simp del: num_to_string.simps)
  have "takeWhile json_num_char (?n @ s) = ?n" "dropWhile json_num_char (?n @ s) = s"
    using n assms(2) by (cases s; simp add: takeWhile_append dropWhile_append takeWhile_eq_all_conv[THEN iffD2] dropWhile_eq_Nil_conv[THEN iffD2] del: num_to_string.simps)+
  then show ?thesis
    unfolding parse_number_def Let_def using num_to_string_ok[OF assms(1)] to_number_num_to_string[OF assms(1)] by simp
qed

section \<open>Strings\<close>

lemma literal_escape: "literal_char (escape_char c @ s) = Some (c, s)"
proof (cases "c \<in> {CHR 0x22, CHR 0x5C, CHR 0x08, CHR 0x09, CHR 0x0A, CHR 0x0C, CHR 0x0D}")
  case True
  then show ?thesis by (auto simp: escape_char_def)
next
  case False
  show ?thesis
  proof (cases "(of_char c :: nat) < 32")
    case True
    let ?n = "of_char c :: nat"
    have h: "hex_byte (hex_char (?n div 16)) (hex_char (?n mod 16)) = Some c"
    proof -
      have v: "hex_val (hex_char k) = Some k" if "k < 16" for k using that by (auto simp: hex_val_def hex_char_def Let_def)
      have "char_of (16 * (?n div 16) + ?n mod 16) = c" by simp
      then show ?thesis using True v[of "?n div 16"] v[of "?n mod 16"] by (simp add: hex_byte_def)
    qed
    have "escape_char c = [CHR 0x5C, CHR ''u'', CHR ''0'', CHR ''0'', hex_char (?n div 16), hex_char (?n mod 16)]"
      using False True by (simp add: escape_char_def Let_def char_codes)
    then show ?thesis using h by simp
  next
    case nc: False
    with False have "escape_char c = [c]" by (simp add: escape_char_def Let_def char_codes)
    with nc False show ?thesis by simp
  qed
qed

lemma parse_string_quote: "parse_string (concat (map escape_char s) @ CHR 0x22 # t) = Some (s, t)"
proof (induction s)
  case Nil
  show ?case by (subst parse_string.simps) simp
next
  case (Cons c s)
  let ?r = "concat (map escape_char s) @ CHR 0x22 # t"
  obtain x u where x: "escape_char c = x # u" "x \<noteq> CHR 0x22" using escape_char_head by blast
  have "literal_char (x # u @ ?r) = Some (c, ?r)" using literal_escape[of c ?r] x by (simp del: literal_char.simps)
  then have "parse_string (x # u @ ?r) = Some (c # s, t)"
    using Cons.IH x(2) by (subst parse_string.simps) (simp del: literal_char.simps)
  with x show ?case by simp
qed

section \<open>Values\<close>

text \<open>An object has each key once.\<close>

fun keyed :: "json \<Rightarrow> bool" where
  "keyed (JArr js) = (\<forall>j \<in> set js. keyed j)"
| "keyed (JObj kvs) = (distinct (map fst kvs) \<and> (\<forall>(k, v) \<in> set kvs. keyed v))"
| "keyed _ = True"

lemma skip_lead: "c \<in> lead v \<Longrightarrow> skip (c # r) = c # r"
  by (cases v) (auto simp: lead_def skip_def json_space_def is_digit_def split: if_splits)

lemma skip_marks [simp]: "skip (CHR '']'' # r) = CHR '']'' # r" "skip (CHR '','' # r) = CHR '','' # r"
    "skip (CHR ''}'' # r) = CHR ''}'' # r" "skip (CHR '':'' # r) = CHR '':'' # r" "skip (CHR 0x22 # r) = CHR 0x22 # r"
  by (simp_all add: skip_def json_space_def)

lemma ends_at_mark [simp]: "c \<in> {CHR '','', CHR '']'', CHR ''}''} \<Longrightarrow> ends_number v (c # s)"
  by (auto simp: ends_number_def json_num_char_def num_char_def is_digit_def split: json.split)

definition reads_back :: "json \<Rightarrow> bool" where
  "reads_back v \<longleftrightarrow> (\<forall>n s. ends_number v s \<longrightarrow> 2 * length (json_stringify v) \<le> n \<longrightarrow>
     parse_value n (json_stringify v @ s) = Some (v, s))"

lemma reads_backD: "reads_back v \<Longrightarrow> ends_number v s \<Longrightarrow> 2 * length (json_stringify v) \<le> n \<Longrightarrow>
    parse_value n (json_stringify v @ s) = Some (v, s)"
  by (simp add: reads_back_def)

lemma parse_elems_text:
  assumes "\<forall>j \<in> set js. reads_back j" "js \<noteq> []" "2 * length (join '','' (map json_stringify js)) + 1 \<le> n"
  shows "parse_elems n acc (join '','' (map json_stringify js) @ CHR '']'' # s) = Some (JArr (acc @ js), s)"
  using assms
proof (induction js arbitrary: acc n)
  case (Cons j js)
  obtain m where n: "n = Suc m" using Cons.prems(3) by (cases n) auto
  show ?case
  proof (cases js)
    case Nil
    then have "parse_value m (json_stringify j @ CHR '']'' # s) = Some (j, CHR '']'' # s)"
      using Cons.prems n by (intro reads_backD) (simp_all add: join_def)
    then show ?thesis using Nil by (simp add: n join_def)
  next
    case (Cons k ks)
    let ?t = "join '','' (map json_stringify js)"
    have j: "join '','' (map json_stringify (j # js)) = json_stringify j @ CHR '','' # ?t"
      using Cons by (simp add: join_def)
    have "parse_value m (json_stringify j @ CHR '','' # ?t @ CHR '']'' # s) = Some (j, CHR '','' # ?t @ CHR '']'' # s)"
      using Cons.prems n j by (intro reads_backD) simp_all
    moreover have "parse_elems m (acc @ [j]) (?t @ CHR '']'' # s) = Some (JArr ((acc @ [j]) @ js), s)"
      using Cons.prems n j Cons by (intro Cons.IH) simp_all
    ultimately show ?thesis unfolding n j by simp
  qed
qed simp

lemma parse_members_text:
  assumes "\<forall>p \<in> set kvs. reads_back (snd p)" "kvs \<noteq> []" "distinct (map fst (acc @ kvs))"
    and "2 * length (join '','' (map member_text kvs)) + 1 \<le> n"
  shows "parse_members n acc (join '','' (map member_text kvs) @ CHR ''}'' # s) = Some (JObj (acc @ kvs), s)"
  using assms
proof (induction kvs arbitrary: acc n)
  case (Cons p kvs)
  obtain k v where p: "p = (k, v)" by (cases p)
  obtain m where n: "n = Suc m" using Cons.prems(4) by (cases n) auto
  have new: "AList.update k v acc = acc @ [(k, v)]"
    using Cons.prems(3) p by (induction acc) auto
  have mt: "member_text p @ t = CHR 0x22 # concat (map escape_char k) @ CHR 0x22 # CHR '':'' # json_stringify v @ t" for t
    by (simp add: p member_text_def quote_def)
  have lm: "length (json_stringify v) \<le> length (member_text p)" by (simp add: p member_text_def)
  have rb: "reads_back v" using Cons.prems(1) p by simp
  show ?case
  proof (cases kvs)
    case Nil
    have len: "2 * length (json_stringify v) \<le> m" using Cons.prems(4) n lm Nil by (simp add: join_def)
    have "parse_value m (json_stringify v @ CHR ''}'' # s) = Some (v, CHR ''}'' # s)"
      by (rule reads_backD[OF rb]) (simp_all add: len)
    moreover have j: "join '','' (map member_text (p # kvs)) = member_text p" using Nil by (simp add: join_def)
    ultimately show ?thesis using Nil unfolding n j mt by (simp add: parse_string_quote new p)
  next
    case (Cons q ks)
    let ?t = "join '','' (map member_text kvs)"
    have j: "join '','' (map member_text (p # kvs)) = member_text p @ CHR '','' # ?t"
      using Cons by (simp add: join_def)
    have ln: "2 * length (json_stringify v) \<le> m" "2 * length ?t + 1 \<le> m"
      using Cons.prems(4) lm unfolding n j by simp_all
    have "parse_value m (json_stringify v @ CHR '','' # ?t @ CHR ''}'' # s) = Some (v, CHR '','' # ?t @ CHR ''}'' # s)"
      by (rule reads_backD[OF rb]) (simp_all add: ln)
    moreover have "parse_members m (acc @ [(k, v)]) (?t @ CHR ''}'' # s) = Some (JObj ((acc @ [(k, v)]) @ kvs), s)"
      using Cons.prems Cons p by (intro Cons.IH ln(2)) simp_all
    ultimately show ?thesis unfolding n j append_assoc append_Cons mt by (simp add: parse_string_quote new p)
  qed
qed simp

lemma scalar_reads_back:
  assumes "plain_json v" "\<And>js. v \<noteq> JArr js" "\<And>kvs. v \<noteq> JObj kvs"
  shows "reads_back v"
  unfolding reads_back_def
proof (intro allI impI)
  fix n s assume e: "ends_number v s" and n: "2 * length (json_stringify v) \<le> n"
  obtain c r where c: "json_stringify v = c # r" "c \<in> lead v" using stringify_lead[OF assms(1)] by blast
  obtain m where m: "n = Suc m" using n c by (cases n) auto
  have k: "skip (c # r @ s) = c # r @ s" by (rule skip_lead[OF c(2)])
  show "parse_value n (json_stringify v @ s) = Some (v, s)"
  proof (cases v)
    case (JNum x)
    then obtain q where q: "x = Fin q" "is_double q" using assms(1) by (cases x) auto
    have "parse_number (c # r @ s) = Some (v, s)"
      using parse_number_text[OF q(2), of s] e c(1) JNum q by (simp add: ends_number_def scalar_string_def)
    moreover have "c \<notin> {CHR ''n'', CHR ''t'', CHR ''f'', CHR 0x22, CHR ''['', CHR ''{''}"
      using c(2) JNum by (auto simp: lead_def is_digit_def)
    ultimately show ?thesis using k c(1) by (simp add: m)
  next
    case (JStr x)
    then have "c = CHR 0x22" "r = concat (map escape_char x) @ [CHR 0x22]"
      using c(1) by (auto simp: scalar_string_def quote_def)
    then show ?thesis using k c(1) JStr parse_string_quote[of x s] by (simp add: m)
  qed (use assms k c(1) in \<open>auto simp: m scalar_string_def parse_word_def split: if_splits\<close>)
qed

lemma stringify_reads_back: "plain_json v \<Longrightarrow> keyed v \<Longrightarrow> reads_back v"
proof (induction v)
  case (JArr js)
  show ?case
    unfolding reads_back_def
  proof (intro allI impI)
    fix n s assume n: "2 * length (json_stringify (JArr js)) \<le> n"
    then obtain m where m: "n = Suc m" by (cases n) (auto simp: brackets_def)
    show "parse_value n (json_stringify (JArr js) @ s) = Some (JArr js, s)"
    proof (cases js)
      case Nil
      then show ?thesis using skip_lead[of "CHR ''[''" "JArr []"] by (simp add: m brackets_def join_def lead_def)
    next
      case (Cons j ks)
      have rb: "\<forall>j \<in> set js. reads_back j" using JArr by auto
      let ?t = "join '','' (map json_stringify js)"
      have "parse_elems m [] (?t @ CHR '']'' # s) = Some (JArr js, s)"
        using parse_elems_text[OF rb, of m "[]" s] Cons n by (simp add: m brackets_def)
      moreover obtain c r where c: "json_stringify j = c # r" "c \<in> lead j"
        using stringify_lead[of j] JArr.prems(1) Cons by auto
      then obtain u where "?t @ CHR '']'' # s = c # u" using Cons by (simp add: join_def)
      moreover have "skip (c # u) = c # u" "c \<noteq> CHR '']''" using skip_lead[OF c(2)] lead_close[OF c(2)] by simp_all
      ultimately show ?thesis using skip_lead[of "CHR ''[''" "JArr []"]
        by (simp add: m brackets_def lead_def)
    qed
  qed
next
  case (JObj kvs)
  show ?case
    unfolding reads_back_def
  proof (intro allI impI)
    fix n s assume n: "2 * length (json_stringify (JObj kvs)) \<le> n"
    then obtain m where m: "n = Suc m" by (cases n) (auto simp: braces_def)
    show "parse_value n (json_stringify (JObj kvs) @ s) = Some (JObj kvs, s)"
    proof (cases kvs)
      case Nil
      then show ?thesis using skip_lead[of "CHR ''{''" "JObj []"] by (simp add: m braces_def join_def lead_def)
    next
      case (Cons p ks)
      have rb: "\<forall>p \<in> set kvs. reads_back (snd p)" using JObj by fastforce
      let ?t = "join '','' (map member_text kvs)"
      have "parse_members m [] (?t @ CHR ''}'' # s) = Some (JObj kvs, s)"
        using parse_members_text[OF rb, of "[]" m s] Cons n JObj.prems(2)
        by (simp add: m json_stringify_JObj braces_def del: json_stringify.simps)
      moreover have "\<exists>u. ?t @ CHR ''}'' # s = CHR 0x22 # u"
        using Cons by (cases p) (simp add: join_def member_text_def quote_def)
      ultimately show ?thesis using skip_lead[of "CHR ''{''" "JObj []"]
        by (auto simp: m json_stringify_JObj braces_def lead_def simp del: json_stringify.simps)
    qed
  qed
qed (auto intro: scalar_reads_back)

lemma parse_stringify:
  assumes "plain_json v" "keyed v"
  shows "json_parse (json_stringify v) = Some v"
proof -
  have "parse_value (2 * length (json_stringify v) + 1) (json_stringify v @ []) = Some (v, [])"
    by (rule reads_backD[OF stringify_reads_back[OF assms]]) (simp_all add: ends_number_def split: json.split)
  then show ?thesis by (simp add: json_parse_def skip_def)
qed

section \<open>Termination\<close>

lemma skip_shorter: "length (skip s) \<le> length s"
  by (simp add: skip_def length_dropWhile_le)

lemma skip_Cons: "skip s = c # t \<Longrightarrow> length t < length s"
  using skip_shorter[of s] by simp

lemma parse_string_shorter: "parse_string s = Some (x, t) \<Longrightarrow> length t < length s"
proof (induction s arbitrary: x rule: parse_string.induct)
  case (1 s)
  from "1.prems" show ?case
    by (subst (asm) parse_string.simps)
      (use "1.IH" literal_char_shorter in \<open>fastforce split: list.splits if_splits option.splits simp del: literal_char.simps\<close>)
qed

lemma parse_number_shorter: "parse_number s = Some (j, t) \<Longrightarrow> length t < length s"
proof -
  assume "parse_number s = Some (j, t)"
  then have n: "number_ok (takeWhile json_num_char s)" and t: "t = dropWhile json_num_char s"
    by (auto simp: parse_number_def Let_def split: if_splits)
  have "takeWhile json_num_char s \<noteq> []" using n by (auto simp: number_ok_def)
  moreover have "length (takeWhile json_num_char s) + length (dropWhile json_num_char s) = length s"
    by (metis length_append takeWhile_dropWhile_id)
  ultimately show ?thesis using t by (cases "takeWhile json_num_char s") simp_all
qed

lemma parse_word_shorter: "parse_word w j s = Some (k, t) \<Longrightarrow> w \<noteq> [] \<Longrightarrow> length t < length s"
  by (cases s) (auto simp: parse_word_def split: if_splits)

lemma parse_shorter:
  "parse_value n s = Some (j, t) \<Longrightarrow> length t < length s"
  "parse_elems n js s = Some (j, t) \<Longrightarrow> length t < length s"
  "parse_members n kvs s = Some (j, t) \<Longrightarrow> length t < length s"
proof (induction n s and n js s and n kvs s arbitrary: j t and j t and j t rule: parse_value_parse_elems_parse_members.induct)
  case (2 n s)
  from "2.prems" obtain c r where c: "skip s = c # r" by (cases "skip s") auto
  have l: "length (c # r) \<le> length s" using skip_shorter[of s] c by simp
  show ?case
    using "2.prems" c l "2.IH"(1)[OF c] "2.IH"(2)[OF c] parse_string_shorter[of r] parse_number_shorter[of "c # r"]
    by (auto split: if_splits list.splits dest!: parse_word_shorter dest: skip_Cons)
      (meson less_le_trans less_trans not_less_eq skip_Cons le_less_trans less_imp_le Suc_le_lessD)+
next
  case (4 n js s)
  from "4.prems" obtain v x where v: "parse_value n s = Some (v, x)" by (cases "parse_value n s") auto
  from "4.prems" v obtain d u where u: "skip x = d # u" by (cases "skip x") auto
  have l: "length u < length s" using "4.IH"(1)[OF v] skip_Cons[OF u] by simp
  then show ?case
    using "4.prems" v u "4.IH"(2)[OF v refl u] by (auto split: if_splits intro: less_trans)
next
  case (6 n kvs s)
  from "6.prems" obtain q r where q: "skip s = q # r" by (cases "skip s") auto
  with "6.prems" obtain k x where k: "parse_string r = Some (k, x)" by (cases "parse_string r") (auto split: if_splits)
  with "6.prems" q obtain d u where u: "skip x = d # u" by (cases "skip x") (auto split: if_splits)
  with "6.prems" q k obtain v y where v: "parse_value n u = Some (v, y)" by (cases "parse_value n u") (auto split: if_splits)
  with "6.prems" q k u obtain e z where z: "skip y = e # z" by (cases "skip y") (auto split: if_splits)
  have b: "q = CHR 0x22" "d = CHR '':''" using "6.prems" q k u by (auto split: if_splits)
  have l: "length z < length s"
    using skip_Cons[OF q] parse_string_shorter[OF k] skip_Cons[OF u] skip_Cons[OF z] "6.IH"(1)[OF q _ k refl u _ v] b by simp
  then show ?case
    using "6.prems" q k u v z b "6.IH"(2)[OF q _ k refl u _ v refl z] by (auto split: if_splits intro: less_trans)
qed simp_all

lemma enough_fuel:
  "2 * length s + 1 \<le> n \<Longrightarrow> n \<le> m \<Longrightarrow> parse_value m s = parse_value n s"
  "2 * length s + 2 \<le> n \<Longrightarrow> n \<le> m \<Longrightarrow> parse_elems m js s = parse_elems n js s"
  "2 * length s + 2 \<le> n \<Longrightarrow> n \<le> m \<Longrightarrow> parse_members m kvs s = parse_members n kvs s"
proof (induction n s and n js s and n kvs s arbitrary: m and m and m rule: parse_value_parse_elems_parse_members.induct)
  case (2 n s)
  obtain m' where m: "m = Suc m'" "n \<le> m'" using "2.prems"(2) by (cases m) auto
  show ?case
  proof (cases "skip s")
    case (Cons c r)
    have l: "2 * length r + 2 \<le> n" using skip_Cons[OF Cons] "2.prems"(1) by simp
    have e: "parse_elems m' [] r = parse_elems n [] r" if "c = CHR ''[''" "skip r = d # t" "d \<noteq> CHR '']''" for d t
      using "2.IH"(1)[OF Cons _ _ _ _ _ that(2,3) l m(2)] that(1) by simp
    have o: "parse_members m' [] r = parse_members n [] r" if "c = CHR ''{''" "skip r = d # t" "d \<noteq> CHR ''}''" for d t
      using "2.IH"(2)[OF Cons _ _ _ _ _ _ that(2,3) l m(2)] that(1) by simp
    show ?thesis using e o by (auto simp: m(1) Cons split: list.split)
  qed (simp add: m(1))
next
  case (4 n js s)
  obtain m' where m: "m = Suc m'" "n \<le> m'" using "4.prems"(2) by (cases m) auto
  have v: "parse_value m' s = parse_value n s" by (rule "4.IH"(1)) (use "4.prems"(1) m(2) in simp_all)
  show ?case
  proof (cases "parse_value n s")
    case (Some p)
    obtain j t where p: "p = (j, t)" by (cases p)
    show ?thesis
    proof (cases "skip t")
      case (Cons d u)
      have "2 * length u + 2 \<le> n" using parse_shorter(1)[of n s j t] Some p skip_Cons[OF Cons] "4.prems"(1) by simp
      then have "parse_elems m' (js @ [j]) u = parse_elems n (js @ [j]) u" if "d = CHR '',''"
        using "4.IH"(2)[OF Some p[symmetric] Cons that _ m(2)] by simp
      then show ?thesis by (simp add: m(1) v Some p Cons)
    qed (simp add: m(1) v Some p)
  qed (simp add: m(1) v)
next
  case (6 n kvs s)
  obtain m' where m: "m = Suc m'" "n \<le> m'" using "6.prems"(2) by (cases m) auto
  show ?case
  proof (cases "\<exists>r k x u. skip s = CHR 0x22 # r \<and> parse_string r = Some (k, x) \<and> skip x = CHR '':'' # u")
    case True
    then obtain r k x u where q: "skip s = CHR 0x22 # r" and k: "parse_string r = Some (k, x)" and u: "skip x = CHR '':'' # u" by blast
    have l: "length u + 2 \<le> length s" using skip_Cons[OF q] parse_string_shorter[OF k] skip_Cons[OF u] by simp
    have v: "parse_value m' u = parse_value n u"
      by (rule "6.IH"(1)[OF q _ k refl u]) (use "6.prems"(1) m(2) l in simp_all)
    show ?thesis
    proof (cases "parse_value n u")
      case (Some p)
      obtain w y where p: "p = (w, y)" by (cases p)
      show ?thesis
      proof (cases "skip y")
        case (Cons e z)
        have "2 * length z + 2 \<le> n" using parse_shorter(1)[of n u w y] Some p skip_Cons[OF Cons] "6.prems"(1) l by simp
        then have "parse_members m' (AList.update k w kvs) z = parse_members n (AList.update k w kvs) z" if "e = CHR '',''"
          using "6.IH"(2)[OF q _ k refl u _ Some p[symmetric] Cons that _ m(2)] by simp
        then show ?thesis by (simp add: m(1) q k u v Some p Cons)
      qed (simp add: m(1) q k u v Some p)
    qed (simp add: m(1) q k u v)
  next
    case False
    then show ?thesis by (auto simp: m(1) split: list.split option.split)
  qed
qed simp_all

section \<open>Properties\<close>



text \<open>
  Parsing ends: the fuel the parser starts with, twice the length of the text and one, is enough for
  every text, well-formed or not; no more of it changes the result.
\<close>

theorem json_parse_terminates:
  assumes "2 * length s + 1 \<le> n"
  shows "json_parse s = (case parse_value n s of Some (j, t) \<Rightarrow> if skip t = [] then Some j else None | None \<Rightarrow> None)"
  using enough_fuel(1)[OF order_refl assms] by (simp add: json_parse_def)

theorem json_parse_terminates_witness:
  "(case parse_value 1000 ''[1, [], 2'' of Some (j, t) \<Rightarrow> if skip t = [] then Some j else None | None \<Rightarrow> None) = json_parse ''[1, [], 2''"
  by (rule json_parse_terminates[symmetric]) simp

end
