(* ===== verification/HwApi.thy ===== *)
theory HwApi
  imports Fleet Ingest JsonTrip
begin

text \<open>
  \<open>apps/rc-api/src/devices/hw.service.ts\<close>, \<open>conn.service.ts\<close> and the probe of
  \<open>devices.controller.ts\<close>: the history of a device's hardware and connections, and the request for
  its latest samples. The nonce of a request, a random UUID, is an input.
\<close>

section \<open>Hardware\<close>

definition DUMP_WAIT_SEC :: int where "DUMP_WAIT_SEC = 6"

definition clamp :: "jsnum option \<Rightarrow> int \<Rightarrow> int \<Rightarrow> int \<Rightarrow> int" where
  "clamp n lo hi fallback = (case n of Some (Fin q) \<Rightarrow> min hi (max lo (trunc q)) | _ \<Rightarrow> fallback)"

definition assertDevice :: "string \<Rightarrow> int \<Rightarrow> ('r, unit) handler" where
  "assertDevice dev op = bindE (pg_read (\<lambda>d. map_of (tb_devices d) dev \<noteq> None))
     (\<lambda>found. if \<not> found then raise NotFound else assertGroupAccess op dev)"

text \<open>\<open>{ source: r.source, ...r.data }\<close>\<close>

definition with_source :: "hw_sample_row \<Rightarrow> json" where
  "with_source r = JObj (fold (\<lambda>(k, v). AList.update k v) (case hs_data r of JObj kvs \<Rightarrow> kvs | _ \<Rightarrow> [])
     [(''source'', JStr (hs_source r))])"

text \<open>The sign of a difference, for \<open>ORDER BY .. DESC\<close>.\<close>

definition newest_first :: "('a \<Rightarrow> rat) \<Rightarrow> 'a \<Rightarrow> 'a \<Rightarrow> int" where
  "newest_first f a b = (if f a < f b then 1 else if f b < f a then - 1 else 0)"

definition sample_rows :: "db \<Rightarrow> string \<Rightarrow> int \<Rightarrow> nat \<Rightarrow> hw_sample_row list" where
  "sample_rows d dev since limit = take limit (sort_by (newest_first hs_sampleTs)
     (filter (\<lambda>r. hs_deviceId r = dev \<and> of_int since \<le> hs_sampleTs r) (tb_hwSamples d)))"

definition hw_samples :: "string \<Rightarrow> int \<Rightarrow> jsnum option \<Rightarrow> jsnum option \<Rightarrow> ('r, json list) handler" where
  "hw_samples dev op minutes limit = thenE (assertDevice dev op)
     (bindE (gets w_now) (\<lambda>now.
      bindE (pg_read (\<lambda>d. sample_rows d dev (now - clamp minutes 5 (7 * 24 * 60) 360 * 60000) (nat (clamp limit 1 2000 720))))
        (\<lambda>rows. ret (map with_source (rev rows)))))"

text \<open>\<open>(extract(epoch FROM t) * 1000)::bigint\<close> rounds half away from zero.\<close>

definition epoch_ms :: "rat \<Rightarrow> int" where
  "epoch_ms q = (if 0 \<le> q then \<lfloor>q + 1 / 2\<rfloor> else - \<lfloor>1 / 2 - q\<rfloor>)"

record hw_event_dto =
  ed_code :: string
  ed_msg :: "string option"
  ed_ts :: int
  ed_at :: int

definition event_dto :: "hw_event_row \<Rightarrow> hw_event_dto" where
  "event_dto r = \<lparr>ed_code = he_code r, ed_msg = he_msg r, ed_ts = epoch_ms (he_ts r), ed_at = he_at r\<rparr>"

definition hw_events :: "string \<Rightarrow> int \<Rightarrow> jsnum option \<Rightarrow> ('r, hw_event_dto list) handler" where
  "hw_events dev op limit = thenE (assertDevice dev op)
     (bindE (pg_read (\<lambda>d. take (nat (clamp limit 1 500 100)) (sort_by (newest_first (\<lambda>r. of_int (he_at r)))
         (filter (\<lambda>r. he_deviceId r = dev) (tb_hwEvents d)))))
       (\<lambda>rows. ret (map event_dto rows)))"

datatype dump_outcome = Throttled | TimedOut | Dumped "json option" "json option"

definition dump_body_of :: "string \<Rightarrow> ('r, dump_outcome) handler" where
  "dump_body_of raw = (case json_parse raw of
      None \<Rightarrow> raise (ThrownError ''SyntaxError'')
    | Some body \<Rightarrow> if body = JNull then raise type_error else ret (Dumped (oget body ''count'') (oget body ''inserted'')))"

definition hw_dump :: "'r redis_exec \<Rightarrow> string \<Rightarrow> string \<Rightarrow> int \<Rightarrow> jsnum option \<Rightarrow> ('r, dump_outcome) handler" where
  "hw_dump ex nonce dev op nRaw = thenE (assertDevice dev op)
     (let n = nat (clamp nRaw 1 100 100); key = key_string (KHwDump nonce); req = key_string (KHwDumpReq nonce) in
      bindE (redis_setnx ex (key_string (KDumpThrottle dev)) ''1'' 3) (\<lambda>free.
        if \<not> free then ret Throttled
        else thenE (redis_do ex (SetEx req ''1'' (DUMP_WAIT_SEC + 10)))
         (thenE (publish (topic_cmd dev) (dump_cmd n nonce))
         (bindE (redis_brpop ex key DUMP_WAIT_SEC) (\<lambda>res.
          thenE (redis_do ex (Del [key, req]))
            (case res of None \<Rightarrow> ret TimedOut | Some raw \<Rightarrow> dump_body_of raw))))))"

section \<open>Connections of a device\<close>

definition broker_rows :: "db \<Rightarrow> string \<Rightarrow> int \<Rightarrow> conn_event_row list" where
  "broker_rows d dev since = filter (\<lambda>e. ce_deviceId e = dev \<and> ce_source e = ''broker'' \<and> of_int since \<le> ce_at e) (tb_connEvents d)"

text \<open>Seconds of the sessions that ended; \<open>::int\<close> fails for a value that needs more than 32 bits.\<close>

definition session_secs :: "conn_event_row list \<Rightarrow> rat list" where
  "session_secs es = List.map_filter (\<lambda>e. if ce_event e = ''disconnected'' then map_option (\<lambda>c. (ce_at e - c) / 1000) (ce_connectedAt e) else None) es"

definition int_column :: "rat option \<Rightarrow> int option option" where
  "int_column q = (case q of None \<Rightarrow> Some None | Some x \<Rightarrow> if int4 (epoch_ms x) then Some (Some (epoch_ms x)) else None)"

record conn_stats =
  st_connects :: nat
  st_disconnects :: nat
  st_avg :: "int option"
  st_min :: "int option"

definition sql_stats :: "string \<Rightarrow> int \<Rightarrow> db \<Rightarrow> (conn_stats \<times> db) option" where
  "sql_stats dev since d =
     (let es = broker_rows d dev since; xs = session_secs es;
          avg = (if xs = [] then None else Some (sum_list xs / of_nat (length xs)));
          least = (if xs = [] then None else Some (Min (set xs)))
      in case (int_column avg, int_column least) of
          (Some a, Some m) \<Rightarrow> Some (\<lparr>st_connects = length (filter (\<lambda>e. ce_event e = ''connected'') es),
             st_disconnects = length (filter (\<lambda>e. ce_event e = ''disconnected'') es), st_avg = a, st_min = m\<rparr>, d)
        | _ \<Rightarrow> None)"

record conn_event_dto =
  cd_source :: string
  cd_event :: string
  cd_reason :: "string option"
  cd_at :: int
  cd_ip :: "string option"
  cd_keepalive :: "rat option"
  cd_detail :: "json option"

definition conn_dto :: "conn_event_row \<Rightarrow> conn_event_dto" where
  "conn_dto e = \<lparr>cd_source = ce_source e, cd_event = ce_event e, cd_reason = ce_reason e, cd_at = epoch_ms (ce_at e),
     cd_ip = ce_ip e, cd_keepalive = ce_keepalive e, cd_detail = ce_detail e\<rparr>"

record conn_history =
  ch_hours :: int
  ch_stats :: conn_stats
  ch_byReason :: "(string \<times> nat \<times> string option) list"
  ch_events :: "conn_event_dto list"

definition text_or :: "string option \<Rightarrow> string \<Rightarrow> string" where
  "text_or x d = (case x of None \<Rightarrow> d | Some s \<Rightarrow> s)"

definition conn_device :: "(string \<Rightarrow> string option) \<Rightarrow> string \<Rightarrow> int \<Rightarrow> jsnum option \<Rightarrow> ('r, conn_history) handler" where
  "conn_device hint dev op hoursRaw = thenE (assertDevice dev op)
     (let hours = clamp_hours hoursRaw in
      bindE (gets (\<lambda>w. w_now w - hours * 3600000)) (\<lambda>since.
      bindE (pg_read (\<lambda>d. reason_rows (filter (\<lambda>e. ce_event e = ''disconnected'') (broker_rows d dev since)))) (\<lambda>reasons.
      bindE (pg (sql_stats dev since)) (\<lambda>stats.
      bindE (pg_read (\<lambda>d. take 100 (sort_by (newest_first ce_at)
          (filter (\<lambda>e. ce_deviceId e = dev \<and> of_int since \<le> ce_at e) (tb_connEvents d))))) (\<lambda>events.
      ret \<lparr>ch_hours = hours, ch_stats = stats,
        ch_byReason = map (\<lambda>(r, n, _). (text_or r ''unknown'', n, hint (text_or r []))) reasons,
        ch_events = map conn_dto events\<rparr>)))))"

text \<open>\<open>POST /devices/:deviceId/probe\<close>\<close>

definition probe_device :: "'r redis_exec \<Rightarrow> string \<Rightarrow> int \<Rightarrow> ('r, bool \<times> readiness) handler" where
  "probe_device ex dev op = thenE (assertGroupAccess op dev)
     (bindE (probe ex dev 3000) (\<lambda>up. bindE (get_device ex dev op) (\<lambda>device. ret (up, dt_readiness device))))"

section \<open>Requests for samples\<close>

lemma wp_assertDevice:
  assumes "\<And>fs fs' e. e = PgError \<or> map_of (tb_devices (w_db w)) dev = None \<and> e = NotFound \<or> \<not> has_access (w_db w) op dev \<and> e = Forbidden ''NO_GROUP_ACCESS'' \<Longrightarrow>
      E e (w\<lparr>w_pgFaults := fs\<rparr>)"
    and "\<And>fs. map_of (tb_devices (w_db w)) dev \<noteq> None \<Longrightarrow> has_access (w_db w) op dev \<Longrightarrow> Q () (w\<lparr>w_pgFaults := fs\<rparr>)"
  shows "wp (assertDevice dev op) Q E w"
  unfolding assertDevice_def wp_simps
proof (rule wp_pg_read)
  fix fs
  have "wp (assertGroupAccess op dev) Q E (w\<lparr>w_pgFaults := fs\<rparr>)" if "map_of (tb_devices (w_db w)) dev \<noteq> None"
    by (rule wp_access) (use that assms in \<open>auto\<close>)
  then show "(if \<not> map_of (tb_devices (w_db w)) dev \<noteq> None then E NotFound else wp (assertGroupAccess op dev) Q E) (w\<lparr>w_pgFaults := fs\<rparr>)"
    using assms(1) by auto
qed (use assms(1) in auto)

text \<open>What a request that was not refused leaves: the device's throttle, and no key of the request.\<close>

definition requested :: "string \<Rightarrow> string \<Rightarrow> nat \<Rightarrow> ('r \<Rightarrow> store) \<Rightarrow> 'r world \<Rightarrow> 'r world \<Rightarrow> bool" where
  "requested dev nonce n peek w w' \<longleftrightarrow> w_mqtt w' = w_mqtt w @ [(topic_cmd dev, dump_cmd n nonce)] \<and>
     (\<forall>k. peek (w_redis w') k = (if k = key_string (KDumpThrottle dev) then Some (RStr ''1'', Some 3)
        else if k \<in> {key_string (KHwDump nonce), key_string (KHwDumpReq nonce)} then None else peek (w_redis w) k))"

lemma dump_keys_apart:
  "key_string (KDumpThrottle dev) \<noteq> key_string (KHwDump nonce)" "key_string (KDumpThrottle dev) \<noteq> key_string (KHwDumpReq nonce)"
  "key_string (KHwDumpReq nonce) \<noteq> key_string (KHwDump nonce)"
  by (simp_all add: key_string.simps)


context redis_service
begin

lemma wp_setex:
  assumes "\<And>r. (\<And>k'. k' \<noteq> k \<Longrightarrow> peek r k' = peek (w_redis w) k') \<Longrightarrow> E RedisError (w\<lparr>w_redis := r\<rparr>)"
    and "\<And>r. peek r = (peek (w_redis w))(k \<mapsto> (RStr v, Some t)) \<Longrightarrow> Q () (w\<lparr>w_redis := r\<rparr>)"
  shows "wp (redis_do ex (SetEx k v t)) Q E w"
  unfolding redis_do_def wp_simps by (rule wp_redis) (auto simp: cmd_writes_def intro: assms)

lemma wp_hw_dump:
  fixes w :: "'r world"
  assumes refused: "\<And>w' e. unchanged peek w w' \<Longrightarrow> e = PgError \<or> map_of (tb_devices (w_db w)) dev = None \<and> e = NotFound \<or>
        \<not> has_access (w_db w) op dev \<and> e = Forbidden ''NO_GROUP_ACCESS'' \<Longrightarrow> E e w'"
    and failed: "\<And>w' e. w_db w' = w_db w \<Longrightarrow> map_of (tb_devices (w_db w)) dev \<noteq> None \<Longrightarrow> has_access (w_db w) op dev \<Longrightarrow> E e w'"
    and throttled: "\<And>w'. map_of (tb_devices (w_db w)) dev \<noteq> None \<Longrightarrow> has_access (w_db w) op dev \<Longrightarrow>
        peek (w_redis w) (key_string (KDumpThrottle dev)) \<noteq> None \<Longrightarrow> unchanged peek w w' \<Longrightarrow> Q Throttled w'"
    and finished: "\<And>w' out. map_of (tb_devices (w_db w)) dev \<noteq> None \<Longrightarrow> has_access (w_db w) op dev \<Longrightarrow>
        peek (w_redis w) (key_string (KDumpThrottle dev)) = None \<Longrightarrow> w_db w' = w_db w \<Longrightarrow> out \<noteq> Throttled \<Longrightarrow>
        requested dev nonce (nat (clamp n 1 100 100)) peek w w' \<Longrightarrow> Q out w'"
  shows "wp (hw_dump ex nonce dev op n) Q E w"
proof -
  let ?req = "key_string (KHwDumpReq nonce)" and ?key = "key_string (KHwDump nonce)" and ?thr = "key_string (KDumpThrottle dev)"
  let ?msg = "dump_cmd (nat (clamp n 1 100 100)) nonce"
  have body: "wp (dump_body_of raw) Q E w'"
    if "map_of (tb_devices (w_db w)) dev \<noteq> None" "has_access (w_db w) op dev" "peek (w_redis w) ?thr = None"
      "w_db w' = w_db w" "requested dev nonce (nat (clamp n 1 100 100)) peek w w'" for raw w'
    using finished[OF that(1-4) _ that(5)] failed[OF that(4,1,2)]
    by (auto simp: dump_body_of_def wp_simps split: option.split)
  have rest: "wp (thenE (redis_do ex (SetEx ?req ''1'' (DUMP_WAIT_SEC + 10)))
         (thenE (publish (topic_cmd dev) ?msg)
         (bindE (redis_brpop ex ?key DUMP_WAIT_SEC) (\<lambda>res.
          thenE (redis_do ex (Del [?key, ?req])) (case res of None \<Rightarrow> ret TimedOut | Some raw \<Rightarrow> dump_body_of raw))))) Q E u"
    if d: "map_of (tb_devices (w_db w)) dev \<noteq> None" "has_access (w_db w) op dev" "peek (w_redis w) ?thr = None"
      and u: "w_db u = w_db w" "w_mqtt u = w_mqtt w" "peek (w_redis u) = (peek (w_redis w))(?thr \<mapsto> (RStr ''1'', Some 3))" for u
    unfolding wp_simps
  proof (intro wp_setex wp_publish wp_brpop wp_del)
    fix r fs r' x r''
    let ?u = "u\<lparr>w_redis := r, w_mqtt := w_mqtt (u\<lparr>w_redis := r\<rparr>) @ [(topic_cmd dev, ?msg)], w_mqttFaults := fs, w_redis := r'\<rparr>"
    assume r: "peek r = (peek (w_redis u))(?req \<mapsto> (RStr ''1'', Some (DUMP_WAIT_SEC + 10)))"
      and r': "\<And>k'. k' \<noteq> ?key \<Longrightarrow> peek r' k' = peek (w_redis (u\<lparr>w_redis := r, w_mqtt := w_mqtt (u\<lparr>w_redis := r\<rparr>) @ [(topic_cmd dev, ?msg)], w_mqttFaults := fs\<rparr>)) k'"
      and r'': "peek r'' = (\<lambda>k. if k \<in> set [?key, ?req] then None else peek (w_redis ?u) k)"
    have "requested dev nonce (nat (clamp n 1 100 100)) peek w (?u\<lparr>w_redis := r''\<rparr>)"
      using r r' dump_keys_apart u by (auto simp: requested_def r'')
    from body[OF d _ this] finished[OF d _ _ this, of TimedOut] u
    show "(case x of None \<Rightarrow> Q TimedOut | Some raw \<Rightarrow> wp (dump_body_of raw) Q E) (?u\<lparr>w_redis := r''\<rparr>)"
      by (simp split: option.split)
  qed (use failed[OF _ d(1,2)] u in auto)
  show ?thesis
    unfolding hw_dump_def Let_def wp_then wp_bind
  proof (rule wp_assertDevice)
    fix fs assume d: "map_of (tb_devices (w_db w)) dev \<noteq> None" "has_access (w_db w) op dev"
    show "wp (redis_setnx ex ?thr ''1'' 3) (\<lambda>free. wp (if \<not> free then ret Throttled else
        thenE (redis_do ex (SetEx ?req ''1'' (DUMP_WAIT_SEC + 10))) (thenE (publish (topic_cmd dev) ?msg)
         (bindE (redis_brpop ex ?key DUMP_WAIT_SEC) (\<lambda>res.
          thenE (redis_do ex (Del [?key, ?req])) (case res of None \<Rightarrow> ret TimedOut | Some raw \<Rightarrow> dump_body_of raw))))) Q E) E (w\<lparr>w_pgFaults := fs\<rparr>)"
    proof (rule wp_setnx)
      fix r assume "peek (w_redis (w\<lparr>w_pgFaults := fs\<rparr>)) ?thr = None" "peek r = (peek (w_redis (w\<lparr>w_pgFaults := fs\<rparr>)))(?thr \<mapsto> (RStr ''1'', Some 3))"
      with rest[OF d, of "w\<lparr>w_pgFaults := fs, w_redis := r\<rparr>"]
      show "wp (if \<not> True then ret Throttled else
        thenE (redis_do ex (SetEx ?req ''1'' (DUMP_WAIT_SEC + 10))) (thenE (publish (topic_cmd dev) ?msg)
         (bindE (redis_brpop ex ?key DUMP_WAIT_SEC) (\<lambda>res.
          thenE (redis_do ex (Del [?key, ?req])) (case res of None \<Rightarrow> ret TimedOut | Some raw \<Rightarrow> dump_body_of raw))))) Q E (w\<lparr>w_pgFaults := fs, w_redis := r\<rparr>)"
        by simp
    qed (use d failed in \<open>auto simp: wp_ret unchanged_def intro!: throttled\<close>)
  qed (auto simp: unchanged_def intro!: refused)
qed

end

section \<open>Properties\<close>

text \<open>
  C23 Requesting samples: without access, or for an unknown device, nothing happens at all. With access,
  a request within three seconds of the last is throttled and does nothing; any other sends one
  command to the device, for one to a hundred samples, and leaves the throttle for three seconds
  and neither the registration nor the answer of its nonce. No table changes.
\<close>

theorem hw_dump_contract:
  fixes w :: "'r world"
  assumes "redis_service ex peek" "hw_dump ex nonce dev op n w = (r, w')"
  defines "may \<equiv> map_of (tb_devices (w_db w)) dev \<noteq> None \<and> has_access (w_db w) op dev"
    and "free \<equiv> peek (w_redis w) (key_string (KDumpThrottle dev)) = None"
  shows "w_db w' = w_db w \<and> (if may then \<forall>out. r = Inr out \<longrightarrow> (out = Throttled) = (\<not> free) \<and>
        (if free then \<exists>m \<in> {1..100}. requested dev nonce m peek w w' else unchanged peek w w')
     else (\<exists>e. r = Inl e) \<and> unchanged peek w w')"
proof -
  have "1 \<le> clamp n 1 100 100 \<and> clamp n 1 100 100 \<le> 100" by (simp add: clamp_def split: option.split jsnum.split)
  then have m: "nat (clamp n 1 100 100) \<in> {1..100}" by auto
  let ?Q = "\<lambda>out w'. w_db w' = w_db w \<and> may \<and> (out = Throttled) = (\<not> free) \<and>
        (if free then requested dev nonce (nat (clamp n 1 100 100)) peek w w' else unchanged peek w w')"
  let ?E = "\<lambda>e w'. w_db w' = w_db w \<and> (\<not> may \<longrightarrow> unchanged peek w w')"
  have "wp (hw_dump ex nonce dev op n) ?Q ?E w"
    by (rule redis_service.wp_hw_dump[OF assms(1)]) (auto simp: may_def free_def unchanged_def)
  with assms(2) m show ?thesis by (cases r) (auto simp: wp_def)
qed

text \<open>A device that does not answer.\<close>

theorem hw_dump_contract_witness:
  "w_db (snd (hw_dump mem_redis ''n7'' ''d1'' 1 (Some (Fin 500)) (demo_world Map.empty))) = demo_db \<and>
   fst (hw_dump mem_redis ''n7'' ''d1'' 1 (Some (Fin 500)) (demo_world Map.empty)) = Inr TimedOut \<and>
   (\<exists>m \<in> {1..100}. requested ''d1'' ''n7'' m snd (demo_world Map.empty)
      (snd (hw_dump mem_redis ''n7'' ''d1'' 1 (Some (Fin 500)) (demo_world Map.empty))))"
proof -
  let ?w = "demo_world Map.empty"
  obtain r w' where run: "hw_dump mem_redis ''n7'' ''d1'' 1 (Some (Fin 500)) ?w = (r, w')" by force
  have "\<not> isl (fst (hw_dump mem_redis ''n7'' ''d1'' 1 (Some (Fin 500)) ?w)) \<and>
      fst (hw_dump mem_redis ''n7'' ''d1'' 1 (Some (Fin 500)) ?w) = Inr TimedOut" by code_simp
  then have r: "r = Inr TimedOut" using run by simp
  have "map_of (tb_devices (w_db ?w)) ''d1'' \<noteq> None \<and> has_access (w_db ?w) 1 ''d1''" by code_simp
  moreover have "snd (w_redis ?w) (key_string (KDumpThrottle ''d1'')) = None" by (simp add: demo_world_def)
  ultimately show ?thesis using hw_dump_contract[OF mem.redis_service_axioms run] run r by (simp add: demo_world_def)
qed

text \<open>
  The two ends agree: the answer the ingest service pushes for a dump is read by the waiting call of
  the API as exactly the figures it was made from.
\<close>

theorem dump_reply_roundtrip:
  assumes "c < 2 ^ 53" "i < 2 ^ 53"
  shows "dump_body_of (dump_reply c i) w =
    (Inr (Dumped (Some (JNum (Fin (of_nat c)))) (Some (JNum (Fin (of_nat i))))), w)"
proof -
  have d: "is_double (of_nat n)" if "n < 2 ^ 53" for n
  proof -
    have "int n < int (2 ^ 53)" using that by (simp only: of_nat_less_iff)
    then have "\<bar>int n\<bar> < 2 ^ 1000" by simp
    from is_double_of_int[OF this] show ?thesis by simp
  qed
  let ?v = "JObj [(''count'', JNum (Fin (of_nat c))), (''inserted'', JNum (Fin (of_nat i)))]"
  have "json_parse (dump_reply c i) = Some ?v"
    unfolding dump_reply_def by (rule parse_stringify) (use assms d in simp_all)
  then show ?thesis by (simp add: dump_body_of_def ret_def)
qed

theorem dump_reply_roundtrip_witness:
  "dump_body_of (dump_reply 12 3) (demo_world Map.empty) = (Inr (Dumped (Some (JNum (Fin 12))) (Some (JNum (Fin 3)))), demo_world Map.empty)"
  using dump_reply_roundtrip[of 12 3 "demo_world Map.empty"] by simp

end
