(* ===== verification/System.thy ===== *)
theory System
  imports Relay IngestRules Auth HwApi
begin

text \<open>
  The services together: the API's calls, the messages of the tablets, the sync with the MDM and the
  callbacks of the relay run on the same tables and the same Redis, in any order. A call that starts
  a session is two steps, because it waits seconds for the tablet while the others go on.
\<close>

section \<open>Starting in two steps\<close>

definition request_session :: "'r redis_exec \<Rightarrow> start_input \<Rightarrow> string \<Rightarrow> int \<Rightarrow> string \<Rightarrow> string option \<Rightarrow> ('r, unit) handler" where
  "request_session ex inp dev op entry ip =
     bindE (getState ex dev) (\<lambda>state.
      (let rd = computeReadiness state in
       if r_tier rd = NOT_READY \<or> r_tier rd = OFFLINE
       then raise (NotReadyError (tier_string (r_tier rd))
         (map blocker_name (case r_blockers rd of None \<Rightarrow> [] | Some bs \<Rightarrow> bs)))
       else pg_now (\<lambda>now. sql_insert_session (si_sid inp) (new_session dev op entry ip now))))"

definition unlock :: "'r redis_exec \<Rightarrow> string \<Rightarrow> error \<Rightarrow> ('r, 'a) handler" where
  "unlock ex dev err = thenE (redis_do ex (Del [key_string (KActiveSession dev)])) (raise err)"

text \<open>Up to the row of the session; \<open>None\<close> when the call goes on to wait for the tablet.\<close>

definition start_begin :: "'r redis_exec \<Rightarrow> jwt_sign \<Rightarrow> session_cfg \<Rightarrow> start_input \<Rightarrow> string \<Rightarrow> int \<Rightarrow> string \<Rightarrow> string option \<Rightarrow> ('r, start_result option) handler" where
  "start_begin ex sign cfg inp dev op entry ip =
     thenE (assertGroupAccess op dev)
      (bindE (redis_setnx ex (key_string (KActiveSession dev)) (si_sid inp) TTL_session) (\<lambda>occupied.
        if \<not> occupied then bindE (reissueViewer ex sign cfg dev op (si_viewerJti inp)) (\<lambda>r. ret (Some r))
        else thenE (catchE (request_session ex inp dev op entry ip) (unlock ex dev)) (ret None)))"

text \<open>From the first probe on.\<close>

definition start_finish :: "'r redis_exec \<Rightarrow> jwt_sign \<Rightarrow> session_cfg \<Rightarrow> start_input \<Rightarrow> string \<Rightarrow> int \<Rightarrow> ('r, start_result) handler" where
  "start_finish ex sign cfg inp dev op =
     bindE (catchE (bindE (reach ex cfg inp dev) (\<lambda>ok.
          if \<not> ok then ret Unreachable
          else bindE (pickLeastLoaded ex cfg) (\<lambda>node. announce ex sign cfg inp dev op node)))
         (unlock ex dev))
      (\<lambda>out. case out of
          Started r \<Rightarrow> ret r
        | Unreachable \<Rightarrow> fail_session ex (si_sid inp) dev ''device_unreachable'')"

text \<open>One after the other they are the call.\<close>

lemma start_split:
  "start ex sign cfg inp dev op entry ip =
   bindE (start_begin ex sign cfg inp dev op entry ip)
     (\<lambda>r. case r of Some res \<Rightarrow> ret res | None \<Rightarrow> start_finish ex sign cfg inp dev op)"
proof -
  have a: "bindE (bindE m f) g = bindE m (\<lambda>x. bindE (f x) g)" for m :: "('w, error, 'a) prog" and f :: "'a \<Rightarrow> ('w, error, 'b) prog" and g :: "'b \<Rightarrow> ('w, error, 'c) prog"
    by (simp add: fun_eq_iff bindE_def split: prod.split sum.split)
  have c: "catchE (bindE m f) h = bindE (catchE (bindE m (\<lambda>x. ret (Inr x))) (\<lambda>e. bindE (h e) (\<lambda>y. ret (Inl y))))
      (\<lambda>z. case z of Inr x \<Rightarrow> catchE (f x) h | Inl y \<Rightarrow> ret y)" for m :: "('w, error, 'a) prog" and f :: "'a \<Rightarrow> ('w, error, 'b) prog" and h
    by (simp add: fun_eq_iff bindE_def catchE_def ret_def split: prod.split sum.split)
  show ?thesis
  proof
    fix w
    show "start ex sign cfg inp dev op entry ip w = bindE (start_begin ex sign cfg inp dev op entry ip)
       (\<lambda>r. case r of Some res \<Rightarrow> ret res | None \<Rightarrow> start_finish ex sign cfg inp dev op) w"
      unfolding start_def start_begin_def start_locked_def start_body_def request_session_def start_finish_def unlock_def
      by (simp add: prog_defs Let_def split: prod.split sum.split)
  qed
qed

section \<open>The system\<close>

datatype relay_event =
    Accept | Connect sock string "(bytes \<times> bool) list" | Message sock bytes bool
  | SockClose sock | Timer nat | Tick "sock \<Rightarrow> nat"

fun callback :: "'r relay_env \<Rightarrow> relay_event \<Rightarrow> 'r relay \<Rightarrow> 'r relay" where
  "callback env Accept s = s\<lparr>rl_open := rl_nextSock s # rl_open s,
      rl_pending := rl_nextSock s # rl_pending s, rl_nextSock := rl_nextSock s + 1\<rparr>"
| "callback env (Connect ws url early) s = onConnection env ws url early (s\<lparr>rl_pending := removeAll ws (rl_pending s)\<rparr>)"
| "callback env (Message ws data binary) s = Relay.onMessage ws data binary s"
| "callback env (SockClose ws) s = onClose (re_redis env) ws s"
| "callback env (Timer h) s = onTimer (re_redis env) h s"
| "callback env (Tick buffered) s = tick (re_redis env) buffered s"

text \<open>What the services are given: one Redis, the settings, the libraries and the servers they call.\<close>

record ('r, 'h) sys_env =
  se_relay :: "'r relay_env"
  se_sign :: jwt_sign
  se_sessions :: session_cfg
  se_conv :: conv
  se_ingest :: ingest_cfg
  se_sha1 :: "string \<Rightarrow> string"
  se_config :: config
  se_jwt :: jwt
  se_fetch :: "'h fetch"
  se_serial :: "int list \<Rightarrow> int"
  se_int_of :: "json \<Rightarrow> int option"

abbreviation redis_of :: "('r, 'h) sys_env \<Rightarrow> 'r redis_exec" where
  "redis_of env \<equiv> re_redis (se_relay env)"

text \<open>
  The relay's state holds the tables, Redis and the clock. \<open>sy_used\<close> are the session ids in use so
  far, \<open>sy_starts\<close> the calls that wait for their tablet.
\<close>

record ('r, 'h) sys =
  sy_relay :: "'r relay"
  sy_mdm :: "'h mdm"
  sy_used :: "string list"
  sy_starts :: "(string \<times> start_input \<times> string \<times> int) list"

abbreviation sy_world :: "('r, 'h) sys \<Rightarrow> 'r world" where
  "sy_world s \<equiv> rl_world (sy_relay s)"

definition with_world :: "'r world \<Rightarrow> ('r, 'h) sys \<Rightarrow> ('r, 'h) sys" where
  "with_world w s = s\<lparr>sy_relay := (sy_relay s)\<lparr>rl_world := w\<rparr>\<rparr>"

definition run :: "('r, 'a) handler \<Rightarrow> ('r, 'h) sys \<Rightarrow> ('r, 'h) sys" where
  "run m s = with_world (snd (m (sy_world s))) s"

definition run_net :: "('r, 'h, 'a) net \<Rightarrow> ('r, 'h) sys \<Rightarrow> ('r, 'h) sys" where
  "run_net m s = (case m (sy_world s, sy_mdm s) of (_, w, h) \<Rightarrow> with_world w (s\<lparr>sy_mdm := h\<rparr>))"

definition begin_call :: "('r, 'h) sys_env \<Rightarrow> start_input \<Rightarrow> string \<Rightarrow> int \<Rightarrow> string \<Rightarrow> string option \<Rightarrow> ('r, 'h) sys \<Rightarrow> ('r, 'h) sys" where
  "begin_call env inp dev op entry ip s =
     (case start_begin (redis_of env) (se_sign env) (se_sessions env) inp dev op entry ip (sy_world s) of
        (r, w) \<Rightarrow> with_world w (s\<lparr>sy_used := si_sid inp # sy_used s,
          sy_starts := (if r = Inr None then [(si_sid inp, inp, dev, op)] else []) @ sy_starts s\<rparr>))"

definition finish_call :: "('r, 'h) sys_env \<Rightarrow> string \<Rightarrow> ('r, 'h) sys \<Rightarrow> ('r, 'h) sys" where
  "finish_call env sid s = (case map_of (sy_starts s) sid of
      None \<Rightarrow> s
    | Some (inp, dev, op) \<Rightarrow> run (start_finish (redis_of env) (se_sign env) (se_sessions env) inp dev op)
        (s\<lparr>sy_starts := filter (\<lambda>p. fst p \<noteq> sid) (sy_starts s)\<rparr>))"

text \<open>
  A step runs one operation to its end. \<open>elsewhere\<close> stands for time, expiring keys, connections that
  fail, and every operation that only reads the tables; \<open>restart\<close> loses the calls that wait.
  \<open>randomUUID\<close> never returns an id twice.
\<close>

inductive sys_step :: "('r, 'h) sys_env \<Rightarrow> ('r, 'h) sys \<Rightarrow> ('r, 'h) sys \<Rightarrow> bool" for env where
  relay: "Relay.step (se_relay env) (sy_relay s) (callback (se_relay env) e (sy_relay s)) \<Longrightarrow>
    sys_step env s (s\<lparr>sy_relay := callback (se_relay env) e (sy_relay s)\<rparr>)"
| begin_start: "si_sid inp \<notin> set (sy_used s) \<Longrightarrow> sys_step env s (begin_call env inp dev op entry ip s)"
| finish_start: "sys_step env s (finish_call env sid s)"
| restart: "sys_step env s (s\<lparr>sy_starts := []\<rparr>)"
| close: "sys_step env s (run (close_session (redis_of env) sid op) s)"
| remove: "sys_step env s (run (remove_device (redis_of env) dev op) s)"
| message: "sys_step env s (run (on_message (redis_of env) (se_conv env) (se_ingest env) (se_sha1 env) m) s)"
| prune: "sys_step env s (run (prune (se_ingest env)) s)"
| sync: "sys_step env s (run_net (syncFromHeadwind (se_config env) (se_fetch env) (se_conv env) (se_int_of env) (se_serial env)) s)"
| login_hmdm: "sys_step env s (run_net (loginHmdm (se_jwt env) (se_config env) (se_fetch env) (se_serial env)
    (se_conv env) (se_int_of env) tok) s)"
| login_sso: "sys_step env s (run_net (loginSso (se_jwt env) (se_config env) (se_fetch env) (se_serial env) (se_conv env) tok dev) s)"
| elsewhere: "w_db w = w_db (sy_world s) \<Longrightarrow> sys_step env s (with_world w (s\<lparr>sy_mdm := h\<rparr>))"

definition sys_initial :: "string \<Rightarrow> 'r world \<Rightarrow> 'h mdm \<Rightarrow> ('r, 'h) sys" where
  "sys_initial node w h = \<lparr>sy_relay = initial node w, sy_mdm = h, sy_used = map fst (tb_sessions (w_db w)), sy_starts = []\<rparr>"

inductive sys_reachable :: "('r, 'h) sys_env \<Rightarrow> string \<Rightarrow> ('r, 'h) sys \<Rightarrow> bool" for env node where
  init: "unique (w_db w) \<Longrightarrow> sys_reachable env node (sys_initial node w h)"
| next_step: "sys_reachable env node s \<Longrightarrow> sys_step env s s' \<Longrightarrow> sys_reachable env node s'"

text \<open>The phase of a session id.\<close>

definition phase :: "('r, 'h) sys \<Rightarrow> string \<Rightarrow> phase" where
  "phase s sid = phase_of (sid \<in> set (sy_used s)) (sid \<in> fst ` set (sy_starts s)) (status (w_db (sy_world s)) sid)"

section \<open>What each operation does to the sessions\<close>

lemma sessions_of_frame: "frame peek (without_device dev) K T m \<Longrightarrow> kept_by (on_db moved) m"
proof (erule kept_by_mono, rule moves.of_eq)
  have k: "tb_sessions (without_device dev d) = tb_sessions d" for d by (simp add: without_device_def)
  show "tb_sessions (w_db w') = tb_sessions (w_db w)" if "stays peek (without_device dev) K T w w'" for w w' :: "'a world"
    using that k[of "w_db w"] k[of "w_db w'"] by (simp add: stays_def)
qed

lemma status_update: "status (update_sessions P f d) sid =
    map_option (\<lambda>r. ss_state (if P sid r then f r else r)) (map_of (tb_sessions d) sid)"
  by (simp add: status_def update_sessions_def option.map_comp comp_def)

lemma unique_update [simp]: "unique (update_sessions P f d) = unique d"
  by (simp add: unique_def update_sessions_def)

lemma moved_update:
  assumes "\<And>sid r. P sid r \<Longrightarrow> allowed (Some (ss_state r)) (Some (ss_state (f r)))"
  shows "moved d (update_sessions P f d)"
  unfolding moved_def
proof (intro impI conjI allI)
  fix sid
  show "allowed (status d sid) (status (update_sessions P f d) sid)"
    using assms unfolding status_update by (cases "map_of (tb_sessions d) sid") (simp_all add: status_def)
qed simp

lemma marks_update:
  assumes "\<And>k r. P k r \<Longrightarrow> k = sid" "\<And>r. ss_state (f r) \<in> {Starting, Failed}"
  shows "only_marks sid d (update_sessions P f d)"
  unfolding only_marks_def
proof (intro impI conjI allI)
  fix k
  show "status (update_sessions P f d) k = status d k \<or>
    k = sid \<and> status d k \<noteq> None \<and> status (update_sessions P f d) k \<in> {Some Starting, Some Failed}"
    using assms unfolding status_update by (cases "map_of (tb_sessions d) k") (auto simp: status_def)
qed simp

lemma moved_delete: "moved d (d\<lparr>tb_sessions := delete_where P (tb_sessions d)\<rparr>)"
  unfolding moved_def
proof (intro impI conjI allI)
  assume u: "unique d"
  then show "unique (d\<lparr>tb_sessions := delete_where P (tb_sessions d)\<rparr>)"
    by (simp add: unique_def delete_where_def distinct_map_filter)
  fix sid
  show "allowed (status d sid) (status (d\<lparr>tb_sessions := delete_where P (tb_sessions d)\<rparr>) sid)"
  proof (cases "map_of (delete_where P (tb_sessions d)) sid")
    case (Some r)
    then have "map_of (tb_sessions d) sid = Some r"
      using u by (auto simp: unique_def delete_where_def dest!: map_of_SomeD)
    with Some show ?thesis by (simp add: status_def)
  qed (auto simp: status_def allowed_def)
qed

lemma inserts_session: "sql_insert_session sid (new_session dev op entry ip now) d = Some (u, e) \<Longrightarrow>
    only_inserts sid d e \<and> status e sid = Some Probing"
  by (auto simp: sql_insert_session_def only_inserts_def status_def unique_def new_session_def map_add_def
      dest: map_of_SomeD split: if_splits option.splits intro: weak_map_of_SomeI)

lemma pg_now_kept: "(\<And>now. kept_by R (pg (q now))) \<Longrightarrow> kept_by R (pg_now q)"
  unfolding kept_by_def pg_now_def by blast

lemma pg_at_kept: "(\<And>now. kept_by R (pg (q now))) \<Longrightarrow> kept_by R (pg_at q)"
  unfolding kept_by_def pg_at_def by blast

context db_order
begin

lemma of_access [frame_intros]: "kept_by (on_db R) (assertGroupAccess op dev)"
  unfolding assertGroupAccess_def by (intro frame_intros)

end

lemma close_moves: "kept_by (on_db moved) (close_session ex sid op)"
  unfolding close_session_def
  by (intro frame_intros pg_now_kept moves.of_pg) (auto simp: sql_close_def allowed_def intro!: moved_update)

lemma remove_moves: "kept_by (on_db moved) (remove_device ex dev op)"
  unfolding remove_device_def remove_tables_def
  by (intro frame_intros moves.of_write moves.of_pg)
    (auto simp: moved_same moved_delete sql_delete_device_def split: if_splits)

lemma prune_moves: "kept_by (on_db moved) (prune cfg)"
  unfolding prune_def by (intro frame_intros pg_at_kept moves.of_pg) (auto intro!: moved_same)

lemma sys_moves: "kept_by (on_db moved) (onSys ex cv topic raw)"
  unfolding onSys_def allow_def
  by (intro frame_intros pg_at_kept moves.of_pg) (auto simp: sql_broker_event_def add_conn_event_def intro!: moved_same split: if_splits option.splits)

lemma message_moves: "redis_service ex peek \<Longrightarrow> kept_by (on_db moved) (on_message ex cv cfg sha1 m)"
proof (cases m)
  case (fields uuid topic raw)
  assume R: "redis_service ex peek"
  have "kept_by (on_db moved) (onMessage ex cv cfg sha1 uuid topic raw)"
  proof (cases "prefix ''$SYS/'' topic")
    case True
    then show ?thesis by (simp add: onMessage_def sys_moves)
  next
    case False
    show ?thesis
      by (rule sessions_of_frame, rule redis_service.frame_onMessage[OF R False refl, where K = UNIV and T = UNIV]) simp_all
  qed
  then show ?thesis unfolding on_message_def fields split_conv by (intro frame_intros)
qed

text \<open>Calls of the MDM's server.\<close>

definition net_moves :: "'r world \<times> 'h mdm \<Rightarrow> 'r world \<times> 'h mdm \<Rightarrow> bool" where
  "net_moves x y \<longleftrightarrow> on_db moved (fst x) (fst y)"

interpretation net_order: effect_order net_moves
  by unfold_locales (auto simp: net_moves_def on_db_def intro: moved_trans)

lemma net_lift: "kept_by (on_db moved) m \<Longrightarrow> kept_by net_moves (lift_net m)"
  by (auto simp: kept_by_def net_moves_def lift_net_def split: prod.split) (metis snd_conv)

lemma net_remote: "kept_by same_world m \<Longrightarrow> kept_by net_moves m"
  by (erule kept_by_mono) (simp add: net_moves_def same_world_def on_db_def)

lemma sync_moves: "kept_by net_moves (syncFromHeadwind cfg fetch cv int_of serial)"
proof -
  have "moved d e" if "sync_kept ns d e" for ns d e
  proof (rule moved_same)
    have "e = d\<lparr>tb_groups := tb_groups e, tb_devices := tb_devices e\<rparr>" using that by (simp add: sync_kept_def)
    then have "tb_sessions e = tb_sessions (d\<lparr>tb_groups := tb_groups e, tb_devices := tb_devices e\<rparr>)" by (rule arg_cong)
    then show "tb_sessions e = tb_sessions d" by simp
  qed
  then have "kept_by (on_db moved) (sync_devices cv int_of serial ds)" for ds
    by (intro kept_by_mono[OF sync_devices_kept]) (auto simp: sync_world_def on_db_def)
  then show ?thesis unfolding syncFromHeadwind_def
    by (intro frame_intros net_lift net_remote[OF fetch_devices_remote])
qed

lemma upsert_moves: "moved d (snd (upsert_operator serial new f d))"
  by (rule moved_same) (simp add: upsert_operator_def Let_def split: option.split prod.split)

lemma login_moves: "kept_by net_moves (loginHmdm j cfg fetch serial cv int_of tok)"
  "kept_by net_moves (loginSso j cfg fetch serial cv tok dev)"
proof -
  have r: "moved d e" if "upsert_operator serial new f d = (a, e)" for new f d a e
    using upsert_moves[of d serial new f] that by simp
  have v: "kept_by same_world (verifyLoginToken cfg fetch tok)" "kept_by same_world (sso_verify cfg fetch tok)"
    unfolding verifyLoginToken_def sso_verify_def unauthorized_def by (intro frame_intros)+
  show "kept_by net_moves (loginHmdm j cfg fetch serial cv int_of tok)"
    unfolding loginHmdm_def upsertFromHmdm_def
    by (intro frame_intros net_remote[OF v(1)] net_lift moves.of_pg) (auto dest!: r split: option.splits)
  show "kept_by net_moves (loginSso j cfg fetch serial cv tok dev)"
    unfolding loginSso_def unauthorized_def sql_sso_operator_def Let_def
    by (intro frame_intros net_remote[OF v(2)] net_lift moves.of_pg) (auto dest!: r split: option.splits)
qed

text \<open>A call that starts a session.\<close>

context db_order
begin

lemma of_pipe [frame_intros]: "kept_by (on_db R) (pipe ex cs)"
proof (induction cs)
  case (Cons c cs)
  have "kept_by (on_db R) (\<lambda>w. case ex c (w_redis w) of (rep, r) \<Rightarrow> (Inr rep, w\<lparr>w_redis := r\<rparr>))"
    by (simp add: kept_by_def on_db_def same split: prod.split)
  with Cons show ?case unfolding pipe.simps by (intro frame_intros)
qed (simp add: effects.ret)

lemma of_start [frame_intros]: "kept_by (on_db R) (getState ex dev)" "kept_by (on_db R) (probe ex dev ms)"
    "kept_by (on_db R) (reissueViewer ex sign cfg dev op jti)" "kept_by (on_db R) (pickLeastLoaded ex cfg)"
    "kept_by (on_db R) (unlock ex dev err)"
  unfolding getState_def probe_def reissueViewer_def pickLeastLoaded_def unlock_def Let_def
  by (intro frame_intros)+

lemma of_reach [frame_intros]: "kept_by (on_db R) (reach ex cfg inp dev)"
  unfolding reach_def by (intro frame_intros)

end

lemma begin_inserts: "kept_by (on_db (only_inserts (si_sid inp))) (start_begin ex sign cfg inp dev op entry ip)"
  unfolding start_begin_def request_session_def Let_def
  by (intro frame_intros pg_now_kept inserts.of_pg) (auto dest: inserts_session)

lemma finish_marks: "kept_by (on_db (only_marks (si_sid inp))) (start_finish ex sign cfg inp dev op)"
proof -
  have "kept_by (on_db (only_marks (si_sid inp))) (case out of Started r \<Rightarrow> ret r
      | Unreachable \<Rightarrow> fail_session ex (si_sid inp) dev ''device_unreachable'')" for out
    unfolding fail_session_def
    by (cases out) (auto intro!: frame_intros pg_now_kept marks.of_pg marks_update simp: sql_failed_def)
  then show ?thesis
    unfolding start_finish_def announce_def Let_def
    by (intro frame_intros marks.of_write) (auto simp: sql_starting_def intro!: marks_update)
qed

lemma begin_waits: "start_begin ex sign cfg inp dev op entry ip w = (Inr None, w') \<Longrightarrow> status (w_db w') (si_sid inp) = Some Probing"
proof -
  assume a: "start_begin ex sign cfg inp dev op entry ip w = (Inr None, w')"
  have "wp (start_begin ex sign cfg inp dev op entry ip)
      (\<lambda>r w'. r = None \<longrightarrow> status (w_db w') (si_sid inp) = Some Probing) (\<lambda>_ _. True) w"
  proof -
    have i: "wp (pg_now (\<lambda>now. sql_insert_session (si_sid inp) (new_session dev op entry ip now)))
        (\<lambda>_ w'. status (w_db w') (si_sid inp) = Some Probing) (\<lambda>_ _. True) w" for w :: "'a world"
      unfolding pg_now_def wp_def
      by (auto simp: pg_def Let_def dest: inserts_session split: list.split bool.split option.split)
    have t: "wp m (\<lambda>_ _. True) (\<lambda>_ _. True) w" for m :: "('a, 'b) handler" and w by (simp add: wp_def split: prod.split sum.split)
    show ?thesis
      unfolding start_begin_def request_session_def unlock_def Let_def wp_simps
      by (rule wp_conseq[OF t]) (auto simp: wp_simps intro!: wp_conseq[OF t] wp_conseq[OF i])
  qed
  from wp_okD[OF this a] show ?thesis by simp
qed

section \<open>Every step follows the life cycle\<close>

definition sys_ok :: "('r, 'h) sys \<Rightarrow> bool" where
  "sys_ok s \<longleftrightarrow> unique (w_db (sy_world s)) \<and> (\<forall>sid. sid \<notin> set (sy_used s) \<longrightarrow> status (w_db (sy_world s)) sid = None) \<and>
     (\<forall>(sid, inp, dev, op) \<in> set (sy_starts s). sid \<in> set (sy_used s) \<and> si_sid inp = sid)"

definition follows :: "('r, 'h) sys \<Rightarrow> ('r, 'h) sys \<Rightarrow> bool" where
  "follows s s' \<longleftrightarrow> (sys_ok s \<longrightarrow> sys_ok s' \<and> (\<forall>sid. session_steps (phase s sid) (phase s' sid)))"

lemma follows_trans: "follows s s' \<Longrightarrow> follows s' s'' \<Longrightarrow> follows s s''"
  unfolding follows_def by (meson rtranclp_trans)

lemma moved_follows:
  assumes "moved (w_db (sy_world s)) (w_db (sy_world s'))" "sy_used s' = sy_used s" "sy_starts s' = sy_starts s"
  shows "follows s s'"
  unfolding follows_def
proof (intro impI conjI allI)
  assume ok: "sys_ok s"
  with assms(1) have u: "unique (w_db (sy_world s'))" and
    a: "\<And>sid. allowed (status (w_db (sy_world s)) sid) (status (w_db (sy_world s')) sid)"
    by (simp_all add: sys_ok_def moved_def)
  have none: "status (w_db (sy_world s')) sid = None" if "status (w_db (sy_world s)) sid = None" for sid
    using a[of sid] that by (simp add: allowed_def)
  then show "sys_ok s'" using ok u assms(2,3) by (simp add: sys_ok_def)
  show "session_steps (phase s sid) (phase s' sid)" for sid
  proof (cases "sid \<in> set (sy_used s)")
    case True
    then show ?thesis using allowed_steps[OF a] assms(2,3) by (simp add: phase_def)
  qed (simp add: phase_def phase_of_def assms(2))
qed

lemma run_follows: "kept_by (on_db moved) m \<Longrightarrow> follows s (run m s)"
  by (rule moved_follows) (simp_all add: run_def with_world_def kept_by_def on_db_def)

lemma run_net_follows:
  assumes "kept_by net_moves m"
  shows "follows s (run_net m s)"
proof -
  obtain r w h where m: "m (sy_world s, sy_mdm s) = (r, w, h)" by (metis prod.collapse)
  have "moved (w_db (sy_world s)) (w_db w)" using kept_byD[OF assms m] by (simp add: net_moves_def on_db_def)
  then show ?thesis by (intro moved_follows) (simp_all add: run_net_def m with_world_def)
qed

lemma relay_follows:
  assumes "Relay.step env r r'" "final_kept r r'" "sy_relay s = r"
  shows "follows s (s\<lparr>sy_relay := r'\<rparr>)"
  by (rule moved_follows) (use assms in \<open>simp_all add: final_kept_def final_db_def\<close>)

lemma callback_final: "final_kept r (callback env e r)"
proof (cases e)
  case (Connect ws url early)
  then show ?thesis
    using final_trans[OF final_kept_same final_onConnection, of "r\<lparr>rl_pending := removeAll ws (rl_pending r)\<rparr>" r] by simp
next
  case (Message ws data binary)
  then show ?thesis by (auto simp: Relay.onMessage_def intro!: final_kept_same split: option.split prod.split role.split)
qed (simp_all add: final_kept_same final_onClose final_onTimer final_tick)

lemma restart_follows: "follows s (s\<lparr>sy_starts := []\<rparr>)"
proof -
  have "session_steps (phase s sid) (phase (s\<lparr>sy_starts := []\<rparr>) sid)" for sid
    by (cases "status (w_db (sy_world s)) sid"; cases "sid \<in> fst ` set (sy_starts s)")
      (auto simp: phase_def phase_of_def intro: aborted forgotten)
  then show ?thesis by (simp add: follows_def sys_ok_def)
qed

lemma begin_follows:
  assumes "si_sid inp \<notin> set (sy_used s)"
  shows "follows s (begin_call env inp dev op entry ip s)" (is "follows s ?t")
  unfolding follows_def
proof (intro impI conjI allI)
  assume ok: "sys_ok s"
  define sid0 where "sid0 = si_sid inp"
  obtain r w where b: "start_begin (redis_of env) (se_sign env) (se_sessions env) inp dev op entry ip (sy_world s) = (r, w)" by force
  let ?d = "w_db (sy_world s)"
  have i: "only_inserts sid0 ?d (w_db w)"
    using kept_byD[OF begin_inserts b] by (simp add: on_db_def sid0_def)
  have u: "unique ?d" using ok by (simp add: sys_ok_def)
  have t: "sy_world ?t = w" "sy_used ?t = sid0 # sy_used s"
    "sy_starts ?t = (if r = Inr None then [(sid0, inp, dev, op)] else []) @ sy_starts s"
    by (simp_all add: begin_call_def b with_world_def sid0_def)
  have same: "status (w_db w) k = status ?d k" if "k \<noteq> sid0" for k using i u that unfolding only_inserts_def by blast
  have new: "status ?d sid0 = None" "sid0 \<notin> fst ` set (sy_starts s)"
    using ok assms by (auto simp: sys_ok_def sid0_def)
  have "unique (w_db w)" using i u by (simp add: only_inserts_def)
  then show "sys_ok ?t" using ok same by (auto simp: sys_ok_def t sid0_def split: if_splits)
  fix sid
  show "session_steps (phase s sid) (phase ?t sid)"
  proof (cases "sid = sid0")
    case False
    then show ?thesis using same by (cases "r = Inr None") (simp_all add: phase_def t)
  next
    case True
    have un: "phase s sid0 = Unused" using assms by (simp add: phase_def phase_of_def sid0_def)
    have st: "status (w_db w) sid0 = None \<or> status (w_db w) sid0 = Some Probing"
      using i u new(1) unfolding only_inserts_def by metis
    have rr: "session_steps Unused (Live True Probing)" "session_steps Unused (Live False Probing)" "session_steps Unused (Gone False)"
      using requested refused aborted[of Probing] by (auto intro: rtranclp.rtrancl_into_rtrancl)
    have "r = Inr None \<Longrightarrow> status (w_db w) sid0 = Some Probing"
      using begin_waits b by (fastforce simp: sid0_def)
    then have "phase ?t sid0 \<in> {Live True Probing, Live False Probing, Gone False}"
      using st new(2) by (auto simp: phase_def phase_of_def t)
    with rr un True show ?thesis by auto
  qed
qed

lemma finish_follows: "follows s (finish_call env sid0 s)" (is "follows s ?t")
proof -
  have "sys_ok ?t \<and> (\<forall>sid. session_steps (phase s sid) (phase ?t sid))" if ok: "sys_ok s"
  proof (cases "map_of (sy_starts s) sid0")
    case None
    with ok show ?thesis by (simp add: finish_call_def)
  next
    case (Some x)
    obtain inp dev op where x: "x = (inp, dev, op)" by (cases x)
    have m: "(sid0, inp, dev, op) \<in> set (sy_starts s)" using Some x by (auto dest: map_of_SomeD)
    have "sid0 \<in> fst ` set (sy_starts s)" by (rule image_eqI[OF _ m]) simp
    then have i: "si_sid inp = sid0" "sid0 \<in> set (sy_used s)" "sid0 \<in> fst ` set (sy_starts s)"
      using bspec[OF ok[unfolded sys_ok_def, THEN conjunct2, THEN conjunct2] m] by simp_all
    obtain r w where f: "start_finish (redis_of env) (se_sign env) (se_sessions env) inp dev op (sy_world s) = (r, w)" by force
    let ?d = "w_db (sy_world s)"
    have k: "only_marks sid0 ?d (w_db w)" using kept_byD[OF finish_marks f] by (simp add: on_db_def i(1))
    have u: "unique ?d" using ok by (simp add: sys_ok_def)
    have t: "sy_world ?t = w" "sy_used ?t = sy_used s" "sy_starts ?t = filter (\<lambda>p. fst p \<noteq> sid0) (sy_starts s)"
      by (simp_all add: finish_call_def Some x run_def with_world_def f)
    have c: "status (w_db w) k = status ?d k \<or> k = sid0 \<and> status ?d k \<noteq> None \<and> status (w_db w) k \<in> {Some Starting, Some Failed}" for k
      using k u unfolding only_marks_def by blast
    have "unique (w_db w)" using k u by (simp add: only_marks_def)
    moreover have "status (w_db w) sid = None" if "sid \<notin> set (sy_used s)" for sid
      using c[of sid] ok i(2) that by (auto simp: sys_ok_def)
    ultimately have "sys_ok ?t" using ok by (auto simp: sys_ok_def t)
    moreover have "session_steps (phase s sid) (phase ?t sid)" for sid
    proof (cases "sid = sid0")
      case False
      then have "sid \<in> fst ` set (filter (\<lambda>p. fst p \<noteq> sid0) (sy_starts s)) \<longleftrightarrow> sid \<in> fst ` set (sy_starts s)" by auto
      with False c[of sid] show ?thesis by (simp add: phase_def t)
    next
      case True
      have off: "sid0 \<notin> fst ` set (filter (\<lambda>p. fst p \<noteq> sid0) (sy_starts s))" by auto
      show ?thesis
      proof (cases "status ?d sid0")
        case None
        then show ?thesis using c[of sid0] i True off forgotten by (auto simp: phase_def phase_of_def t)
      next
        case (Some st)
        then show ?thesis using c[of sid0] i True off announced[of st] unreachable[of st] aborted[of st]
          by (auto simp: phase_def phase_of_def t)
      qed
    qed
    ultimately show ?thesis by blast
  qed
  then show ?thesis by (simp add: follows_def)
qed

lemma step_follows:
  assumes R: "redis_service (redis_of env) peek" and "sys_step env s s'"
  shows "follows s s'"
  using assms(2)
proof cases
  case (relay e)
  then show ?thesis using relay_follows[OF relay(2) callback_final refl] by simp
next
  case (elsewhere w h)
  then show ?thesis by (intro moved_follows) (simp_all add: with_world_def)
qed (auto intro: begin_follows finish_follows restart_follows run_follows run_net_follows close_moves remove_moves
      message_moves[OF R] prune_moves sync_moves login_moves)

lemma sys_reachable_ok:
  assumes R: "redis_service (redis_of env) peek" and "sys_reachable env node s"
  shows "sys_ok s"
  using assms(2)
proof induction
  case (init w h)
  then show ?case by (auto simp: sys_ok_def sys_initial_def initial_def status_def map_of_eq_None_iff)
next
  case (next_step s s')
  then show ?case using step_follows[OF R] by (simp add: follows_def)
qed

text \<open>A call that returns has marked its session as starting, whatever became of it meanwhile.\<close>

definition same_rows :: "db \<Rightarrow> db \<Rightarrow> bool" where
  "same_rows d e \<longleftrightarrow> tb_sessions e = tb_sessions d"

interpretation rows: db_order same_rows
  by unfold_locales (simp_all add: same_rows_def)

lemma wp_rows:
  assumes "kept_by (on_db same_rows) m" "\<And>a w'. tb_sessions (w_db w') = tb_sessions (w_db w) \<Longrightarrow> Q a w'" "\<And>e w'. E e w'"
  shows "wp m Q E w"
  by (rule wp_kept[OF assms(1)]) (use assms(2,3) in \<open>simp_all add: on_db_def same_rows_def\<close>)

lemma announce_marks:
  assumes "status (w_db w) (si_sid inp) \<noteq> None"
  shows "wp (announce ex sign cfg inp dev op node)
    (\<lambda>out w'. (case out of Started r \<Rightarrow> True | Unreachable \<Rightarrow> False) \<and> status (w_db w') (si_sid inp) = Some Starting) (\<lambda>_ _. True) w"
proof -
  have s: "status (sql_starting (si_sid inp) node (w_db w)) (si_sid inp) = Some Starting"
    using assms unfolding sql_starting_def status_update by (auto simp: status_def)
  define Q where "Q = (\<lambda>(w' :: 'a world). status (w_db w') (si_sid inp) = Some Starting)"
  have q: "Q w'" if "Q u" "tb_sessions (w_db w') = tb_sessions (w_db u)" for u w'
    using that by (simp add: Q_def status_def)
  have keep: "wp m (\<lambda>_. Q) (\<lambda>_ _. True) u" if "kept_by (on_db same_rows) m" "Q u" for m :: "('a, unit) handler" and u
    by (rule wp_rows[OF that(1)]) (use q that(2) in blast)+
  show ?thesis
    unfolding announce_def Let_def wp_simps
    by (rule wp_pg_write)
      (auto simp: Q_def[symmetric] s intro!: keep wp_conseq[OF keep] frame_intros, simp add: Q_def s)
qed

lemma finish_reopens:
  assumes "status (w_db w) (si_sid inp) \<noteq> None"
  shows "wp (start_finish ex sign cfg inp dev op) (\<lambda>_ w'. status (w_db w') (si_sid inp) = Some Starting) (\<lambda>_ _. True) w"
proof -
  define P where "P = (\<lambda>(w' :: 'a world). status (w_db w') (si_sid inp) \<noteq> None)"
  have p: "P w'" if "P u" "tb_sessions (w_db w') = tb_sessions (w_db u)" for u w'
    using that by (simp add: P_def status_def)
  have fails: "wp (fail_session ex (si_sid inp) dev reason) Q (\<lambda>_ _. True) u" for reason u and Q :: "start_result \<Rightarrow> 'a world \<Rightarrow> bool"
    unfolding fail_session_def by (simp add: wp_simps) (simp add: wp_def split: prod.split sum.split)
  have undo: "wp (unlock ex dev err) Q (\<lambda>_ _. True) u" for err u and Q :: "start_outcome \<Rightarrow> 'a world \<Rightarrow> bool"
    unfolding unlock_def by (simp add: wp_simps) (simp add: wp_def split: prod.split sum.split)
  have r: "wp (reach ex cfg inp dev) (\<lambda>_. P) (\<lambda>_ _. True) u" "wp (pickLeastLoaded ex cfg) (\<lambda>_. P) (\<lambda>_ _. True) u" if "P u" for u
    by (rule wp_rows, intro frame_intros, use p[OF that] in blast, simp)+
  have a: "wp (announce ex sign cfg inp dev op node) (\<lambda>out w'. wp (case out of Started r \<Rightarrow> ret r
      | Unreachable \<Rightarrow> fail_session ex (si_sid inp) dev ''device_unreachable'')
        (\<lambda>_ w'. status (w_db w') (si_sid inp) = Some Starting) (\<lambda>_ _. True) w')
     (\<lambda>err. wp (unlock ex dev err) Q (\<lambda>_ _. True)) u" if "P u" for node u and Q :: "start_outcome \<Rightarrow> 'a world \<Rightarrow> bool"
    by (rule wp_conseq[OF announce_marks]) (use that in \<open>auto simp: P_def wp_simps undo split: start_outcome.splits\<close>)
  show ?thesis
    unfolding start_finish_def wp_simps
    by (rule wp_conseq[OF r(1)]) (use assms in \<open>auto simp: P_def[symmetric] wp_simps fails undo intro!: wp_conseq[OF r(2)] a\<close>, simp add: P_def)
qed

section \<open>Properties\<close>

text \<open>One device that is online and answers probes, an idle MDM, the relay of node \<open>n1\<close>.\<close>

definition demo_sys_env :: "(mem, unit) sys_env" where
  "demo_sys_env = \<lparr>se_relay = demo_env\<lparr>re_redis := answering mem_redis\<rparr>, se_sign = demo_sign, se_sessions = Sessions.demo_cfg,
     se_conv = pg_conv, se_ingest = IngestRules.demo_cfg, se_sha1 = id, se_config = mdm_config, se_jwt = plain_jwt,
     se_fetch = mdm_server, se_serial = max_serial, se_int_of = (\<lambda>_. Some 1)\<rparr>"

definition sys_requested :: "(mem, unit) sys" where
  "sys_requested = begin_call demo_sys_env (demo_input ''s1'') ''d1'' 1 ''api'' None
     (sys_initial ''n1'' (demo_world demo_online) no_token)"

definition sys_closed :: "(mem, unit) sys" where
  "sys_closed = run (close_session (answering mem_redis) ''s1'' 1) sys_requested"

lemma demo_redis: "redis_of demo_sys_env = answering mem_redis"
  by (simp add: demo_sys_env_def)

lemma sys_requested_reachable: "sys_reachable demo_sys_env ''n1'' sys_requested"
proof -
  have u: "unique (w_db (demo_world demo_online))" by (simp add: unique_def demo_world_def demo_db_def)
  have n: "si_sid (demo_input ''s1'') \<notin> set (sy_used (sys_initial ''n1'' (demo_world demo_online) no_token))"
    by (simp add: sys_initial_def demo_world_def demo_db_def)
  show ?thesis unfolding sys_requested_def
    by (rule sys_reachable.next_step[OF sys_reachable.init[OF u] sys_step.begin_start[OF n]])
qed

lemma sys_close_step: "sys_step demo_sys_env sys_requested sys_closed"
  unfolding sys_closed_def demo_redis[symmetric] by (rule sys_step.close)

text \<open>
  C5 The services refine the life cycle of a session: whatever runs next in a reachable state (a call of
  the API, a message, the sync, a callback of the relay, a restart), every session id only moves along
  the transitions of the automaton.
\<close>

theorem lifecycle_refinement:
  assumes "redis_service (redis_of env) peek" "sys_reachable env node s" "sys_step env s s'"
  shows "session_steps (phase s sid) (phase s' sid)"
  using step_follows[OF assms(1,3)] sys_reachable_ok[OF assms(1,2)] by (simp add: follows_def)

theorem lifecycle_refinement_witness:
  "session_steps (phase sys_requested ''s1'') (phase sys_closed ''s1'') \<and>
   phase sys_requested ''s1'' = Live True Probing \<and> phase sys_closed ''s1'' = Live True Closed"
proof -
  have R: "redis_service (redis_of demo_sys_env) snd" unfolding demo_redis by (rule live.redis_service_axioms)
  have "phase sys_requested ''s1'' = Live True Probing" "phase sys_closed ''s1'' = Live True Closed" by code_simp+
  with lifecycle_refinement[OF R sys_requested_reachable sys_close_step] show ?thesis by blast
qed

text \<open>
  C6 Sessions that are over stay over: once the call that started it has returned, a closed session
  stays closed until its row is deleted, a failed one can only be closed, and the id of a deleted one
  never comes back, whatever the services do.
\<close>

theorem ended_sessions_stay_ended:
  assumes "redis_service (redis_of env) peek" "sys_reachable env node s" "(sys_step env)\<^sup>*\<^sup>* s s'"
  shows "(phase s sid = Live False Closed \<longrightarrow> phase s' sid \<in> {Live False Closed, Gone False}) \<and>
    (phase s sid = Live False Failed \<longrightarrow> phase s' sid \<in> {Live False Failed, Live False Closed, Gone False}) \<and>
    (phase s sid = Gone False \<longrightarrow> phase s' sid = Gone False)"
proof -
  have "follows s s'" using assms(3)
    by (induction rule: rtranclp_induct) (simp add: follows_def, blast intro: follows_trans step_follows[OF assms(1)])
  then have "session_steps (phase s sid) (phase s' sid)"
    using sys_reachable_ok[OF assms(1,2)] by (simp add: follows_def)
  then show ?thesis using closed_is_final failed_is_final gone_is_final by metis
qed

definition sys_over :: "(mem, unit) sys" where
  "sys_over = run (close_session (answering mem_redis) ''s1'' 1) (finish_call demo_sys_env ''s1'' sys_requested)"

lemma sys_over_reachable: "sys_reachable demo_sys_env ''n1'' sys_over"
  unfolding sys_over_def demo_redis[symmetric]
  by (rule sys_reachable.next_step[OF sys_reachable.next_step[OF sys_requested_reachable sys_step.finish_start] sys_step.close])

theorem ended_sessions_stay_ended_witness:
  "phase sys_over ''s1'' = Live False Closed \<and>
   phase (run (remove_device (answering mem_redis) ''d1'' 1) sys_over) ''s1'' \<in> {Live False Closed, Gone False}"
proof -
  let ?t = "run (remove_device (answering mem_redis) ''d1'' 1) sys_over"
  have R: "redis_service (redis_of demo_sys_env) snd" unfolding demo_redis by (rule live.redis_service_axioms)
  have "(sys_step demo_sys_env)\<^sup>*\<^sup>* sys_over ?t"
    unfolding demo_redis[symmetric] by (intro r_into_rtranclp sys_step.remove)
  note p = ended_sessions_stay_ended[OF R sys_over_reachable this, of "''s1''"]
  have "phase sys_over ''s1'' = Live False Closed" by code_simp
  with p show ?thesis by blast
qed

text \<open>
  A start overrides a close: when the call that starts a session succeeds, the session is starting,
  also when it was closed (or marked otherwise) while the call waited for the tablet; the statement
  has no condition on the state.
\<close>

theorem start_overrides_close:
  assumes "start_finish ex sign cfg inp dev op w = (Inr r, w')" "status (w_db w) (si_sid inp) = Some st"
  shows "status (w_db w') (si_sid inp) = Some Starting"
  by (rule wp_okD[OF finish_reopens assms(1)]) (simp add: assms(2))

theorem start_overrides_close_witness:
  "status (w_db (sy_world sys_closed)) ''s1'' = Some Closed \<and>
   (\<exists>r w'. start_finish (answering mem_redis) demo_sign Sessions.demo_cfg (demo_input ''s1'') ''d1'' 1 (sy_world sys_closed) = (Inr r, w') \<and>
      status (w_db w') ''s1'' = Some Starting \<and> lock_free (snd (w_redis w')) ''d1'')"
proof -
  let ?x = "start_finish (answering mem_redis) demo_sign Sessions.demo_cfg (demo_input ''s1'') ''d1'' 1 (sy_world sys_closed)"
  have "\<not> isl (fst ?x)" "lock_free (snd (w_redis (snd ?x))) ''d1''" by code_simp+
  then obtain r w' where x: "?x = (Inr r, w')" "lock_free (snd (w_redis w')) ''d1''" by (metis prod.collapse sum.collapse(2) snd_conv)
  have c: "status (w_db (sy_world sys_closed)) ''s1'' = Some Closed" by code_simp
  have i: "si_sid (demo_input ''s1'') = ''s1''" by (simp add: demo_input_def)
  have "status (w_db w') ''s1'' = Some Starting"
    using start_overrides_close[OF x(1), unfolded i, OF c] .
  with x c show ?thesis by blast
qed

end
