(* ===== verification/Video.thy ===== *)
theory Video
  imports Relay JsonParse Doubles
begin

text \<open>
  The picture: \<open>tools/fake-agent/annexb.js\<close> cuts an H.264 stream into frames and packs them with
  a nine-byte header, the relay forwards them, and \<open>apps/rc-web/src/lib/decode.ts\<close> feeds them to
  the decoder of the browser. Buffers are lists of bytes.
\<close>

section \<open>Cutting the stream\<close>

definition START :: bytes where "START = [0, 0, 0, 1]"

text \<open>\<open>buf.indexOf(START, from)\<close>, counted from the front of the rest of the buffer.\<close>

fun index_of :: "bytes \<Rightarrow> nat option" where
  "index_of [] = None"
| "index_of (b # bs) = (if prefix START (b # bs) then Some 0 else map_option Suc (index_of bs))"

definition index_from :: "bytes \<Rightarrow> nat \<Rightarrow> nat option" where
  "index_from buf i = map_option (\<lambda>k. i + k) (index_of (drop i buf))"

lemma index_of_bound: "index_of bs = Some k \<Longrightarrow> k < length bs \<and> prefix START (drop k bs)"
proof (induction bs arbitrary: k)
  case (Cons b bs)
  then show ?case by (auto split: if_splits)
qed simp

lemma index_from_bound: "index_from buf i = Some k \<Longrightarrow> i \<le> k \<and> k < length buf"
  using index_of_bound by (fastforce simp: index_from_def)

text \<open>The loop over the start codes from position \<open>i\<close>; \<open>subarray\<close> is the slice between two of them.\<close>

function nals_from :: "bytes \<Rightarrow> nat \<Rightarrow> bytes list" where
  "nals_from buf i = (case index_from buf (i + 4) of
      None \<Rightarrow> [drop i buf]
    | Some k \<Rightarrow> take (k - i) (drop i buf) # nals_from buf k)"
  by auto
termination
  by (relation "measure (\<lambda>(buf, i). length buf - i)") (auto dest!: index_from_bound)

declare nals_from.simps [simp del]

definition splitNals :: "bytes \<Rightarrow> bytes list" where
  "splitNals buf = (case index_from buf 0 of None \<Rightarrow> [] | Some i \<Rightarrow> nals_from buf i)"

text \<open>The type of a NAL unit: \<open>nal[4] & 0x1f\<close>, where a missing byte counts as 0.\<close>

definition nal_type :: "bytes \<Rightarrow> nat" where
  "nal_type nal = (if 4 < length nal then unat (nal ! 4) mod 32 else 0)"

record video_frame =
  fr_type :: nat
  fr_data :: bytes

text \<open>The state of \<open>buildFrames\<close>: the frames so far, the parameter sets and the access unit at hand.\<close>

record building =
  bd_frames :: "video_frame list"
  bd_config :: "bytes list"
  bd_au :: "(nat \<times> bytes) option"

definition push_au :: "building \<Rightarrow> building" where
  "push_au b = (case bd_au b of None \<Rightarrow> b
     | Some (t, d) \<Rightarrow> b\<lparr>bd_frames := bd_frames b @ [\<lparr>fr_type = t, fr_data = d\<rparr>]\<rparr>)"

definition push_config :: "building \<Rightarrow> building" where
  "push_config b = (if bd_config b = [] then b
     else b\<lparr>bd_frames := bd_frames b @ [\<lparr>fr_type = 1, fr_data = concat (bd_config b)\<rparr>], bd_config := []\<rparr>)"

definition add_nal :: "bytes \<Rightarrow> building \<Rightarrow> building" where
  "add_nal nal b = (let t = nal_type nal in
     if t = 7 \<or> t = 8 then b\<lparr>bd_config := bd_config b @ [nal]\<rparr>
     else if t \<noteq> 1 \<and> t \<noteq> 5 then b
     else (push_au (push_config b))\<lparr>bd_au := Some (if t = 5 then 2 else 3, nal)\<rparr>)"

definition buildFrames :: "bytes \<Rightarrow> video_frame list" where
  "buildFrames buf = bd_frames (push_au (fold add_nal (splitNals buf)
     \<lparr>bd_frames = [], bd_config = [], bd_au = None\<rparr>))"

section \<open>Packing\<close>

text \<open>\<open>writeBigUInt64BE\<close>: eight bytes, the most significant first; out of range it throws.\<close>

fun big_endian :: "nat \<Rightarrow> nat \<Rightarrow> bytes" where
  "big_endian 0 n = []"
| "big_endian (Suc k) n = word_of_nat (n div 256 ^ k) # big_endian k n"

definition be64 :: "nat \<Rightarrow> bytes" where
  "be64 n = big_endian 8 n"

definition pack :: "8 word \<Rightarrow> nat \<Rightarrow> bytes \<Rightarrow> bytes option" where
  "pack type pts payload = (if pts < 2 ^ 64 then Some (type # be64 pts @ payload) else None)"

text \<open>\<open>getBigUint64\<close> on the other side, and \<open>Number\<close> of it.\<close>

definition read_be64 :: "bytes \<Rightarrow> nat" where
  "read_be64 bs = foldl (\<lambda>a b. 256 * a + unat b) 0 bs"

definition read_pts :: "bytes \<Rightarrow> rat" where
  "read_pts buf = rnd (of_nat (read_be64 (take 8 (drop 1 buf))))"

section \<open>The viewer\<close>

text \<open>\<open>`${v}`\<close> and \<open>v == null || v === '' ? '' : String(v)\<close> of a property.\<close>

definition tpl :: "json option \<Rightarrow> string" where
  "tpl v = (case v of None \<Rightarrow> ''undefined'' | Some j \<Rightarrow> to_str j)"

definition bit_of :: "json option \<Rightarrow> string" where
  "bit_of v = (case v of None \<Rightarrow> [] | Some JNull \<Rightarrow> [] | Some j \<Rightarrow> to_str j)"

definition dot :: string where "dot = [CHR '' '', CHR 0xB7, CHR '' '']"

definition joined :: "json option list \<Rightarrow> string" where
  "joined vs = join dot (filter (\<lambda>t. t \<noteq> []) (map bit_of vs))"

definition stat_q :: "json option \<Rightarrow> string" where
  "stat_q v = (let n = to_number v; q = (if n = NaN then Fin 0 else n) in
     if num_le (Fin 1024) q
     then (case q of Fin x \<Rightarrow> num_to_string (Fin (of_int (js_round (x / 1024)))) | _ \<Rightarrow> num_to_string q) @ ''k''
     else num_to_string q)"

definition formatAgentLog :: "string \<Rightarrow> string" where
  "formatAgentLog raw = (case json_parse raw of
      None \<Rightarrow> raw
    | Some o' \<Rightarrow>
        if o' = JNull then raw
        else if oget o' ''t'' = Some (JStr ''meta'') then
          ''meta '' @ tpl (oget o' ''codec'') @ '' '' @ tpl (oget o' ''w'') @ ''x'' @ tpl (oget o' ''h'') @
            (if truthy (oget o' ''why'') then '' why='' @ tpl (oget o' ''why'') else [])
        else if oget o' ''t'' \<noteq> Some (JStr ''log'') then raw
        else if oget o' ''msg'' = Some (JStr ''stats'') then
          ''stats '' @ tpl (oget o' ''fps'') @ ''fps '' @ tpl (oget o' ''kbps'') @ ''kbps target='' @ tpl (oget o' ''br'') @
            '' q='' @ stat_q (oget o' ''q'') @ dot @ tpl (oget o' ''enc'')
        else if oget o' ''msg'' \<in> {Some (JStr ''h264.fail''), Some (JStr ''jpeg.fallback'')} then
          joined (Some (JStr ''FAIL'') # map (oget o') [''code'', ''why'', ''ex'', ''fault'', ''crash'', ''step''])
        else joined (map (oget o') [''msg'', ''enc'', ''step'', ''err'', ''why'', ''code'', ''lastFail'', ''ex'', ''fault'']))"

datatype chunk_type = Key | Delta

text \<open>
  The variables of \<open>connectStream\<close>, with what it handed to the decoder (type, timestamp, data), the
  pictures it began to paint, and the lines it logged.
\<close>

record viewer =
  vw_gotKey :: bool
  vw_jpegMode :: bool
  vw_jpegBusy :: bool
  vw_jpegLatest :: "bytes option"
  vw_n1 :: nat
  vw_n2 :: nat
  vw_n3 :: nat
  vw_n4 :: nat
  vw_warn :: bool
  vw_painted :: nat
  vw_paintAt :: rat
  vw_chunks :: "(chunk_type \<times> rat \<times> bytes) list"
  vw_pictures :: "bytes list"
  vw_log :: "string list"

definition viewer_init :: "rat \<Rightarrow> viewer" where
  "viewer_init now = \<lparr>vw_gotKey = False, vw_jpegMode = False, vw_jpegBusy = False, vw_jpegLatest = None,
     vw_n1 = 0, vw_n2 = 0, vw_n3 = 0, vw_n4 = 0, vw_warn = True, vw_painted = 0, vw_paintAt = now,
     vw_chunks = [], vw_pictures = [], vw_log = []\<rparr>"

definition onLog :: "string \<Rightarrow> viewer \<Rightarrow> viewer" where
  "onLog line s = s\<lparr>vw_log := vw_log s @ [line]\<rparr>"

definition paintJpeg :: "viewer \<Rightarrow> viewer" where
  "paintJpeg s = (case vw_jpegLatest s of
      None \<Rightarrow> s
    | Some jpeg \<Rightarrow> if vw_jpegBusy s then s
        else s\<lparr>vw_jpegLatest := None, vw_jpegBusy := True, vw_pictures := vw_pictures s @ [jpeg]\<rparr>)"

definition show_count :: "nat \<Rightarrow> string" where
  "show_count n = num_to_string (Fin (of_nat n))"

definition notePaint :: "rat \<Rightarrow> viewer \<Rightarrow> viewer" where
  "notePaint now s = (let s = s\<lparr>vw_painted := vw_painted s + 1\<rparr> in
     if rnd (now - vw_paintAt s) < 2000 then s
     else let fps = js_round (rnd (of_nat (vw_painted s) * 1000 / rnd (now - vw_paintAt s))) in
       (onLog (''view: '' @ num_to_string (Fin (of_int fps)) @ ''fps in='' @ show_count (vw_n1 s + vw_n2 s + vw_n3 s + vw_n4 s) @
          '' key='' @ show_count (vw_n2 s) @ '' jpeg='' @ show_count (vw_n4 s)) s)\<lparr>vw_painted := 0, vw_paintAt := now\<rparr>)"

text \<open>\<open>warnNoKey\<close>, two seconds after the start unless a picture cleared it.\<close>

definition warnNoKey :: "viewer \<Rightarrow> viewer" where
  "warnNoKey s = (if \<not> vw_gotKey s \<and> \<not> vw_jpegMode s
     then onLog (''view: no keyframe after 2s cfg='' @ show_count (vw_n1 s) @ '' key='' @ show_count (vw_n2 s) @
       '' delta='' @ show_count (vw_n3 s) @ '' jpeg='' @ show_count (vw_n4 s)) s
     else s)\<lparr>vw_warn := False\<rparr>"

definition decode_chunk :: "bytes \<Rightarrow> viewer \<Rightarrow> viewer" where
  "decode_chunk buf s = s\<lparr>vw_chunks := vw_chunks s @
     [(if hd buf = 2 then Key else Delta, read_pts buf, drop 9 buf)]\<rparr>"

definition count_frame :: "8 word \<Rightarrow> nat \<Rightarrow> viewer \<Rightarrow> viewer" where
  "count_frame type len s =
     (if type = 2 then
        (let s = s\<lparr>vw_n2 := vw_n2 s + 1, vw_jpegMode := False, vw_gotKey := True, vw_warn := False\<rparr> in
         if vw_n2 s = 1 then onLog (''view: key 0x02 n='' @ show_count len) s else s)
      else if type = 3 then s\<lparr>vw_n3 := vw_n3 s + 1\<rparr> else s)"

text \<open>
  A binary message. Reading beyond its end throws, which leaves everything as it was; the decoding of
  text (\<open>TextDecoder\<close>) is a parameter.
\<close>

definition onBinary :: "(bytes \<Rightarrow> string) \<Rightarrow> bytes \<Rightarrow> viewer \<Rightarrow> viewer" where
  "onBinary dec buf s = (case buf of
      [] \<Rightarrow> s
    | type # _ \<Rightarrow>
        if type = 0x7b then onLog (formatAgentLog (dec buf)) s
        else if length buf < 9 then s
        else if type = 4 then
          paintJpeg (s\<lparr>vw_n4 := vw_n4 s + 1, vw_jpegMode := True, vw_warn := False, vw_jpegLatest := Some (drop 9 buf)\<rparr>)
        else if type = 1 then
          (let s = s\<lparr>vw_n1 := vw_n1 s + 1, vw_jpegMode := False\<rparr> in
           if vw_n1 s = 1 then onLog ''view: cfg 0x01'' s else s)
        else if vw_jpegMode s then s
        else (let s = count_frame type (length buf) s in
           if \<not> vw_gotKey s then s else decode_chunk buf s))"

text \<open>The greeting of \<open>onopen\<close>; \<open>supported\<close> may be undefined, and is then left out of the text.\<close>

definition hello :: "bool option \<Rightarrow> bool option \<Rightarrow> rat \<Rightarrow> rat \<Rightarrow> rat \<Rightarrow> json" where
  "hello h264 h265 innerWidth innerHeight ratio =
     (let dpr = min 2 (if ratio = 0 then 1 else ratio);
          supported = (\<lambda>k v. case v of None \<Rightarrow> [] | Some b \<Rightarrow> [(k, JBool b)]);
          side = (\<lambda>x. JNum (Fin (of_int (js_round (min 1920 (rnd (x * dpr)))))))
      in JObj [(''t'', JStr ''hello''), (''codecs'', JObj (supported ''h264'' h264 @ supported ''h265'' h265)),
           (''jpeg'', JBool True), (''maxW'', side innerWidth), (''maxH'', side innerHeight)])"

datatype viewer_event =
    TextMessage string | BinaryMessage bytes
  | Picture rat | PictureDone bool rat | Warn

text \<open>
  \<open>Picture\<close>: the decoder outputs a frame. \<open>PictureDone\<close>: a JPEG was decoded and painted, or not.
\<close>

fun viewer_do :: "(bytes \<Rightarrow> string) \<Rightarrow> viewer_event \<Rightarrow> viewer \<Rightarrow> viewer" where
  "viewer_do dec (TextMessage raw) s = onLog (formatAgentLog raw) s"
| "viewer_do dec (BinaryMessage buf) s = onBinary dec buf s"
| "viewer_do dec (Picture now) s = notePaint now s"
| "viewer_do dec (PictureDone good now) s = (if \<not> vw_jpegBusy s then s
     else paintJpeg ((if good then notePaint now s else s)\<lparr>vw_jpegBusy := False\<rparr>))"
| "viewer_do dec Warn s = (if vw_warn s then warnNoKey s else s)"

definition viewer_run :: "(bytes \<Rightarrow> string) \<Rightarrow> rat \<Rightarrow> viewer_event list \<Rightarrow> viewer" where
  "viewer_run dec now es = fold (viewer_do dec) es (viewer_init now)"

section \<open>Cutting and joining\<close>

lemma index_of_first: "index_of bs = Some k \<Longrightarrow> j < k \<Longrightarrow> \<not> prefix START (drop j bs)"
proof (induction bs arbitrary: k j)
  case (Cons b bs)
  then show ?case by (cases j) (auto split: if_splits)
qed simp

lemma index_of_None: "index_of bs = None \<longleftrightarrow> (\<forall>j. \<not> prefix START (drop j bs))"
proof (induction bs)
  case (Cons b bs)
  show ?case
  proof
    assume n: "index_of (b # bs) = None"
    show "\<forall>j. \<not> prefix START (drop j (b # bs))"
    proof
      fix j show "\<not> prefix START (drop j (b # bs))"
        using n Cons.IH by (cases j) (auto split: if_splits)
    qed
  next
    assume a: "\<forall>j. \<not> prefix START (drop j (b # bs))"
    from a have "\<not> prefix START (b # bs)" "\<forall>j. \<not> prefix START (drop j bs)" by (metis drop0, metis drop_Suc_Cons)
    then show "index_of (b # bs) = None" using Cons.IH by simp
  qed
qed (simp add: START_def)

lemma index_ofI: "prefix START (drop k bs) \<Longrightarrow> (\<And>j. j < k \<Longrightarrow> \<not> prefix START (drop j bs)) \<Longrightarrow> index_of bs = Some k"
proof (cases "index_of bs")
  case (Some m)
  assume a: "prefix START (drop k bs)" "\<And>j. j < k \<Longrightarrow> \<not> prefix START (drop j bs)"
  have "\<not> k < m" using index_of_first[OF Some] a(1) by blast
  moreover have "\<not> m < k" using index_of_bound[OF Some] a(2) by blast
  ultimately show ?thesis using Some by simp
qed (simp add: index_of_None)

text \<open>A NAL unit: a start code, and none later.\<close>

definition nal_ok :: "bytes \<Rightarrow> bool" where
  "nal_ok n \<longleftrightarrow> prefix START n \<and> (\<forall>k \<ge> 4. \<not> prefix START (drop k n))"

lemma nals_from_concat: "i \<le> length buf \<Longrightarrow> concat (nals_from buf i) = drop i buf"
proof (induction buf i rule: nals_from.induct)
  case (1 buf i)
  show ?case
  proof (cases "index_from buf (i + 4)")
    case (Some k)
    note b = index_from_bound[OF Some]
    have "concat (nals_from buf k) = drop k buf" by (rule "1.IH"[OF Some]) (use b in simp)
    moreover have "drop k buf = drop (k - i) (drop i buf)" using b by simp
    ultimately have "concat (nals_from buf i) = take (k - i) (drop i buf) @ drop (k - i) (drop i buf)"
      using Some by (subst nals_from.simps) simp
    then show ?thesis by (simp only: append_take_drop_id)
  qed (simp add: nals_from.simps)
qed

lemma nals_from_ok: "prefix START (drop i buf) \<Longrightarrow> n \<in> set (nals_from buf i) \<Longrightarrow> nal_ok n"
proof (induction buf i rule: nals_from.induct)
  case (1 buf i)
  have none: "\<not> prefix START (drop k (drop i buf))" if "index_from buf (i + 4) = None" "4 \<le> k" for k
  proof -
    have "\<forall>j. \<not> prefix START (drop j (drop (i + 4) buf))" using that(1) by (simp add: index_from_def index_of_None)
    then have "\<not> prefix START (drop (k - 4) (drop (i + 4) buf))" by blast
    then show ?thesis using that(2) by (simp add: add.commute)
  qed
  show ?case
  proof (cases "index_from buf (i + 4)")
    case None
    then show ?thesis using "1.prems" none by (simp add: nals_from.simps nal_ok_def)
  next
    case (Some k)
    then obtain m where m: "index_of (drop (i + 4) buf) = Some m" "k = i + 4 + m" by (auto simp: index_from_def)
    have "n = take (k - i) (drop i buf) \<or> n \<in> set (nals_from buf k)"
      using "1.prems"(2) Some by (subst (asm) nals_from.simps) simp
    moreover have "nal_ok (take (k - i) (drop i buf))"
      unfolding nal_ok_def
    proof (intro conjI allI impI)
      have "take 4 (drop i buf) = START" using "1.prems"(1) by (auto simp: START_def prefix_def)
      moreover have "k - i = 4 + m" using m(2) by simp
      ultimately have "take (k - i) (drop i buf) = START @ take m (drop 4 (drop i buf))" by (simp only: take_add)
      then show "prefix START (take (k - i) (drop i buf))" by (simp only: prefixI)
      fix j :: nat assume j: "4 \<le> j"
      show "\<not> prefix START (drop j (take (k - i) (drop i buf)))"
      proof
        assume p: "prefix START (drop j (take (k - i) (drop i buf)))"
        then have "4 \<le> length (drop j (take (k - i) (drop i buf)))" by (auto simp: START_def dest!: prefix_length_le)
        then have "j - 4 < m" using m(2) j by simp
        moreover have "prefix START (drop (j - 4) (drop (i + 4) buf))"
        proof -
          have "prefix (drop j (take (k - i) (drop i buf))) (drop j (drop i buf))"
            by (metis drop_take take_is_prefix)
          then have "prefix START (drop j (drop i buf))" using p by (rule prefix_order.trans[rotated])
          then show ?thesis using j by (simp add: add.commute)
        qed
        ultimately show False using index_of_first[OF m(1)] by blast
      qed
    qed
    moreover have "prefix START (drop k buf)" using index_of_bound[OF m(1)] m(2) by (simp add: add.commute add.left_commute)
    ultimately show ?thesis using "1.IH"[OF Some] by blast
  qed
qed

text \<open>The next start code after a unit is that of the next unit, never one across the boundary.\<close>

lemma start_across: "nal_ok n \<Longrightarrow> nal_ok m \<Longrightarrow> 4 \<le> k \<Longrightarrow> k < length n \<Longrightarrow> \<not> prefix START (drop k (n @ m @ r))"
proof
  assume n: "nal_ok n" and m: "nal_ok m" and k: "4 \<le> k" "k < length n" and p: "prefix START (drop k (n @ m @ r))"
  obtain t where t: "m = START @ t" using m by (auto simp: nal_ok_def prefix_def)
  have d: "drop k (n @ m @ r) = drop k n @ 0 # 0 # 0 # 1 # t @ r" using k by (simp add: t START_def)
  obtain a x where a: "drop k n = a # x" using k(2) by (cases "drop k n") auto
  have "\<not> prefix START (drop k n)" using n k(1) by (simp add: nal_ok_def)
  with p show False unfolding d a
    by (cases x; simp add: START_def; cases "tl x"; auto; cases "tl (tl x)"; auto)
qed

lemma nals_from_roundtrip:
  assumes "\<forall>n \<in> set ns. nal_ok n" "nal_ok n"
  shows "nals_from (pre @ concat (n # ns)) (length pre) = n # ns"
  using assms
proof (induction ns arbitrary: pre n)
  case Nil
  have l: "4 \<le> length n" using Nil.prems(2) by (auto simp: nal_ok_def START_def dest: prefix_length_le)
  have "\<not> prefix START (drop j (drop 4 n))" for j using Nil.prems(2) by (simp add: nal_ok_def)
  then have "index_from (pre @ n) (length pre + 4) = None" using l by (simp add: index_from_def index_of_None)
  then show ?case by (subst nals_from.simps) simp
next
  case (Cons m ns)
  have l: "4 \<le> length n" using Cons.prems(2) by (auto simp: nal_ok_def START_def dest: prefix_length_le)
  let ?b = "pre @ concat (n # m # ns)"
  have "index_of (drop (length pre + 4) ?b) = Some (length n - 4)"
  proof (rule index_ofI)
    obtain t where "m = START @ t" using Cons.prems(1) by (auto simp: nal_ok_def prefix_def)
    then show "prefix START (drop (length n - 4) (drop (length pre + 4) ?b))" using l by simp
    fix j assume "j < length n - 4"
    then show "\<not> prefix START (drop j (drop (length pre + 4) ?b))"
      using start_across[of n m "j + 4" "concat ns"] Cons.prems by simp
  qed
  then have i: "index_from ?b (length pre + 4) = Some (length (pre @ n))" using l by (simp add: index_from_def)
  have "nals_from ((pre @ n) @ concat (m # ns)) (length (pre @ n)) = m # ns"
    by (rule Cons.IH) (use Cons.prems in simp_all)
  then show ?case using i by (subst nals_from.simps) simp
qed

lemma splitNals_concat:
  assumes "\<forall>n \<in> set ns. nal_ok n"
  shows "splitNals (concat ns) = ns"
proof (cases ns)
  case (Cons n ms)
  have "prefix START (concat ns)" using assms Cons by (auto simp: nal_ok_def)
  then have "index_from (concat ns) 0 = Some 0" using index_ofI[of 0 "concat ns"] by (simp add: index_from_def)
  moreover have "nals_from ([] @ concat (n # ms)) (length ([] :: bytes)) = n # ms"
    by (rule nals_from_roundtrip) (use assms Cons in simp_all)
  ultimately show ?thesis using Cons by (simp add: splitNals_def)
qed (simp add: splitNals_def index_from_def)

lemma nal_ok_start: "0 \<notin> set d \<Longrightarrow> nal_ok (START @ d)"
proof -
  assume d: "0 \<notin> set d"
  have "\<not> prefix START (drop k (START @ d))" if "4 \<le> k" for k
  proof
    assume "prefix START (drop k (START @ d))"
    moreover have "drop k (START @ d) = drop (k - 4) d" using that by (simp add: START_def drop_Cons' numeral_eq_Suc)
    ultimately obtain t where "drop (k - 4) d = 0 # t" by (auto simp: START_def prefix_def)
    then have "0 \<in> set (drop (k - 4) d)" by simp
    with d show False by (meson in_set_dropD)
  qed
  then show ?thesis by (simp add: nal_ok_def)
qed

section \<open>Frames\<close>

definition slices :: "video_frame list \<Rightarrow> (nat \<times> bytes) list" where
  "slices fs = map (\<lambda>f. (fr_type f, fr_data f)) (filter (\<lambda>f. fr_type f \<noteq> 1) fs)"

definition sets :: "video_frame list \<Rightarrow> bytes" where
  "sets fs = concat (map fr_data (filter (\<lambda>f. fr_type f = 1) fs))"

definition building_ok :: "bytes list \<Rightarrow> building \<Rightarrow> bool" where
  "building_ok ns b \<longleftrightarrow>
     slices (bd_frames b) @ (case bd_au b of None \<Rightarrow> [] | Some p \<Rightarrow> [p]) =
       map (\<lambda>n. (if nal_type n = 5 then 2 else 3, n)) (filter (\<lambda>n. nal_type n \<in> {1, 5}) ns) \<and>
     sets (bd_frames b) @ concat (bd_config b) = concat (filter (\<lambda>n. nal_type n \<in> {7, 8}) ns) \<and>
     (\<forall>t d. bd_au b = Some (t, d) \<longrightarrow> t \<noteq> 1)"

lemma push_config_parts:
  "slices (bd_frames (push_config b)) = slices (bd_frames b)" "bd_config (push_config b) = []" "bd_au (push_config b) = bd_au b"
  "sets (bd_frames (push_config b)) = sets (bd_frames b) @ concat (bd_config b)"
  by (simp_all add: push_config_def slices_def sets_def)

lemma push_au_parts:
  assumes "\<forall>t d. bd_au b = Some (t, d) \<longrightarrow> t \<noteq> 1"
  shows "slices (bd_frames (push_au b)) = slices (bd_frames b) @ (case bd_au b of None \<Rightarrow> [] | Some p \<Rightarrow> [p])"
    "sets (bd_frames (push_au b)) = sets (bd_frames b)" "bd_config (push_au b) = bd_config b"
  using assms by (cases "bd_au b"; force simp: push_au_def slices_def sets_def)+

lemma building_step: "building_ok ns b \<Longrightarrow> building_ok (ns @ [n]) (add_nal n b)"
proof -
  assume ok: "building_ok ns b"
  consider "nal_type n \<in> {7, 8}" | "nal_type n \<notin> {1, 5, 7, 8}" | "nal_type n \<in> {1, 5}" by blast
  then show ?thesis
  proof cases
    case 3
    have au: "\<forall>t d. bd_au (push_config b) = Some (t, d) \<longrightarrow> t \<noteq> 1"
      using ok unfolding building_ok_def push_config_parts by blast
    have "add_nal n b = (push_au (push_config b))\<lparr>bd_au := Some (if nal_type n = 5 then 2 else 3, n)\<rparr>"
      using 3 by (auto simp: add_nal_def Let_def)
    then show ?thesis using ok 3 by (auto simp: building_ok_def push_au_parts[OF au] push_config_parts)
  qed (use ok in \<open>auto simp: building_ok_def add_nal_def\<close>)
qed

lemma building_fold: "building_ok ms b \<Longrightarrow> building_ok (ms @ ns) (fold add_nal ns b)"
proof (induction ns arbitrary: ms b)
  case (Cons n ns)
  from Cons.IH[OF building_step[OF Cons.prems, of n]] show ?case by simp
qed simp

lemma buildFrames_ok:
  "slices (buildFrames buf) = map (\<lambda>n. (if nal_type n = 5 then 2 else 3, n)) (filter (\<lambda>n. nal_type n \<in> {1, 5}) (splitNals buf))"
  "prefix (sets (buildFrames buf)) (concat (filter (\<lambda>n. nal_type n \<in> {7, 8}) (splitNals buf)))"
proof -
  let ?b = "fold add_nal (splitNals buf) \<lparr>bd_frames = [], bd_config = [], bd_au = None\<rparr>"
  have "building_ok ([] @ splitNals buf) ?b" by (rule building_fold) (simp add: building_ok_def slices_def sets_def)
  then have ok: "building_ok (splitNals buf) ?b" by simp
  note o = ok[unfolded building_ok_def]
  note p = push_au_parts[OF o[THEN conjunct2, THEN conjunct2]]
  show "slices (buildFrames buf) = map (\<lambda>n. (if nal_type n = 5 then 2 else 3, n)) (filter (\<lambda>n. nal_type n \<in> {1, 5}) (splitNals buf))"
    unfolding buildFrames_def p(1) by (rule o[THEN conjunct1])
  show "prefix (sets (buildFrames buf)) (concat (filter (\<lambda>n. nal_type n \<in> {7, 8}) (splitNals buf)))"
    unfolding buildFrames_def p(2) by (rule prefixI[OF o[THEN conjunct2, THEN conjunct1, symmetric]])
qed

section \<open>Timestamps\<close>

lemma length_big_endian [simp]: "length (big_endian k n) = k"
  by (induction k) simp_all

lemma read_big_endian: "foldl (\<lambda>a b. 256 * a + unat b) a (big_endian k n) = a * 256 ^ k + n mod 256 ^ k"
proof (induction k arbitrary: a)
  case (Suc k)
  have u: "unat (word_of_nat (n div 256 ^ k) :: 8 word) = n div 256 ^ k mod 256" by (simp add: unat_of_nat)
  have m: "n mod (256 ^ k * 256) = 256 ^ k * (n div 256 ^ k mod 256) + n mod 256 ^ k" by (rule mod_mult2_eq)
  have "foldl (\<lambda>a b. 256 * a + unat b) a (big_endian (Suc k) n) = (256 * a + n div 256 ^ k mod 256) * 256 ^ k + n mod 256 ^ k"
    by (simp only: big_endian.simps foldl_Cons u Suc.IH)
  also have "\<dots> = a * 256 ^ Suc k + n mod 256 ^ Suc k"
    using m by (simp add: algebra_simps)
  finally show ?case .
qed simp

lemma read_be64: "n < 2 ^ 64 \<Longrightarrow> read_be64 (be64 n) = n"
  by (simp add: read_be64_def be64_def read_big_endian)

lemma rnd_of_nat: "n < 2 ^ 53 \<Longrightarrow> rnd (of_nat n) = of_nat n"
proof (cases "n = 0")
  case False
  assume n: "n < 2 ^ 53"
  let ?x = "of_nat n :: rat"
  have x: "0 < ?x" using False by simp
  define e where "e = expo ?x"
  have e: "2 powi e \<le> ?x" unfolding e_def by (rule expo_le[OF x])
  have "e \<le> 52"
  proof (rule ccontr)
    assume "\<not> e \<le> 52"
    then have "(2 :: rat) powi 53 \<le> 2 powi e" by (intro power_int_increasing) simp_all
    moreover have "?x < of_nat (2 ^ 53)" using n by (simp only: of_nat_less_iff)
    ultimately show False using e by simp
  qed
  then obtain k where k: "e - 52 = - int k" by (metis add_diff_cancel_left' diff_ge_0_iff_ge minus_diff_eq nonneg_int_cases)
  have u: "(2 :: rat) powi (e - 52) = inverse (2 ^ k)" by (simp add: k power_int_minus)
  have "?x / 2 powi (e - 52) = of_int (int n * 2 ^ k)" by (simp add: u divide_inverse)
  moreover have "round_even (of_int z) = z" for z by (simp add: round_even_def)
  ultimately have "round_even (?x / 2 powi (e - 52)) = int n * 2 ^ k" by (simp only:)
  then show ?thesis using x by (simp add: rnd_def Let_def e_def[symmetric] u)
qed (simp add: rnd_def)

section \<open>What the viewer shows\<close>

definition jpeg_of :: "viewer_event \<Rightarrow> bytes option" where
  "jpeg_of e = (case e of BinaryMessage buf \<Rightarrow> if 9 \<le> length buf \<and> hd buf = 4 then Some (drop 9 buf) else None | _ \<Rightarrow> None)"

definition jpegs_of :: "viewer_event list \<Rightarrow> bytes list" where
  "jpegs_of es = List.map_filter jpeg_of es"

text \<open>The pictures painted, and the one that waits for its turn.\<close>

definition shown :: "viewer \<Rightarrow> bytes list" where
  "shown s = vw_pictures s @ (case vw_jpegLatest s of None \<Rightarrow> [] | Some j \<Rightarrow> [j])"

definition newest_of :: "bytes list \<Rightarrow> bytes list \<Rightarrow> bool" where
  "newest_of js xs \<longleftrightarrow> subseq xs js \<and> (js \<noteq> [] \<longrightarrow> xs \<noteq> [] \<and> last xs = last js)"

definition viewer_ok :: "bytes list \<Rightarrow> viewer \<Rightarrow> bool" where
  "viewer_ok js s \<longleftrightarrow> (vw_gotKey s \<longleftrightarrow> vw_chunks s \<noteq> []) \<and> (vw_chunks s \<noteq> [] \<longrightarrow> fst (hd (vw_chunks s)) = Key) \<and>
     (\<not> vw_jpegBusy s \<longrightarrow> vw_jpegLatest s = None) \<and> newest_of js (shown s)"

lemma newest_of_snoc: "newest_of js (xs @ ys) \<Longrightarrow> newest_of (js @ [j]) (xs @ [j])"
proof -
  assume "newest_of js (xs @ ys)"
  then have "subseq (xs @ ys) js" by (simp add: newest_of_def)
  moreover have "subseq xs (xs @ ys)" by (rule prefix_imp_subseq) simp
  ultimately have "subseq xs js" by (rule subseq_order.trans[rotated])
  then have "subseq (xs @ [j]) (js @ [j])" by (intro list_emb_append_mono) simp_all
  then show ?thesis by (simp add: newest_of_def)
qed

lemma paint_shown [simp]: "shown (paintJpeg s) = shown s"
  by (simp add: shown_def paintJpeg_def split: option.split)

lemma paint_fields [simp]: "vw_gotKey (paintJpeg s) = vw_gotKey s" "vw_chunks (paintJpeg s) = vw_chunks s"
    "\<not> vw_jpegBusy (paintJpeg s) \<Longrightarrow> vw_jpegLatest (paintJpeg s) = None"
  by (auto simp: paintJpeg_def split: option.splits if_splits)

text \<open>The fields the invariant speaks of; the rest is counting and logging.\<close>

definition view_core :: "viewer \<Rightarrow> bool \<times> bool \<times> bytes option \<times> (chunk_type \<times> rat \<times> bytes) list \<times> bytes list" where
  "view_core s = (vw_gotKey s, vw_jpegBusy s, vw_jpegLatest s, vw_chunks s, vw_pictures s)"

lemma viewer_ok_core: "view_core s = view_core t \<Longrightarrow> viewer_ok js s = viewer_ok js t"
proof -
  assume "view_core s = view_core t"
  then have e: "vw_gotKey s = vw_gotKey t" "vw_jpegBusy s = vw_jpegBusy t" "vw_jpegLatest s = vw_jpegLatest t"
    "vw_chunks s = vw_chunks t" "vw_pictures s = vw_pictures t"
    by (simp_all add: view_core_def)
  show ?thesis by (simp only: viewer_ok_def shown_def e)
qed

lemma view_ops [simp]:
  "view_core (onLog l s) = view_core s" "view_core (notePaint now s) = view_core s" "view_core (warnNoKey s) = view_core s"
  by (simp_all add: view_core_def onLog_def notePaint_def warnNoKey_def Let_def)

lemma core_count: "view_core (count_frame type n s) = (vw_gotKey s \<or> type = 2, vw_jpegBusy s, vw_jpegLatest s, vw_chunks s, vw_pictures s)"
  by (simp add: count_frame_def Let_def view_core_def onLog_def)

lemma viewer_decode: "viewer_ok js s \<Longrightarrow> vw_gotKey s \<or> hd buf = 2 \<Longrightarrow> vw_gotKey t \<Longrightarrow>
    view_core t = (True, vw_jpegBusy s, vw_jpegLatest s, vw_chunks s, vw_pictures s) \<Longrightarrow> viewer_ok js (decode_chunk buf t)"
  by (cases "vw_chunks s") (auto simp: viewer_ok_def view_core_def decode_chunk_def shown_def)

lemma viewer_binary:
  assumes "viewer_ok js s"
  shows "viewer_ok (js @ (case jpeg_of (BinaryMessage buf) of None \<Rightarrow> [] | Some j \<Rightarrow> [j])) (onBinary dec buf s)"
proof (cases buf)
  case (Cons type r)
  have same: "viewer_ok js t" if "view_core t = view_core s" for t using viewer_ok_core[OF that] assms by simp
  consider "type = 0x7b \<or> length buf < 9" | "type \<noteq> 0x7b" "9 \<le> length buf" "type = 4"
    | "type \<noteq> 0x7b" "9 \<le> length buf" "type = 1" | "type \<notin> {0x7b, 4, 1}" "9 \<le> length buf" by fastforce
  then show ?thesis
  proof cases
    case 1
    have "jpeg_of (BinaryMessage buf) = None" using 1 Cons by (auto simp: jpeg_of_def)
    then show ?thesis using 1 Cons same by (auto simp: onBinary_def)
  next
    case 2
    let ?t = "s\<lparr>vw_n4 := vw_n4 s + 1, vw_jpegMode := True, vw_warn := False, vw_jpegLatest := Some (drop 9 buf)\<rparr>"
    have n: "newest_of (js @ [drop 9 buf]) (shown ?t)"
      using newest_of_snoc[of js "vw_pictures s" _ "drop 9 buf"] assms unfolding viewer_ok_def shown_def by auto
    have "viewer_ok (js @ [drop 9 buf]) (paintJpeg ?t)"
      unfolding viewer_ok_def using n assms by (simp add: viewer_ok_def)
    then show ?thesis using 2 Cons by (simp add: onBinary_def jpeg_of_def)
  next
    case 3
    then show ?thesis using Cons by (auto simp: onBinary_def jpeg_of_def Let_def intro!: same) (simp_all add: view_core_def)
  next
    case 4
    have "viewer_ok js (onBinary dec buf s)"
    proof (cases "vw_jpegMode s")
      case False
      have c: "onBinary dec buf s = (if vw_gotKey s \<or> type = 2 then decode_chunk buf (count_frame type (length buf) s)
          else count_frame type (length buf) s)"
        using 4 Cons False core_count[of type "length buf" s] by (auto simp: onBinary_def Let_def view_core_def)
      show ?thesis
      proof (cases "vw_gotKey s \<or> type = 2")
        case True
        have "viewer_ok js (decode_chunk buf (count_frame type (length buf) s))"
          by (rule viewer_decode[OF assms]) (use True Cons core_count[of type "length buf" s] in \<open>auto simp: view_core_def\<close>)
        then show ?thesis using True by (simp add: c)
      next
        case False
        then have "view_core (count_frame type (length buf) s) = view_core s"
          using core_count[of type "length buf" s] by (simp add: view_core_def)
        then show ?thesis using False by (simp add: c same)
      qed
    qed (use 4 Cons assms in \<open>simp add: onBinary_def\<close>)
    then show ?thesis using 4 Cons by (simp add: jpeg_of_def)
  qed
qed (use assms in \<open>simp add: onBinary_def jpeg_of_def\<close>)

lemma viewer_step: "viewer_ok js s \<Longrightarrow> viewer_ok (js @ (case jpeg_of e of None \<Rightarrow> [] | Some j \<Rightarrow> [j])) (viewer_do dec e s)"
proof (cases e)
  case (PictureDone good now)
  assume ok: "viewer_ok js s"
  define u where "u = (if good then notePaint now s else s)"
  have "view_core u = view_core s" by (simp add: u_def)
  then have u: "vw_gotKey u = vw_gotKey s" "vw_jpegLatest u = vw_jpegLatest s" "vw_chunks u = vw_chunks s" "vw_pictures u = vw_pictures s"
    by (simp_all add: view_core_def)
  have "viewer_ok js (paintJpeg (u\<lparr>vw_jpegBusy := False\<rparr>))"
    using ok u unfolding viewer_ok_def paint_fields(1,2) paint_shown
    by (auto simp: shown_def paintJpeg_def split: option.splits)
  then show ?thesis using ok PictureDone by (simp add: jpeg_of_def flip: u_def)
next
  case (BinaryMessage buf)
  assume "viewer_ok js s"
  from viewer_binary[OF this, of buf dec] BinaryMessage show ?thesis by (simp only: viewer_do.simps)
qed (auto simp: jpeg_of_def intro: viewer_ok_core[THEN iffD2, rotated])

lemma viewer_run_ok: "viewer_ok (jpegs_of es) (viewer_run dec now es)"
proof -
  have "viewer_ok (js @ jpegs_of es) (fold (viewer_do dec) es s)" if "viewer_ok js s" for js s
    using that
  proof (induction es arbitrary: js s)
    case (Cons e es)
    have j: "jpegs_of (e # es) = (case jpeg_of e of None \<Rightarrow> [] | Some j \<Rightarrow> [j]) @ jpegs_of es"
      by (simp add: jpegs_of_def List.map_filter_def split: option.split)
    show ?case using Cons.IH[OF viewer_step[OF Cons.prems, of e dec]] by (simp add: j)
  qed (simp add: jpegs_of_def List.map_filter_def)
  from this[of "[]" "viewer_init now"] show ?thesis
    by (simp add: viewer_run_def viewer_ok_def viewer_init_def newest_of_def shown_def)
qed

text \<open>A packed frame through the relay, and at the viewer.\<close>

lemma packed_forwarded:
  assumes "pack type pts payload = Some buf" "type \<in> {2, 3}"
    and "i < length (rl_heap r)" "rs_viewer (rl_heap r ! i) = Some v" "v \<in> set (rl_open r)"
  shows "rl_sent (Relay.onAgentMessage i buf flag r) = rl_sent r @ [(v, Payload True buf)]"
  using forwarded_messages(1)[OF assms(3), of buf flag] assms
  by (auto simp: forwarded_def is_binary_def frame_type_def pack_def split: if_splits)

lemma packed_decoded:
  assumes "pack type pts payload = Some buf" "type \<in> {2, 3}" "pts < 2 ^ 53" "\<not> vw_jpegMode s" "type = 3 \<Longrightarrow> vw_gotKey s"
  shows "vw_chunks (onBinary dec buf s) = vw_chunks s @ [(if type = 2 then Key else Delta, of_nat pts, payload)]"
proof -
  have buf: "buf = type # be64 pts @ payload" using assms(1) by (simp add: pack_def split: if_splits)
  have l: "length (be64 pts) = 8" by (simp add: be64_def)
  have p: "read_pts buf = of_nat pts" "drop 9 buf = payload" "9 \<le> length buf"
    using assms(3) l rnd_of_nat[OF assms(3)] by (simp_all add: read_pts_def buf read_be64)
  have "vw_gotKey (count_frame type (length buf) s)" "vw_chunks (count_frame type (length buf) s) = vw_chunks s"
    using core_count[of type "length buf" s] assms(2,5) by (auto simp: view_core_def)
  then show ?thesis using assms(2,4) p by (auto simp: onBinary_def buf Let_def decode_chunk_def)
qed

section \<open>Properties\<close>

text \<open>
  Cutting an H.264 stream loses nothing: the pieces are exactly the stream from its first start code
  on, each begins with a start code and holds no other, and a stream put together from such pieces is
  cut into the same pieces again.
\<close>

theorem nals_partition:
  assumes "\<forall>n \<in> set ns. nal_ok n"
  shows "splitNals (concat ns) = ns \<and> (\<forall>n \<in> set (splitNals buf). nal_ok n) \<and>
    (case index_of buf of None \<Rightarrow> splitNals buf = [] | Some i \<Rightarrow> concat (splitNals buf) = drop i buf)"
proof -
  note splitNals_concat[OF assms]
  moreover have "(\<forall>n \<in> set (splitNals buf). nal_ok n) \<and>
    (case index_of buf of None \<Rightarrow> splitNals buf = [] | Some i \<Rightarrow> concat (splitNals buf) = drop i buf)"
  proof (cases "index_of buf")
    case (Some i)
    note i = index_of_bound[OF Some]
    have "splitNals buf = nals_from buf i" using Some by (simp add: splitNals_def index_from_def)
    then show ?thesis using Some nals_from_ok[OF i[THEN conjunct2]] nals_from_concat[of i buf] i by simp
  qed (simp add: splitNals_def index_from_def)
  ultimately show ?thesis by blast
qed

theorem nals_partition_witness:
  "splitNals (concat [START @ [0x67, 1], START @ [0x65, 2]]) = [START @ [0x67, 1], START @ [0x65, 2]]"
  using nals_partition[of "[START @ [0x67, 1], START @ [0x65, 2]]"] by (simp add: nal_ok_start)

text \<open>
  From cut to frame: the slices of the stream come out as the frames, one each, in order and whole,
  the intra-coded ones as key frames and the others as delta frames, and the frames of parameter sets
  are the parameter sets in order, at most the last of them missing.
\<close>

theorem frames_complete:
  "map (\<lambda>f. (fr_type f, fr_data f)) (filter (\<lambda>f. fr_type f \<noteq> 1) (buildFrames buf)) =
     map (\<lambda>n. (if nal_type n = 5 then 2 else 3, n)) (filter (\<lambda>n. nal_type n \<in> {1, 5}) (splitNals buf)) \<and>
   prefix (concat (map fr_data (filter (\<lambda>f. fr_type f = 1) (buildFrames buf))))
     (concat (filter (\<lambda>n. nal_type n \<in> {7, 8}) (splitNals buf)))"
  using buildFrames_ok[of buf] by (simp add: slices_def sets_def)

text \<open>
  C32 A frame arrives as it was sent: what the agent packs with a timestamp below \<open>2 ^ 53\<close>, the relay
  forwards unchanged and marked as binary, and the viewer hands to the decoder with the type, the
  timestamp and the data the agent put in, for a key frame at any time outside the JPEG mode, for a
  delta frame once it has seen a key frame.
\<close>

theorem frame_end_to_end:
  assumes "pack type pts payload = Some buf" "type \<in> {2, 3}" "pts < 2 ^ 53"
    and "i < length (rl_heap r)" "rs_viewer (rl_heap r ! i) = Some v" "v \<in> set (rl_open r)"
    and "\<not> vw_jpegMode s" "type = 3 \<Longrightarrow> vw_gotKey s"
  shows "rl_sent (Relay.onAgentMessage i buf flag r) = rl_sent r @ [(v, Payload True buf)] \<and>
    vw_chunks (onBinary dec buf s) = vw_chunks s @ [(if type = 2 then Key else Delta, of_nat pts, payload)]"
  using packed_forwarded[OF assms(1,2,4-6)] packed_decoded[OF assms(1-3,7,8)] by blast

text \<open>
  What the viewer decodes and paints: the first chunk the decoder is given is a key frame; the JPEG
  pictures painted are among those received, in the order received; and when no picture is being
  painted, the newest received has been, whatever was skipped in between.
\<close>

theorem viewer_contract:
  assumes "s = viewer_run dec now es"
  shows "(vw_chunks s \<noteq> [] \<longrightarrow> fst (hd (vw_chunks s)) = Key) \<and> subseq (vw_pictures s) (jpegs_of es) \<and>
    (\<not> vw_jpegBusy s \<longrightarrow> jpegs_of es \<noteq> [] \<longrightarrow> vw_pictures s \<noteq> [] \<and> last (vw_pictures s) = last (jpegs_of es))"
proof -
  have ok: "viewer_ok (jpegs_of es) s" unfolding assms by (rule viewer_run_ok)
  have "subseq (vw_pictures s) (shown s)" unfolding shown_def by (rule prefix_imp_subseq) simp
  then have "subseq (vw_pictures s) (jpegs_of es)" using ok by (auto simp: viewer_ok_def newest_of_def intro: subseq_order.trans)
  with ok show ?thesis by (auto simp: viewer_ok_def newest_of_def shown_def)
qed

text \<open>Three pictures arrive while the first is painted: the second is never shown, the third is.\<close>

definition jpeg_message :: "8 word \<Rightarrow> viewer_event" where
  "jpeg_message b = BinaryMessage (4 # replicate 8 0 @ [b])"

definition three_pictures :: "viewer_event list" where
  "three_pictures = [jpeg_message 1, jpeg_message 2, jpeg_message 3, PictureDone True 10, PictureDone True 20]"

theorem viewer_contract_witness:
  "vw_pictures (viewer_run (\<lambda>_. []) 0 three_pictures) = [[1], [3]] \<and>
   last (vw_pictures (viewer_run (\<lambda>_. []) 0 three_pictures)) = last (jpegs_of three_pictures)"
proof -
  have "vw_pictures (viewer_run (\<lambda>_. []) 0 three_pictures) = [[1], [3]]"
    "\<not> vw_jpegBusy (viewer_run (\<lambda>_. []) 0 three_pictures)" "jpegs_of three_pictures \<noteq> []"
    by code_simp+
  then show ?thesis using viewer_contract[OF refl, of "\<lambda>_. []" 0 three_pictures] by blast
qed

definition key_message :: bytes where
  "key_message = 2 # be64 33333 @ [9, 9]"

theorem frame_end_to_end_witness:
  "rl_sent (Relay.onAgentMessage 0 key_message False demo_pair) = rl_sent demo_pair @ [(1, Payload True key_message)] \<and>
   vw_chunks (onBinary (\<lambda>_. []) key_message (viewer_init 0)) = [(Key, 33333, [9, 9])]"
proof -
  have "pack 2 33333 [9, 9] = Some key_message" by (simp add: pack_def key_message_def)
  moreover have "0 < length (rl_heap demo_pair)" "rs_viewer (rl_heap demo_pair ! 0) = Some 1" "1 \<in> set (rl_open demo_pair)"
    by code_simp+
  ultimately show ?thesis
    using frame_end_to_end[of 2 33333 "[9, 9]" key_message 0 demo_pair 1 "viewer_init 0" False "\<lambda>_. []"]
    by (simp add: viewer_init_def)
qed

text \<open>
  The parameter sets before an access unit overtake the unit before them: with a slice, a new parameter
  set and a key slice, the set comes out first.
\<close>

lemma config_overtakes_slice:
  "map fr_type (buildFrames (concat [START @ [0x61, 9], START @ [0x67, 9], START @ [0x65, 9]])) = [1, 3, 2]"
  by code_simp

text \<open>
  The key frame is forgotten by no one: after a spell of JPEG pictures and a new configuration, delta
  frames go to the decoder without a key frame of the new configuration.
\<close>

lemma delta_after_jpeg:
  "vw_gotKey s \<Longrightarrow> map fst (vw_chunks (fold (viewer_do dec)
     [jpeg_message 1, BinaryMessage (1 # be64 0), BinaryMessage (3 # be64 0)] s)) = map fst (vw_chunks s) @ [Delta]"
  by (simp add: jpeg_message_def onBinary_def be64_def paintJpeg_def onLog_def count_frame_def decode_chunk_def Let_def split: option.split)

end
