(* ===== verification/Uri.thy ===== *)
theory Uri
  imports Main
begin

text \<open>
  \<open>encodeURIComponent\<close> on texts of Latin-1 characters, as the console's links and the agent's stream
  address use it, and what the receiving end makes of it.
\<close>

text \<open>A reserved character becomes the bytes of its UTF-8 form.\<close>

definition unreserved :: "char \<Rightarrow> bool" where
  "unreserved c = (let n = (of_char c :: nat) in 48 \<le> n \<and> n \<le> 57 \<or> 65 \<le> n \<and> n \<le> 90 \<or> 97 \<le> n \<and> n \<le> 122 \<or>
     c \<in> set [CHR ''-'', CHR ''_'', CHR ''.'', CHR ''!'', CHR ''~'', CHR ''*'', CHR 0x27, CHR ''('', CHR '')''])"

definition hex_upper :: "nat \<Rightarrow> char" where
  "hex_upper n = (if n < 10 then char_of (48 + n) else char_of (55 + n))"

definition percent_byte :: "nat \<Rightarrow> string" where
  "percent_byte n = [CHR ''%'', hex_upper (n div 16), hex_upper (n mod 16)]"

definition encode_char :: "char \<Rightarrow> string" where
  "encode_char c = (let n = (of_char c :: nat) in
     if unreserved c then [c]
     else if n < 128 then percent_byte n
     else percent_byte (192 + n div 64) @ percent_byte (128 + n mod 64))"

definition encodeURIComponent :: "string \<Rightarrow> string" where
  "encodeURIComponent s = concat (map encode_char s)"

section \<open>Reading it back\<close>

text \<open>\<open>decodeURIComponent\<close> of what stands for Latin-1 characters; anything else is malformed here.\<close>

definition hex_digit :: "char \<Rightarrow> nat option" where
  "hex_digit c = (let n = (of_char c :: nat) in
     if 48 \<le> n \<and> n \<le> 57 then Some (n - 48) else if 65 \<le> n \<and> n \<le> 70 then Some (n - 55)
     else if 97 \<le> n \<and> n \<le> 102 then Some (n - 87) else None)"

definition byte_of :: "char \<Rightarrow> char \<Rightarrow> nat option" where
  "byte_of a b = (case (hex_digit a, hex_digit b) of (Some x, Some y) \<Rightarrow> Some (16 * x + y) | _ \<Rightarrow> None)"

fun decodeURIComponent :: "string \<Rightarrow> string option" where
  "decodeURIComponent [] = Some []"
| "decodeURIComponent (c # s) = (if c \<noteq> CHR ''%'' then map_option ((#) c) (decodeURIComponent s) else
     (case s of
        a # b # t \<Rightarrow> (case byte_of a b of
            None \<Rightarrow> None
          | Some n \<Rightarrow> if n < 128 then map_option ((#) (char_of n)) (decodeURIComponent t)
              else (case t of
                  p # x # y # u \<Rightarrow> (case byte_of x y of
                      Some m \<Rightarrow> if p = CHR ''%'' \<and> 194 \<le> n \<and> n \<le> 195 \<and> 128 \<le> m \<and> m < 192
                        then map_option ((#) (char_of ((n - 192) * 64 + (m - 128)))) (decodeURIComponent u) else None
                    | None \<Rightarrow> None)
                | _ \<Rightarrow> None))
      | _ \<Rightarrow> None))"

lemma hex_digit_upper: "n < 16 \<Longrightarrow> hex_digit (hex_upper n) = Some n"
  by (simp add: hex_digit_def hex_upper_def)

lemma byte_of_percent: "n < 256 \<Longrightarrow> byte_of (hex_upper (n div 16)) (hex_upper (n mod 16)) = Some n"
  by (simp add: byte_of_def hex_digit_upper)

lemma decode_char: "decodeURIComponent (encode_char c @ s) = map_option ((#) c) (decodeURIComponent s)"
proof -
  define n where "n = (of_char c :: nat)"
  have n: "n < 256" "char_of n = c" unfolding n_def by simp_all
  consider "unreserved c" | "\<not> unreserved c" "n < 128" | "\<not> unreserved c" "128 \<le> n" by linarith
  then show ?thesis
  proof cases
    case 1
    then have "c \<noteq> CHR ''%''" by (auto simp: unreserved_def)
    then show ?thesis using 1 by (simp add: encode_char_def Let_def)
  next
    case 2
    then show ?thesis using byte_of_percent[OF n(1)] n(2) by (simp add: encode_char_def percent_byte_def flip: n_def)
  next
    case 3
    have q: "n div 64 = 2 \<or> n div 64 = 3" using 3 n(1) by linarith
    have b: "192 + n div 64 < 256" "128 + n mod 64 < 256" "n div 64 * 64 + n mod 64 = n" using q by auto
    have "byte_of (hex_upper ((192 + n div 64) div 16)) (hex_upper ((192 + n div 64) mod 16)) = Some (192 + n div 64)"
      "byte_of (hex_upper ((128 + n mod 64) div 16)) (hex_upper ((128 + n mod 64) mod 16)) = Some (128 + n mod 64)"
      by (rule byte_of_percent, rule b)+
    then show ?thesis using 3 q b(3) n(2) by (auto simp: encode_char_def percent_byte_def simp flip: n_def)
  qed
qed

lemma decode_encode: "decodeURIComponent (encodeURIComponent s) = Some s"
proof (induction s)
  case (Cons c s)
  have "encodeURIComponent (c # s) = encode_char c @ encodeURIComponent s" by (simp add: encodeURIComponent_def)
  then show ?case using Cons by (simp add: decode_char)
qed (simp add: encodeURIComponent_def)

text \<open>No separator of an address is left in it.\<close>

lemma encoded_chars: "x \<in> set (encodeURIComponent s) \<Longrightarrow> unreserved x \<or> x = CHR ''%''"
proof -
  have h: "unreserved (hex_upper k)" if "k < 16" for k
    using that by (simp add: unreserved_def hex_upper_def Let_def)
  have p: "x \<in> set (percent_byte n) \<Longrightarrow> n < 256 \<Longrightarrow> unreserved x \<or> x = CHR ''%''" for n
    using h[of "n div 16"] h[of "n mod 16"] by (auto simp: percent_byte_def)
  assume "x \<in> set (encodeURIComponent s)"
  then obtain c where c: "x \<in> set (encode_char c)" by (auto simp: encodeURIComponent_def)
  define n where "n = (of_char c :: nat)"
  have n: "n < 256" unfolding n_def by simp
  have "192 + n div 64 < 256" "128 + n mod 64 < 256" using n by auto
  then show ?thesis using c p[of n] p[of "192 + n div 64"] p[of "128 + n mod 64"] n
    by (auto simp: encode_char_def Let_def simp flip: n_def split: if_splits)
qed

end
