(* ===== verification/Agent.thy ===== *)
theory Agent
  imports Video HwApi JsonTrip Uri
begin

text \<open>
  \<open>tools/fake-agent/agent.js\<close>: the agent on a device, as the tests run it. It answers commands on its
  MQTT topic, reports its state, and streams frames over its WebSocket. Its timers are the caller's:
  an operation that asks for the time takes it.
\<close>

section \<open>Addresses\<close>

text \<open>\<open>wsUrl.includes\<close> is a method of strings and of arrays; on anything else the call throws.\<close>

definition includes_mark :: "json option \<Rightarrow> bool option" where
  "includes_mark url = (case url of Some (JStr s) \<Rightarrow> Some (CHR ''?'' \<in> set s) | Some (JArr js) \<Rightarrow> Some (JStr ''?'' \<in> set js) | _ \<Rightarrow> None)"

definition stream_url :: "json option \<Rightarrow> json option \<Rightarrow> string option" where
  "stream_url wsUrl token = map_option
     (\<lambda>has. tpl wsUrl @ (if has then ''&'' else ''?'') @ ''token='' @ encodeURIComponent (tpl token)) (includes_mark wsUrl)"

section \<open>State\<close>

type_synonym fields = "(string \<times> json) list"

text \<open>\<open>{ ...base, ...over }\<close>: a field that is there keeps its place, a new one goes to the end.\<close>

definition spread :: "fields \<Rightarrow> fields \<Rightarrow> fields" where
  "spread base over = foldl (\<lambda>acc (k, v). AList.update k v acc) base over"

definition FULL_CAPS :: fields where
  "FULL_CAPS = [(''projectMedia'', JStr ''allow''), (''a11y'', JBool True), (''knox'', JStr ''licensed''),
     (''overlay'', JBool True), (''secureSettings'', JBool True)]"

definition num :: "rat \<Rightarrow> json" where "num q = JNum (Fin q)"

definition HW_DEFAULTS :: fields where
  "HW_DEFAULTS = [(''thermal'', num 0), (''battTempC'', num 25), (''memAvailMb'', num 1500), (''diskFreeMb'', num 40000),
     (''display'', num 2), (''touchDevs'', num 2), (''mainLagMs'', num 5), (''uiIdleMs'', num (- 1))]"

definition VOLATILE :: fields where
  "VOLATILE = [(''screenOn'', JBool True), (''charging'', JBool True), (''batteryPct'', num 87), (''net'', JStr ''wifi''), (''rssi'', num (- 58))]"

record agent_opts =
  ao_caps :: "fields option"
  ao_dropKeyframe :: bool
  ao_ignoreViewerJoin :: bool
  ao_androidId :: "string option"
  ao_agentVer :: "string option"
  ao_hw :: "fields option"
  ao_connLog :: "json list option"
  ao_autoStream :: bool

text \<open>\<open>ag_out\<close> is what it published: topic, text, retained.\<close>

record agent =
  ag_deviceId :: string
  ag_caps :: fields
  ag_dropKeyframe :: bool
  ag_ignoreViewerJoin :: bool
  ag_androidId :: string
  ag_agentVer :: string
  ag_inputLog :: "json list"
  ag_bitrate :: "json option"
  ag_forceKeyframeNext :: bool
  ag_frames :: "video_frame list"
  ag_volatile :: fields
  ag_hw :: "fields option"
  ag_connLog :: "json list option"
  ag_autoStream :: bool
  ag_pendingSession :: "json option"
  ag_out :: "(string \<times> string \<times> bool) list"

text \<open>\<open>raw\<close> is the video file's content, or the built-in stream (\<open>synthetic-h264.js\<close>).\<close>

definition new_agent :: "string \<Rightarrow> agent_opts \<Rightarrow> bytes \<Rightarrow> agent" where
  "new_agent dev opts raw = \<lparr>ag_deviceId = dev,
     ag_caps = spread FULL_CAPS (case ao_caps opts of None \<Rightarrow> [] | Some c \<Rightarrow> c),
     ag_dropKeyframe = ao_dropKeyframe opts, ag_ignoreViewerJoin = ao_ignoreViewerJoin opts,
     ag_androidId = (case ao_androidId opts of None \<Rightarrow> ''and-'' @ dev | Some i \<Rightarrow> i),
     ag_agentVer = (case ao_agentVer opts of None \<Rightarrow> ''1.2.0'' | Some v \<Rightarrow> v),
     ag_inputLog = [], ag_bitrate = Some (num 1500000), ag_forceKeyframeNext = False,
     ag_frames = buildFrames raw, ag_volatile = VOLATILE,
     ag_hw = map_option (spread HW_DEFAULTS) (ao_hw opts),
     ag_connLog = ao_connLog opts, ag_autoStream = ao_autoStream opts, ag_pendingSession = None, ag_out = []\<rparr>"

definition agent_publish :: "string \<Rightarrow> fields \<Rightarrow> bool \<Rightarrow> agent \<Rightarrow> agent" where
  "agent_publish topic body retain a = a\<lparr>ag_out := ag_out a @ [(topic, json_stringify (JObj body), retain)]\<rparr>"

definition hw_fields :: "agent \<Rightarrow> fields" where
  "hw_fields a = (case ag_hw a of None \<Rightarrow> [] | Some h \<Rightarrow> h)"

section \<open>Reporting\<close>

definition state_msg :: "bool \<Rightarrow> int \<Rightarrow> agent \<Rightarrow> fields" where
  "state_msg full now a =
     (let volatile = (''volatile'', JObj (spread (ag_volatile a) (hw_fields a))); ts = (''ts'', num (of_int now)) in
      if full then [(''online'', JBool True), (''agentVer'', JStr (ag_agentVer a)), (''androidId'', JStr (ag_androidId a)),
        (''caps'', JObj (ag_caps a)), volatile, ts]
      else [volatile, ts])"

definition publishState :: "bool \<Rightarrow> int \<Rightarrow> agent \<Rightarrow> agent" where
  "publishState full now a = agent_publish (topic_state (ag_deviceId a)) (state_msg full now a) full a"

definition last_will :: "int \<Rightarrow> agent \<Rightarrow> string \<times> string \<times> bool" where
  "last_will now a = (topic_state (ag_deviceId a),
     json_stringify (JObj [(''online'', JBool False), (''ts'', num (of_int \<lfloor>rnd (of_int now / 1000)\<rfloor>))]), True)"

definition setCaps :: "fields \<Rightarrow> int \<Rightarrow> agent \<Rightarrow> agent" where
  "setCaps caps now a = publishState True now (a\<lparr>ag_caps := spread (ag_caps a) caps\<rparr>)"

definition setHw :: "fields \<Rightarrow> agent \<Rightarrow> agent" where
  "setHw over a = a\<lparr>ag_hw := Some (spread (hw_fields a) over)\<rparr>"

definition publishHwEvent :: "string \<Rightarrow> string \<Rightarrow> int \<Rightarrow> agent \<Rightarrow> agent" where
  "publishHwEvent ev msg ts a = agent_publish (topic_event (ag_deviceId a))
     [(''t'', JStr ''event''), (''code'', JStr ev), (''msg'', JStr msg), (''ts'', num (of_int ts))] False a"

text \<open>The sample \<open>i\<close> half minutes before \<open>now\<close>; \<open>i\<close> counts down from \<open>n - 1\<close>, which may be no integer.\<close>

definition hw_sample :: "int \<Rightarrow> fields \<Rightarrow> rat \<Rightarrow> json" where
  "hw_sample now hw i = JObj (spread [(''ts'', num (rnd (of_int now - rnd (i * 30000)))), (''phase'', JStr ''IDLE''),
     (''memTotalMb'', num 3572), (''lowMem'', JBool False), (''cpuPct'', JNull), (''gpuPct'', JNull),
     (''interactive'', JBool True), (''dimmed'', JBool False), (''anomaly'', JArr [])] hw)"

definition half_minute :: "int \<Rightarrow> int" where
  "half_minute now = \<lfloor>rnd (of_int now / 30000)\<rfloor> * 30000"

definition hwSamples :: "rat \<Rightarrow> int \<Rightarrow> agent \<Rightarrow> json list" where
  "hwSamples n now a = map (\<lambda>k. hw_sample (half_minute now) (hw_fields a) (n - 1 - of_nat k)) [0..<nat \<lfloor>n\<rfloor>]"

section \<open>Commands\<close>

text \<open>What a command starts beside publishing; reading a property of \<open>null\<close> throws.\<close>

datatype started = Nothing | SelfHeal | OpenStream string | Thrown

definition asked_samples :: "json \<Rightarrow> rat" where
  "asked_samples msg = (let n = to_number (oget msg ''n''); m = (if n = NaN \<or> n = Fin 0 then Fin 120 else n) in
     case m of Fin q \<Rightarrow> min (max q 1) 100 | NegInf \<Rightarrow> 1 | _ \<Rightarrow> 100)"

definition dump_answer :: "json \<Rightarrow> int \<Rightarrow> agent \<Rightarrow> fields" where
  "dump_answer msg now a =
     [(''online'', JBool True), (''agentVer'', JStr (ag_agentVer a)), (''hw'', JArr (hwSamples (asked_samples msg) now a)),
      (''ts'', num (of_int now))] @
     (if truthy (oget msg ''nonce'') then [(''nonce'', the (oget msg ''nonce''))] else []) @
     (case ag_connLog a of None \<Rightarrow> [] | Some l \<Rightarrow> [(''conn'', JArr l)])"

definition onCmd :: "int \<Rightarrow> string \<Rightarrow> agent \<Rightarrow> agent \<times> started" where
  "onCmd now raw a = (case json_parse raw of
      None \<Rightarrow> (a, Nothing)
    | Some msg \<Rightarrow>
        if msg = JNull then (a, Thrown)
        else if oget msg ''type'' = Some (JStr ''probe'') then
          (agent_publish (topic_probe (ag_deviceId a)) [(''ok'', JBool True), (''ts'', num (of_int now))] False a, Nothing)
        else if oget msg ''type'' = Some (JStr ''hw.dump'') then
          (agent_publish (topic_probe (ag_deviceId a)) (dump_answer msg now a) False a, Nothing)
        else if oget msg ''type'' = Some (JStr ''selfheal'') then (a, SelfHeal)
        else if oget msg ''type'' = Some (JStr ''session.start'') then
          (a\<lparr>ag_pendingSession := Some msg\<rparr>,
           if \<not> ag_autoStream a then Nothing
           else case stream_url (oget msg ''wsUrl'') (oget msg ''token'') of Some url \<Rightarrow> OpenStream url | None \<Rightarrow> Thrown)
        else (a, Nothing))"

text \<open>A text on its WebSocket.\<close>

definition INPUTS :: "string list" where
  "INPUTS = [''touch'', ''key'', ''text'', ''scroll'', ''pointer'', ''hello'']"

definition onWsMessage :: "string \<Rightarrow> agent \<Rightarrow> agent option" where
  "onWsMessage text a = (case json_parse text of
      None \<Rightarrow> Some a
    | Some m \<Rightarrow>
        if m = JNull then None
        else let t = as_str (oget m ''t'');
                 a = (if t = Some ''viewer.join'' \<and> \<not> ag_ignoreViewerJoin a then a\<lparr>ag_forceKeyframeNext := True\<rparr> else a);
                 a = (if t = Some ''quality'' then a\<lparr>ag_bitrate := oget m ''bitrate''\<rparr> else a)
             in Some (if t \<in> Some ` set INPUTS then a\<lparr>ag_inputLog := ag_inputLog a @ [m]\<rparr> else a))"

section \<open>Streaming\<close>

definition FRAME_US :: nat where "FRAME_US = 33333"

text \<open>The locals of \<open>stream\<close>, with what it sent.\<close>

record streaming =
  st_i :: nat
  st_pts :: nat
  st_sent :: "bytes list"

fun find_last :: "('a \<Rightarrow> bool) \<Rightarrow> 'a list \<Rightarrow> nat option" where
  "find_last P [] = None"
| "find_last P (x # xs) = (case find_last P xs of Some k \<Rightarrow> Some (Suc k) | None \<Rightarrow> if P x then Some 0 else None)"

definition last_idr :: "video_frame list \<Rightarrow> nat option" where
  "last_idr fs = find_last (\<lambda>f. fr_type f = 2) fs"

definition send_frame :: "nat \<Rightarrow> nat \<Rightarrow> bytes \<Rightarrow> streaming \<Rightarrow> streaming option" where
  "send_frame type pts data s = map_option (\<lambda>b. s\<lparr>st_sent := st_sent s @ [b]\<rparr>) (pack (word_of_nat type) pts data)"

definition stream_start :: "agent \<Rightarrow> streaming option" where
  "stream_start a = (let s = \<lparr>st_i = 0, st_pts = 0, st_sent = []\<rparr> in
     case find (\<lambda>f. fr_type f = 1) (ag_frames a) of None \<Rightarrow> Some s | Some c \<Rightarrow> send_frame 1 0 (fr_data c) s)"

text \<open>One round of the loop, while the socket is open and there are frames; \<open>None\<close> when packing throws.\<close>

definition stream_step :: "agent \<Rightarrow> streaming \<Rightarrow> (agent \<times> streaming) option" where
  "stream_step a s =
     (let (a, s) = (case (if ag_forceKeyframeNext a then last_idr (ag_frames a) else None) of
        None \<Rightarrow> (a, s) | Some k \<Rightarrow> (a\<lparr>ag_forceKeyframeNext := False\<rparr>, s\<lparr>st_i := k\<rparr>));
       f = ag_frames a ! (st_i s mod length (ag_frames a)) in
       if fr_type f = 2 \<and> ag_dropKeyframe a then Some (a, s\<lparr>st_i := st_i s + 1\<rparr>)
       else if fr_type f = 1 then Some (a, s\<lparr>st_i := st_i s + 1\<rparr>)
       else map_option (\<lambda>s. (a, s\<lparr>st_pts := st_pts s + FRAME_US, st_i := st_i s + 1\<rparr>))
         (send_frame (fr_type f) (st_pts s) (fr_data f) s))"

section \<open>What the services read\<close>

text \<open>Fields that can be written and read back.\<close>

definition sound_fields :: "fields \<Rightarrow> bool" where
  "sound_fields fs \<longleftrightarrow> plain_json (JObj fs) \<and> keyed (JObj fs)"

lemma set_alist_update: "set (AList.update k v al) \<subseteq> insert (k, v) (set al)"
  by (induction al) auto

lemma spread_sound: "sound_fields base \<Longrightarrow> sound_fields over \<Longrightarrow> sound_fields (spread base over)"
proof (induction over arbitrary: base)
  case (Cons p over)
  obtain k v where p: "p = (k, v)" by force
  have "distinct (map fst base)" using Cons.prems(1) by (simp add: sound_fields_def)
  then have "distinct (map fst (AList.update k v base))" by (rule distinct_update)
  then have "sound_fields (AList.update k v base)"
    using Cons.prems set_alist_update[of k v base] by (fastforce simp: sound_fields_def p)
  then have "sound_fields (spread (AList.update k v base) over)"
    using Cons.prems(2) by (intro Cons.IH) (simp_all add: sound_fields_def)
  then show ?case by (simp add: spread_def p)
qed (simp add: spread_def)

lemma spread_other: "k \<notin> fst ` set over \<Longrightarrow> map_of (spread base over) k = map_of base k"
  by (induction over arbitrary: base) (auto simp: spread_def update_conv')

lemma double_int: "\<bar>i\<bar> < 2 ^ 60 \<Longrightarrow> plain_json (num (of_int i))"
proof -
  assume "\<bar>i\<bar> < 2 ^ 60"
  also have "(2 :: int) ^ 60 < 2 ^ 1000" by (intro power_strict_increasing) simp_all
  finally show ?thesis by (simp add: num_def is_double_of_int)
qed

lemma keyed_num [simp]: "keyed (num q)" by (simp add: num_def)

lemma stringify_parse: "sound_fields fs \<Longrightarrow> json_parse (json_stringify (JObj fs)) = Some (JObj fs)"
  by (intro parse_stringify) (simp_all add: sound_fields_def)

lemma route_probe:
  assumes "CHR ''/'' \<notin> set dev" "dev \<noteq> []" "sound_fields fs"
  shows "Ingest.onMessage ex cv cfg sha1 uuid (topic_probe dev) (json_stringify (JObj fs)) =
    onProbe ex cv cfg sha1 dev (json_stringify (JObj fs)) (JObj fs)"
proof -
  have "\<not> str_includes dev ''/event/''" using assms(1) set_mono_sublist by (fastforce simp: str_includes_iff_sublist)
  then have "\<not> str_includes (topic_probe dev) ''/event/''" "str_includes (topic_probe dev) ''/probe/''"
    "\<not> prefix ''$SYS/'' (topic_probe dev)"
    using assms(1) by (auto simp: topic_probe_def dest: set_mono_prefix)
  then show ?thesis using assms(2) stringify_parse[OF assms(3)] deviceIdFromTopic_topics(2)[OF assms(1)]
    by (simp add: Ingest.onMessage_def Let_def)
qed

section \<open>Samples\<close>

lemma rnd_int: "0 \<le> i \<Longrightarrow> i < 2 ^ 53 \<Longrightarrow> rnd (of_int i) = of_int i"
proof -
  assume i: "0 \<le> i" "i < 2 ^ 53"
  then have "nat i < 2 ^ 53" by (simp add: nat_less_iff)
  from rnd_of_nat[OF this] i(1) show ?thesis by simp
qed

text \<open>The grid point of the current time, within a minute of it.\<close>

lemma half_minute_near:
  assumes "0 \<le> now" "now < 2 ^ 52"
  shows "\<bar>half_minute now - now\<bar> \<le> 60000"
proof -
  let ?x = "of_int now / 30000 :: rat"
  have x: "0 \<le> ?x" "?x \<le> 2 ^ 52" using assms by (simp_all add: divide_le_eq)
  have "\<bar>rnd ?x - ?x\<bar> \<le> ?x * eps" by (rule rnd_error[OF x(1)])
  also have "\<dots> \<le> 2 ^ 52 * eps" using x eps_pos by (intro mult_right_mono) simp_all
  also have "2 ^ 52 * eps \<le> 1 / 2" by (simp add: eps_def)
  finally have d: "\<bar>rnd ?x - ?x\<bar> \<le> 1 / 2" .
  let ?f = "\<lfloor>rnd ?x\<rfloor>"
  have "of_int ?f \<le> rnd ?x" "rnd ?x < of_int ?f + 1" by linarith+
  with d have "\<bar>of_int ?f - ?x\<bar> \<le> 2" by linarith
  then have "\<bar>of_int (?f * 30000 - now)\<bar> \<le> (60000 :: rat)" by (simp add: abs_le_iff field_simps)
  then have "rat_of_int \<bar>?f * 30000 - now\<bar> \<le> of_int 60000" by simp
  then show ?thesis by (simp only: half_minute_def of_int_le_iff)
qed

lemma half_minute_range:
  assumes "4000000 \<le> now" "now < 2 ^ 52"
  shows "3940000 \<le> half_minute now" "half_minute now < 2 ^ 53"
  using half_minute_near[of now] assms by (simp_all add: abs_le_iff)

definition sample_time :: "int \<Rightarrow> nat \<Rightarrow> nat \<Rightarrow> int" where
  "sample_time now n k = half_minute now - (int n - 1 - int k) * 30000"

lemma sample_time_near:
  assumes "4000000 \<le> now" "now < 2 ^ 52" "n \<le> 100" "k < n"
  shows "0 < sample_time now n k" "sample_time now n k < 2 ^ 53" "\<bar>sample_time now n k - now\<bar> \<le> 3030000"
  using half_minute_range[OF assms(1,2)] half_minute_near[of now] assms by (simp_all add: sample_time_def abs_le_iff)

lemma sample_ts_agent:
  assumes "4000000 \<le> now" "now < 2 ^ 52" "n \<le> 100" "k < n" "''ts'' \<notin> fst ` set hw"
  shows "oget (hw_sample (half_minute now) hw (of_nat n - 1 - of_nat k)) ''ts'' = Some (num (of_int (sample_time now n k)))"
proof -
  define i where "i = (int n - 1 - int k) * 30000"
  have i: "0 \<le> i" "i < 2 ^ 53" using assms(3,4) by (simp_all add: i_def)
  have r: "(of_nat n - 1 - of_nat k) * 30000 = (of_int i :: rat)" by (simp add: i_def)
  have t: "sample_time now n k = half_minute now - i" by (simp add: sample_time_def i_def)
  have "rnd (of_int (half_minute now) - rnd (of_int i)) = of_int (half_minute now - i)"
    using rnd_int[of "half_minute now - i"] sample_time_near(1,2)[OF assms(1-4)] by (simp add: rnd_int[OF i] t)
  moreover have "oget (hw_sample (half_minute now) hw (of_nat n - 1 - of_nat k)) ''ts'' =
      Some (num (rnd (of_int (half_minute now) - rnd ((of_nat n - 1 - of_nat k) * 30000))))"
    by (simp add: hw_sample_def spread_other[OF assms(5)])
  ultimately show ?thesis unfolding r by (simp add: t)
qed

lemma hwSamples_nth:
  "hwSamples (of_nat n) now a = map (\<lambda>k. hw_sample (half_minute now) (hw_fields a) (of_nat n - 1 - of_nat k)) [0..<n]"
  by (simp add: hwSamples_def)

text \<open>What the ingest service makes of them: none is dropped, whatever hardware fields they carry.\<close>

lemma dump_keeps_samples:
  assumes "4000000 \<le> now" "now < 2 ^ 52" "n \<le> 100" "''ts'' \<notin> fst ` set (hw_fields a)" "\<bar>later - now\<bar> \<le> 3600000"
  shows "map sample_ts (dump_samples (hwSamples (of_nat n) now a) later) = map (\<lambda>k. of_int (sample_time now n k)) [0..<n]"
proof -
  define f where "f = (\<lambda>k. hw_sample (half_minute now) (hw_fields a) (of_nat n - 1 - of_nat k))"
  define g where "g = (\<lambda>k. JObj ((''ts'', num (of_int (sample_time now n k))) # norm_fields (f k)))"
  have norm: "normalizeHwSample (Some (f k)) = Some (g k)" if "k < n" for k
    using sample_ts_agent[OF assms(1-3) that assms(4)] sample_time_near(1)[OF assms(1-3) that]
    by (simp add: normalizeHwSample_def f_def g_def as_fin_def num_def is_object_def hw_sample_def)
  have "List.map_filter (\<lambda>x. normalizeHwSample (Some x)) (map f [0..<n]) = map g [0..<n]"
    unfolding List.map_filter_def using norm by (auto simp: filter_empty_conv filter_id_conv intro!: map_cong)
  moreover have "slice_last MAX_DUMP_SAMPLES (map f [0..<n]) = map f [0..<n]"
    using assms(3) by (simp add: slice_last_def MAX_DUMP_SAMPLES_def)
  moreover have ts: "sample_ts (g k) = of_int (sample_time now n k)" for k by (simp add: sample_ts_def g_def as_fin_def num_def)
  moreover have "recent (sample_ts (g k)) later DAY_MS" if "k < n" for k
  proof -
    have "\<bar>sample_time now n k - later\<bar> < 86400000"
      using sample_time_near(3)[OF assms(1-3) that] assms(5) by (simp add: abs_le_iff abs_less_iff)
    then have "rat_of_int \<bar>sample_time now n k - later\<bar> < of_int 86400000" by (simp only: of_int_less_iff)
    then show ?thesis by (simp add: ts recent_def DAY_MS_def HOUR_MS_def)
  qed
  ultimately have "dump_samples (map f [0..<n]) later = map g [0..<n]"
    by (auto simp: dump_samples_def filter_id_conv)
  then show ?thesis by (simp add: hwSamples_nth f_def[symmetric] ts)
qed

section \<open>Properties\<close>

lemma sample_sound:
  assumes "plain_json (num t)" "sound_fields hw"
  shows "sound_fields (spread [(''ts'', num t), (''phase'', JStr ''IDLE''),
     (''memTotalMb'', num 3572), (''lowMem'', JBool False), (''cpuPct'', JNull), (''gpuPct'', JNull),
     (''interactive'', JBool True), (''dimmed'', JBool False), (''anomaly'', JArr [])] hw)"
  using assms(1) double_int[of 3572] by (intro spread_sound[OF _ assms(2)]) (simp add: sound_fields_def)

lemma ret_bind: "bindE (ret x) f = f x"
  by (rule ext) (simp add: bindE_def ret_def)

lemma dump_cmd_nonce: "oget (dump_cmd n nonce) ''nonce'' = Some (JStr nonce)"
  by (simp add: dump_cmd_def)

lemma parse_dump_cmd: "n \<le> 100 \<Longrightarrow> json_parse (json_stringify (dump_cmd n nonce)) = Some (dump_cmd n nonce)"
  using is_double_of_int[of "int n"] unfolding dump_cmd_def by (intro parse_stringify) simp_all

lemma answer_sound:
  assumes "4000000 \<le> now" "now < 2 ^ 52" "1 \<le> n" "n \<le> 100" "sound_fields (hw_fields a)" "''ts'' \<notin> fst ` set (hw_fields a)"
    and "\<And>l. ag_connLog a = Some l \<Longrightarrow> plain_json (JArr l) \<and> keyed (JArr l)"
  shows "asked_samples (dump_cmd n nonce) = of_nat n" "sound_fields (dump_answer (dump_cmd n nonce) now a)"
proof -
  show n: "asked_samples (dump_cmd n nonce) = of_nat n"
    using assms(3,4) by (simp add: asked_samples_def dump_cmd_def to_number_def)
  have s: "plain_json x \<and> keyed x" if x: "x \<in> set (hwSamples (of_nat n) now a)" for x
  proof -
    obtain k where k: "k < n" "x = hw_sample (half_minute now) (hw_fields a) (of_nat n - 1 - of_nat k)"
      using x by (auto simp: hwSamples_nth)
    let ?t = "rnd (of_int (half_minute now) - rnd ((of_nat n - 1 - of_nat k) * 30000))"
    have "oget x ''ts'' = Some (num ?t)" by (simp add: k(2) hw_sample_def spread_other[OF assms(6)])
    then have "num ?t = num (of_int (sample_time now n k))"
      using sample_ts_agent[OF assms(1,2,4) k(1) assms(6)] k(2) by simp
    moreover have "plain_json (num (of_int (sample_time now n k)))"
      using sample_time_near(1,2)[OF assms(1,2,4) k(1)] by (intro double_int) simp
    ultimately have "plain_json (num ?t)" by simp
    from sample_sound[OF this assms(5)] show ?thesis by (simp add: k(2) hw_sample_def sound_fields_def)
  qed
  have "plain_json (num (of_int now))" by (rule double_int) (use assms(1,2) in simp)
  then show "sound_fields (dump_answer (dump_cmd n nonce) now a)"
    using s assms(7) by (auto simp: sound_fields_def dump_answer_def n truthy_def dump_cmd_nonce split: option.splits)
qed


text \<open>The agent of the tests, with its hardware figures and the built-in stream.\<close>

definition nal_bytes :: "8 word \<Rightarrow> bytes" where
  "nal_bytes hdr = START @ hdr # replicate 8 0xbb"

definition syntheticH264 :: bytes where
  "syntheticH264 = concat ([nal_bytes 0x67, nal_bytes 0x68, nal_bytes 0x65] @ replicate 59 (nal_bytes 0x61))"

definition demo_opts :: agent_opts where
  "demo_opts = \<lparr>ao_caps = None, ao_dropKeyframe = False, ao_ignoreViewerJoin = False, ao_androidId = None, ao_agentVer = None,
     ao_hw = Some [(''memAvailMb'', num 900)], ao_connLog = None, ao_autoStream = True\<rparr>"

definition demo_fake :: agent where
  "demo_fake = new_agent ''d1'' demo_opts syntheticH264"

lemma demo_hw: "hw_fields demo_fake = [(''thermal'', num 0), (''battTempC'', num 25), (''memAvailMb'', num 900), (''diskFreeMb'', num 40000),
     (''display'', num 2), (''touchDevs'', num 2), (''mainLagMs'', num 5), (''uiIdleMs'', num (- 1))]"
  by (simp add: hw_fields_def demo_fake_def new_agent_def demo_opts_def spread_def HW_DEFAULTS_def)


section \<open>A viewer gets its picture\<close>

lemma find_last_Some: "find_last P xs = Some k \<Longrightarrow> k < length xs \<and> P (xs ! k) \<and> (\<forall>j. k < j \<and> j < length xs \<longrightarrow> \<not> P (xs ! j))"
proof (induction xs arbitrary: k)
  case (Cons x xs)
  show ?case
  proof (cases "find_last P xs")
    case None
    have "\<not> P y" if "y \<in> set xs" for y
      using None that by (induction xs) (auto split: option.splits if_splits)
    then show ?thesis using Cons.prems None by (auto simp: nth_Cons' split: if_splits)
  next
    case (Some m)
    then have k: "k = Suc m" using Cons.prems by simp
    have "\<not> P ((x # xs) ! j)" if "Suc m < j" "j < length (x # xs)" for j
      using Cons.IH[OF Some] that by (cases j) auto
    then show ?thesis using Cons.IH[OF Some] unfolding k by simp
  qed
qed simp

lemma forced_frame:
  assumes "ag_forceKeyframeNext a" "last_idr (ag_frames a) = Some k" "\<not> ag_dropKeyframe a" "st_pts s < 2 ^ 64"
  shows "\<exists>b s'. stream_step a s = Some (a\<lparr>ag_forceKeyframeNext := False\<rparr>, s') \<and> st_sent s' = st_sent s @ [b] \<and>
    pack 2 (st_pts s) (fr_data (ag_frames a ! k)) = Some b"
proof -
  have k: "k < length (ag_frames a)" "fr_type (ag_frames a ! k) = 2"
    using find_last_Some[OF assms(2)[unfolded last_idr_def]] by blast+
  show ?thesis
    by (rule exI[of _ "2 # be64 (st_pts s) @ fr_data (ag_frames a ! k)"], rule exI[of _ "s\<lparr>st_i := k, st_sent := st_sent s @ [2 # be64 (st_pts s) @ fr_data (ag_frames a ! k)],
         st_pts := st_pts s + FRAME_US, st_i := k + 1\<rparr>"])
      (use assms k in \<open>simp_all add: stream_step_def Let_def send_frame_def pack_def\<close>)
qed

lemma viewer_joined:
  assumes "i < length (rl_heap r)" "rs_agent (rl_heap r ! i) = Some ag" "ag \<in> set (rl_open r)" "v \<in> set (rl_open r)"
  shows "(ag, Text (json_stringify (JObj [(''t'', JStr ''viewer.join'')]))) \<in> set (rl_sent (Relay.onViewerJoin i v r))"
    and "i < length (rl_heap (Relay.onViewerJoin i v r))"
    and "rs_viewer (rl_heap (Relay.onViewerJoin i v r) ! i) = Some v"
    and "v \<in> set (rl_open (Relay.onViewerJoin i v r))"
proof -
  have m: "rl_heap (markActive i q) = rl_heap q \<and> rl_open (markActive i q) = rl_open q \<and> rl_sent (markActive i q) = rl_sent q" for q :: "'a relay"
    by (simp add: markActive_def Let_def quiet_def)
  show "(ag, Text (json_stringify (JObj [(''t'', JStr ''viewer.join'')]))) \<in> set (rl_sent (Relay.onViewerJoin i v r))"
    "i < length (rl_heap (Relay.onViewerJoin i v r))"
    "rs_viewer (rl_heap (Relay.onViewerJoin i v r) ! i) = Some v"
    "v \<in> set (rl_open (Relay.onViewerJoin i v r))"
    using assms
    by (simp_all add: Relay.onViewerJoin_def Let_def m clear_timer_def upd_sess_def send_def send_opt_def is_open_def
        shouldSendViewerJoin_def viewer_join_msg_def msg_text_def split: option.split)
qed

text \<open>
  C31 A viewer gets its picture at once: when a viewer joins a session whose agent is connected, the relay
  tells the agent; the agent's next frame is then the last key frame of its stream; the relay forwards it
  to that viewer, and the viewer decodes it as a key frame, with the data the agent sent.
\<close>

theorem viewer_gets_picture:
  assumes "i < length (rl_heap r)" "rs_agent (rl_heap r ! i) = Some ag" "ag \<in> set (rl_open r)" "v \<in> set (rl_open r)"
    and "\<not> ag_ignoreViewerJoin a" "\<not> ag_dropKeyframe a" "last_idr (ag_frames a) = Some k" "st_pts s < 2 ^ 53"
    and "\<not> vw_jpegMode w"
  defines "r1 \<equiv> Relay.onViewerJoin i v r"
  shows "\<exists>t a1 a2 s1 b. (ag, Text t) \<in> set (rl_sent r1) \<and> onWsMessage t a = Some a1 \<and>
    stream_step a1 s = Some (a2, s1) \<and> st_sent s1 = st_sent s @ [b] \<and>
    rl_sent (Relay.onAgentMessage i b True r1) = rl_sent r1 @ [(v, Payload True b)] \<and>
    vw_chunks (onBinary dec b w) = vw_chunks w @ [(Key, of_nat (st_pts s), fr_data (ag_frames a ! k))]"
proof -
  let ?t = "json_stringify (JObj [(''t'', JStr ''viewer.join'')])"
  let ?a = "a\<lparr>ag_forceKeyframeNext := True\<rparr>"
  have "json_parse ?t = Some (JObj [(''t'', JStr ''viewer.join'')])" by (rule parse_stringify) simp_all
  then have on: "onWsMessage ?t a = Some ?a" using assms(5) by (simp add: onWsMessage_def Let_def as_str_def INPUTS_def del: json_stringify.simps)
  obtain b s1 where step: "stream_step ?a s = Some (?a\<lparr>ag_forceKeyframeNext := False\<rparr>, s1)" "st_sent s1 = st_sent s @ [b]"
      and p: "pack 2 (st_pts s) (fr_data (ag_frames a ! k)) = Some b"
    using forced_frame[of ?a k s] assms(6-8) by simp blast
  note joined = viewer_joined[OF assms(1-4), folded r1_def]
  have "rl_sent (Relay.onAgentMessage i b True r1) = rl_sent r1 @ [(v, Payload True b)]"
    by (rule packed_forwarded[OF p]) (use joined in simp_all)
  moreover have "vw_chunks (onBinary dec b w) = vw_chunks w @ [(Key, of_nat (st_pts s), fr_data (ag_frames a ! k))]"
    using packed_decoded[OF p _ assms(8,9)] by simp
  ultimately show ?thesis using joined(1) on step by blast
qed

definition short_stream :: bytes where
  "short_stream = concat [nal_bytes 0x67, nal_bytes 0x68, nal_bytes 0x65, nal_bytes 0x61]"

theorem viewer_gets_picture_witness:
  "\<exists>t a1 a2 s1 b. (0, Text t) \<in> set (rl_sent (Relay.onViewerJoin 0 1 demo_pair)) \<and>
    onWsMessage t (new_agent ''d1'' demo_opts short_stream) = Some a1 \<and>
    stream_step a1 \<lparr>st_i = 7, st_pts = 33333, st_sent = []\<rparr> = Some (a2, s1) \<and> st_sent s1 = [b] \<and>
    vw_chunks (onBinary (\<lambda>_. []) b (viewer_init 0)) = [(Key, 33333, nal_bytes 0x65)]"
proof -
  let ?a = "new_agent ''d1'' demo_opts short_stream"
  have fs: "last_idr (buildFrames short_stream) = Some 1" "fr_data (buildFrames short_stream ! 1) = nal_bytes 0x65" by code_simp+
  have a: "\<not> ag_ignoreViewerJoin ?a" "\<not> ag_dropKeyframe ?a" "ag_frames ?a = buildFrames short_stream"
    by (simp_all add: new_agent_def demo_opts_def)
  have r: "0 < length (rl_heap demo_pair)" "rs_agent (rl_heap demo_pair ! 0) = Some 0" "0 \<in> set (rl_open demo_pair)" "1 \<in> set (rl_open demo_pair)"
    by code_simp+
  have "\<not> vw_jpegMode (viewer_init 0)" "vw_chunks (viewer_init 0) = []" by (simp_all add: viewer_init_def)
  then show ?thesis
    using viewer_gets_picture[OF r a(1,2), of 1 "\<lparr>st_i = 7, st_pts = 33333, st_sent = []\<rparr>" "viewer_init 0" "\<lambda>_. []"] fs
    by (simp add: a(3)) blast
qed

text \<open>The built-in stream: the parameter sets, one key frame, fifty-nine delta frames.\<close>

lemma synthetic_frames: "map fr_type (buildFrames syntheticH264) = [1, 2] @ replicate 59 3"
proof -
  let ?ns = "[nal_bytes 0x67, nal_bytes 0x68, nal_bytes 0x65] @ replicate 59 (nal_bytes 0x61)"
  have ok: "nal_ok (nal_bytes h)" if "h \<noteq> 0" for h using that unfolding nal_bytes_def by (intro nal_ok_start) simp
  have "splitNals syntheticH264 = ?ns" unfolding syntheticH264_def by (rule splitNals_concat) (auto simp: ok)
  moreover have t: "nal_type (nal_bytes h) = unat h mod 32" for h by (simp add: nal_type_def nal_bytes_def START_def)
  have "add_nal (nal_bytes 0x61) b = push_au b\<lparr>bd_au := Some (3, nal_bytes 0x61)\<rparr>" if "bd_config b = []" for b
    using that by (simp add: add_nal_def Let_def t push_config_def)
  then have "fold add_nal (replicate n (nal_bytes 0x61)) \<lparr>bd_frames = fs, bd_config = [], bd_au = Some (k, d)\<rparr> =
      \<lparr>bd_frames = fs @ map (\<lambda>(t, d). \<lparr>fr_type = t, fr_data = d\<rparr>) (take n ((k, d) # replicate n (3, nal_bytes 0x61))),
       bd_config = [], bd_au = Some (last ((k, d) # replicate n (3, nal_bytes 0x61)))\<rparr>" for n fs k d
    by (induction n arbitrary: fs k d) (simp_all add: push_au_def take_Cons')
  moreover have "replicate 58 (3 :: nat) @ [3] = replicate 59 3" by (simp add: numeral_eq_Suc)
  ultimately show ?thesis
    by (simp add: buildFrames_def add_nal_def Let_def t push_config_def push_au_def)
qed

end
