(* ===== verification/RemotePage.thy ===== *)
theory RemotePage
  imports Prelude
begin

text \<open>
  The page of a remote session, \<open>apps/rc-web/src/pages/Remote.tsx\<close>. The variables of the module (one
  held session, one creation in flight, one pending drop) outlive the page; each run of the page's
  effect has its own. What the page awaits comes in as events, in any order.
\<close>

section \<open>State\<close>

datatype page_phase = Checking | Connecting | Live | Blocked | Erred | Disconnected

record held_session =
  hd_deviceId :: string
  hd_sessionId :: string
  hd_wsUrl :: string
  hd_token :: string

text \<open>Where the asynchronous body of an effect stands.\<close>

datatype stage = AskingDevice | AwaitingSession | Done

record effect =
  ef_deviceId :: string
  ef_entryPoint :: string
  ef_cancelled :: bool
  ef_sessionId :: "string option"
  ef_stream :: "held_session option"
  ef_stage :: stage

datatype busy = Heal | Probe

text \<open>The notes under the blockers, by what they say.\<close>

datatype page_note = NoNote | SendingSelfHeal | SelfHealSent | Probing | NoAnswer | StillBlocked string

record ui =
  ui_phase :: page_phase
  ui_blockers :: "(string \<times> string) list"
  ui_warns :: "string list"
  ui_err :: string
  ui_note :: page_note
  ui_busy :: "busy option"
  ui_logs :: "string list"
  ui_agentStats :: string
  ui_viewStats :: string

text \<open>
  \<open>co_timer\<close> is the armed timeout with the id it was made for; \<open>co_inflight\<close> is the creation under
  way: its device, entry point, and whether it is the second attempt; \<open>co_current\<close> is the run of
  the effect on screen and \<open>co_mount\<close> counts the instances of the component; \<open>co_dropped\<close> are the sessions a DELETE was sent for.
\<close>

record console =
  co_pendingDropId :: "string option"
  co_timer :: "string option"
  co_held :: "held_session option"
  co_inflight :: "(string \<times> string \<times> bool) option"
  co_effects :: "effect list"
  co_current :: "nat option"
  co_mount :: nat
  co_ui :: ui
  co_dropped :: "string list"

definition fresh_ui :: ui where
  "fresh_ui = \<lparr>ui_phase = Checking, ui_blockers = [], ui_warns = [], ui_err = [], ui_note = NoNote, ui_busy = None,
     ui_logs = [], ui_agentStats = [], ui_viewStats = []\<rparr>"

definition fresh_console :: console where
  "fresh_console = \<lparr>co_pendingDropId = None, co_timer = None, co_held = None, co_inflight = None, co_effects = [],
     co_current = None, co_mount = 0, co_ui = fresh_ui, co_dropped = []\<rparr>"

definition upd_ui :: "(ui \<Rightarrow> ui) \<Rightarrow> console \<Rightarrow> console" where
  "upd_ui f c = c\<lparr>co_ui := f (co_ui c)\<rparr>"

definition upd_effect :: "nat \<Rightarrow> (effect \<Rightarrow> effect) \<Rightarrow> console \<Rightarrow> console" where
  "upd_effect p f c = c\<lparr>co_effects := (co_effects c)[p := f (co_effects c ! p)]\<rparr>"

section \<open>Dropping sessions\<close>

definition dropSessionKeepalive :: "string \<Rightarrow> console \<Rightarrow> console" where
  "dropSessionKeepalive sid c = c\<lparr>co_dropped := co_dropped c @ [sid]\<rparr>"

definition cancelDrop :: "string \<Rightarrow> console \<Rightarrow> console" where
  "cancelDrop sid c = (if co_pendingDropId c \<noteq> Some sid then c else c\<lparr>co_timer := None, co_pendingDropId := None\<rparr>)"

definition scheduleDrop :: "string \<Rightarrow> console \<Rightarrow> console" where
  "scheduleDrop sid c = c\<lparr>co_pendingDropId := Some sid, co_timer := Some sid\<rparr>"

definition drop_timer :: "console \<Rightarrow> console" where
  "drop_timer c = (case co_timer c of
      None \<Rightarrow> c
    | Some sid \<Rightarrow>
        if co_pendingDropId c \<noteq> Some sid then c\<lparr>co_timer := None\<rparr>
        else let c = dropSessionKeepalive sid (c\<lparr>co_timer := None\<rparr>); c = c\<lparr>co_pendingDropId := None\<rparr>
          in if map_option hd_sessionId (co_held c) = Some sid then c\<lparr>co_held := None\<rparr> else c)"

text \<open>An empty id is falsy.\<close>

definition flushDrop :: "console \<Rightarrow> console" where
  "flushDrop c =
     (let sid = (case co_pendingDropId c of Some s \<Rightarrow> if s \<noteq> [] then Some s else map_option hd_sessionId (co_held c)
                 | None \<Rightarrow> map_option hd_sessionId (co_held c));
          c = c\<lparr>co_timer := None\<rparr>;
          c = (case sid of Some s \<Rightarrow> if s \<noteq> [] then dropSessionKeepalive s c else c | None \<Rightarrow> c)
      in c\<lparr>co_pendingDropId := None, co_held := None\<rparr>)"

section \<open>The effect\<close>

text \<open>There is no canvas while the page shows its blockers.\<close>

definition attach :: "bool \<Rightarrow> nat \<Rightarrow> held_session \<Rightarrow> console \<Rightarrow> console" where
  "attach canvas p h c =
     (let c = upd_effect p (\<lambda>e. e\<lparr>ef_sessionId := Some (hd_sessionId h), ef_stage := Done\<rparr>) c;
          c = cancelDrop (hd_sessionId h) c
      in if ef_cancelled (co_effects c ! p) \<or> \<not> canvas then c
         else upd_effect p (\<lambda>e. e\<lparr>ef_stream := Some h\<rparr>) c)"

definition has_canvas :: "console \<Rightarrow> bool" where
  "has_canvas c = (ui_phase (co_ui c) \<noteq> Blocked)"

definition held_for :: "console \<Rightarrow> string \<Rightarrow> held_session option" where
  "held_for c dev = (case co_held c of Some h \<Rightarrow> if hd_deviceId h = dev then Some h else None | None \<Rightarrow> None)"

definition run_effect :: "string \<Rightarrow> string \<Rightarrow> console \<Rightarrow> console" where
  "run_effect dev entry c =
     (let p = length (co_effects c); canvas = has_canvas c;
          c = c\<lparr>co_effects := co_effects c @ [\<lparr>ef_deviceId = dev, ef_entryPoint = entry, ef_cancelled = False,
                ef_sessionId = None, ef_stream = None, ef_stage = AskingDevice\<rparr>], co_current := Some p\<rparr>;
          c = upd_ui (\<lambda>u. u\<lparr>ui_logs := [], ui_agentStats := [], ui_viewStats := []\<rparr>) c
      in case held_for c dev of
           Some h \<Rightarrow> attach canvas p h (upd_ui (\<lambda>u. u\<lparr>ui_phase := Connecting\<rparr>) c)
         | None \<Rightarrow> c)"

definition cleanup :: "nat \<Rightarrow> console \<Rightarrow> console" where
  "cleanup p c =
     (let c = upd_effect p (\<lambda>e. e\<lparr>ef_cancelled := True, ef_stream := None\<rparr>) c;
          c = c\<lparr>co_current := None\<rparr>
      in case ef_sessionId (co_effects c ! p) of
           Some sid \<Rightarrow> if sid \<noteq> [] then scheduleDrop sid c else c
         | None \<Rightarrow> c)"

text \<open>The result of a call to the API: the value, or the status, the blockers of the body and the message.\<close>

datatype 'a answer = Got 'a | Failed "int option" "(string \<times> string) list option" string

definition show_error :: "(string \<times> string) list option \<Rightarrow> string \<Rightarrow> console \<Rightarrow> console" where
  "show_error bs msg c = (case bs of
      Some b \<Rightarrow> upd_ui (\<lambda>u. u\<lparr>ui_blockers := b, ui_phase := Blocked\<rparr>) c
    | None \<Rightarrow> upd_ui (\<lambda>u. u\<lparr>ui_err := msg, ui_phase := Erred\<rparr>) c)"

definition effect_failed :: "nat \<Rightarrow> (string \<times> string) list option \<Rightarrow> string \<Rightarrow> console \<Rightarrow> console" where
  "effect_failed p bs msg c =
     (let c = upd_effect p (\<lambda>e. e\<lparr>ef_stage := Done\<rparr>) c
      in if ef_cancelled (co_effects c ! p) then c else show_error bs msg c)"

text \<open>\<open>createSession\<close>, up to its first \<open>await\<close>.\<close>

definition createSession :: "bool \<Rightarrow> nat \<Rightarrow> console \<Rightarrow> console" where
  "createSession canvas p c =
     (let e = co_effects c ! p in
      case held_for c (ef_deviceId e) of
        Some h \<Rightarrow> attach canvas p h (cancelDrop (hd_sessionId h) c)
      | None \<Rightarrow>
          let c = upd_effect p (\<lambda>e. e\<lparr>ef_stage := AwaitingSession\<rparr>) c
          in case co_inflight c of
               Some _ \<Rightarrow> c | None \<Rightarrow> c\<lparr>co_inflight := Some (ef_deviceId e, ef_entryPoint e, False)\<rparr>)"

record readiness_answer =
  ra_tier :: string
  ra_blockers :: "(string \<times> string) list"
  ra_warns :: "string list"

definition unready :: "string \<Rightarrow> bool" where
  "unready tier = (tier = ''NOT_READY'' \<or> tier = ''OFFLINE'')"

definition device_answered :: "nat \<Rightarrow> readiness_answer answer \<Rightarrow> console \<Rightarrow> console" where
  "device_answered p ans c =
     (if ef_cancelled (co_effects c ! p) then upd_effect p (\<lambda>e. e\<lparr>ef_stage := Done\<rparr>) c
      else case ans of
          Failed st bs msg \<Rightarrow> effect_failed p bs msg c
        | Got r \<Rightarrow>
            if unready (ra_tier r) then
              upd_ui (\<lambda>u. u\<lparr>ui_blockers := ra_blockers r, ui_phase := Blocked\<rparr>) (upd_effect p (\<lambda>e. e\<lparr>ef_stage := Done\<rparr>) c)
            else createSession (has_canvas c) p (upd_ui (\<lambda>u. u\<lparr>ui_warns := ra_warns r, ui_phase := Connecting\<rparr>) c))"

text \<open>Everyone who awaits the creation is served, in the order of the pages.\<close>

definition waiters :: "console \<Rightarrow> nat list" where
  "waiters c = filter (\<lambda>p. ef_stage (co_effects c ! p) = AwaitingSession) [0..<length (co_effects c)]"

definition session_answered :: "(string \<times> string \<times> string) answer \<Rightarrow> console \<Rightarrow> console" where
  "session_answered ans c = (case co_inflight c of
      None \<Rightarrow> c
    | Some (dev, entry, second) \<Rightarrow> (case ans of
          Got (sid, url, tok) \<Rightarrow>
            let h = \<lparr>hd_deviceId = dev, hd_sessionId = sid, hd_wsUrl = url, hd_token = tok\<rparr>;
                ws = waiters c;
                c = cancelDrop sid (c\<lparr>co_held := Some h, co_inflight := None\<rparr>)
            in fold (\<lambda>p. attach (has_canvas c) p h) ws c
        | Failed st bs msg \<Rightarrow>
            if st = Some 409 \<and> \<not> second then c\<lparr>co_inflight := Some (dev, entry, True)\<rparr>
            else fold (\<lambda>p. effect_failed p bs msg) (waiters c) (c\<lparr>co_inflight := None\<rparr>)))"

section \<open>Clicks and messages\<close>

definition entry_point :: "string option \<Rightarrow> string" where
  "entry_point src = (if src = Some ''hmdm'' then ''hmdm_deeplink'' else ''rc_console'')"

definition rerun :: "console \<Rightarrow> console" where
  "rerun c = (case co_current c of
      None \<Rightarrow> c
    | Some p \<Rightarrow> run_effect (ef_deviceId (co_effects c ! p)) (ef_entryPoint (co_effects c ! p)) (cleanup p c))"

definition probeAgain :: "console \<Rightarrow> console" where
  "probeAgain c = upd_ui (\<lambda>u. u\<lparr>ui_busy := Some Probe, ui_err := [], ui_note := Probing\<rparr>) c"

definition probe_answered :: "(bool \<times> readiness_answer) answer \<Rightarrow> console \<Rightarrow> console" where
  "probe_answered ans c = (case ans of
      Failed st bs msg \<Rightarrow> upd_ui (\<lambda>u. u\<lparr>ui_err := msg, ui_note := NoNote, ui_busy := None\<rparr>) c
    | Got (probed, r) \<Rightarrow>
        let c = upd_ui (\<lambda>u. u\<lparr>ui_blockers := ra_blockers r, ui_warns := ra_warns r, ui_busy := None\<rparr>) c
        in if \<not> probed then upd_ui (\<lambda>u. u\<lparr>ui_note := NoAnswer\<rparr>) c
           else if unready (ra_tier r) then upd_ui (\<lambda>u. u\<lparr>ui_note := StillBlocked (ra_tier r)\<rparr>) c
           else rerun (upd_ui (\<lambda>u. u\<lparr>ui_note := NoNote, ui_phase := Checking\<rparr>) c))"

definition selfheal :: "console \<Rightarrow> console" where
  "selfheal c = upd_ui (\<lambda>u. u\<lparr>ui_busy := Some Heal, ui_err := [], ui_note := SendingSelfHeal\<rparr>) c"

definition selfheal_answered :: "unit answer \<Rightarrow> console \<Rightarrow> console" where
  "selfheal_answered ans c = (case ans of
      Failed st bs msg \<Rightarrow> upd_ui (\<lambda>u. u\<lparr>ui_err := msg, ui_note := NoNote, ui_busy := None\<rparr>) c
    | Got _ \<Rightarrow> probeAgain (upd_ui (\<lambda>u. u\<lparr>ui_note := SelfHealSent\<rparr>) c))"

definition reconnect :: "console \<Rightarrow> console" where
  "reconnect c = rerun ((upd_ui (\<lambda>u. u\<lparr>ui_err := []\<rparr>) c)\<lparr>co_held := None\<rparr>)"

definition log_line :: "string \<Rightarrow> console \<Rightarrow> console" where
  "log_line line c = upd_ui (\<lambda>u.
     (if prefix ''stats '' line then u\<lparr>ui_agentStats := line\<rparr>
      else if prefix ''view:'' line \<and> str_includes line ''fps'' then u\<lparr>ui_viewStats := line\<rparr> else u)
     \<lparr>ui_logs := slice_last 39 (ui_logs u) @ [line]\<rparr>) c"

text \<open>
  \<open>Open\<close> shows the page of a device, in the same instance of the component when one is there;
  \<open>Leave\<close> goes elsewhere in the console. Answers to clicks name the instance that asked: a state
  update after unmounting is ignored.
\<close>

datatype page_event =
    Open string "string option" | Leave | DeviceAnswered nat "readiness_answer answer"
  | SessionAnswered "(string \<times> string \<times> string) answer"
  | DropTimer | PageHide | SocketOpen nat | SocketDead nat | LogLine nat string | Reconnect
  | SelfHealClick | SelfHealAnswered nat "unit answer" | ProbeClick | ProbeAnswered nat "(bool \<times> readiness_answer) answer"

definition on_screen :: "nat \<Rightarrow> console \<Rightarrow> bool" where
  "on_screen p c = (p < length (co_effects c) \<and> ef_stream (co_effects c ! p) \<noteq> None \<and> \<not> ef_cancelled (co_effects c ! p))"

fun page_do :: "page_event \<Rightarrow> console \<Rightarrow> console" where
  "page_do (Open dev src) c = (case co_current c of
      Some p \<Rightarrow> run_effect dev (entry_point src) (cleanup p c)
    | None \<Rightarrow> run_effect dev (entry_point src) (c\<lparr>co_ui := fresh_ui, co_mount := co_mount c + 1\<rparr>))"
| "page_do Leave c = (case co_current c of Some p \<Rightarrow> cleanup p c | None \<Rightarrow> c)"
| "page_do (DeviceAnswered p ans) c =
     (if p < length (co_effects c) \<and> ef_stage (co_effects c ! p) = AskingDevice then device_answered p ans c else c)"
| "page_do (SessionAnswered ans) c = session_answered ans c"
| "page_do DropTimer c = drop_timer c"
| "page_do PageHide c = (if co_current c = None then c else flushDrop c)"
| "page_do (SocketOpen p) c = (if on_screen p c then upd_ui (\<lambda>u. u\<lparr>ui_phase := Live\<rparr>) c else c)"
| "page_do (SocketDead p) c = (if on_screen p c then upd_ui (\<lambda>u. u\<lparr>ui_phase := Disconnected\<rparr>) c else c)"
| "page_do (LogLine p line) c = (if on_screen p c then log_line line c else c)"
| "page_do Reconnect c = (if ui_phase (co_ui c) = Disconnected then reconnect c else c)"
| "page_do SelfHealClick c = (if ui_busy (co_ui c) = None then selfheal c else c)"
| "page_do (SelfHealAnswered m ans) c = (if m = co_mount c then selfheal_answered ans c else c)"
| "page_do ProbeClick c = (if ui_busy (co_ui c) = None then probeAgain c else c)"
| "page_do (ProbeAnswered m ans) c = (if m = co_mount c then probe_answered ans c else c)"

definition page_run :: "page_event list \<Rightarrow> console" where
  "page_run es = fold page_do es fresh_console"

section \<open>Invariants\<close>

text \<open>
  An effect is cancelled unless it is the one on screen; the session of the one on screen is not the one
  about to be dropped; a stream is that of the effect's session, and belongs to the effect on screen.
\<close>

definition effect_ok :: "nat option \<Rightarrow> string option \<Rightarrow> nat \<Rightarrow> effect \<Rightarrow> bool" where
  "effect_ok cur pend p e \<longleftrightarrow> (ef_cancelled e \<longleftrightarrow> cur \<noteq> Some p) \<and>
     (cur = Some p \<longrightarrow> pend \<noteq> None \<longrightarrow> ef_sessionId e \<noteq> pend) \<and>
     (ef_stage e \<noteq> Done \<longrightarrow> ef_sessionId e = None \<and> ef_stream e = None) \<and>
     (\<forall>h. ef_stream e = Some h \<longrightarrow> cur = Some p \<and> ef_sessionId e = Some (hd_sessionId h))"

text \<open>The timeout is armed exactly for the pending id, so its own check never fails.\<close>

definition page_ok :: "console \<Rightarrow> bool" where
  "page_ok c \<longleftrightarrow> co_timer c = co_pendingDropId c \<and> (\<forall>p. co_current c = Some p \<longrightarrow> p < length (co_effects c)) \<and>
     (\<forall>p < length (co_effects c). effect_ok (co_current c) (co_pendingDropId c) p (co_effects c ! p))"

text \<open>Whom the creation under way and the streams belong to.\<close>

definition own_stream :: "effect \<Rightarrow> bool" where
  "own_stream e \<longleftrightarrow> (\<forall>h. ef_stream e = Some h \<longrightarrow> hd_deviceId h = ef_deviceId e)"

definition owner_ok :: "console \<Rightarrow> bool" where
  "owner_ok c \<longleftrightarrow> (\<forall>p d x. co_current c = Some p \<longrightarrow> co_inflight c = Some (d, x) \<longrightarrow> ef_deviceId (co_effects c ! p) = d) \<and>
     (\<forall>p < length (co_effects c). own_stream (co_effects c ! p))"

definition both_ok :: "bool \<Rightarrow> console \<Rightarrow> bool" where
  "both_ok calm c \<longleftrightarrow> page_ok c \<and> (calm \<longrightarrow> owner_ok c)"

lemma ui_fields [simp]:
  "co_effects (upd_ui f c) = co_effects c" "co_current (upd_ui f c) = co_current c" "co_held (upd_ui f c) = co_held c"
  "co_inflight (upd_ui f c) = co_inflight c" "co_pendingDropId (upd_ui f c) = co_pendingDropId c" "co_timer (upd_ui f c) = co_timer c"
  "co_dropped (upd_ui f c) = co_dropped c" "co_mount (upd_ui f c) = co_mount c"
  by (simp_all add: upd_ui_def)

lemma effect_fields [simp]:
  "co_current (upd_effect p f c) = co_current c" "co_held (upd_effect p f c) = co_held c" "co_ui (upd_effect p f c) = co_ui c"
  "co_inflight (upd_effect p f c) = co_inflight c" "co_pendingDropId (upd_effect p f c) = co_pendingDropId c"
  "co_timer (upd_effect p f c) = co_timer c" "co_effects (upd_effect p f c) = (co_effects c)[p := f (co_effects c ! p)]"
  "co_dropped (upd_effect p f c) = co_dropped c"
  by (simp_all add: upd_effect_def)

lemma cancel_fields [simp]:
  "co_current (cancelDrop s c) = co_current c" "co_held (cancelDrop s c) = co_held c" "co_ui (cancelDrop s c) = co_ui c"
  "co_inflight (cancelDrop s c) = co_inflight c" "co_effects (cancelDrop s c) = co_effects c" "co_dropped (cancelDrop s c) = co_dropped c"
  "co_pendingDropId (cancelDrop s c) = (if co_pendingDropId c = Some s then None else co_pendingDropId c)"
  "co_timer (cancelDrop s c) = (if co_pendingDropId c = Some s then None else co_timer c)"
  by (simp_all add: cancelDrop_def)

lemma ok_ui [simp]: "both_ok k (upd_ui f c) = both_ok k c"
  by (simp add: both_ok_def page_ok_def owner_ok_def)

lemma ok_same:
  "co_timer a = co_timer b \<Longrightarrow> co_pendingDropId a = co_pendingDropId b \<Longrightarrow> co_effects a = co_effects b \<Longrightarrow>
   co_current a = co_current b \<Longrightarrow> co_inflight a = co_inflight b \<Longrightarrow> both_ok k b \<Longrightarrow> both_ok k a"
  by (simp add: both_ok_def page_ok_def owner_ok_def)

lemma ok_held [simp]: "both_ok k (c\<lparr>co_held := h\<rparr>) = both_ok k c" "both_ok k (c\<lparr>co_dropped := ds\<rparr>) = both_ok k c"
    "both_ok k (c\<lparr>co_ui := u, co_mount := m\<rparr>) = both_ok k c"
  by (simp_all add: both_ok_def page_ok_def owner_ok_def)

lemma ok_upd:
  assumes "both_ok k c" "p < length (co_effects c) \<Longrightarrow> effect_ok (co_current c) (co_pendingDropId c) p (f (co_effects c ! p))"
    and "\<And>e. ef_deviceId (f e) = ef_deviceId e" "k \<Longrightarrow> p < length (co_effects c) \<Longrightarrow> own_stream (f (co_effects c ! p))"
  shows "both_ok k (upd_effect p f c)"
proof -
  let ?es = "(co_effects c)[p := f (co_effects c ! p)]"
  have n: "?es ! q = (if q = p then f (co_effects c ! p) else co_effects c ! q)" if "q < length (co_effects c)" for q
    using that by (simp add: nth_list_update)
  have o: "page_ok c" "k \<Longrightarrow> owner_ok c" using assms(1) by (simp_all add: both_ok_def)
  have e: "\<forall>q < length (co_effects c). effect_ok (co_current c) (co_pendingDropId c) q (?es ! q)"
  proof (intro allI impI)
    fix q assume q: "q < length (co_effects c)"
    then show "effect_ok (co_current c) (co_pendingDropId c) q (?es ! q)"
      using o(1) assms(2) unfolding n[OF q] page_ok_def by (cases "q = p") simp_all
  qed
  have s: "\<forall>q < length (co_effects c). own_stream (?es ! q)" if k
  proof (intro allI impI)
    fix q assume q: "q < length (co_effects c)"
    then show "own_stream (?es ! q)" using o(2)[OF that] assms(4)[OF that] unfolding n[OF q] owner_ok_def by (cases "q = p") simp_all
  qed
  have d: "ef_deviceId (?es ! q) = ef_deviceId (co_effects c ! q)" if "q < length (co_effects c)" for q
    unfolding n[OF that] by (simp add: assms(3))
  show ?thesis
    unfolding both_ok_def
  proof (intro conjI impI)
    show "page_ok (upd_effect p f c)" using o(1) e unfolding page_ok_def effect_fields by simp
    assume k: k
    have "\<forall>q d x. co_current c = Some q \<longrightarrow> co_inflight c = Some (d, x) \<longrightarrow> ef_deviceId (?es ! q) = d"
    proof (intro allI impI)
      fix q x dev assume c: "co_current c = Some q" "co_inflight c = Some (dev, x)"
      then have q: "q < length (co_effects c)" using o(1) by (simp add: page_ok_def)
      show "ef_deviceId (?es ! q) = dev" unfolding d[OF q] using o(2)[OF k] c unfolding owner_ok_def by blast
    qed
    then show "owner_ok (upd_effect p f c)" using s[OF k] unfolding owner_ok_def effect_fields length_list_update by blast
  qed
qed

lemma effect_ok_None: "effect_ok cur pend p e \<Longrightarrow> effect_ok cur None p e"
  by (simp add: effect_ok_def)

lemma ok_no_drop: "both_ok k c \<Longrightarrow> both_ok k (c\<lparr>co_timer := None, co_pendingDropId := None\<rparr>)"
  using effect_ok_None[where pend = "co_pendingDropId c"] by (simp add: both_ok_def page_ok_def owner_ok_def)

lemma ok_cancel: "both_ok k c \<Longrightarrow> both_ok k (cancelDrop s c)"
  by (simp add: cancelDrop_def ok_no_drop)

lemma ok_effect: "both_ok k c \<Longrightarrow> p < length (co_effects c) \<Longrightarrow> effect_ok (co_current c) (co_pendingDropId c) p (co_effects c ! p)"
  by (simp add: both_ok_def page_ok_def)

lemma ok_own: "both_ok k c \<Longrightarrow> k \<Longrightarrow> p < length (co_effects c) \<Longrightarrow> own_stream (co_effects c ! p)"
  by (simp add: both_ok_def owner_ok_def)

lemma ok_stage:
  assumes "both_ok k c" "p < length (co_effects c) \<Longrightarrow> ef_stage (co_effects c ! p) \<noteq> Done"
  shows "both_ok k (upd_effect p (\<lambda>e. e\<lparr>ef_stage := st\<rparr>) c)"
proof (rule ok_upd[OF assms(1)])
  assume p: "p < length (co_effects c)"
  show "effect_ok (co_current c) (co_pendingDropId c) p ((co_effects c ! p)\<lparr>ef_stage := st\<rparr>)"
    using ok_effect[OF assms(1) p] assms(2)[OF p] by (auto simp: effect_ok_def)
  show "k \<Longrightarrow> own_stream ((co_effects c ! p)\<lparr>ef_stage := st\<rparr>)"
    using ok_own[OF assms(1) _ p] by (simp add: own_stream_def)
qed simp

lemma cancel_upd: "cancelDrop s (upd_effect p f c) = upd_effect p f (cancelDrop s c)"
  by (simp add: cancelDrop_def upd_effect_def)

lemma ok_attach:
  assumes "both_ok k c" "p < length (co_effects c)" "ef_stage (co_effects c ! p) \<noteq> Done"
    and "k \<Longrightarrow> co_current c = Some p \<Longrightarrow> hd_deviceId h = ef_deviceId (co_effects c ! p)"
  shows "both_ok k (attach b p h c)"
proof -
  let ?f = "\<lambda>e. e\<lparr>ef_sessionId := Some (hd_sessionId h), ef_stage := Done\<rparr>"
  let ?d = "cancelDrop (hd_sessionId h) c"
  have d: "both_ok k ?d" by (rule ok_cancel[OF assms(1)])
  have e: "effect_ok (co_current ?d) (co_pendingDropId ?d) p (co_effects c ! p)"
    using ok_effect[OF d, of p] assms(2) by simp
  have n: "ef_stream (co_effects c ! p) = None" using e assms(3) by (simp add: effect_ok_def)
  have f: "effect_ok (co_current ?d) (co_pendingDropId ?d) p (?f (co_effects c ! p))"
    using e n by (simp add: effect_ok_def)
  have u: "both_ok k (upd_effect p ?f ?d)"
    by (rule ok_upd[OF d]) (use f n in \<open>simp_all add: own_stream_def\<close>)
  show ?thesis
  proof (cases "ef_cancelled (co_effects c ! p) \<or> \<not> b")
    case True
    then show ?thesis using u assms(2) by (simp add: attach_def Let_def cancel_upd)
  next
    case False
    then have c: "co_current c = Some p" using e by (simp add: effect_ok_def)
    have "both_ok k (upd_effect p (\<lambda>e. e\<lparr>ef_stream := Some h\<rparr>) (upd_effect p ?f ?d))"
    proof (rule ok_upd[OF u])
      show "effect_ok (co_current (upd_effect p ?f ?d)) (co_pendingDropId (upd_effect p ?f ?d)) p
          ((co_effects (upd_effect p ?f ?d) ! p)\<lparr>ef_stream := Some h\<rparr>)"
        using f c assms(2) by (simp add: effect_ok_def)
      show "k \<Longrightarrow> own_stream ((co_effects (upd_effect p ?f ?d) ! p)\<lparr>ef_stream := Some h\<rparr>)"
        using assms(2) assms(4)[OF _ c] by (simp add: own_stream_def)
    qed simp
    then show ?thesis using False assms(2) by (simp add: attach_def Let_def cancel_upd)
  qed
qed

lemma attach_fields [simp]:
  "co_current (attach b p h c) = co_current c" "co_inflight (attach b p h c) = co_inflight c" "co_held (attach b p h c) = co_held c"
  "length (co_effects (attach b p h c)) = length (co_effects c)" "co_dropped (attach b p h c) = co_dropped c"
  "co_ui (attach b p h c) = co_ui c"
  by (simp_all add: attach_def Let_def)

lemma attach_effect:
  "q \<noteq> p \<Longrightarrow> co_effects (attach b p h c) ! q = co_effects c ! q"
  "ef_deviceId (co_effects (attach b p h c) ! q) = ef_deviceId (co_effects c ! q)"
proof -
  show "q \<noteq> p \<Longrightarrow> co_effects (attach b p h c) ! q = co_effects c ! q" by (simp add: attach_def Let_def)
  show "ef_deviceId (co_effects (attach b p h c) ! q) = ef_deviceId (co_effects c ! q)"
    by (cases "p < length (co_effects c)"; cases "q = p") (simp_all add: attach_def Let_def list_update_beyond)
qed

text \<open>A new effect, when none is on screen.\<close>

definition new_effect :: "string \<Rightarrow> string \<Rightarrow> effect" where
  "new_effect dev entry = \<lparr>ef_deviceId = dev, ef_entryPoint = entry, ef_cancelled = False,
     ef_sessionId = None, ef_stream = None, ef_stage = AskingDevice\<rparr>"

lemma ok_append:
  assumes "both_ok k c" "co_current c = None" "k \<Longrightarrow> \<forall>d x. co_inflight c = Some (d, x) \<longrightarrow> d = dev"
  shows "both_ok k (c\<lparr>co_effects := co_effects c @ [new_effect dev entry], co_current := Some (length (co_effects c))\<rparr>)"
proof -
  have "effect_ok (Some (length (co_effects c))) (co_pendingDropId c) q (co_effects c ! q)" if "q < length (co_effects c)" for q
    using ok_effect[OF assms(1) that] that assms(2) by (simp add: effect_ok_def)
  moreover have "effect_ok (Some n) pend n (new_effect dev entry)" for n pend by (auto simp: effect_ok_def new_effect_def)
  ultimately have e: "\<forall>q < Suc (length (co_effects c)). effect_ok (Some (length (co_effects c))) (co_pendingDropId c) q
      ((co_effects c @ [new_effect dev entry]) ! q)"
    by (simp add: nth_append less_Suc_eq)
  have "own_stream ((co_effects c @ [new_effect dev entry]) ! q)" if "k" "q < Suc (length (co_effects c))" for q
    using ok_own[OF assms(1) that(1), of q] that(2) by (auto simp: nth_append own_stream_def new_effect_def less_Suc_eq)
  moreover have "ef_deviceId (new_effect d entry) = d" for d by (simp add: new_effect_def)
  ultimately show ?thesis using e assms by (simp add: both_ok_def page_ok_def owner_ok_def)
qed

lemma held_for_Some: "held_for c dev = Some h \<Longrightarrow> hd_deviceId h = dev"
  by (simp add: held_for_def split: option.splits if_splits)

lemma ok_run:
  assumes "both_ok k c" "co_current c = None" "k \<Longrightarrow> \<forall>d x. co_inflight c = Some (d, x) \<longrightarrow> d = dev"
  shows "both_ok k (run_effect dev entry c)"
proof -
  let ?n = "length (co_effects c)"
  let ?d = "c\<lparr>co_effects := co_effects c @ [new_effect dev entry], co_current := Some ?n\<rparr>"
  have d: "both_ok k (upd_ui f ?d)" for f using ok_append[OF assms] by simp
  have "both_ok k (attach b ?n h (upd_ui g (upd_ui f ?d)))" if "hd_deviceId h = dev" for b f g h
    by (rule ok_attach) (use d that in \<open>simp_all add: new_effect_def\<close>)
  then show ?thesis
    using d held_for_Some unfolding run_effect_def Let_def new_effect_def[symmetric] by (auto split: option.split)
qed

lemma ok_cleanup:
  assumes "both_ok k c" "co_current c = Some p"
  shows "both_ok k (cleanup p c)" "co_current (cleanup p c) = None" "co_inflight (cleanup p c) = co_inflight c"
    "length (co_effects (cleanup p c)) = length (co_effects c)"
proof -
  let ?f = "\<lambda>e. e\<lparr>ef_cancelled := True, ef_stream := None\<rparr>"
  let ?d = "(upd_effect p ?f c)\<lparr>co_current := None\<rparr>"
  let ?es = "(co_effects c)[p := ?f (co_effects c ! p)]"
  have p: "p < length (co_effects c)" using assms by (simp add: both_ok_def page_ok_def)
  have e: "effect_ok None pend q (?es ! q)" if "q < length (co_effects c)" for q pend
    using ok_effect[OF assms(1) that] assms(2) that by (cases "q = p") (auto simp: effect_ok_def)
  have s: "own_stream (?es ! q)" if k "q < length (co_effects c)" for q
    using ok_own[OF assms(1) that] that by (cases "q = p") (simp_all add: own_stream_def)
  have "both_ok k (?d\<lparr>co_pendingDropId := x, co_timer := x\<rparr>)" for x
    using e s by (simp add: both_ok_def page_ok_def owner_ok_def)
  moreover have "both_ok k ?d" using e s assms(1) by (simp add: both_ok_def page_ok_def owner_ok_def)
  ultimately show "both_ok k (cleanup p c)" by (simp add: cleanup_def Let_def scheduleDrop_def split: option.split)
  show "co_current (cleanup p c) = None" "co_inflight (cleanup p c) = co_inflight c"
    "length (co_effects (cleanup p c)) = length (co_effects c)"
    by (simp_all add: cleanup_def Let_def scheduleDrop_def split: option.split)
qed

lemma ok_failed:
  assumes "both_ok k c" "p < length (co_effects c) \<Longrightarrow> ef_stage (co_effects c ! p) \<noteq> Done"
  shows "both_ok k (effect_failed p bs msg c)"
  using ok_stage[OF assms] by (simp add: effect_failed_def Let_def show_error_def split: option.split)

lemma failed_fields [simp]:
  "length (co_effects (effect_failed p bs msg c)) = length (co_effects c)"
  "q \<noteq> p \<Longrightarrow> co_effects (effect_failed p bs msg c) ! q = co_effects c ! q"
  "co_current (effect_failed p bs msg c) = co_current c"
  by (simp_all add: effect_failed_def Let_def show_error_def split: option.split)

lemma ok_inflight:
  "both_ok k c \<Longrightarrow> (\<And>p d x. k \<Longrightarrow> co_current c = Some p \<Longrightarrow> i = Some (d, x) \<Longrightarrow> ef_deviceId (co_effects c ! p) = d) \<Longrightarrow>
    both_ok k (c\<lparr>co_inflight := i\<rparr>)"
  by (simp add: both_ok_def page_ok_def owner_ok_def)

lemma ok_create:
  assumes "both_ok k c" "p < length (co_effects c)" "ef_stage (co_effects c ! p) \<noteq> Done" "co_current c = Some p"
  shows "both_ok k (createSession b p c)"
proof (cases "held_for c (ef_deviceId (co_effects c ! p))")
  case None
  let ?d = "upd_effect p (\<lambda>e. e\<lparr>ef_stage := AwaitingSession\<rparr>) c"
  have d: "both_ok k ?d" by (rule ok_stage) (use assms in simp_all)
  have "both_ok k (?d\<lparr>co_inflight := Some (ef_deviceId (co_effects c ! p), ef_entryPoint (co_effects c ! p), False)\<rparr>)"
    by (rule ok_inflight[OF d]) (use assms in simp)
  then show ?thesis using d None by (simp add: createSession_def Let_def split: option.split)
next
  case (Some h)
  have "both_ok k (attach b p h (cancelDrop (hd_sessionId h) c))"
    by (rule ok_attach[OF ok_cancel[OF assms(1)]]) (use assms held_for_Some[OF Some] in simp_all)
  then show ?thesis using Some by (simp add: createSession_def Let_def)
qed

lemma ok_device:
  assumes "both_ok k c" "p < length (co_effects c)" "ef_stage (co_effects c ! p) = AskingDevice"
  shows "both_ok k (device_answered p ans c)"
proof (cases "ef_cancelled (co_effects c ! p)")
  case False
  then have p: "co_current c = Some p" using ok_effect[OF assms(1,2)] by (simp add: effect_ok_def)
  have "both_ok k (createSession b p (upd_ui f c))" for b f by (rule ok_create) (use assms p in simp_all)
  moreover have "both_ok k (upd_effect p (\<lambda>e. e\<lparr>ef_stage := Done\<rparr>) c)" by (rule ok_stage[OF assms(1)]) (simp add: assms(3))
  moreover have "both_ok k (effect_failed p bs msg c)" for bs msg by (rule ok_failed[OF assms(1)]) (simp add: assms(3))
  ultimately show ?thesis using False by (simp add: device_answered_def split: answer.split)
next
  case True
  then show ?thesis using ok_stage[OF assms(1), of p Done] assms(3) by (simp add: device_answered_def)
qed

lemma ok_attach_all:
  assumes "both_ok k c" "distinct ps" "\<forall>p \<in> set ps. p < length (co_effects c) \<and> ef_stage (co_effects c ! p) = AwaitingSession"
    and "k \<Longrightarrow> \<forall>p. co_current c = Some p \<longrightarrow> hd_deviceId h = ef_deviceId (co_effects c ! p)"
  shows "both_ok k (fold (\<lambda>p. attach b p h) ps c)"
  using assms
proof (induction ps arbitrary: c)
  case (Cons p ps)
  have "both_ok k (attach b p h c)" by (rule ok_attach[OF Cons.prems(1)]) (use Cons.prems in auto)
  moreover have "\<forall>q \<in> set ps. q < length (co_effects (attach b p h c)) \<and> ef_stage (co_effects (attach b p h c) ! q) = AwaitingSession"
  proof
    fix q assume q: "q \<in> set ps"
    then have "q \<noteq> p" using Cons.prems(2) by auto
    then show "q < length (co_effects (attach b p h c)) \<and> ef_stage (co_effects (attach b p h c) ! q) = AwaitingSession"
      using Cons.prems(3) q by (simp add: attach_effect(1))
  qed
  ultimately have "both_ok k (fold (\<lambda>p. attach b p h) ps (attach b p h c))"
    using Cons.prems by (intro Cons.IH) (simp_all add: attach_effect(2))
  then show ?case by simp
qed simp

lemma ok_fail_all:
  assumes "both_ok k c" "distinct ps" "\<forall>p \<in> set ps. p < length (co_effects c) \<and> ef_stage (co_effects c ! p) = AwaitingSession"
  shows "both_ok k (fold (\<lambda>p. effect_failed p bs msg) ps c)"
  using assms
proof (induction ps arbitrary: c)
  case (Cons p ps)
  have "both_ok k (effect_failed p bs msg c)" by (rule ok_failed[OF Cons.prems(1)]) (use Cons.prems in auto)
  moreover have "\<forall>q \<in> set ps. q < length (co_effects (effect_failed p bs msg c)) \<and> ef_stage (co_effects (effect_failed p bs msg c) ! q) = AwaitingSession"
  proof
    fix q assume q: "q \<in> set ps"
    then have "q \<noteq> p" using Cons.prems(2) by auto
    then show "q < length (co_effects (effect_failed p bs msg c)) \<and> ef_stage (co_effects (effect_failed p bs msg c) ! q) = AwaitingSession"
      using Cons.prems(3) q by simp
  qed
  ultimately have "both_ok k (fold (\<lambda>p. effect_failed p bs msg) ps (effect_failed p bs msg c))"
    using Cons.prems by (intro Cons.IH) simp_all
  then show ?case by simp
qed simp

lemma waiters_ok: "distinct (waiters c)" "\<forall>p \<in> set (waiters c). p < length (co_effects c) \<and> ef_stage (co_effects c ! p) = AwaitingSession"
  by (auto simp: waiters_def)

lemma ok_session:
  assumes "both_ok k c"
  shows "both_ok k (session_answered ans c)"
proof (cases "co_inflight c")
  case (Some i)
  obtain dev entry second where i: "i = (dev, entry, second)" by (cases i)
  have own: "\<forall>p. co_current c = Some p \<longrightarrow> dev = ef_deviceId (co_effects c ! p)" if k
    using assms Some that by (auto simp: both_ok_def owner_ok_def i)
  have n: "both_ok k (c\<lparr>co_inflight := None\<rparr>)" by (rule ok_inflight[OF assms]) simp
  show ?thesis
  proof (cases ans)
    case (Got a)
    obtain sid url tok where a: "a = (sid, url, tok)" by (cases a)
    define h where "h = \<lparr>hd_deviceId = dev, hd_sessionId = sid, hd_wsUrl = url, hd_token = tok\<rparr>"
    define d where "d = cancelDrop sid (c\<lparr>co_held := Some h, co_inflight := None\<rparr>)"
    have "both_ok k d" unfolding d_def by (rule ok_cancel) (rule ok_same[OF _ _ _ _ _ n]; simp)
    moreover have "co_effects d = co_effects c" "co_current d = co_current c" by (simp_all add: d_def)
    ultimately have "both_ok k (fold (\<lambda>p. attach (has_canvas d) p h) (waiters c) d)"
      using own waiters_ok[of c] by (intro ok_attach_all) (simp_all add: h_def)
    then show ?thesis by (simp add: session_answered_def Some i Got a Let_def flip: h_def d_def)
  next
    case (Failed st bs msg)
    have "both_ok k (c\<lparr>co_inflight := Some (dev, entry, True)\<rparr>)" by (rule ok_inflight[OF assms]) (use own in auto)
    moreover have "both_ok k (fold (\<lambda>p. effect_failed p bs msg) (waiters c) (c\<lparr>co_inflight := None\<rparr>))"
      by (rule ok_fail_all[OF n]) (use waiters_ok[of c] in simp_all)
    ultimately show ?thesis by (simp add: session_answered_def Some i Failed)
  qed
qed (use assms in \<open>simp add: session_answered_def\<close>)

lemma ok_drop_timer: "both_ok k c \<Longrightarrow> both_ok k (drop_timer c)"
proof -
  assume ok: "both_ok k c"
  then have t: "co_timer c = co_pendingDropId c" by (simp add: both_ok_def page_ok_def)
  have d: "both_ok k d" if "co_timer d = None" "co_pendingDropId d = None" "co_effects d = co_effects c"
      "co_current d = co_current c" "co_inflight d = co_inflight c" for d
    by (rule ok_same[OF _ _ _ _ _ ok_no_drop[OF ok]]) (use that in simp_all)
  show ?thesis using ok t by (simp add: drop_timer_def dropSessionKeepalive_def Let_def d split: option.split)
qed

lemma ok_flush: "both_ok k c \<Longrightarrow> both_ok k (flushDrop c)"
proof -
  assume ok: "both_ok k c"
  show ?thesis
    by (rule ok_same[OF _ _ _ _ _ ok_no_drop[OF ok]])
      (simp_all add: flushDrop_def dropSessionKeepalive_def Let_def split: option.split)
qed

lemma ok_rerun: "both_ok k c \<Longrightarrow> both_ok k (rerun c)"
proof (cases "co_current c")
  case (Some p)
  assume ok: "both_ok k c"
  have "\<forall>d x. co_inflight c = Some (d, x) \<longrightarrow> d = ef_deviceId (co_effects c ! p)" if k
    using ok Some that by (auto simp: both_ok_def owner_ok_def)
  then show ?thesis using ok_cleanup[OF ok Some] Some by (simp add: rerun_def ok_run)
qed (simp add: rerun_def)

text \<open>The operator opens no other page while a session is being created.\<close>

definition calm_event :: "console \<Rightarrow> page_event \<Rightarrow> bool" where
  "calm_event c e = (case e of Open dev src \<Rightarrow> (case co_inflight c of None \<Rightarrow> True | Some (d, _) \<Rightarrow> d = dev) | _ \<Rightarrow> True)"

lemma ok_event:
  assumes "both_ok k c" "k \<Longrightarrow> calm_event c e"
  shows "both_ok k (page_do e c)"
proof (cases e)
  case (Open dev src)
  have i: "\<forall>d x. co_inflight c = Some (d, x) \<longrightarrow> d = dev" if k
    using assms(2)[OF that] by (auto simp: calm_event_def Open split: option.splits)
  show ?thesis
  proof (cases "co_current c")
    case None
    have "both_ok k (run_effect dev (entry_point src) (c\<lparr>co_ui := fresh_ui, co_mount := co_mount c + 1\<rparr>))"
      by (rule ok_run) (use assms(1) None i in simp_all)
    then show ?thesis by (simp add: Open None)
  next
    case (Some p)
    then show ?thesis using ok_cleanup[OF assms(1) Some] i by (simp add: Open ok_run)
  qed
next
  case (ProbeAnswered m ans)
  have "both_ok k (rerun (upd_ui g (upd_ui f c)))" for f g by (rule ok_rerun) (simp add: assms(1))
  then show ?thesis using assms(1) by (simp add: ProbeAnswered probe_answered_def Let_def split: answer.split prod.split)
next
  case Reconnect
  have "both_ok k (rerun ((upd_ui f c)\<lparr>co_held := None\<rparr>))" for f by (rule ok_rerun) (simp add: assms(1))
  then show ?thesis using assms(1) by (simp add: Reconnect reconnect_def)
qed (use assms(1) in \<open>simp_all add: ok_device ok_session ok_drop_timer ok_flush ok_cleanup(1) log_line_def selfheal_def
      selfheal_answered_def probeAgain_def split: option.split answer.split\<close>)

section \<open>Properties\<close>

text \<open>What the page can come to; in the calm case, without opening another page while a session is being created.\<close>

inductive page_reachable :: "bool \<Rightarrow> console \<Rightarrow> bool" for calm where
  start: "page_reachable calm fresh_console"
| more: "page_reachable calm c \<Longrightarrow> calm \<longrightarrow> calm_event c e \<Longrightarrow> page_reachable calm (page_do e c)"

lemma reachable_ok: "page_reachable k c \<Longrightarrow> both_ok k c"
proof (induction rule: page_reachable.induct)
  case start
  show ?case by (simp add: both_ok_def page_ok_def owner_ok_def fresh_console_def)
next
  case (more c e)
  then show ?case by (intro ok_event) simp_all
qed

lemma reachable_run: "page_reachable False (page_run es)"
proof -
  have "page_reachable False (fold page_do es c)" if "page_reachable False c" for c
    using that by (induction es arbitrary: c) (simp_all add: page_reachable.more)
  then show ?thesis by (simp add: page_run_def page_reachable.start)
qed


definition ready_answer :: "readiness_answer answer" where
  "ready_answer = Got \<lparr>ra_tier = ''READY'', ra_blockers = [], ra_warns = []\<rparr>"

definition opened :: "nat \<Rightarrow> string \<Rightarrow> string \<Rightarrow> page_event list" where
  "opened p dev sid = [Open dev None, DeviceAnswered p ready_answer, SessionAnswered (Got (sid, ''w'', ''t''))]"

text \<open>Leaving one device for another: the first session is due to be dropped while the second is shown.\<close>

definition two_devices :: "page_event list" where
  "two_devices = opened 0 ''d1'' ''s1'' @ [Leave] @ opened 1 ''d2'' ''s2''"


text \<open>
  C35 A page shows its own device: as long as no other page is opened while a session is being created,
  the stream of a page is one of its device, across leaving, coming back, reconnecting, retries and shared
  creations.
\<close>

theorem shown_device_own:
  assumes "page_reachable True c" "p < length (co_effects c)" "ef_stream (co_effects c ! p) = Some h"
  shows "hd_deviceId h = ef_deviceId (co_effects c ! p)"
  using reachable_ok[OF assms(1)] assms(2,3) by (simp add: both_ok_def owner_ok_def own_stream_def)

theorem shown_device_own_witness:
  "page_reachable True (page_run two_devices) \<and> map_option hd_deviceId (ef_stream (co_effects (page_run two_devices) ! 1)) = Some ''d2''"
proof -
  have step: "page_reachable True (fold page_do es c)"
    if "page_reachable True c" "\<forall>k < length es. calm_event (fold page_do (take k es) c) (es ! k)" for es c
    using that
  proof (induction es arbitrary: c)
    case (Cons e es)
    from Cons.prems(2) have "calm_event c e" "\<forall>k < length es. calm_event (fold page_do (take k es) (page_do e c)) (es ! k)"
      by (auto dest: spec[of _ 0] spec[of _ "Suc _"])
    then show ?case using Cons.IH page_reachable.more[OF Cons.prems(1), of e] by simp
  qed simp
  have "list_all (\<lambda>k. calm_event (fold page_do (take k two_devices) fresh_console) (two_devices ! k)) [0..<length two_devices]"
    by code_simp
  then have "\<forall>k < length two_devices. calm_event (fold page_do (take k two_devices) fresh_console) (two_devices ! k)"
    by (simp add: list_all_iff)
  then have r: "page_reachable True (page_run two_devices)" unfolding page_run_def by (intro step page_reachable.start)
  have s: "1 < length (co_effects (page_run two_devices))" "ef_stream (co_effects (page_run two_devices) ! 1) \<noteq> None"
    "ef_deviceId (co_effects (page_run two_devices) ! 1) = ''d2''"
    by code_simp+
  from s(2) obtain h where h: "ef_stream (co_effects (page_run two_devices) ! 1) = Some h" by auto
  from shown_device_own[OF r s(1) h] r h s(3) show ?thesis by simp
qed

text \<open>
  A page left alone ends its session: when the page on screen is left and nothing comes before the
  timeout, its session is ended, once, and no longer held, so that the next page starts a new one.
\<close>

theorem left_session_dropped:
  assumes "page_reachable False c" "co_current c = Some p" "ef_sessionId (co_effects c ! p) = Some sid" "sid \<noteq> []"
  defines "d \<equiv> page_do DropTimer (page_do Leave c)"
  shows "co_dropped d = co_dropped c @ [sid] \<and> map_option hd_sessionId (co_held d) \<noteq> Some sid \<and>
    co_timer d = None \<and> co_current d = None"
proof -
  have "p < length (co_effects c)" using reachable_ok[OF assms(1)] assms(2) by (simp add: both_ok_def page_ok_def)
  then show ?thesis unfolding d_def using assms(2-4)
    by (simp add: cleanup_def Let_def scheduleDrop_def drop_timer_def dropSessionKeepalive_def)
qed

theorem left_session_dropped_witness:
  "co_dropped (page_do DropTimer (page_do Leave (page_run (opened 0 ''d1'' ''s1'')))) = [''s1'']"
proof -
  have "co_current (page_run (opened 0 ''d1'' ''s1'')) = Some 0" "co_dropped (page_run (opened 0 ''d1'' ''s1'')) = []"
    "ef_sessionId (co_effects (page_run (opened 0 ''d1'' ''s1'')) ! 0) = Some ''s1''"
    by code_simp+
  then show ?thesis using left_session_dropped[OF reachable_run, of "opened 0 ''d1'' ''s1''" 0 "''s1''"] by simp
qed

section \<open>Where the module's variables are shared too widely\<close>

text \<open>
  The creation under way is shared whatever device it is for: a page opened meanwhile shows the other
  device.
\<close>

lemma wrong_device_shown:
  "(let c = page_run [Open ''d1'' None, DeviceAnswered 0 ready_answer, Open ''d2'' None,
       DeviceAnswered 1 ready_answer, SessionAnswered (Got (''s1'', ''w'', ''t''))]
    in co_current c = Some 1 \<and> ef_deviceId (co_effects c ! 1) = ''d2'' \<and>
      map_option hd_deviceId (ef_stream (co_effects c ! 1)) = Some ''d1'')"
  by code_simp

text \<open>There is one pending drop: leaving a second page within two seconds forgets the first session.\<close>

lemma first_drop_forgotten:
  "co_dropped (page_do DropTimer (page_run (two_devices @ [Leave]))) = [''s2''] \<and>
   co_timer (page_do DropTimer (page_run (two_devices @ [Leave]))) = None"
  by code_simp

text \<open>A page left before its session came leaves the session open: it is held, and nothing will drop it.\<close>

lemma late_session_kept:
  "(let c = page_run [Open ''d1'' None, DeviceAnswered 0 ready_answer, Leave, SessionAnswered (Got (''s1'', ''w'', ''t''))]
    in map_option hd_sessionId (co_held c) = Some ''s1'' \<and> co_timer c = None \<and> co_dropped c = [])"
  by code_simp

text \<open>
  Reconnecting, when the answer takes longer than two seconds: the timeout ends the session while the
  server issues a token for that same session, and the page shows it.
\<close>

lemma reconnect_race:
  "(let c = page_run (opened 0 ''d1'' ''s1'' @ [SocketDead 0, Reconnect, DeviceAnswered 1 ready_answer, DropTimer,
       SessionAnswered (Got (''s1'', ''w'', ''t''))])
    in co_dropped c = [''s1''] \<and> map_option hd_sessionId (ef_stream (co_effects c ! 1)) = Some ''s1'')"
  by code_simp

text \<open>Closing the window drops the session that was due, not the one on screen.\<close>

lemma flush_drops_one:
  "co_dropped (page_run (two_devices @ [PageHide])) = [''s1''] \<and> co_held (page_run (two_devices @ [PageHide])) = None"
  by code_simp

end
