(* ===== verification/ListPage.thy ===== *)
theory ListPage
  imports Fleet JsonParse Doubles
begin

text \<open>
  The pages of the dashboard in the browser: \<open>apps/rc-web/src/pages/dashboardMeta.ts\<close> (what a list
  shows) and \<open>DashboardList.tsx\<close> (its order, its filter, its file). Texts are in UTF-8, as the exported
  file has them; \<open>localeCompare\<close> and \<open>toLowerCase\<close> are parameters.
\<close>

section \<open>What a list shows\<close>

datatype col = CStatus | CGroup | CLastSeen | CAgent | CMissing | CLag | CRam | CDisk | CTemp | CPanel | CTouch
  | CUiIdle | CBattery | CNet | CDrops | CLastSession | CEvents | CReasons

record list_meta =
  mt_title :: string
  mt_note :: "string option"
  mt_cols :: "col list"
  mt_sort :: "col option"
  mt_desc :: bool

definition meta :: "string \<Rightarrow> string option \<Rightarrow> col list \<Rightarrow> col option \<Rightarrow> bool \<Rightarrow> list_meta" where
  "meta title hint cols col desc = \<lparr>mt_title = title, mt_note = hint, mt_cols = cols, mt_sort = col, mt_desc = desc\<rparr>"

definition STATUS_FIRST :: "col list" where
  "STATUS_FIRST = [CStatus, CLastSeen, CAgent]"

definition METRICS :: "(string \<times> list_meta) list" where
  "METRICS = [
     (''online'', meta ''Connected devices'' None [CStatus, CLastSeen, CAgent, CNet, CBattery] None False),
     (''offline'', meta ''Disconnected devices'' (Some ''Not sending heartbeats. Longest offline first.'') [CLastSeen, CStatus, CAgent, CDrops] (Some CLastSeen) False),
     (''offlineOver24h'', meta ''Offline for more than 24 h'' None [CLastSeen, CAgent, CDrops] (Some CLastSeen) False),
     (''neverSeen'', meta ''Never seen'' (Some ''Known to the MDM but never reported to the backend.'') [CGroup, CAgent] None False),
     (''flapping'', meta ''Dropping connection'' (Some ''5 or more connection drops in the last 24 h. Open a device to see the reasons.'') [CDrops, CStatus, CLastSeen, CAgent] (Some CDrops) True),
     (''notReady'', meta ''Not ready for remote control'' None [CStatus, CMissing, CAgent, CLastSeen] None False),
     (''permissionsComplete'', meta ''Devices with all permissions'' None [CStatus, CAgent, CLastSeen] None False),
     (''permissionsIncomplete'', meta ''Devices missing permissions'' (Some ''Permissions can only be granted with ADB (pm grant / appops) when provisioning.'') [CMissing, CStatus, CAgent, CLastSeen] None False),
     (''permissionsUnknown'', meta ''Permissions not reported yet'' None [CStatus, CAgent, CLastSeen] None False),
     (''missingSecureSettings'', meta ''Missing WRITE_SECURE_SETTINGS'' (Some ''The agent cannot re-enable its accessibility service by itself.'') [CMissing, CStatus, CAgent, CLastSeen] None False),
     (''missingA11y'', meta ''Accessibility service off'' (Some ''Input, screenshots and consent clicks fall back or stop working.'') [CMissing, CStatus, CAgent, CLastSeen] None False),
     (''missingOverlay'', meta ''Overlay permission missing'' None [CMissing, CStatus, CAgent, CLastSeen] None False),
     (''lagging'', meta ''Lagging devices'' (Some ''Agent main-thread lag of 1.5 s or more. Worst first.'') [CLag, CRam, CStatus, CEvents] (Some CLag) True),
     (''hot'', meta ''Hot devices'' (Some (''Battery 47 '' @ [CHR 0xC2, CHR 0xB0] @ ''C or more, or thermal status 3+.'')) [CTemp, CBattery, CStatus] (Some CTemp) True),
     (''lowMem'', meta ''Low RAM'' (Some ''Under 250 MB free.'') [CRam, CLag, CStatus] (Some CRam) False),
     (''lowDisk'', meta ''Low disk space'' (Some ''Under 300 MB free.'') [CDisk, CStatus] (Some CDisk) False),
     (''panelOff'', meta ''Panel off while the system thinks the screen is on'' None [CPanel, CTouch, CEvents, CStatus] None False),
     (''touchGone'', meta ''Touch controller lost'' None [CTouch, CPanel, CEvents, CStatus] None False),
     (''noHwData'', meta ''No hardware data'' (Some ''Agent older than 1.4.7, or not reporting yet.'') [CAgent, CStatus, CLastSeen] None False),
     (''uiIdle6h'', meta ''UI static for 6 h or more'' (Some ''No change on the device screen. A kiosk page that never changes is static by design.'') [CUiIdle, CLastSession, CStatus] (Some CUiIdle) True),
     (''uiIdle24h'', meta ''UI static for 24 h or more'' (Some ''No change on the device screen. A kiosk page that never changes is static by design.'') [CUiIdle, CLastSession, CStatus] (Some CUiIdle) True),
     (''noSession7d'', meta ''No remote session in 7 days'' None [CLastSession, CLastSeen, CStatus] (Some CLastSession) False),
     (''lowBattery'', meta ''Low battery (unplugged)'' None [CBattery, CNet, CStatus] (Some CBattery) False),
     (''notCharging'', meta ''Not charging'' None [CBattery, CNet, CStatus] (Some CBattery) False),
     (''weakSignal'', meta ''Weak cellular signal'' None [CNet, CBattery, CStatus] (Some CNet) False),
     (''wifi'', meta ''Wi-Fi devices'' None [CNet, CBattery, CStatus] None False),
     (''cellular'', meta ''Cellular devices'' None [CNet, CBattery, CStatus] (Some CNet) False),
     (''ethernet'', meta ''Ethernet devices'' None [CNet, CBattery, CStatus] None False),
     (''outdated'', meta ''Agent below the minimum supported version'' None [CAgent, CStatus, CLastSeen] None False),
     (''tier:READY'', meta ''Ready'' None STATUS_FIRST None False),
     (''tier:DEGRADED'', meta ''Degraded'' (Some (''Usable, with warnings (screen off, low battery, gesture input only'' @ [CHR 0xE2, CHR 0x80, CHR 0xA6] @ '').'')) STATUS_FIRST None False),
     (''tier:NOT_READY'', meta ''Not ready'' None [CStatus, CMissing, CAgent, CLastSeen] None False),
     (''tier:OFFLINE'', meta ''Offline'' None [CLastSeen, CStatus, CAgent] (Some CLastSeen) False)]"

definition REASON_LABEL :: "(string \<times> string) list" where
  "REASON_LABEL = [(''NOT_READY'', ''not ready''), (''PANEL_OFF'', ''panel off''), (''TOUCH_GONE'', ''touch gone''), (''LAG'', ''lag''), (''HOT'', ''hot''), (''LOW_MEM'', ''low RAM''), (''LOW_DISK'', ''low disk''), (''FLAPPING'', ''dropping connection''), (''MISSING_PERMISSIONS'', ''missing permissions''), (''LOW_BATTERY'', ''low battery''), (''OFFLINE_OVER_24H'', ''offline > 24 h''), (''NO_ACCESSIBILITY'', ''accessibility off''), (''NO_HW_DATA'', ''no hardware data'')]"

definition ROLLOUT_TEXT :: "(string \<times> list_meta) list" where
  "ROLLOUT_TEXT = [
     (''done'', meta ''Updated, online and healthy'' (Some ''These devices need nothing more.'') [CAgent, CStatus, CLastSeen] None False),
     (''updatedUnhealthy'', meta ''Updated but unhealthy'' (Some ''On the target version, but something is wrong. Open a device to see its hardware and connection history.'') [CReasons, CAgent, CStatus, CLastSeen] None False),
     (''updatedOffline'', meta ''Updated, now offline'' (Some ''Reported the new version and then went quiet. This may be the update breaking the agent: check these first.'') [CLastSeen, CAgent, CDrops] None False),
     (''pendingOnline'', meta ''Online, not updated yet'' (Some ''Connected but still on an older version. Check the install state in the MDM (storage, policy, sync).'') [CAgent, CStatus, CLastSeen] None False),
     (''pendingOffline'', meta ''Offline, not updated'' (Some ''Cannot update until it reconnects. Longest offline first.'') [CLastSeen, CAgent, CDrops] None False),
     (''unknown'', meta ''No version reported'' (Some ''Known to the MDM but never reported to the backend.'') [CAgent, CLastSeen] None False)]"

definition MISSING_LABEL :: "(string \<times> string) list" where
  "MISSING_LABEL = [(''secureSettings'', ''WRITE_SECURE_SETTINGS''), (''a11y'', ''Accessibility''), (''overlay'', ''Overlay'')]"

definition DISPLAY_LABEL :: "(rat \<times> string) list" where
  "DISPLAY_LABEL = [(1, ''OFF''), (2, ''ON''), (3, ''DOZE''), (4, ''DOZE_SUSPEND''), (5, ''VR''), (6, ''ON_SUSPEND'')]"

definition label_or :: "(string \<times> string) list \<Rightarrow> string \<Rightarrow> string" where
  "label_or table k = (case map_of table k of Some t \<Rightarrow> t | None \<Rightarrow> k)"

text \<open>\<open>/^rollout:([A-Za-z]+):(\d+\.\d+\.\d+)$/\<close>\<close>

definition three_numbers :: "string \<Rightarrow> bool" where
  "three_numbers v = (let ps = split_on CHR ''.'' v in length ps = 3 \<and> (\<forall>p \<in> set ps. p \<noteq> [] \<and> (\<forall>c \<in> set p. is_digit c)))"

definition match_rollout :: "string \<Rightarrow> (string \<times> string) option" where
  "match_rollout key = (if \<not> prefix ''rollout:'' key then None else
     (let r = drop 8 key; b = takeWhile is_letter r; v = dropWhile is_letter r in
      case v of [] \<Rightarrow> None
      | c # ver \<Rightarrow> if c = CHR '':'' \<and> b \<noteq> [] \<and> three_numbers ver then Some (b, ver) else None))"

definition metaFor :: "string \<Rightarrow> list_meta" where
  "metaFor key =
     (case (case match_rollout key of None \<Rightarrow> None
            | Some (b, ver) \<Rightarrow> map_option (\<lambda>t. (b, ver, t)) (map_of ROLLOUT_TEXT b)) of
        Some (b, ver, t) \<Rightarrow> meta (mt_title t @ '' (target '' @ ver @ '')'') (mt_note t) (mt_cols t)
          (if suffix ''Offline'' b then Some CLastSeen else None) False
      | None \<Rightarrow> (case map_of METRICS key of
          Some m \<Rightarrow> m
        | None \<Rightarrow> if prefix ''ver:'' key then meta (''Agent version '' @ drop 4 key) None [CStatus, CLastSeen, CGroup] None False
            else meta key None STATUS_FIRST None False))"

section \<open>Cells\<close>

definition DASH :: string where "DASH = [CHR 0xE2, CHR 0x80, CHR 0x94]"
definition DEGREE :: string where "DEGREE = [CHR 0xC2, CHR 0xB0]"
definition MIDDOT :: string where "MIDDOT = [CHR 0xC2, CHR 0xB7]"
definition BOLT :: string where "BOLT = [CHR 0xE2, CHR 0x9A, CHR 0xA1]"

definition show_int :: "int \<Rightarrow> string" where
  "show_int i = num_to_string (Fin (of_int i))"

definition ago :: "int option \<Rightarrow> int \<Rightarrow> string" where
  "ago ms now = (case ms of
      None \<Rightarrow> ''never''
    | Some t \<Rightarrow>
        let s = max 0 (js_round (rnd (of_int (now - t) / 1000))) in
        if s < 60 then ''just now''
        else if s < 3600 then show_int (s div 60) @ '' min ago''
        else if s < 86400 then show_int (s div 3600) @ '' h ago''
        else show_int (s div 86400) @ '' d ago'')"

definition duration :: "rat option \<Rightarrow> string" where
  "duration ms = (case ms of
      None \<Rightarrow> DASH
    | Some t \<Rightarrow>
        if t < 0 then DASH
        else let m = \<lfloor>rnd (t / 60000)\<rfloor> in
          if m < 60 then show_int m @ '' min''
          else let h = m div 60 in
            if h < 48 then show_int h @ '' h '' @ show_int (m mod 60) @ '' min''
            else show_int (h div 24) @ '' d '' @ show_int (h mod 24) @ '' h'')"

text \<open>A row of the answer: the device, and its problems when the list is one of a rollout.\<close>

type_synonym brief = "device_brief \<times> string list"

text \<open>A number after its way through JSON, where what is not finite becomes \<open>null\<close>.\<close>

definition sent_num :: "jsnum option \<Rightarrow> rat option" where
  "sent_num v = (case v of Some (Fin q) \<Rightarrow> Some q | _ \<Rightarrow> None)"

definition hw_of :: "brief \<Rightarrow> string \<Rightarrow> rat option" where
  "hw_of b k = (case b_hw (fst b) of None \<Rightarrow> None | Some h \<Rightarrow> sent_num (hw_num h k))"

definition show_num :: "rat \<Rightarrow> string" where
  "show_num q = num_to_string (Fin q)"

definition with_unit :: "rat option \<Rightarrow> string \<Rightarrow> string" where
  "with_unit v unit = (case v of None \<Rightarrow> DASH | Some q \<Rightarrow> show_num q @ unit)"

definition or_dash :: "string \<Rightarrow> string" where
  "or_dash s = (if s = [] then DASH else s)"

fun cell_text :: "brief \<Rightarrow> col \<Rightarrow> int \<Rightarrow> string" where
  "cell_text b CStatus now = tier_string (b_tier (fst b))"
| "cell_text b CGroup now = (case b_group (fst b) of None \<Rightarrow> [] | Some g \<Rightarrow> g)"
| "cell_text b CLastSeen now = (if b_online (fst b) then ''now'' else ago (b_lastSeenMs (fst b)) now)"
| "cell_text b CAgent now = (case b_agentVer (fst b) of None \<Rightarrow> DASH | Some v \<Rightarrow> v)"
| "cell_text b CMissing now = (case b_missing (fst b) of
      None \<Rightarrow> ''not reported'' | Some ms \<Rightarrow> if ms = [] then ''none'' else join '', '' (map (label_or MISSING_LABEL) ms))"
| "cell_text b CLag now = with_unit (hw_of b ''mainLagMs'') '' ms''"
| "cell_text b CRam now = with_unit (hw_of b ''memAvailMb'') '' MB''"
| "cell_text b CDisk now = with_unit (hw_of b ''diskFreeMb'') '' MB''"
| "cell_text b CTemp now = (case hw_of b ''battTempC'' of
      None \<Rightarrow> DASH
    | Some q \<Rightarrow> show_num q @ '' '' @ DEGREE @ ''C'' @ (case hw_of b ''thermal'' of
        Some t \<Rightarrow> if t \<noteq> 0 then '' '' @ MIDDOT @ '' thermal '' @ show_num t else [] | None \<Rightarrow> []))"
| "cell_text b CPanel now = (case hw_of b ''display'' of
      None \<Rightarrow> DASH | Some q \<Rightarrow> (case map_of DISPLAY_LABEL q of Some t \<Rightarrow> t | None \<Rightarrow> show_num q))"
| "cell_text b CTouch now = with_unit (hw_of b ''touchDevs'') []"
| "cell_text b CUiIdle now = duration (hw_of b ''uiIdleMs'')"
| "cell_text b CBattery now = (case sent_num (b_batteryPct (fst b)) of
      None \<Rightarrow> DASH | Some q \<Rightarrow> show_num q @ ''%'' @ (if b_charging (fst b) = Some True then '' '' @ BOLT else []))"
| "cell_text b CNet now = (case b_net (fst b) of
      None \<Rightarrow> DASH
    | Some n \<Rightarrow> if n = [] then DASH else n @ (case sent_num (b_rssi (fst b)) of
        Some q \<Rightarrow> if q \<noteq> 0 then '' '' @ show_num q @ '' dBm'' else [] | None \<Rightarrow> []))"
| "cell_text b CDrops now = show_int (int (b_drops24h (fst b)))"
| "cell_text b CLastSession now = ago (b_lastSessionMs (fst b)) now"
| "cell_text b CEvents now = or_dash (join '', '' (b_hwEvents24h (fst b)))"
| "cell_text b CReasons now = or_dash (join '', '' (map (label_or REASON_LABEL) (snd b)))"

fun HEAD :: "col \<Rightarrow> string" where
  "HEAD CStatus = ''Status''" | "HEAD CGroup = ''Group''" | "HEAD CLastSeen = ''Last seen''" | "HEAD CAgent = ''Agent''"
| "HEAD CMissing = ''Missing permissions''" | "HEAD CLag = ''Main lag''" | "HEAD CRam = ''RAM free''"
| "HEAD CDisk = ''Disk free''" | "HEAD CTemp = ''Battery temp''" | "HEAD CPanel = ''Panel''" | "HEAD CTouch = ''Touch devices''"
| "HEAD CUiIdle = ''UI static for''" | "HEAD CBattery = ''Battery''" | "HEAD CNet = ''Network''" | "HEAD CDrops = ''Drops (24 h)''"
| "HEAD CLastSession = ''Last remote session''" | "HEAD CEvents = ''Events (24 h)''" | "HEAD CReasons = ''Problems''"

section \<open>Order and filter\<close>

datatype sort_val = SNum rat | SStr string

fun sortVal :: "brief \<Rightarrow> col \<Rightarrow> sort_val option" where
  "sortVal b CStatus = Some (SStr (tier_string (b_tier (fst b))))"
| "sortVal b CGroup = map_option SStr (b_group (fst b))"
| "sortVal b CLastSeen = map_option (\<lambda>t. SNum (of_int t)) (b_lastSeenMs (fst b))"
| "sortVal b CAgent = map_option SStr (b_agentVer (fst b))"
| "sortVal b CMissing = map_option (\<lambda>ms. SNum (of_nat (length ms))) (b_missing (fst b))"
| "sortVal b CLag = map_option SNum (hw_of b ''mainLagMs'')"
| "sortVal b CRam = map_option SNum (hw_of b ''memAvailMb'')"
| "sortVal b CDisk = map_option SNum (hw_of b ''diskFreeMb'')"
| "sortVal b CTemp = map_option SNum (hw_of b ''battTempC'')"
| "sortVal b CPanel = map_option SNum (hw_of b ''display'')"
| "sortVal b CTouch = map_option SNum (hw_of b ''touchDevs'')"
| "sortVal b CUiIdle = map_option SNum (hw_of b ''uiIdleMs'')"
| "sortVal b CBattery = map_option SNum (sent_num (b_batteryPct (fst b)))"
| "sortVal b CNet = map_option SNum (sent_num (b_rssi (fst b)))"
| "sortVal b CDrops = Some (SNum (of_nat (b_drops24h (fst b))))"
| "sortVal b CLastSession = map_option (\<lambda>t. SNum (of_int t)) (b_lastSessionMs (fst b))"
| "sortVal b CEvents = Some (SNum (of_nat (length (b_hwEvents24h (fst b)))))"
| "sortVal b CReasons = Some (SNum (of_nat (length (snd b))))"

text \<open>The column \<open>device\<close> is \<open>None\<close>.\<close>

definition sort_value :: "col option \<Rightarrow> brief \<Rightarrow> sort_val option" where
  "sort_value c b = (case c of
      None \<Rightarrow> Some (SStr (case b_label (fst b) of Some l \<Rightarrow> if l \<noteq> [] then l else b_deviceId (fst b) | None \<Rightarrow> b_deviceId (fst b)))
    | Some k \<Rightarrow> sortVal b k)"

text \<open>\<open><\<close> of two numbers or two strings; of a number and a string, which no column has, it converts.\<close>

fun val_lt :: "sort_val \<Rightarrow> sort_val \<Rightarrow> bool" where
  "val_lt (SNum a) (SNum b) = (a < b)"
| "val_lt (SStr s) (SStr t) = (s < t)"
| "val_lt (SNum a) (SStr t) = num_lt (Fin a) (to_number_str t)"
| "val_lt (SStr s) (SNum b) = num_lt (to_number_str s) (Fin b)"

definition row_cmp :: "(string \<Rightarrow> string \<Rightarrow> int) \<Rightarrow> col option \<Rightarrow> bool \<Rightarrow> brief \<Rightarrow> brief \<Rightarrow> int" where
  "row_cmp lc c desc a b =
     (let dir = (if desc then -1 else 1); ids = lc (b_deviceId (fst a)) (b_deviceId (fst b)) in
      case (sort_value c a, sort_value c b) of
        (None, None) \<Rightarrow> ids
      | (None, Some _) \<Rightarrow> 1
      | (Some _, None) \<Rightarrow> -1
      | (Some x, Some y) \<Rightarrow> if val_lt x y then -1 * dir else if val_lt y x then 1 * dir else ids)"

definition matches :: "(string \<Rightarrow> string) \<Rightarrow> string \<Rightarrow> brief \<Rightarrow> bool" where
  "matches lowercase q b =
     (let needle = lowercase (trim q); hit = (\<lambda>s. str_includes (lowercase s) needle); text = (\<lambda>x. case x of None \<Rightarrow> [] | Some s \<Rightarrow> s)
      in needle = [] \<or> hit (b_deviceId (fst b)) \<or> hit (text (b_label (fst b))) \<or> hit (text (b_group (fst b))))"

definition list_rows :: "(string \<Rightarrow> string \<Rightarrow> int) \<Rightarrow> (string \<Rightarrow> string) \<Rightarrow> string \<Rightarrow> col option \<Rightarrow> bool \<Rightarrow> brief list \<Rightarrow> brief list" where
  "list_rows lc lowercase q c desc rows = sort_by (row_cmp lc c desc) (filter (matches lowercase q) rows)"

definition toggle :: "col option \<Rightarrow> col option \<times> bool \<Rightarrow> col option \<times> bool" where
  "toggle c s = (if fst s = c then (c, \<not> snd s) else (c, False))"

section \<open>The file\<close>

definition FORMULA :: "char set" where
  "FORMULA = {CHR ''='', CHR ''+'', CHR ''-'', CHR ''@'', CHR 0x09, CHR 0x0D}"

definition plain_text :: "string \<Rightarrow> string" where
  "plain_text s = (case s of [] \<Rightarrow> [] | c # _ \<Rightarrow> if c \<in> FORMULA then CHR 0x27 # s else s)"

definition esc :: "string \<Rightarrow> string" where
  "esc s = CHR 0x22 # concat (map (\<lambda>c. if c = CHR 0x22 then [c, c] else [c]) (plain_text s)) @ [CHR 0x22]"

definition csv_head :: "col list \<Rightarrow> string list" where
  "csv_head cols = ''device'' # ''label'' # map HEAD cols"

definition csv_row :: "col list \<Rightarrow> int \<Rightarrow> brief \<Rightarrow> string list" where
  "csv_row cols now b = b_deviceId (fst b) # (case b_label (fst b) of None \<Rightarrow> [] | Some l \<Rightarrow> l) # map (\<lambda>c. cell_text b c now) cols"

definition csv :: "brief list \<Rightarrow> col list \<Rightarrow> int \<Rightarrow> string" where
  "csv rows cols now = join [CHR 0x0A] (map (\<lambda>r. join '','' (map esc r)) (csv_head cols # map (csv_row cols now) rows))"

text \<open>\<open>key.replace(/[^a-z0-9]+/gi, '_')\<close>\<close>

fun file_stem :: "bool \<Rightarrow> string \<Rightarrow> string" where
  "file_stem gap [] = []"
| "file_stem gap (c # s) = (if is_letter c \<or> is_digit c then c # file_stem False s
     else if gap then file_stem True s else CHR ''_'' # file_stem True s)"

definition file_name :: "string \<Rightarrow> string" where
  "file_name key = file_stem False key @ ''.csv''"

section \<open>The order is consistent\<close>

text \<open>Rows compared by a value that may be missing, then by their ids.\<close>

definition value_cmp :: "(string \<Rightarrow> string \<Rightarrow> int) \<Rightarrow> (brief \<Rightarrow> 'k::linorder option) \<Rightarrow> bool \<Rightarrow> brief \<Rightarrow> brief \<Rightarrow> int" where
  "value_cmp lc f desc a b =
     (let dir = (if desc then -1 else 1); ids = lc (b_deviceId (fst a)) (b_deviceId (fst b)) in
      case (f a, f b) of
        (None, None) \<Rightarrow> ids | (None, Some _) \<Rightarrow> 1 | (Some _, None) \<Rightarrow> -1
      | (Some x, Some y) \<Rightarrow> if x < y then -1 * dir else if y < x then 1 * dir else ids)"

lemma value_cmp_comparator:
  assumes "comparator lc"
  shows "comparator (value_cmp lc f desc)"
proof
  fix x y z :: brief
  note lc = comparator.cmp_sgn[OF assms] comparator.cmp_trans[OF assms]
  show "sgn (value_cmp lc f desc x y) = - sgn (value_cmp lc f desc y x)"
    using lc(1)[of "b_deviceId (fst x)" "b_deviceId (fst y)"]
    by (cases "f x"; cases "f y") (auto simp: value_cmp_def Let_def)
  show "value_cmp lc f desc x y \<le> 0 \<Longrightarrow> value_cmp lc f desc y z \<le> 0 \<Longrightarrow> value_cmp lc f desc x z \<le> 0"
    using lc(2)[of "b_deviceId (fst x)" "b_deviceId (fst y)" "b_deviceId (fst z)"]
    by (cases "f x"; cases "f y"; cases "f z") (auto simp: value_cmp_def Let_def split: if_splits)
qed

text \<open>A column holds numbers only or strings only.\<close>

lemma column_kind:
  "(\<exists>f. \<forall>b. sort_value c b = map_option SNum (f b)) \<or> (\<exists>f. \<forall>b. sort_value c b = map_option SStr (f b))"
proof -
  have n: "(\<exists>f. \<forall>b. F b = map_option SNum (f b))" if "\<And>b. F b = map_option SNum (G b)" for F and G :: "brief \<Rightarrow> rat option"
    using that by blast
  have s: "(\<exists>f. \<forall>b. F b = map_option SStr (f b))" if "\<And>b. F b = map_option SStr (G b)" for F and G :: "brief \<Rightarrow> string option"
    using that by blast
  show ?thesis
  proof (cases c)
    case None
    have "sort_value c b = map_option SStr (Some (case b_label (fst b) of Some l \<Rightarrow> if l \<noteq> [] then l else b_deviceId (fst b) | None \<Rightarrow> b_deviceId (fst b)))" for b
      by (simp add: sort_value_def None)
    then show ?thesis by (rule disjI2[OF s])
  next
    case (Some k)
    show ?thesis
    proof (cases k)
      case CStatus
      have "sort_value c b = map_option SStr (Some (tier_string (b_tier (fst b))))" for b by (simp add: sort_value_def Some CStatus)
      then show ?thesis by (rule disjI2[OF s])
    next
      case CLastSeen
      have "sort_value c b = map_option SNum (map_option of_int (b_lastSeenMs (fst b)))" for b
        by (simp add: sort_value_def Some CLastSeen option.map_comp o_def)
      then show ?thesis by (rule disjI1[OF n])
    next
      case CMissing
      have "sort_value c b = map_option SNum (map_option (\<lambda>ms. of_nat (length ms)) (b_missing (fst b)))" for b
        by (simp add: sort_value_def Some CMissing option.map_comp o_def)
      then show ?thesis by (rule disjI1[OF n])
    next
      case CLastSession
      have "sort_value c b = map_option SNum (map_option of_int (b_lastSessionMs (fst b)))" for b
        by (simp add: sort_value_def Some CLastSession option.map_comp o_def)
      then show ?thesis by (rule disjI1[OF n])
    next
      case CDrops
      have "sort_value c b = map_option SNum (Some (of_nat (b_drops24h (fst b))))" for b by (simp add: sort_value_def Some CDrops)
      then show ?thesis by (rule disjI1[OF n])
    next
      case CEvents
      have "sort_value c b = map_option SNum (Some (of_nat (length (b_hwEvents24h (fst b)))))" for b by (simp add: sort_value_def Some CEvents)
      then show ?thesis by (rule disjI1[OF n])
    next
      case CReasons
      have "sort_value c b = map_option SNum (Some (of_nat (length (snd b))))" for b by (simp add: sort_value_def Some CReasons)
      then show ?thesis by (rule disjI1[OF n])
    next
      case CGroup
      have "sort_value c b = map_option SStr (b_group (fst b))" for b by (simp add: sort_value_def Some CGroup)
      then show ?thesis by (rule disjI2[OF s])
    next
      case CAgent
      have "sort_value c b = map_option SStr (b_agentVer (fst b))" for b by (simp add: sort_value_def Some CAgent)
      then show ?thesis by (rule disjI2[OF s])
    next
      case CLag
      have "sort_value c b = map_option SNum (hw_of b ''mainLagMs'')" for b by (simp add: sort_value_def Some CLag)
      then show ?thesis by (rule disjI1[OF n])
    next
      case CRam
      have "sort_value c b = map_option SNum (hw_of b ''memAvailMb'')" for b by (simp add: sort_value_def Some CRam)
      then show ?thesis by (rule disjI1[OF n])
    next
      case CDisk
      have "sort_value c b = map_option SNum (hw_of b ''diskFreeMb'')" for b by (simp add: sort_value_def Some CDisk)
      then show ?thesis by (rule disjI1[OF n])
    next
      case CTemp
      have "sort_value c b = map_option SNum (hw_of b ''battTempC'')" for b by (simp add: sort_value_def Some CTemp)
      then show ?thesis by (rule disjI1[OF n])
    next
      case CPanel
      have "sort_value c b = map_option SNum (hw_of b ''display'')" for b by (simp add: sort_value_def Some CPanel)
      then show ?thesis by (rule disjI1[OF n])
    next
      case CTouch
      have "sort_value c b = map_option SNum (hw_of b ''touchDevs'')" for b by (simp add: sort_value_def Some CTouch)
      then show ?thesis by (rule disjI1[OF n])
    next
      case CUiIdle
      have "sort_value c b = map_option SNum (hw_of b ''uiIdleMs'')" for b by (simp add: sort_value_def Some CUiIdle)
      then show ?thesis by (rule disjI1[OF n])
    next
      case CBattery
      have "sort_value c b = map_option SNum (sent_num (b_batteryPct (fst b)))" for b by (simp add: sort_value_def Some CBattery)
      then show ?thesis by (rule disjI1[OF n])
    next
      case CNet
      have "sort_value c b = map_option SNum (sent_num (b_rssi (fst b)))" for b by (simp add: sort_value_def Some CNet)
      then show ?thesis by (rule disjI1[OF n])
    qed
  qed
qed

lemma row_cmp_value:
  obtains (num) f where "\<And>b. sort_value c b = map_option SNum (f b)" "row_cmp lc c desc = value_cmp lc f desc"
    | (str) g where "\<And>b. sort_value c b = map_option SStr (g b)" "row_cmp lc c desc = value_cmp lc g desc"
proof -
  consider f where "\<forall>b. sort_value c b = map_option SNum (f b)" | g where "\<forall>b. sort_value c b = map_option SStr (g b)"
    using column_kind[of c] by blast
  then show thesis
  proof cases
    case 1
    then have v: "sort_value c b = map_option SNum (f b)" for b by blast
    have "row_cmp lc c desc a b = value_cmp lc f desc a b" for a b
      by (cases "f a"; cases "f b") (simp_all add: row_cmp_def value_cmp_def Let_def v)
    then have "row_cmp lc c desc = value_cmp lc f desc" by blast
    then show thesis using 1 num by blast
  next
    case 2
    then have v: "sort_value c b = map_option SStr (g b)" for b by blast
    have "row_cmp lc c desc a b = value_cmp lc g desc a b" for a b
      by (cases "g a"; cases "g b") (simp_all add: row_cmp_def value_cmp_def Let_def v)
    then have "row_cmp lc c desc = value_cmp lc g desc" by blast
    then show thesis using 2 str by blast
  qed
qed

lemma row_cmp_comparator: "comparator lc \<Longrightarrow> comparator (row_cmp lc c desc)"
  by (cases rule: row_cmp_value[of c lc desc]) (simp_all add: value_cmp_comparator)

section \<open>The file reads back\<close>

text \<open>A reader of quoted fields (RFC 4180): the text after an opening quote, and the rows.\<close>

fun read_field :: "string \<Rightarrow> (string \<times> string) option" where
  "read_field [] = None"
| "read_field (c # s) = (if c \<noteq> CHR 0x22 then map_option (\<lambda>(x, t). (c # x, t)) (read_field s)
     else case s of
         d # t \<Rightarrow> if d = CHR 0x22 then map_option (\<lambda>(x, u). (d # x, u)) (read_field t) else Some ([], s)
       | [] \<Rightarrow> Some ([], []))"

lemma read_field_shorter: "read_field s = Some (x, t) \<Longrightarrow> length t < length s"
  by (induction s arbitrary: x t rule: read_field.induct) (fastforce split: if_splits list.splits)+

function read_rows :: "string \<Rightarrow> string list list option" where
  "read_rows s = (case s of
      [] \<Rightarrow> None
    | q # t \<Rightarrow> if q \<noteq> CHR 0x22 then None else
        (case read_field t of
           None \<Rightarrow> None
         | Some (x, u) \<Rightarrow> (case u of
              [] \<Rightarrow> Some [[x]]
            | d # v \<Rightarrow>
                if d = CHR '','' then (case read_rows v of Some (r # rs) \<Rightarrow> Some ((x # r) # rs) | _ \<Rightarrow> None)
                else if d = CHR 0x0A then map_option (\<lambda>rs. [x] # rs) (read_rows v)
                else None)))"
  by auto
termination
  by (relation "measure length") (auto dest: read_field_shorter)

declare read_rows.simps [simp del]

definition doubled :: "string \<Rightarrow> string" where
  "doubled s = concat (map (\<lambda>c. if c = CHR 0x22 then [c, c] else [c]) s)"

lemma read_doubled: "t = [] \<or> hd t \<noteq> CHR 0x22 \<Longrightarrow> read_field (doubled s @ CHR 0x22 # t) = Some (s, t)"
proof (induction s)
  case Nil
  then show ?case by (cases t) (simp_all add: doubled_def)
qed (simp_all add: doubled_def)

lemma esc_doubled: "esc s = CHR 0x22 # doubled (plain_text s) @ [CHR 0x22]"
  by (simp add: esc_def doubled_def)

lemma join_Cons: "ss \<noteq> [] \<Longrightarrow> join sep (s # ss) = s @ sep @ join sep ss"
  by (cases ss) (simp_all add: join_def)

lemma join_single [simp]: "join sep [s] = s"
  by (simp add: join_def)

lemma read_row:
  assumes "cells \<noteq> []"
  shows "read_rows (join '','' (map esc cells)) = Some [map plain_text cells]"
    and "read_rows t = Some rs \<Longrightarrow> read_rows (join '','' (map esc cells) @ CHR 0x0A # t) = Some (map plain_text cells # rs)"
proof -
  show "read_rows (join '','' (map esc cells)) = Some [map plain_text cells]"
    using assms
  proof (induction cells)
    case (Cons c cs)
    show ?case
    proof (cases "cs = []")
      case True
      then show ?thesis using read_doubled[of "[]" "plain_text c"] by (subst read_rows.simps) (simp add: esc_doubled)
    next
      case False
      with Cons.IH show ?thesis using read_doubled[of "CHR '','' # join '','' (map esc cs)" "plain_text c"]
        by (subst read_rows.simps) (simp add: esc_doubled[of c] join_Cons)
    qed
  qed simp
  show "read_rows (join '','' (map esc cells) @ CHR 0x0A # t) = Some (map plain_text cells # rs)" if "read_rows t = Some rs"
    using assms
  proof (induction cells)
    case (Cons c cs)
    show ?case
    proof (cases "cs = []")
      case True
      then show ?thesis using read_doubled[of "CHR 0x0A # t" "plain_text c"] that by (subst read_rows.simps) (simp add: esc_doubled)
    next
      case False
      with Cons.IH show ?thesis using read_doubled[of "CHR '','' # join '','' (map esc cs) @ CHR 0x0A # t" "plain_text c"]
        by (subst read_rows.simps) (simp add: esc_doubled[of c] join_Cons)
    qed
  qed simp
qed

lemma read_table:
  assumes "rows \<noteq> []" "\<forall>r \<in> set rows. r \<noteq> []"
  shows "read_rows (join [CHR 0x0A] (map (\<lambda>r. join '','' (map esc r)) rows)) = Some (map (map plain_text) rows)"
  using assms
proof (induction rows)
  case (Cons r rs)
  show ?case
  proof (cases "rs = []")
    case True
    then show ?thesis using read_row(1)[of r] Cons.prems by simp
  next
    case False
    with Cons have "read_rows (join [CHR 0x0A] (map (\<lambda>r. join '','' (map esc r)) rs)) = Some (map (map plain_text) rs)" by simp
    from read_row(2)[OF _ this, of r] False Cons.prems show ?thesis by (simp add: join_Cons)
  qed
qed simp

lemma plain_text_safe: "plain_text s \<noteq> [] \<Longrightarrow> hd (plain_text s) \<notin> FORMULA"
  by (cases s) (auto simp: plain_text_def FORMULA_def split: if_splits)

section \<open>Links between the pages and the lists\<close>

text \<open>The keys the segments, versions and buckets of the console link to.\<close>

definition TIER_LINKS :: "string list" where
  "TIER_LINKS = map (\<lambda>t. ''tier:'' @ tier_string t) [READY, DEGRADED, NOT_READY, OFFLINE]"

definition version_link :: "string \<Rightarrow> string" where
  "version_link v = ''ver:'' @ v"

definition rollout_link :: "rollout_bucket \<Rightarrow> string \<Rightarrow> string" where
  "rollout_link b target = ''rollout:'' @ bucket_string b @ '':'' @ target"

lemma bucket_letters: "list_all is_letter (bucket_string b)" "bucket_string b \<noteq> []"
  by (cases b; simp add: is_letter_def)+

lemma rollout_link_parts:
  "drop 8 (rollout_link b v) = bucket_string b @ CHR '':'' # v" "prefix ''rollout:'' (rollout_link b v)"
  "takeWhile is_letter (bucket_string b @ CHR '':'' # v) = bucket_string b"
  "dropWhile is_letter (bucket_string b @ CHR '':'' # v) = CHR '':'' # v"
proof -
  have l: "\<forall>c \<in> set (bucket_string b). is_letter c" "\<not> is_letter CHR '':''"
    using bucket_letters[of b] by (simp_all add: list_all_iff is_letter_def)
  show "drop 8 (rollout_link b v) = bucket_string b @ CHR '':'' # v" "prefix ''rollout:'' (rollout_link b v)"
    by (simp_all add: rollout_link_def)
  show "takeWhile is_letter (bucket_string b @ CHR '':'' # v) = bucket_string b"
    "dropWhile is_letter (bucket_string b @ CHR '':'' # v) = CHR '':'' # v"
    using l by (simp_all add: takeWhile_append dropWhile_append takeWhile_eq_all_conv[THEN iffD2] dropWhile_eq_Nil_conv[THEN iffD2])
qed

lemma find_bucket: "find (\<lambda>x. bucket_string x = bucket_string b) ROLLOUT_BUCKETS = Some b"
  by (cases b) (simp_all add: ROLLOUT_BUCKETS_def)

lemma valid_three: "isValidVersion v \<Longrightarrow> three_numbers v"
  by (auto simp: isValidVersion_def three_numbers_def Let_def short_digits_def list_all_iff)

text \<open>A list key has an entry of its own: the one whose title is shown.\<close>

lemma metaFor_rollout:
  assumes "isValidVersion v"
  shows "\<exists>t. map_of ROLLOUT_TEXT (bucket_string b) = Some t \<and>
    metaFor (rollout_link b v) = meta (mt_title t @ '' (target '' @ v @ '')'') (mt_note t) (mt_cols t)
      (if suffix ''Offline'' (bucket_string b) then Some CLastSeen else None) False"
proof -
  obtain t where t: "map_of ROLLOUT_TEXT (bucket_string b) = Some t" by (cases b) (simp_all add: ROLLOUT_TEXT_def)
  have "match_rollout (rollout_link b v) = Some (bucket_string b, v)"
    using valid_three[OF assms] bucket_letters[of b] by (simp add: match_rollout_def Let_def rollout_link_parts)
  then show ?thesis using t by (simp add: metaFor_def)
qed

section \<open>Properties\<close>

definition string_order :: "string \<Rightarrow> string \<Rightarrow> int" where
  "string_order s t = (if s < t then -1 else if t < s then 1 else 0)"

lemma string_order_comparator: "comparator string_order"
  by unfold_locales (auto simp: string_order_def split: if_splits)

interpretation list_order: comparator "row_cmp string_order c desc" for c desc
  by (rule row_cmp_comparator[OF string_order_comparator])

text \<open>
  What a list shows: the rows the filter keeps, each once, in the order of the chosen column, in
  either direction, equal values by device id; rows without a value come last in both directions.
\<close>

theorem list_page_order:
  fixes lc lowercase q c desc rows
  assumes "comparator lc"
  defines "shown \<equiv> list_rows lc lowercase q c desc rows"
  shows "mset shown = filter_mset (matches lowercase q) (mset rows) \<and>
    sorted_wrt (\<lambda>a b. row_cmp lc c desc a b \<le> 0) shown \<and>
    sorted_wrt (\<lambda>a b. (sort_value c a = None \<longrightarrow> sort_value c b = None) \<and>
      (\<forall>x y. sort_value c a = Some x \<longrightarrow> sort_value c b = Some y \<longrightarrow> \<not> (if desc then val_lt x y else val_lt y x))) shown"
proof -
  have s: "sorted_wrt (\<lambda>a b. row_cmp lc c desc a b \<le> 0) shown"
    unfolding shown_def list_rows_def
    by (rule total_cmp.sorted_sort_by[OF comparator_total_cmp[OF row_cmp_comparator[OF assms(1)]]])
  have "(sort_value c a = None \<longrightarrow> sort_value c b = None) \<and>
      (\<forall>x y. sort_value c a = Some x \<longrightarrow> sort_value c b = Some y \<longrightarrow> \<not> (if desc then val_lt x y else val_lt y x))"
    if le: "row_cmp lc c desc a b \<le> 0" for a b
  proof (cases rule: row_cmp_value[of c lc desc])
    case (num f)
    then show ?thesis using le by (auto simp: num value_cmp_def Let_def split: option.splits if_splits)
  next
    case (str f)
    then show ?thesis using le by (auto simp: str value_cmp_def Let_def split: option.splits if_splits)
  qed
  from sorted_wrt_mono_rel[OF _ s, OF this] s show ?thesis by (simp add: shown_def list_rows_def)
qed

definition demo_brief :: "string \<Rightarrow> int option \<Rightarrow> brief" where
  "demo_brief dev seen = (\<lparr>b_deviceId = dev, b_label = Some ''=Till 1'', b_group = None, b_online = False, b_tier = OFFLINE,
     b_lastSeenMs = seen, b_agentVer = None, b_missing = None, b_drops24h = 0, b_lastSessionMs = None, b_batteryPct = None,
     b_charging = None, b_net = None, b_rssi = None, b_hw = None, b_hwEvents24h = []\<rparr>, [])"

definition demo_briefs :: "brief list" where
  "demo_briefs = [demo_brief ''d3'' None, demo_brief ''d1'' (Some 9), demo_brief ''d2'' (Some 5)]"

theorem list_page_order_witness:
  "map (\<lambda>b. b_deviceId (fst b)) (list_rows string_order (\<lambda>s. s) [] (Some CLastSeen) True demo_briefs) = [''d1'', ''d2'', ''d3''] \<and>
   sorted_wrt (\<lambda>a b. row_cmp string_order (Some CLastSeen) True a b \<le> 0)
     (list_rows string_order (\<lambda>s. s) [] (Some CLastSeen) True demo_briefs)"
proof -
  have "map (\<lambda>b. b_deviceId (fst b)) (list_rows string_order (\<lambda>s. s) [] (Some CLastSeen) True demo_briefs) = [''d1'', ''d2'', ''d3'']"
    by code_simp
  with list_page_order[OF string_order_comparator, of "\<lambda>s. s" "[]" "Some CLastSeen" True demo_briefs] show ?thesis by blast
qed

text \<open>
  C37 The exported file reads back: a reader of quoted fields finds the heading and one line per row, with
  every cell as it was, whatever quotes, commas and line breaks it holds, but for the apostrophe before a
  cell a spreadsheet would run; and no cell starts with one of the characters that start a formula.
\<close>

theorem csv_reads_back:
  "read_rows (csv rows cols now) = Some (map (map plain_text) (csv_head cols # map (csv_row cols now) rows)) \<and>
   (\<forall>r \<in> set (map (map plain_text) (csv_head cols # map (csv_row cols now) rows)). \<forall>x \<in> set r. \<forall>c t. x = c # t \<longrightarrow> c \<notin> FORMULA) \<and>
   (\<forall>x. plain_text x = x \<or> plain_text x = CHR 0x27 # x)"
proof -
  have "read_rows (csv rows cols now) = Some (map (map plain_text) (csv_head cols # map (csv_row cols now) rows))"
    unfolding csv_def by (rule read_table) (auto simp: csv_head_def csv_row_def)
  moreover have "c \<notin> FORMULA" if "plain_text y = c # t" for y c t using plain_text_safe[of y] that by simp
  moreover have "plain_text x = x \<or> plain_text x = CHR 0x27 # x" for x by (cases x) (simp_all add: plain_text_def)
  ultimately show ?thesis by auto
qed

theorem csv_reads_back_witness:
  "read_rows (csv [demo_brief ''d1'' None] [CGroup] 0) = Some [[''device'', ''label'', ''Group''], [''d1'', CHR 0x27 # ''=Till 1'', []]]"
proof -
  have "map (map plain_text) (csv_head [CGroup] # map (csv_row [CGroup] 0) [demo_brief ''d1'' None]) =
      [[''device'', ''label'', ''Group''], [''d1'', CHR 0x27 # ''=Till 1'', []]]"
    by code_simp
  with csv_reads_back[of "[demo_brief ''d1'' None]" "[CGroup]" 0] show ?thesis by simp
qed

text \<open>
  The links of the console lead to lists the API serves and the list page names: every tier
  is a key the API knows, the keys it knows are exactly those with an entry in the page's table, a version
  it accepts has its own title, and the link of a rollout bucket is read back as that bucket and target.
\<close>

theorem list_links_agree:
  "set TIER_LINKS \<subseteq> set KNOWN_LIST_KEYS \<and> set KNOWN_LIST_KEYS = fst ` set METRICS \<and>
   (version_key k \<longrightarrow> metaFor k = meta (''Agent version '' @ drop 4 k) None [CStatus, CLastSeen, CGroup] None False) \<and>
   (isValidVersion v \<longrightarrow> parse_rollout_key (rollout_link b v) = Some (b, v) \<and>
      (\<exists>t. map_of ROLLOUT_TEXT (bucket_string b) = Some t \<and> mt_title (metaFor (rollout_link b v)) = mt_title t @ '' (target '' @ v @ '')'' \<and>
         mt_cols (metaFor (rollout_link b v)) = mt_cols t))"
proof (intro conjI impI)
  show "set TIER_LINKS \<subseteq> set KNOWN_LIST_KEYS"
    by (simp add: TIER_LINKS_def KNOWN_LIST_KEYS_def)
  show "set KNOWN_LIST_KEYS = fst ` set METRICS"
  proof
    show "set KNOWN_LIST_KEYS \<subseteq> fst ` set METRICS" by (simp add: KNOWN_LIST_KEYS_def METRICS_def)
    show "fst ` set METRICS \<subseteq> set KNOWN_LIST_KEYS" by (simp add: KNOWN_LIST_KEYS_def METRICS_def)
  qed
  show "metaFor k = meta (''Agent version '' @ drop 4 k) None [CStatus, CLastSeen, CGroup] None False" if vk: "version_key k"
  proof -
    obtain t where k: "k = ''ver:'' @ t" using vk unfolding version_key_def prefix_def by blast
    then have "map_of METRICS k = None" "match_rollout k = None" by (simp_all add: METRICS_def match_rollout_def)
    then show ?thesis by (simp add: metaFor_def k)
  qed
  assume v: "isValidVersion v"
  show "parse_rollout_key (rollout_link b v) = Some (b, v)"
    using v by (simp add: parse_rollout_key_def Let_def rollout_link_parts find_bucket)
  show "\<exists>t. map_of ROLLOUT_TEXT (bucket_string b) = Some t \<and> mt_title (metaFor (rollout_link b v)) = mt_title t @ '' (target '' @ v @ '')'' \<and>
      mt_cols (metaFor (rollout_link b v)) = mt_cols t"
    using metaFor_rollout[OF v, of b] by (auto simp: meta_def)
qed

theorem list_links_agree_witness:
  "version_key (version_link ''1.4.8'') \<and> mt_title (metaFor (version_link ''1.4.8'')) = ''Agent version 1.4.8'' \<and>
   isValidVersion ''1.4.8'' \<and> parse_rollout_key (rollout_link UpdatedOffline ''1.4.8'') = Some (UpdatedOffline, ''1.4.8'')"
proof -
  have "version_key (version_link ''1.4.8'')" "isValidVersion ''1.4.8''" by code_simp+
  with list_links_agree[of "version_link ''1.4.8''" "''1.4.8''" UpdatedOffline] show ?thesis
    by (simp add: meta_def version_link_def)
qed

text \<open>A version with another character has a link the API answers with 404.\<close>

lemma odd_version_link: "\<not> valid_list_key (version_link ''1.4.8+7'')"
  by code_simp

end
