(* ===== verification/Tiles.thy ===== *)
theory Tiles
  imports ListPage Uri
begin

text \<open>
  The figures of the console: \<open>apps/rc-web/src/pages/Dashboard.tsx\<close>, \<open>Rollout.tsx\<close> and \<open>Tile.tsx\<close>, as
  functions of the API's answers. A tile shows a figure and, when it is not zero, links to the list of the
  devices behind it.
\<close>

section \<open>Tiles\<close>

datatype tone = Good | Warn | Bad | Neutral

record tile_props =
  tl_title :: string
  tl_value :: nat
  tl_listKey :: string
  tl_tone :: tone
  tl_hint :: "string option"

definition tile :: "string \<Rightarrow> nat \<Rightarrow> string \<Rightarrow> tone \<Rightarrow> string option \<Rightarrow> tile_props" where
  "tile title n key tone hint = \<lparr>tl_title = title, tl_value = n, tl_listKey = key, tl_tone = tone, tl_hint = hint\<rparr>"

text \<open>The share below the figure, and the link; a fleet of none has no share.\<close>

definition tile_share :: "nat \<Rightarrow> tile_props \<Rightarrow> int option" where
  "tile_share fleet t = (if 0 < fleet
     then Some (js_round (rnd (rnd (of_nat (tl_value t) / of_nat fleet) * 100))) else None)"

definition tile_link :: "tile_props \<Rightarrow> string option" where
  "tile_link t = (if tl_listKey t \<noteq> [] \<and> 0 < tl_value t
     then Some (''/dashboard/'' @ encodeURIComponent (tl_listKey t)) else None)"

section \<open>The dashboard\<close>

definition tone_of :: "nat \<Rightarrow> tone \<Rightarrow> tone" where
  "tone_of n bad = (if 0 < n then bad else Good)"

definition perf :: "dashboard \<Rightarrow> string \<Rightarrow> nat" where
  "perf d k = (case map_of (d_performance d) k of None \<Rightarrow> 0 | Some n \<Rightarrow> n)"

definition dashboard_tiles :: "dashboard \<Rightarrow> tile_props list" where
  "dashboard_tiles d = [
     tile ''Connected'' (d_online d) ''online'' Good None,
     tile ''Disconnected'' (d_offline d) ''offline'' (tone_of (d_offline d) Warn) None,
     tile ''Offline > 24 h'' (d_offlineOver24h d) ''offlineOver24h'' (tone_of (d_offlineOver24h d) Bad) None,
     tile ''Never seen'' (d_neverSeen d) ''neverSeen'' Neutral (Some ''Devices known to the MDM that never reported''),
     tile ''Dropping connection'' (d_flapping d) ''flapping'' (tone_of (d_flapping d) Bad) (Some ''5 or more drops in 24 h''),
     tile ''All permissions'' (d_permComplete d) ''permissionsComplete'' Good None,
     tile ''Missing permissions'' (d_permIncomplete d) ''permissionsIncomplete'' (tone_of (d_permIncomplete d) Warn) None,
     tile ''No WRITE_SECURE_SETTINGS'' (d_missingSecureSettings d) ''missingSecureSettings'' (tone_of (d_missingSecureSettings d) Warn) None,
     tile ''No accessibility'' (d_missingA11y d) ''missingA11y'' (tone_of (d_missingA11y d) Bad) None,
     tile ''No overlay'' (d_missingOverlay d) ''missingOverlay'' (tone_of (d_missingOverlay d) Warn) None,
     tile ''Not reported yet'' (d_permUnknown d) ''permissionsUnknown'' Neutral None,
     tile ''Lagging'' (perf d ''lagging'') ''lagging'' (tone_of (perf d ''lagging'') Bad) (Some ''Main thread lag of 1.5 s or more''),
     tile ''Panel off while on'' (perf d ''panelOff'') ''panelOff'' (tone_of (perf d ''panelOff'') Bad) None,
     tile ''Touch lost'' (perf d ''touchGone'') ''touchGone'' (tone_of (perf d ''touchGone'') Bad) None,
     tile ''Hot'' (perf d ''hot'') ''hot'' (tone_of (perf d ''hot'') Bad) (Some (''Battery 47 '' @ [CHR 0xC2, CHR 0xB0] @ ''C or more, or thermal status 3+'')),
     tile ''Low RAM'' (perf d ''lowMem'') ''lowMem'' (tone_of (perf d ''lowMem'') Warn) (Some ''Under 250 MB free''),
     tile ''Low disk'' (perf d ''lowDisk'') ''lowDisk'' (tone_of (perf d ''lowDisk'') Warn) (Some ''Under 300 MB free''),
     tile ''No hardware data'' (perf d ''noHwData'') ''noHwData'' Neutral (Some ''Agent older than 1.4.7''),
     tile (''UI static '' @ [CHR 0xE2, CHR 0x89, CHR 0xA5] @ '' 6 h (incl. 24 h+)'') (d_uiIdle6h d) ''uiIdle6h'' Neutral None,
     tile (''UI static '' @ [CHR 0xE2, CHR 0x89, CHR 0xA5] @ '' 24 h'') (d_uiIdle24h d) ''uiIdle24h'' (tone_of (d_uiIdle24h d) Warn) None,
     tile ''No remote session in 7 d'' (d_noSession7d d) ''noSession7d'' Neutral None,
     tile ''Low battery (unplugged)'' (d_batteryLow d) ''lowBattery'' (tone_of (d_batteryLow d) Bad) None,
     tile ''Not charging'' (d_notCharging d) ''notCharging'' (tone_of (d_notCharging d) Warn) None,
     tile ''Wi-Fi'' (n_wifi (d_network d)) ''wifi'' Neutral None,
     tile ''Cellular'' (n_cellular (d_network d)) ''cellular'' Neutral None,
     tile ''Ethernet'' (n_ethernet (d_network d)) ''ethernet'' Neutral None,
     tile ''Weak cellular signal'' (n_weakSignal (d_network d)) ''weakSignal'' (tone_of (n_weakSignal (d_network d)) Warn) None]"

definition version_links :: "dashboard \<Rightarrow> (string \<times> nat) list" where
  "version_links d = map (\<lambda>(v, n). (version_link v, n)) (d_versions d)"

definition tier_segments :: "dashboard \<Rightarrow> (tier \<times> nat \<times> string) list" where
  "tier_segments d = map (\<lambda>t. (t, d_tiers d t, ''tier:'' @ tier_string t))
     (filter (\<lambda>t. d_tiers d t \<noteq> 0) [READY, DEGRADED, NOT_READY, OFFLINE])"

definition outdated_link :: "dashboard \<Rightarrow> (nat \<times> string) option" where
  "outdated_link d = (if 0 < d_outdated d then Some (d_outdated d, ''outdated'') else None)"

definition pct :: "dashboard \<Rightarrow> nat \<Rightarrow> int" where
  "pct d n = (if d_total d \<noteq> 0 then js_round (rnd (rnd (of_nat n / of_nat (d_total d)) * 100)) else 0)"

section \<open>The rollout\<close>

definition bucket_tone :: "rollout_bucket \<Rightarrow> nat \<Rightarrow> tone" where
  "bucket_tone b n = (case b of
      Done \<Rightarrow> Good | UpdatedUnhealthy \<Rightarrow> tone_of n Bad | UpdatedOffline \<Rightarrow> tone_of n Bad
    | PendingOnline \<Rightarrow> tone_of n Warn | PendingOffline \<Rightarrow> tone_of n Warn | Unknown \<Rightarrow> Neutral)"

definition ORDER :: "rollout_bucket list" where
  "ORDER = [Done, UpdatedUnhealthy, UpdatedOffline, PendingOnline, PendingOffline, Unknown]"

definition rollout_text :: "rollout_bucket \<Rightarrow> list_meta" where
  "rollout_text b = the (map_of ROLLOUT_TEXT (bucket_string b))"

definition rollout_tiles :: "rollout_summary \<Rightarrow> tile_props list" where
  "rollout_tiles d = map (\<lambda>b. tile (mt_title (rollout_text b)) (rs_counts d b) (rollout_link b (rs_target d))
     (bucket_tone b (rs_counts d b)) (mt_note (rollout_text b))) ORDER"

definition rollout_bad :: "rollout_summary \<Rightarrow> nat" where
  "rollout_bad d = rs_counts d UpdatedUnhealthy + rs_counts d UpdatedOffline"

definition rollout_waiting :: "rollout_summary \<Rightarrow> nat" where
  "rollout_waiting d = rs_counts d PendingOnline + rs_counts d PendingOffline + rs_counts d Unknown"

definition show_count :: "nat \<Rightarrow> string" where
  "show_count n = show_int (int n)"

definition banner :: "rollout_summary \<Rightarrow> string" where
  "banner d =
     (if rs_complete d then ''Rollout complete: all '' @ show_count (rs_total d) @ '' devices are on '' @ rs_target d @
        '' or newer, online and healthy.''
      else if rs_total d = 0 then ''No devices visible to this account.''
      else show_num (rs_percentDone d) @ ''% done ('' @ show_count (rs_counts d Done) @ '' of '' @ show_count (rs_total d) @ ''). '' @
        (if rollout_bad d \<noteq> 0 then show_count (rollout_bad d) @ '' updated but needs checking. '' else []) @
        (if rollout_waiting d \<noteq> 0 then show_count (rollout_waiting d) @ '' not updated yet.'' else []))"

text \<open>The segments of the progress bar: how many devices each stands for.\<close>

definition rollout_segments :: "rollout_summary \<Rightarrow> (tone \<times> nat) list" where
  "rollout_segments d = filter (\<lambda>(t, n). 0 < n) [(Good, rs_counts d Done), (Bad, rollout_bad d), (Warn, rollout_waiting d)]"

text \<open>
  The form: the target is asked for when it is a version. \<open>setInput(cur => cur || r.target)\<close> fills an empty
  field with the answer's target; the button offers the newest version in the fleet.
\<close>

definition rollout_query :: "string \<Rightarrow> string" where
  "rollout_query urlTarget = ''/fleet/rollout'' @ (if urlTarget \<noteq> [] then ''?target='' @ encodeURIComponent urlTarget else [])"

definition apply_target :: "string \<Rightarrow> string option" where
  "apply_target input = (if isValidVersion input then Some input else None)"

definition fill_input :: "string \<Rightarrow> rollout_summary \<Rightarrow> string" where
  "fill_input cur r = (if cur \<noteq> [] then cur else rs_target r)"

definition suggestion :: "rollout_summary \<Rightarrow> string option" where
  "suggestion d = (case rs_suggestedTarget d of
      Some v \<Rightarrow> if v \<noteq> [] \<and> v \<noteq> rs_target d then Some v else None | None \<Rightarrow> None)"

section \<open>Figures and lists\<close>

text \<open>The figures of the summary, by the lists they count.\<close>

lemma figure_lists:
  fixes lc rows now n
  defines "d \<equiv> summarizeFleet lc rows now n"
  shows "d_online d = length (list_at (d_lists d) ''online'')" "d_offline d = length (list_at (d_lists d) ''offline'')"
    "d_offlineOver24h d = length (list_at (d_lists d) ''offlineOver24h'')"
    "d_neverSeen d = length (list_at (d_lists d) ''neverSeen'')"
    "d_flapping d = length (list_at (d_lists d) ''flapping'')"
    "d_permComplete d = length (list_at (d_lists d) ''permissionsComplete'')"
    "d_permIncomplete d = length (list_at (d_lists d) ''permissionsIncomplete'')"
    "d_permUnknown d = length (list_at (d_lists d) ''permissionsUnknown'')"
    "d_missingSecureSettings d = length (list_at (d_lists d) ''missingSecureSettings'')"
    "d_missingA11y d = length (list_at (d_lists d) ''missingA11y'')"
    "d_missingOverlay d = length (list_at (d_lists d) ''missingOverlay'')"
    "k \<in> {''lagging'', ''hot'', ''lowMem'', ''lowDisk'', ''panelOff'', ''touchGone'', ''noHwData''} \<Longrightarrow>
      perf d k = length (list_at (d_lists d) k)"
    "d_uiIdle6h d = length (list_at (d_lists d) ''uiIdle6h'')" "d_uiIdle24h d = length (list_at (d_lists d) ''uiIdle24h'')"
    "d_noSession7d d = length (list_at (d_lists d) ''noSession7d'')"
    "d_batteryLow d = length (list_at (d_lists d) ''lowBattery'')" "d_notCharging d = length (list_at (d_lists d) ''notCharging'')"
    "n_wifi (d_network d) = length (list_at (d_lists d) ''wifi'')"
    "n_cellular (d_network d) = length (list_at (d_lists d) ''cellular'')"
    "n_ethernet (d_network d) = length (list_at (d_lists d) ''ethernet'')"
    "n_weakSignal (d_network d) = length (list_at (d_lists d) ''weakSignal'')"
    "d_outdated d = length (list_at (d_lists d) ''outdated'')"
proof -
  have key: "length (list_at (fleet_lists now rows) k) = length (filter P rows)" if "(k, P) \<in> set (key_table now)" for k P
    by (rule count_of_key[OF that])
  have none: "length rows - length (filter (\<lambda>r. dr_caps r \<noteq> None) rows) = length (filter (\<lambda>r. dr_caps r = None) rows)"
    using sum_length_filter_compl[of "\<lambda>r. dr_caps r = None" rows] by simp
  show "d_neverSeen d = length (list_at (d_lists d) ''neverSeen'')" "d_permUnknown d = length (list_at (d_lists d) ''permissionsUnknown'')"
    using key[of "''neverSeen''" "\<lambda>r. \<not> dr_online r \<and> dr_lastSeenMs r = None"] key[of "''permissionsUnknown''" "\<lambda>r. dr_caps r = None"] none
    by (simp_all add: d_def summarizeFleet_def Let_def never_seen_fold key_table_def)
  show "n_wifi (d_network d) = length (list_at (d_lists d) ''wifi'')" "n_cellular (d_network d) = length (list_at (d_lists d) ''cellular'')"
    "n_ethernet (d_network d) = length (list_at (d_lists d) ''ethernet'')" "n_weakSignal (d_network d) = length (list_at (d_lists d) ''weakSignal'')"
    using key[of "''wifi''" "\<lambda>r. dr_online r \<and> row_net r = ''wifi''"] key[of "''cellular''" "\<lambda>r. dr_online r \<and> row_net r = ''cellular''"]
      key[of "''ethernet''" "\<lambda>r. dr_online r \<and> row_net r = ''ethernet''"] key[of "''weakSignal''" "\<lambda>r. dr_online r \<and> weak_signal r"]
    by (simp_all add: d_def summarizeFleet_def Let_def count_net_fields net_zero_def key_table_def)
  show "k \<in> {''lagging'', ''hot'', ''lowMem'', ''lowDisk'', ''panelOff'', ''touchGone'', ''noHwData''} \<Longrightarrow>
      perf d k = length (list_at (d_lists d) k)"
    by (auto simp: perf_def d_def summarizeFleet_def Let_def)
qed (simp_all add: d_def summarizeFleet_def Let_def)

lemma tile_fields [simp]:
  "tl_value (tile t n k c h) = n" "tl_listKey (tile t n k c h) = k" "tl_tone (tile t n k c h) = c"
  by (simp_all add: tile_def)

lemma link_key: "tile_link t = Some l \<Longrightarrow> decodeURIComponent (drop 11 l) = Some (tl_listKey t)"
  by (auto simp: tile_link_def decode_encode split: if_splits)

section \<open>Properties\<close>

text \<open>
  C36 The number on a tile is the number of devices behind it: on the dashboard the API computes, every tile
  shows the length of the list its link leads to, which is one the API serves; the link, decoded, is that
  list's key; and the same holds for the segments of the readiness bar.
\<close>

theorem tiles_match_lists:
  fixes lc rows now n
  defines "d \<equiv> summarizeFleet lc rows now n"
  shows "(\<forall>t \<in> set (dashboard_tiles d). tl_value t = length (list_at (d_lists d) (tl_listKey t)) \<and>
      tl_listKey t \<in> set KNOWN_LIST_KEYS \<and> (\<forall>l. tile_link t = Some l \<longrightarrow> decodeURIComponent (drop 11 l) = Some (tl_listKey t))) \<and>
    (\<forall>(t, m, k) \<in> set (tier_segments d). m = length (list_at (d_lists d) k) \<and> k \<in> set KNOWN_LIST_KEYS)"
proof -
  have perfs: "perf d k = length (list_at (d_lists d) k)"
    if "k \<in> {''lagging'', ''hot'', ''lowMem'', ''lowDisk'', ''panelOff'', ''touchGone'', ''noHwData''}" for k
    using figure_lists(12)[OF that, of lc rows now n] by (simp add: d_def)
  note f = figure_lists(1-11,13-22)[of lc rows now n, folded d_def]
  have "list_all (\<lambda>t. tl_value t = length (list_at (d_lists d) (tl_listKey t))) (dashboard_tiles d)"
    by (simp add: dashboard_tiles_def f perfs)
  moreover have "list_all (\<lambda>t. tl_listKey t \<in> set KNOWN_LIST_KEYS) (dashboard_tiles d)"
    by (simp add: dashboard_tiles_def KNOWN_LIST_KEYS_def)
  moreover have "d_tiers d t = length (list_at (d_lists d) (''tier:'' @ tier_string t))" for t
    using list_of_tier[of now rows t] by (simp add: d_def summarizeFleet_def Let_def tier_counts_eq)
  moreover have "''tier:'' @ tier_string t \<in> set KNOWN_LIST_KEYS" for t by (cases t) (simp_all add: KNOWN_LIST_KEYS_def)
  ultimately show ?thesis using link_key by (auto simp: list_all_iff tier_segments_def)
qed

theorem tiles_match_lists_witness:
  "map (\<lambda>t. (tl_value t, tile_link t)) (filter (\<lambda>t. tl_title t = ''Offline > 24 h'')
     (dashboard_tiles (summarizeFleet code_unit_order demo_rows 172800000 30))) = [(1, Some ''/dashboard/offlineOver24h'')]"
proof -
  let ?d = "summarizeFleet code_unit_order demo_rows 172800000 30"
  let ?t = "tile ''Offline > 24 h'' (d_offlineOver24h ?d) ''offlineOver24h'' (tone_of (d_offlineOver24h ?d) Bad) None"
  have l: "list_at (d_lists ?d) ''offlineOver24h'' = [''d2'']" by code_simp
  have f: "filter (\<lambda>t. tl_title t = ''Offline > 24 h'') (dashboard_tiles ?d) = [?t]"
    by (simp add: dashboard_tiles_def tile_def)
  have "?t \<in> set (filter (\<lambda>t. tl_title t = ''Offline > 24 h'') (dashboard_tiles ?d))"
    unfolding f by (rule list.set_intros)
  then have "?t \<in> set (dashboard_tiles ?d)" unfolding set_filter mem_Collect_eq by (rule conjunct1)
  then have "tl_value ?t = length (list_at (d_lists ?d) (tl_listKey ?t))"
    using tiles_match_lists[of code_unit_order demo_rows 172800000 30] by blast
  moreover have "tl_listKey ?t = ''offlineOver24h''" by (simp add: tile_def)
  ultimately have v: "tl_value ?t = 1" using l by simp
  moreover have "encodeURIComponent ''offlineOver24h'' = ''offlineOver24h''" by code_simp
  ultimately have "tile_link ?t = Some ''/dashboard/offlineOver24h''"
    using \<open>tl_listKey ?t = ''offlineOver24h''\<close> by (simp add: tile_link_def)
  with f v show ?thesis by simp
qed

end
