(* ===== verification/Verify.thy ===== *)
theory Verify
  imports Auth Tiles
begin

text \<open>
  \<open>scripts/verify-rollout.mjs\<close>: the command that decides whether a rollout is finished. It signs in, asks the
  API for the state of the rollout and for the devices that are not done, waits while it may, and answers with
  its exit code. The process is a program over what it talks to and what it has written; it ends with a code,
  \<open>2\<close> where the script calls \<open>die\<close> and \<open>1\<close> where an exception escapes.
\<close>

section \<open>The process and its surroundings\<close>

datatype 'a reply = NoConnection string | HttpError nat | BadBody | Body 'a

type_synonym details = "(rollout_bucket \<times> (device_brief \<times> string list) list) list"

text \<open>
  What the process uses: the clock, the pause of thirty seconds, the three requests, and two printers of the
  runtime, that of local time and that of \<open>JSON.stringify\<close> with an indentation.
\<close>

record 's backend =
  bk_clock :: "'s \<Rightarrow> int"
  bk_pause :: "'s \<Rightarrow> 's"
  bk_login :: "string \<Rightarrow> string \<Rightarrow> string \<Rightarrow> 's \<Rightarrow> string reply \<times> 's"
  bk_rollout :: "string \<Rightarrow> string \<Rightarrow> 's \<Rightarrow> rollout_summary reply \<times> 's"
  bk_list :: "string \<Rightarrow> string \<Rightarrow> 's \<Rightarrow> list_answer reply \<times> 's"
  bk_localTime :: "int \<Rightarrow> string"
  bk_pretty :: "string \<Rightarrow> rollout_summary \<Rightarrow> details \<Rightarrow> string"

record environ =
  RC_API_URL :: "string option"
  RC_TOKEN :: "string option"
  RC_USER :: "string option"
  RC_PASSWORD :: "string option"

record 's process =
  pc_world :: 's
  pc_out :: "string list"
  pc_err :: "string list"

definition print_out :: "string \<Rightarrow> ('s process, nat, unit) prog" where
  "print_out l = modifyE (\<lambda>p. p\<lparr>pc_out := pc_out p @ [l]\<rparr>)"

definition print_err :: "string \<Rightarrow> ('s process, nat, unit) prog" where
  "print_err l = modifyE (\<lambda>p. p\<lparr>pc_err := pc_err p @ [l]\<rparr>)"

definition die :: "string \<Rightarrow> ('s process, nat, 'a) prog" where
  "die msg = thenE (print_err (''verify-rollout: '' @ msg)) (raise 2)"

definition ask :: "('s \<Rightarrow> 'a reply \<times> 's) \<Rightarrow> ('s process, nat, 'a reply) prog" where
  "ask f p = (case f (pc_world p) of (a, s) \<Rightarrow> (Inr a, p\<lparr>pc_world := s\<rparr>))"

section \<open>Arguments\<close>

definition flag :: "string list \<Rightarrow> string \<Rightarrow> bool" where
  "flag args name = ((''--'' @ name) \<in> set args)"

fun after :: "string \<Rightarrow> string list \<Rightarrow> string option option" where
  "after a [] = None"
| "after a (x # xs) = (if x = a then Some (case xs of [] \<Rightarrow> None | y # _ \<Rightarrow> Some y) else after a xs)"

text \<open>An option given as the last argument has no value, whatever its default.\<close>

definition opt :: "string list \<Rightarrow> string \<Rightarrow> string option \<Rightarrow> string option" where
  "opt args name dflt = (case after (''--'' @ name) args of None \<Rightarrow> dflt | Some v \<Rightarrow> v)"

definition number_of :: "string option \<Rightarrow> jsnum" where
  "number_of v = (case v of None \<Rightarrow> NaN | Some s \<Rightarrow> to_number_str s)"

definition API :: "environ \<Rightarrow> string" where
  "API env = (let url = (case RC_API_URL env of None \<Rightarrow> ''http://localhost:3000'' | Some u \<Rightarrow> u)
     in rev (dropWhile (\<lambda>c. c = CHR ''/'') (rev url)))"

definition TARGET :: "string list \<Rightarrow> string option" where
  "TARGET args = opt args ''target'' None"

definition WAIT_MIN :: "string list \<Rightarrow> jsnum" where
  "WAIT_MIN args = number_of (opt args ''wait'' (Some ''0''))"

definition AS_JSON :: "string list \<Rightarrow> bool" where
  "AS_JSON args = flag args ''json''"

definition EXPECT :: "string list \<Rightarrow> jsnum option" where
  "EXPECT args = (case opt args ''expect'' None of None \<Rightarrow> None | Some s \<Rightarrow> Some (to_number_str s))"

definition good_expect :: "jsnum option \<Rightarrow> bool" where
  "good_expect e = (case e of None \<Rightarrow> True | Some (Fin q) \<Rightarrow> q = of_int \<lfloor>q\<rfloor> \<and> 0 < q | Some _ \<Rightarrow> False)"

definition names_credentials :: "string \<Rightarrow> bool" where
  "names_credentials a = (prefix ''--password'' a \<or> prefix ''--token'' a \<or> prefix ''--user'' a)"

definition BUCKETS :: "(rollout_bucket \<times> string) list" where
  "BUCKETS = [(Done, ''updated, online and healthy''), (UpdatedUnhealthy, ''UPDATED BUT UNHEALTHY''),
     (UpdatedOffline, ''UPDATED, NOW OFFLINE (cannot verify)''), (PendingOnline, ''ONLINE BUT NOT UPDATED''),
     (PendingOffline, ''OFFLINE, NOT UPDATED''), (Unknown, ''NO VERSION REPORTED'')]"

section \<open>Requests\<close>

definition given :: "string option \<Rightarrow> bool" where
  "given v = (v \<noteq> None \<and> v \<noteq> Some [])"

definition script_token :: "'s backend \<Rightarrow> environ \<Rightarrow> ('s process, nat, string) prog" where
  "script_token bk env =
     (if given (RC_TOKEN env) then ret (the (RC_TOKEN env))
      else if \<not> given (RC_USER env) \<or> \<not> given (RC_PASSWORD env) then die ''set RC_TOKEN, or RC_USER and RC_PASSWORD''
      else bindE (ask (bk_login bk (API env @ ''/api/auth/login'') (the (RC_USER env)) (the (RC_PASSWORD env)))) (\<lambda>r. case r of
          NoConnection m \<Rightarrow> die (''cannot reach '' @ API env @ '': '' @ m)
        | HttpError n \<Rightarrow> die (''login failed ('' @ show_count n @ '')'')
        | BadBody \<Rightarrow> raise 1
        | Body tok \<Rightarrow> ret tok))"

definition get_json :: "(string \<Rightarrow> string \<Rightarrow> 's \<Rightarrow> 'a reply \<times> 's) \<Rightarrow> environ \<Rightarrow> string \<Rightarrow> string \<Rightarrow> ('s process, nat, 'a) prog" where
  "get_json req env path tok = bindE (ask (req (API env @ ''/api'' @ path) tok)) (\<lambda>r. case r of
       NoConnection m \<Rightarrow> die (''cannot reach '' @ API env @ '': '' @ m)
     | HttpError n \<Rightarrow> die (path @ '' -> '' @ show_count n)
     | BadBody \<Rightarrow> raise 1
     | Body x \<Rightarrow> ret x)"

definition rollout_path :: "string \<Rightarrow> string" where
  "rollout_path target = ''/fleet/rollout?target='' @ encodeURIComponent target"

definition list_path :: "rollout_bucket \<Rightarrow> string \<Rightarrow> string" where
  "list_path b target = ''/fleet/dashboard/'' @ encodeURIComponent (rollout_link b target)"

fun get_details :: "'s backend \<Rightarrow> environ \<Rightarrow> string \<Rightarrow> string \<Rightarrow> rollout_summary \<Rightarrow> rollout_bucket list \<Rightarrow> ('s process, nat, details) prog" where
  "get_details bk env target tok r [] = ret []"
| "get_details bk env target tok r (b # bs) =
     (if b = Done \<or> rs_counts r b = 0 then get_details bk env target tok r bs
      else bindE (get_json (bk_list bk) env (list_path b target) tok) (\<lambda>a.
        bindE (get_details bk env target tok r bs) (\<lambda>ds. ret ((b, la_rows a) # ds))))"

definition once :: "'s backend \<Rightarrow> environ \<Rightarrow> string \<Rightarrow> string \<Rightarrow> ('s process, nat, rollout_summary \<times> details) prog" where
  "once bk env target tok =
     bindE (get_json (bk_rollout bk) env (rollout_path target) tok) (\<lambda>r.
     bindE (get_details bk env target tok r (map fst BUCKETS)) (\<lambda>ds. ret (r, ds)))"

section \<open>What is printed\<close>

definition NL :: string where "NL = [CHR 10]"

definition padStart :: "nat \<Rightarrow> string \<Rightarrow> string" where
  "padStart n s = replicate (n - length s) (CHR '' '') @ s"

definition seen_ago :: "int option \<Rightarrow> int \<Rightarrow> string" where
  "seen_ago ms now = (case ms of
      None \<Rightarrow> ''never''
    | Some t \<Rightarrow> if t = 0 then ''never'' else
        let s = max 0 (js_round (rnd (of_int (now - t) / 1000))) in
        if s < 90 then ''now''
        else if s < 5400 then show_int (js_round (rnd (of_int s / 60))) @ '' min ago''
        else if s < 129600 then show_int (js_round (rnd (of_int s / 3600))) @ '' h ago''
        else show_int (js_round (rnd (of_int s / 86400))) @ '' d ago'')"

definition heading :: "string \<Rightarrow> rollout_summary \<Rightarrow> string" where
  "heading target r = NL @ ''Rollout to '' @ target @ '': '' @ show_count (rs_counts r Done) @ ''/'' @ show_count (rs_total r) @
     '' devices done ('' @ show_num (rs_percentDone r) @ ''%)'' @ (if rs_complete r then ''  -- COMPLETE'' else [])"

definition versions_line :: "rollout_summary \<Rightarrow> string" where
  "versions_line r = ''  versions: '' @ join '', '' (map (\<lambda>(v, n). v @ '' x'' @ show_count n) (rs_versions r))"

definition device_line :: "int \<Rightarrow> device_brief \<times> string list \<Rightarrow> string" where
  "device_line now d = (case d of (b, reasons) \<Rightarrow>
     (let label = (case b_label b of None \<Rightarrow> [] | Some l \<Rightarrow> l) in
      ''  '' @ (if label \<noteq> [] then label @ '' ('' @ b_deviceId b @ '')'' else b_deviceId b) @
      ''  v'' @ (case b_agentVer b of None \<Rightarrow> ''?'' | Some v \<Rightarrow> v) @
      ''  seen '' @ (if b_online b then ''now'' else seen_ago (b_lastSeenMs b) now) @
      (if reasons \<noteq> [] then ''  ['' @ join '', '' reasons @ '']'' else [])))"

definition bucket_lines :: "int \<Rightarrow> details \<Rightarrow> rollout_bucket \<times> string \<Rightarrow> string list" where
  "bucket_lines now ds p = (case p of (b, label) \<Rightarrow> (case map_of ds b of
      None \<Rightarrow> [] | Some [] \<Rightarrow> []
    | Some rows \<Rightarrow> [NL @ label @ '' ('' @ show_count (length rows) @ '')''] @ map (device_line now) (take 200 rows) @
        (if 200 < length rows then [''  ... and '' @ show_count (length rows - 200) @ '' more''] else [])))"

definition report_lines :: "string \<Rightarrow> int \<Rightarrow> rollout_summary \<times> details \<Rightarrow> string list" where
  "report_lines target now res = (case res of (r, ds) \<Rightarrow>
     heading target r # map (\<lambda>(b, label). ''  '' @ padStart 4 (show_count (rs_counts r b)) @ ''  '' @ label) BUCKETS @
     [versions_line r] @ concat (map (bucket_lines now ds) BUCKETS) @
     (if rs_total r = 0 then [NL @ ''No devices visible to this account: nothing was verified.''] else []))"

definition print_report :: "'s backend \<Rightarrow> string list \<Rightarrow> string \<Rightarrow> rollout_summary \<times> details \<Rightarrow> ('s process, nat, unit) prog" where
  "print_report bk args target res =
     (if AS_JSON args then print_out (bk_pretty bk target (fst res) (snd res))
      else bindE (gets (\<lambda>p. bk_clock bk (pc_world p))) (\<lambda>now. eachE print_out (report_lines target now res)))"

section \<open>The run\<close>

definition deadline :: "int \<Rightarrow> jsnum \<Rightarrow> jsnum" where
  "deadline now wait = (case wait of
      Fin q \<Rightarrow> (let ms = rnd (q * 60000) in if 2 ^ 1024 \<le> ms then PosInf else Fin (rnd (of_int now + ms)))
    | _ \<Rightarrow> wait)"

definition earlier :: "int \<Rightarrow> jsnum \<Rightarrow> bool" where
  "earlier now d = (case d of Fin q \<Rightarrow> of_int now < q | PosInf \<Rightarrow> True | _ \<Rightarrow> False)"

text \<open>A round of the wait: thirty seconds, the requests, a line.\<close>

definition poll_round :: "'s backend \<Rightarrow> string list \<Rightarrow> environ \<Rightarrow> string \<Rightarrow> string \<Rightarrow> ('s process, nat, rollout_summary \<times> details) prog" where
  "poll_round bk args env target tok =
     thenE (modifyE (\<lambda>p. p\<lparr>pc_world := bk_pause bk (pc_world p)\<rparr>))
     (bindE (once bk env target tok) (\<lambda>res.
      thenE (whenE (\<not> AS_JSON args) (bindE (gets (\<lambda>p. bk_clock bk (pc_world p))) (\<lambda>now.
        print_out (NL @ ''['' @ bk_localTime bk now @ ''] '' @ show_count (rs_counts (fst res) Done) @ ''/'' @ show_count (rs_total (fst res)) @ '' done''))))
      (ret res)))"

text \<open>The loop may not end, with \<open>--wait Infinity\<close>: then its value is \<open>None\<close>.\<close>

partial_function (option) poll ::
    "'s backend \<Rightarrow> string list \<Rightarrow> environ \<Rightarrow> string \<Rightarrow> string \<Rightarrow> jsnum \<Rightarrow> rollout_summary \<times> details \<Rightarrow> 's process \<Rightarrow>
     ((nat + rollout_summary \<times> details) \<times> 's process) option" where
  "poll bk args env target tok dl res p =
     (if rs_complete (fst res) \<or> \<not> earlier (bk_clock bk (pc_world p)) dl then Some (Inr res, p)
      else (case poll_round bk args env target tok p of
          (Inl c, p') \<Rightarrow> Some (Inl c, p')
        | (Inr res', p') \<Rightarrow> poll bk args env target tok dl res' p'))"

text \<open>Up to the loop: the checks of the arguments, the token, the deadline, the first answer.\<close>

definition set_up :: "'s backend \<Rightarrow> string list \<Rightarrow> environ \<Rightarrow> ('s process, nat, string \<times> string \<times> jsnum \<times> (rollout_summary \<times> details)) prog" where
  "set_up bk args env =
     (if \<not> good_expect (EXPECT args) then die ''--expect must be a positive whole number''
      else if \<not> isValidVersion (case TARGET args of None \<Rightarrow> [] | Some t \<Rightarrow> t)
        then die ''pass --target <version>, for example --target 1.4.8''
      else if \<exists>a \<in> set args. names_credentials a
        then die ''credentials must come from the environment (RC_TOKEN or RC_USER/RC_PASSWORD), not the command line''
      else let target = the (TARGET args) in
        bindE (script_token bk env) (\<lambda>tok.
        bindE (gets (\<lambda>p. deadline (bk_clock bk (pc_world p)) (WAIT_MIN args))) (\<lambda>dl.
        bindE (once bk env target tok) (\<lambda>res.
        thenE (print_report bk args target res) (ret (target, tok, dl, res))))))"

definition wrongSize :: "string list \<Rightarrow> rollout_summary \<Rightarrow> bool" where
  "wrongSize args r = (case EXPECT args of None \<Rightarrow> False | Some e \<Rightarrow> e \<noteq> Fin (of_nat (rs_total r)))"

definition positive :: "jsnum \<Rightarrow> bool" where
  "positive n = (case n of Fin q \<Rightarrow> 0 < q | PosInf \<Rightarrow> True | _ \<Rightarrow> False)"

definition closing :: "'s backend \<Rightarrow> string list \<Rightarrow> string \<Rightarrow> rollout_summary \<times> details \<Rightarrow> ('s process, nat, nat) prog" where
  "closing bk args target res =
     thenE (whenE (positive (WAIT_MIN args)) (print_report bk args target res))
     (thenE (whenE (wrongSize args (fst res))
        (print_err (NL @ ''INVENTORY MISMATCH: expected '' @ num_to_string (the (EXPECT args)) @ '' devices but the backend shows '' @
           show_count (rs_total (fst res)) @ ''. The rollout cannot be called complete.'')))
      (ret (if rs_complete (fst res) \<and> \<not> wrongSize args (fst res) then 0 else 1)))"

definition exit_code :: "(nat + nat) \<times> 's process \<Rightarrow> nat \<times> 's process" where
  "exit_code r = (case r of (Inl c, p) \<Rightarrow> (c, p) | (Inr c, p) \<Rightarrow> (c, p))"

definition verify_rollout :: "'s backend \<Rightarrow> string list \<Rightarrow> environ \<Rightarrow> 's process \<Rightarrow> (nat \<times> 's process) option" where
  "verify_rollout bk args env p = (case set_up bk args env p of
      (Inl c, p1) \<Rightarrow> Some (c, p1)
    | (Inr (target, tok, dl, res), p1) \<Rightarrow> (case poll bk args env target tok dl res p1 of
          None \<Rightarrow> None
        | Some (Inl c, p2) \<Rightarrow> Some (c, p2)
        | Some (Inr res', p2) \<Rightarrow> Some (exit_code (closing bk args target res' p2))))"

section \<open>The API behind it\<close>

text \<open>
  The routes of \<open>fleet.controller.ts\<close>: the guard first, then the service for the operator of the token.
\<close>

definition guarded :: "jwt \<Rightarrow> string option \<Rightarrow> (int \<Rightarrow> ('w, error, 'a) prog) \<Rightarrow> ('w, error, 'a) prog" where
  "guarded j authorization h = (case canActivate j authorization of Inl e \<Rightarrow> raise e | Inr user \<Rightarrow> h (jw_sub user))"

definition route_rollout :: "jwt \<Rightarrow> 'r redis_exec \<Rightarrow> string option \<Rightarrow> string option \<Rightarrow> ('r, rollout_summary) handler" where
  "route_rollout j ex authorization target = guarded j authorization (\<lambda>op. fleet_rollout ex op target)"

definition route_dashboardList :: "jwt \<Rightarrow> 'r redis_exec \<Rightarrow> (string \<Rightarrow> string \<Rightarrow> int) \<Rightarrow> string option \<Rightarrow> string \<Rightarrow> ('r, list_answer) handler" where
  "route_dashboardList j ex lc authorization key = guarded j authorization (\<lambda>op. dashboardList ex lc op key)"

text \<open>The framework's answer to an exception, for those these routes throw.\<close>

definition http_status :: "error \<Rightarrow> nat" where
  "http_status e = (case e of Unauthorized _ \<Rightarrow> 401 | NotFound \<Rightarrow> 404 | BadRequest _ \<Rightarrow> 400 | _ \<Rightarrow> 500)"

definition http_reply :: "(error + 'a) \<times> 'w \<Rightarrow> 'a reply \<times> 'w" where
  "http_reply r = (case r of (Inl e, w) \<Rightarrow> (HttpError (http_status e), w) | (Inr a, w) \<Rightarrow> (Body a, w))"

text \<open>The path below the base of a route, decoded.\<close>

definition route_arg :: "string \<Rightarrow> string \<Rightarrow> string option" where
  "route_arg base url = (if prefix base url then decodeURIComponent (drop (length base) url) else None)"

definition serve_arg :: "string \<Rightarrow> (string \<Rightarrow> ('r, 'a) handler) \<Rightarrow> string \<Rightarrow> 'r world \<Rightarrow> 'a reply \<times> 'r world" where
  "serve_arg base h url w = (case route_arg base url of None \<Rightarrow> (HttpError 404, w) | Some x \<Rightarrow> http_reply (h x w))"

text \<open>
  The modelled API at a base address. While the script pauses, thirty seconds pass and the services do
  \<open>others\<close>, whatever that is.
\<close>

definition api_backend :: "jwt \<Rightarrow> config \<Rightarrow> (string \<Rightarrow> string \<Rightarrow> bool option) \<Rightarrow> 'r redis_exec \<Rightarrow> (string \<Rightarrow> string \<Rightarrow> int) \<Rightarrow> string \<Rightarrow>
    ('r world \<Rightarrow> 'r world) \<Rightarrow> (int \<Rightarrow> string) \<Rightarrow> (string \<Rightarrow> rollout_summary \<Rightarrow> details \<Rightarrow> string) \<Rightarrow> 'r world backend" where
  "api_backend j cfg compare ex lc base others time pretty = \<lparr>bk_clock = w_now,
     bk_pause = (\<lambda>w. (others w)\<lparr>w_now := w_now w + 30000\<rparr>),
     bk_login = (\<lambda>url user password w. if url = base @ ''/api/auth/login''
        then http_reply (bindE (login j cfg compare user password) (\<lambda>r. ret (fst r)) w) else (HttpError 404, w)),
     bk_rollout = (\<lambda>url tok. serve_arg (base @ ''/api/fleet/rollout?target='')
        (\<lambda>t. route_rollout j ex (Some (''Bearer '' @ tok)) (Some t)) url),
     bk_list = (\<lambda>url tok. serve_arg (base @ ''/api/fleet/dashboard/'')
        (\<lambda>k. route_dashboardList j ex lc (Some (''Bearer '' @ tok)) k) url),
     bk_localTime = time, bk_pretty = pretty\<rparr>"

section \<open>What the script may rely on\<close>

lemma wp_ask [wp_simps]: "wp (ask f) Q E p = (case f (pc_world p) of (a, s) \<Rightarrow> Q a (p\<lparr>pc_world := s\<rparr>))"
  by (simp add: wp_def ask_def split: prod.split)

lemma wp_print [wp_simps]:
  "wp (print_out l) Q E = (\<lambda>p. Q () (p\<lparr>pc_out := pc_out p @ [l]\<rparr>))"
  "wp (print_err l) Q E = (\<lambda>p. Q () (p\<lparr>pc_err := pc_err p @ [l]\<rparr>))"
  by (simp_all add: print_out_def print_err_def wp_simps)

lemma wp_die [wp_simps]: "wp (die l) Q E = (\<lambda>p. E 2 (p\<lparr>pc_err := pc_err p @ [''verify-rollout: '' @ l]\<rparr>))"
  by (simp add: die_def print_err_def wp_simps)

lemma wp_prints: "(\<And>out. Q () (p\<lparr>pc_out := out\<rparr>)) \<Longrightarrow> wp (eachE print_out ls) Q E p"
proof (induction ls arbitrary: p)
  case Nil
  then show ?case using Nil[of "pc_out p"] by (simp add: wp_simps)
qed (simp add: wp_simps)

lemma wp_report: "(\<And>out. Q () (p\<lparr>pc_out := out\<rparr>)) \<Longrightarrow> wp (print_report bk args target res) Q E p"
  by (simp add: print_report_def wp_simps wp_prints)

text \<open>The states a process can leave its surroundings in: pauses and requests, from a first state.\<close>

inductive reached :: "'s backend \<Rightarrow> 's \<Rightarrow> 's \<Rightarrow> bool" for bk where
  here: "reached bk s s"
| paused: "reached bk s t \<Longrightarrow> reached bk s (bk_pause bk t)"
| signed_in: "reached bk s t \<Longrightarrow> reached bk s (snd (bk_login bk url user password t))"
| asked: "reached bk s t \<Longrightarrow> reached bk s (snd (bk_rollout bk url tok t))"
| listed: "reached bk s t \<Longrightarrow> reached bk s (snd (bk_list bk url tok t))"

definition clock_of :: "'s backend \<Rightarrow> 's process \<Rightarrow> int" where
  "clock_of bk p = bk_clock bk (pc_world p)"

text \<open>The answer was true at a moment of the run that began at \<open>s\<close>, and the run has come to \<open>p\<close>.\<close>

definition vouched :: "'s backend \<Rightarrow> (string \<Rightarrow> 's \<Rightarrow> rollout_summary \<Rightarrow> bool) \<Rightarrow> 's \<Rightarrow> string \<Rightarrow> rollout_summary \<Rightarrow> 's process \<Rightarrow> bool" where
  "vouched bk true_of s t r p \<longleftrightarrow> (\<exists>s'. reached bk s s' \<and> true_of t s' r) \<and> reached bk s (pc_world p)"

text \<open>
  The contract of a backend: time does not run backwards and a pause lasts thirty seconds at least, and the
  answer to the question how far a rollout is is true of the state it was asked in.
\<close>

locale rollout_backend =
  fixes bk :: "'s backend" and base :: string and true_of :: "string \<Rightarrow> 's \<Rightarrow> rollout_summary \<Rightarrow> bool"
  assumes pause_clock: "bk_clock bk s + 30000 \<le> bk_clock bk (bk_pause bk s)"
    and login_clock: "bk_clock bk s \<le> bk_clock bk (snd (bk_login bk url user password s))"
    and rollout_clock: "bk_clock bk s \<le> bk_clock bk (snd (bk_rollout bk url tok s))"
    and list_clock: "bk_clock bk s \<le> bk_clock bk (snd (bk_list bk url tok s))"
    and answers_true: "isValidVersion t \<Longrightarrow>
      bk_rollout bk (base @ ''/api'' @ rollout_path t) tok s = (Body r, s') \<Longrightarrow> true_of t s r"
begin

lemma wp_get_json:
  assumes "\<And>s. bk_clock bk s \<le> bk_clock bk (snd (req (API env @ ''/api'' @ path) tok s))"
    and "\<And>x s. req (API env @ ''/api'' @ path) tok (pc_world p) = (Body x, s) \<Longrightarrow> bk_clock bk (pc_world p) \<le> bk_clock bk s \<Longrightarrow>
      Q x (p\<lparr>pc_world := s\<rparr>)"
  shows "wp (get_json req env path tok) Q (\<lambda>c _. c \<in> {1, 2}) p"
proof -
  obtain a s where r: "req (API env @ ''/api'' @ path) tok (pc_world p) = (a, s)" by force
  have "bk_clock bk (pc_world p) \<le> bk_clock bk s" using assms(1)[of "pc_world p"] r by simp
  then show ?thesis using assms(2) r
    by (cases a) (simp_all add: get_json_def wp_simps)
qed

lemma wp_details:
  assumes "reached bk s (pc_world p)"
  shows "wp (get_details bk env target tok r bs) (\<lambda>_ p'. clock_of bk p \<le> clock_of bk p' \<and> reached bk s (pc_world p')) (\<lambda>c _. c \<in> {1, 2}) p"
  using assms
proof (induction bs arbitrary: p)
  case (Cons b bs)
  have "wp (get_json (bk_list bk) env (list_path b target) tok)
      (\<lambda>a. wp (get_details bk env target tok r bs) (\<lambda>ds p'. clock_of bk p \<le> clock_of bk p' \<and> reached bk s (pc_world p')) (\<lambda>c _. c \<in> {1, 2}))
      (\<lambda>c _. c \<in> {1, 2}) p"
  proof (rule wp_get_json)
    fix x t assume l: "bk_list bk (API env @ ''/api'' @ list_path b target) tok (pc_world p) = (Body x, t)"
      and "bk_clock bk (pc_world p) \<le> bk_clock bk t"
    have "reached bk s t" using listed[OF Cons.prems, of "API env @ ''/api'' @ list_path b target" tok] unfolding l by simp
    then show "wp (get_details bk env target tok r bs) (\<lambda>ds p'. clock_of bk p \<le> clock_of bk p' \<and> reached bk s (pc_world p')) (\<lambda>c _. c \<in> {1, 2}) (p\<lparr>pc_world := t\<rparr>)"
      using \<open>bk_clock bk (pc_world p) \<le> bk_clock bk t\<close>
      by (intro wp_conseq[OF Cons.IH]) (auto simp: clock_of_def)
  qed (rule list_clock)
  with Cons.IH[OF Cons.prems] show ?case by (simp add: wp_simps)
qed (simp add: wp_simps)

lemma wp_once:
  assumes "isValidVersion target" "API env = base" "reached bk s (pc_world p)"
  shows "wp (once bk env target tok) (\<lambda>res p'. vouched bk true_of s target (fst res) p' \<and> clock_of bk p \<le> clock_of bk p') (\<lambda>c _. c \<in> {1, 2}) p"
  unfolding once_def wp_simps
proof (rule wp_get_json)
  fix r t assume r: "bk_rollout bk (API env @ ''/api'' @ rollout_path target) tok (pc_world p) = (Body r, t)"
    and le: "bk_clock bk (pc_world p) \<le> bk_clock bk t"
  have "true_of target (pc_world p) r" using answers_true[OF assms(1)] r unfolding assms(2) .
  moreover have "reached bk s t" using asked[OF assms(3), of "API env @ ''/api'' @ rollout_path target" tok] unfolding r by simp
  ultimately show "wp (get_details bk env target tok r (map fst BUCKETS)) (\<lambda>ds p'. vouched bk true_of s target (fst (r, ds)) p' \<and> clock_of bk p \<le> clock_of bk p')
      (\<lambda>c _. c \<in> {1, 2}) (p\<lparr>pc_world := t\<rparr>)"
    using le assms(3) by (intro wp_conseq[OF wp_details]) (auto simp: clock_of_def vouched_def)
qed (rule rollout_clock)

lemma wp_round:
  assumes "isValidVersion target" "API env = base" "reached bk s (pc_world p)"
  shows "wp (poll_round bk args env target tok) (\<lambda>res p'. vouched bk true_of s target (fst res) p' \<and> clock_of bk p + 30000 \<le> clock_of bk p') (\<lambda>c _. c \<in> {1, 2}) p"
proof -
  let ?p = "p\<lparr>pc_world := bk_pause bk (pc_world p)\<rparr>"
  have "clock_of bk p + 30000 \<le> clock_of bk ?p" using pause_clock[of "pc_world p"] by (simp add: clock_of_def)
  moreover have "reached bk s (pc_world ?p)" using paused[OF assms(3)] by simp
  ultimately have "wp (once bk env target tok) (\<lambda>res p'. (\<forall>out. vouched bk true_of s target (fst res) (p'\<lparr>pc_out := out\<rparr>) \<and>
      clock_of bk p + 30000 \<le> clock_of bk (p'\<lparr>pc_out := out\<rparr>)) \<and> vouched bk true_of s target (fst res) p' \<and> clock_of bk p + 30000 \<le> clock_of bk p') (\<lambda>c _. c \<in> {1, 2}) ?p"
    by (intro wp_conseq[OF wp_once[OF assms(1,2)]]) (auto simp: clock_of_def vouched_def)
  then show ?thesis unfolding poll_round_def wp_simps by (rule wp_conseq) (auto simp: wp_simps)
qed

text \<open>The loop: what it answers with is true, and with a deadline it ends.\<close>

lemma poll_true:
  assumes "poll bk args env target tok dl res p = Some (r, p')" "isValidVersion target" "API env = base" "vouched bk true_of s target (fst res) p"
  shows "case r of Inl c \<Rightarrow> c \<in> {1, 2} | Inr res' \<Rightarrow> vouched bk true_of s target (fst res') p'"
proof -
  let ?P = "\<lambda>x. case fst x of Inl c \<Rightarrow> c \<in> {1, 2 :: nat} | Inr res' \<Rightarrow> vouched bk true_of s target (fst res') (snd x)"
  let ?Q = "\<lambda>(bk' :: 's backend) (args' :: string list) env' target' (tok' :: string) (dl' :: jsnum) (res :: rollout_summary \<times> details)
      (p :: 's process) (x :: (nat + rollout_summary \<times> details) \<times> 's process).
    bk' = bk \<longrightarrow> env' = env \<longrightarrow> target' = target \<longrightarrow> vouched bk true_of s target (fst res) p \<longrightarrow> ?P x"
  have "?Q bk args env target tok dl res p (r, p')"
  proof (rule poll.raw_induct[where P = ?Q, OF _ assms(1)], intro impI)
    fix loop and bk' :: "'s backend" and args' :: "string list" and env' target' tok' dl' and res :: "rollout_summary \<times> details"
      and p :: "'s process" and x
    assume IH: "\<And>bk' args' env' target' tok' dl' res p x. loop bk' args' env' target' tok' dl' res p = Some x \<Longrightarrow> ?Q bk' args' env' target' tok' dl' res p x"
      and run: "(if rs_complete (fst res) \<or> \<not> earlier (bk_clock bk' (pc_world p)) dl' then Some (Inr res, p)
        else (case poll_round bk' args' env' target' tok' p of (Inl c, p') \<Rightarrow> Some (Inl c, p')
          | (Inr res', p') \<Rightarrow> loop bk' args' env' target' tok' dl' res' p')) = Some x"
      and eq: "bk' = bk" "env' = env" "target' = target" and t: "vouched bk true_of s target (fst res) p"
    show "?P x"
    proof (cases "rs_complete (fst res) \<or> \<not> earlier (bk_clock bk' (pc_world p)) dl'")
      case True
      then show ?thesis using run t by auto
    next
      case False
      have at: "reached bk s (pc_world p)" using t by (simp add: vouched_def)
      obtain a p1 where a: "poll_round bk args' env target tok' p = (a, p1)" by force
      note w = wp_round[OF assms(2,3) at, of args' tok']
      show ?thesis
      proof (cases a)
        case (Inl c)
        then have "c \<in> {1, 2}" using wp_errD[OF w, of c p1] a by simp
        then show ?thesis using run False a Inl by (auto simp: eq)
      next
        case (Inr res')
        then have "vouched bk true_of s target (fst res') p1" using wp_okD[OF w, of res' p1] a by simp
        moreover have "loop bk args' env target tok' dl' res' p1 = Some x" using run False a Inr by (simp add: eq)
        ultimately show ?thesis using IH[of bk args' env target tok' dl' res' p1 x] by simp
      qed
    qed
  qed
  then have "?P (r, p')" using assms(4) by blast
  then show ?thesis by (cases r) simp_all
qed

lemma poll_ends:
  assumes "isValidVersion target" "API env = base" "dl \<noteq> PosInf"
  shows "poll bk args env target tok dl res p \<noteq> None"
proof -
  have "poll bk args env target tok dl res p \<noteq> None"
    if "nat (\<lceil>(case dl of Fin q \<Rightarrow> q | _ \<Rightarrow> 0)\<rceil> - clock_of bk p) \<le> n" for n res p
    using that
  proof (induction n arbitrary: res p rule: less_induct)
    case (less n)
    show ?case
    proof (cases "rs_complete (fst res) \<or> \<not> earlier (bk_clock bk (pc_world p)) dl")
      case True
      then show ?thesis by (subst poll.simps) simp
    next
      case False
      then obtain q where q: "dl = Fin q" "of_int (clock_of bk p) < q" using assms(3) by (cases dl) (auto simp: earlier_def clock_of_def)
      obtain a p1 where a: "poll_round bk args env target tok p = (a, p1)" by force
      show ?thesis
      proof (cases a)
        case (Inr res')
        then have "clock_of bk p + 30000 \<le> clock_of bk p1"
          using wp_okD[OF wp_round[OF assms(1,2) here[of bk "pc_world p"], of args tok], of res' p1] a by simp
        moreover have "clock_of bk p < \<lceil>q\<rceil>" using q(2) by (simp add: less_ceiling_iff)
        ultimately have "nat (\<lceil>q\<rceil> - clock_of bk p1) < n" using less.prems q(1) by simp
        then have "poll bk args env target tok dl res' p1 \<noteq> None" using less.IH[of _ p1 res'] q(1) by simp
        then show ?thesis using False a Inr by (subst poll.simps) simp
      next
        case (Inl c)
        then show ?thesis using False a by (subst poll.simps) simp
      qed
    qed
  qed
  then show ?thesis by blast
qed

end

section \<open>The modelled API keeps the contract\<close>

lemma wp_clock_live: "wp (live_hashes ex rows) (\<lambda>_ w'. w_now w' = w_now w) (\<lambda>_ w'. w_now w' = w_now w) w"
  by (rule wp_live_hashes) simp

lemma clock_loadDashRows:
  "wp (loadDashRows ex op) (\<lambda>_ w'. w_now w' = w_now w) (\<lambda>_ w'. w_now w' = w_now w) w"
  unfolding loadDashRows_def wp_simps
  by (intro wp_pg_read wp_live_hashes wp_pg_since) simp_all

lemma clock_after_rows:
  assumes "\<And>x w'. wp (f x) (\<lambda>_ w''. w_now w'' = w_now w') (\<lambda>_ w''. w_now w'' = w_now w') w'"
  shows "wp (bindE (loadDashRows ex op) f) (\<lambda>_ w'. w_now w' = w_now w) (\<lambda>_ w'. w_now w' = w_now w) w"
  unfolding wp_simps
proof (rule wp_conseq[OF clock_loadDashRows])
  fix a and w' :: "'a world"
  assume e: "w_now w' = w_now w"
  show "wp (f a) (\<lambda>_ w'. w_now w' = w_now w) (\<lambda>_ w'. w_now w' = w_now w) w'" using assms[of a w'] unfolding e .
qed

lemma clock_kept: "wp m (\<lambda>_ w'. w_now w' = w_now w) (\<lambda>_ w'. w_now w' = w_now w) w \<Longrightarrow> w_now (snd (http_reply (m w))) = w_now w"
  by (auto simp: wp_def http_reply_def split: prod.splits sum.splits)

lemma clock_rollout:
  "wp (fleet_rollout ex op t) (\<lambda>_ w'. w_now w' = w_now w) (\<lambda>_ w'. w_now w' = w_now w) w"
proof (cases "t \<noteq> None \<and> t \<noteq> Some [] \<and> \<not> isValidVersion (the t)")
  case False
  then show ?thesis unfolding fleet_rollout_def
    by (simp only: if_False, intro clock_after_rows) (simp add: wp_simps split: prod.split)
qed (simp add: fleet_rollout_def wp_simps)

lemma clock_or_throw: "wp (or_throw x) (\<lambda>_ w'. w_now w' = w_now w) (\<lambda>_ w'. w_now w' = w_now w) w"
  by (simp add: or_throw_def wp_simps split: option.split)

lemma clock_or_throw_list:
  "wp (bindE (or_throw x) (\<lambda>b. ret (f b))) (\<lambda>_ w'. w_now w' = w_now w) (\<lambda>_ w'. w_now w' = w_now w) w"
  by (simp add: or_throw_def wp_simps split: option.split)

lemma clock_list:
  "wp (dashboardList ex lc op key) (\<lambda>_ w'. w_now w' = w_now w) (\<lambda>_ w'. w_now w' = w_now w) w"
proof (cases "prefix ''rollout:'' key")
  case True
  show ?thesis
  proof (cases "parse_rollout_key key")
    case None
    then show ?thesis using True by (simp add: dashboardList_def rolloutList_def wp_simps)
  next
    case (Some p)
    then show ?thesis using True unfolding dashboardList_def rolloutList_def
      by (simp only: if_True option.case split_beta, intro clock_after_rows) (simp add: Let_def clock_or_throw_list split: prod.split)
  qed
next
  case False
  then show ?thesis unfolding dashboardList_def
    by (simp only: if_False split_beta, intro clock_after_rows) (simp add: Let_def clock_or_throw_list wp_raise split: prod.split)
qed

lemma clock_guarded:
  assumes "\<And>op. wp (h op) (\<lambda>_ w'. w_now w' = w_now w) (\<lambda>_ w'. w_now w' = w_now w) w"
  shows "wp (guarded j auth h) (\<lambda>_ w'. w_now w' = w_now w) (\<lambda>_ w'. w_now w' = w_now w) w"
  using assms by (simp add: guarded_def wp_simps split: sum.split)

lemma clock_routes:
  "wp (route_rollout j ex auth target) (\<lambda>_ w'. w_now w' = w_now w) (\<lambda>_ w'. w_now w' = w_now w) w"
  "wp (route_dashboardList j ex lc auth key) (\<lambda>_ w'. w_now w' = w_now w) (\<lambda>_ w'. w_now w' = w_now w) w"
  unfolding route_rollout_def route_dashboardList_def by (rule clock_guarded, rule clock_rollout clock_list)+

lemma clock_serve:
  assumes "\<And>x. wp (h x) (\<lambda>_ w'. w_now w' = w_now w) (\<lambda>_ w'. w_now w' = w_now w) w"
  shows "w_now (snd (serve_arg base h url w)) = w_now w"
  using clock_kept[OF assms] by (simp add: serve_arg_def split: option.split)

lemma clock_login:
  "wp (bindE (login j cfg compare user password) (\<lambda>r. ret (fst r))) (\<lambda>_ w'. w_now w' = w_now w) (\<lambda>_ w'. w_now w' = w_now w) w"
  unfolding login_def unauthorized_def wp_simps
  by (rule wp_pg_read) (auto simp: wp_simps split: option.split prod.split)

text \<open>What a rollout answer of the API says: it is the summary of rows it gathered, for the target asked for.\<close>

definition gathered_summary :: "jwt \<Rightarrow> 'r redis_exec \<Rightarrow> string \<Rightarrow> 'r world \<Rightarrow> rollout_summary \<Rightarrow> bool" where
  "gathered_summary j ex t w r \<longleftrightarrow> (\<exists>tok user rows now w'. canActivate j (Some (''Bearer '' @ tok)) = Inr user \<and>
     loadDashRows ex (jw_sub user) w = (Inr (rows, now), w') \<and> r = summary_of (summarizeRollout rows t now))"

lemma rollout_answer:
  assumes "fleet_rollout ex (jw_sub user) (Some t) w = (Inr r, w')" "isValidVersion t" "canActivate j (Some (''Bearer '' @ tok)) = Inr user"
  shows "gathered_summary j ex t w r"
proof -
  have "t \<noteq> []" using assms(2) by (auto simp: isValidVersion_def)
  then obtain rows now w1 where l: "loadDashRows ex (jw_sub user) w = (Inr (rows, now), w1)" "r = summary_of (summarizeRollout rows t now)"
    using assms(1,2) by (auto simp: fleet_rollout_def bindE_def ret_def target_of_def Let_def split: prod.splits sum.splits)
  with assms(3) show ?thesis unfolding gathered_summary_def by blast
qed

lemma route_of_path: "route_arg (base @ ''/api/fleet/rollout?target='') (base @ ''/api'' @ rollout_path t) = Some t"
  by (simp add: route_arg_def rollout_path_def decode_encode)

interpretation served: rollout_backend "api_backend j cfg compare (ex :: 'r redis_exec) lc base others time pretty" base "gathered_summary j ex"
proof
  fix s :: "'r world" and url tok user password t r s'
  show "bk_clock (api_backend j cfg compare ex lc base others time pretty) s + 30000 \<le>
      bk_clock (api_backend j cfg compare ex lc base others time pretty) (bk_pause (api_backend j cfg compare ex lc base others time pretty) s)"
    by (simp add: api_backend_def)
  show "bk_clock (api_backend j cfg compare ex lc base others time pretty) s \<le>
      bk_clock (api_backend j cfg compare ex lc base others time pretty)
        (snd (bk_login (api_backend j cfg compare ex lc base others time pretty) url user password s))"
    using clock_kept[OF clock_login, of j cfg compare user password s] by (simp add: api_backend_def)
  show "bk_clock (api_backend j cfg compare ex lc base others time pretty) s \<le>
      bk_clock (api_backend j cfg compare ex lc base others time pretty)
        (snd (bk_rollout (api_backend j cfg compare ex lc base others time pretty) url tok s))"
    by (simp add: api_backend_def clock_serve[OF clock_routes(1)])
  show "bk_clock (api_backend j cfg compare ex lc base others time pretty) s \<le>
      bk_clock (api_backend j cfg compare ex lc base others time pretty)
        (snd (bk_list (api_backend j cfg compare ex lc base others time pretty) url tok s))"
    by (simp add: api_backend_def clock_serve[OF clock_routes(2)])
  assume v: "isValidVersion t"
    and "bk_rollout (api_backend j cfg compare ex lc base others time pretty) (base @ ''/api'' @ rollout_path t) tok s = (Body r, s')"
  then obtain user where "fleet_rollout ex (jw_sub user) (Some t) s = (Inr r, s')" "canActivate j (Some (''Bearer '' @ tok)) = Inr user"
    using route_of_path[of base t]
    by (auto simp: api_backend_def serve_arg_def route_rollout_def guarded_def http_reply_def raise_def split: prod.splits sum.splits)
  then show "gathered_summary j ex t s r" by (rule rollout_answer[OF _ v])
qed

section \<open>Properties\<close>

definition usable :: "string list \<Rightarrow> bool" where
  "usable args = (good_expect (EXPECT args) \<and> isValidVersion (case TARGET args of None \<Rightarrow> [] | Some t \<Rightarrow> t) \<and>
     \<not> (\<exists>a \<in> set args. names_credentials a))"

lemma target_given: "isValidVersion (case v of None \<Rightarrow> [] | Some t \<Rightarrow> t) \<Longrightarrow> \<exists>t. v = Some t \<and> isValidVersion t"
  by (cases v) (simp_all add: isValidVersion_def)

lemma usage_refused: "\<not> usable args \<Longrightarrow> \<exists>p'. verify_rollout bk args env p = Some (2, p') \<and> pc_world p' = pc_world p"
  by (auto simp: verify_rollout_def set_up_def usable_def die_def print_err_def thenE_def bindE_def modifyE_def raise_def)

context rollout_backend
begin

lemma wp_token:
  assumes "reached bk s (pc_world p)"
  shows "wp (script_token bk env) (\<lambda>tok p'. (given (RC_TOKEN env) \<longrightarrow> tok = the (RC_TOKEN env) \<and> p' = p) \<and> reached bk s (pc_world p'))
    (\<lambda>c _. c \<in> {1, 2}) p"
proof -
  obtain a t where l: "bk_login bk (API env @ ''/api/auth/login'') (the (RC_USER env)) (the (RC_PASSWORD env)) (pc_world p) = (a, t)" by force
  have "reached bk s t"
    using signed_in[OF assms, of "API env @ ''/api/auth/login''" "the (RC_USER env)" "the (RC_PASSWORD env)"] unfolding l by simp
  then show ?thesis using assms l by (cases a) (simp_all add: script_token_def wp_simps)
qed

lemma wp_set_up:
  assumes "usable args" "API env = base"
  shows "wp (set_up bk args env) (\<lambda>(t, tok, dl, res) p'. TARGET args = Some t \<and> isValidVersion t \<and> vouched bk true_of (pc_world p) t (fst res) p' \<and>
    (\<exists>now. dl = deadline now (WAIT_MIN args))) (\<lambda>c _. c \<in> {1, 2}) p" (is "wp _ ?Q ?E p")
proof -
  obtain t where t: "TARGET args = Some t" "isValidVersion t" using assms(1) target_given unfolding usable_def by blast
  have r: "wp (once bk env t tok) (\<lambda>res. wp (thenE (print_report bk args t res) (ret (t, tok, deadline now (WAIT_MIN args), res))) ?Q ?E) ?E q"
    if "reached bk (pc_world p) (pc_world q)" for tok now q
    by (rule wp_conseq[OF wp_once[OF t(2) assms(2) that]]) (use t in \<open>auto simp: wp_simps vouched_def intro!: wp_report\<close>)
  have "set_up bk args env = bindE (script_token bk env) (\<lambda>tok.
      bindE (gets (\<lambda>p. deadline (bk_clock bk (pc_world p)) (WAIT_MIN args))) (\<lambda>dl.
      bindE (once bk env t tok) (\<lambda>res. thenE (print_report bk args t res) (ret (t, tok, dl, res)))))"
    using assms(1) t(1) by (simp add: set_up_def usable_def)
  then show ?thesis
    by (simp only: wp_bind wp_gets) (rule wp_conseq[OF wp_token[OF here]], rule r, simp_all)
qed

lemma wp_closing:
  "wp (closing bk args t res) (\<lambda>c _. c = (if rs_complete (fst res) \<and> \<not> wrongSize args (fst res) then 0 else 1)) (\<lambda>_ _. False) p"
  by (auto simp: closing_def wp_simps intro!: wp_report)

text \<open>An exit code of zero is earned: an answer of the run was complete, true when it was given, and of the right size.\<close>

lemma exit_zero:
  assumes "verify_rollout bk args env p = Some (0, p')" "API env = base"
  shows "\<exists>t r s. TARGET args = Some t \<and> isValidVersion t \<and> reached bk (pc_world p) s \<and> true_of t s r \<and> rs_complete r \<and> \<not> wrongSize args r"
proof -
  have u: "usable args"
  proof (rule ccontr)
    assume "\<not> usable args"
    from usage_refused[OF this, of bk env p] assms(1) show False by auto
  qed
  note w = wp_set_up[OF u assms(2), of p]
  obtain a p1 where a: "set_up bk args env p = (a, p1)" by force
  obtain t tok dl res where i: "a = Inr (t, tok, dl, res)"
  proof (cases a)
    case (Inl c)
    then show thesis using wp_errD[OF w, of c p1] a assms(1) by (auto simp: verify_rollout_def)
  qed (metis prod_cases4)
  have t: "TARGET args = Some t" "isValidVersion t" "vouched bk true_of (pc_world p) t (fst res) p1"
    using wp_okD[OF w, of "(t, tok, dl, res)" p1] a i by auto
  obtain b p2 where b: "poll bk args env t tok dl res p1 = Some (b, p2)"
    using assms(1) a i by (cases "poll bk args env t tok dl res p1") (auto simp: verify_rollout_def)
  note tr = poll_true[OF b t(2) assms(2) t(3)]
  obtain res' where r: "b = Inr res'"
  proof (cases b)
    case (Inl c)
    then show thesis using tr assms(1) a i b by (auto simp: verify_rollout_def)
  qed simp
  obtain c p3 where c: "closing bk args t res' p2 = (c, p3)" by force
  have "c = Inr 0" using c assms(1) a i b r wp_closing[of args t res' p2]
    by (cases c) (auto simp: verify_rollout_def exit_code_def wp_def)
  then have "rs_complete (fst res') \<and> \<not> wrongSize args (fst res')"
    using wp_okD[OF wp_closing[of args t res' p2], of 0 p3] c by (simp split: if_splits)
  with t tr r show ?thesis by (auto simp: vouched_def)
qed

lemma run_ends:
  assumes "API env = base" "\<And>now. deadline now (WAIT_MIN args) \<noteq> PosInf"
  shows "\<exists>c p'. verify_rollout bk args env p = Some (c, p') \<and> c \<in> {0, 1, 2}"
proof (cases "usable args")
  case True
  note w = wp_set_up[OF True assms(1), of p]
  obtain a p1 where a: "set_up bk args env p = (a, p1)" by force
  show ?thesis
  proof (cases a)
    case (Inl c)
    then show ?thesis using wp_errD[OF w, of c p1] a by (auto simp: verify_rollout_def)
  next
    case (Inr x)
    obtain t tok dl res where x: "x = (t, tok, dl, res)" by (cases x) blast
    have t: "isValidVersion t" "vouched bk true_of (pc_world p) t (fst res) p1" "dl \<noteq> PosInf"
      using wp_okD[OF w, of x p1] a Inr x assms(2) by auto
    obtain b p2 where b: "poll bk args env t tok dl res p1 = Some (b, p2)" using poll_ends[OF t(1) assms(1) t(3)] by fastforce
    note tr = poll_true[OF b t(1) assms(1) t(2)]
    show ?thesis
    proof (cases b)
      case (Inl c)
      then show ?thesis using tr a \<open>a = Inr x\<close> x b by (auto simp: verify_rollout_def)
    next
      case (Inr res')
      obtain c p3 where c: "closing bk args t res' p2 = (c, p3)" by force
      then obtain n where "c = Inr n" "n \<in> {0, 1}" using wp_closing[of args t res' p2] by (cases c) (auto simp: wp_def)
      then show ?thesis using a \<open>a = Inr x\<close> x b Inr c by (auto simp: verify_rollout_def exit_code_def)
    qed
  qed
qed (use usage_refused[of args bk env p] in auto)

text \<open>And it is given: when the first answer is complete and of the right size, the script says so.\<close>

lemma zero_given:
  assumes "usable args" "TARGET args = Some t" "given (RC_TOKEN env)"
    and "bk_rollout bk (API env @ ''/api'' @ rollout_path t) (the (RC_TOKEN env)) (pc_world p) = (Body r, s)"
    and "rs_complete r" "\<forall>b. b \<noteq> Done \<longrightarrow> rs_counts r b = 0" "\<not> wrongSize args r"
  shows "\<exists>p'. verify_rollout bk args env p = Some (0, p')"
proof -
  have "get_details bk env t tok r bs = ret []" for tok bs
    using assms(6) by (induction bs) auto
  then have o: "once bk env t (the (RC_TOKEN env)) p = (Inr (r, []), p\<lparr>pc_world := s\<rparr>)"
    using assms(4) by (simp add: once_def get_json_def bindE_def ask_def ret_def)
  obtain a p1 where pr: "print_report bk args t (r, []) (p\<lparr>pc_world := s\<rparr>) = (a, p1)" by force
  have "wp (print_report bk args t (r, [])) (\<lambda>_ _. True) (\<lambda>_ _. False) (p\<lparr>pc_world := s\<rparr>)" by (rule wp_report) simp
  then obtain u where "a = Inr u" using pr by (cases a) (auto simp: wp_def)
  then have "set_up bk args env p = (Inr (t, the (RC_TOKEN env), deadline (bk_clock bk (pc_world p)) (WAIT_MIN args), (r, [])), p1)"
    using assms(1-3) o pr by (simp add: set_up_def usable_def script_token_def bindE_def ret_def gets_def thenE_def)
  moreover have "poll bk args env t tok dl (r, []) p1 = Some (Inr (r, []), p1)" for tok dl
    using assms(5) by (subst poll.simps) simp
  moreover obtain c p3 where c: "closing bk args t (r, []) p1 = (c, p3)" by force
  moreover have "c = Inr 0" using wp_closing[of args t "(r, [])" p1] c assms(5,7) by (cases c) (auto simp: wp_def)
  ultimately show ?thesis by (simp add: verify_rollout_def exit_code_def)
qed

end

lemma wait_ends:
  assumes "WAIT_MIN args \<noteq> PosInf" "\<And>q. WAIT_MIN args = Fin q \<Longrightarrow> q \<le> 2 ^ 1000"
  shows "deadline now (WAIT_MIN args) \<noteq> PosInf"
proof (cases "WAIT_MIN args")
  case (Fin q)
  have p: "(2 :: rat) ^ 1024 = 2 ^ 1000 * 2 ^ 24" by (simp only: flip: power_add) simp
  have "rnd (q * 60000) < 2 ^ 1024"
  proof (cases "0 \<le> q")
    case True
    have "rnd (q * 60000) \<le> q * 60000 * (1 + eps)" using True by (intro rnd_upper) simp
    also have "\<dots> \<le> q * 60000 * 2" using True eps_pos by (intro mult_left_mono) simp_all
    also have "\<dots> \<le> 2 ^ 1000 * 120000" using assms(2)[OF Fin] by linarith
    also have "\<dots> < 2 ^ 1000 * 2 ^ 24" by (rule mult_strict_left_mono) simp_all
    finally show ?thesis unfolding p .
  next
    case False
    then have "rnd (q * 60000) = q * 60000" by (simp add: rnd_def)
    also have "\<dots> < 0" using False by simp
    also have "0 < (2 :: rat) ^ 1024" by (rule zero_less_power) simp
    finally show ?thesis .
  qed
  then show ?thesis using Fin by (simp add: deadline_def)
qed (use assms(1) in \<open>simp_all add: deadline_def\<close>)

text \<open>
  C7 An exit code of zero means what the script promises: whatever the other services did while it waited, at
  a moment of the run an operator of a valid token saw a fleet that is not empty and of the size expected, if
  one was given, in which every device had the target version or a newer one, was online and had no problem.
\<close>

theorem rollout_verified:
  fixes ex :: "'r redis_exec"
  assumes "verify_rollout (api_backend j cfg compare ex lc (API env) others time pretty) args env p = Some (0, p')"
  shows "\<exists>t tok user w rows now w'. TARGET args = Some t \<and> isValidVersion t \<and>
    reached (api_backend j cfg compare ex lc (API env) others time pretty) (pc_world p) w \<and>
    canActivate j (Some (''Bearer '' @ tok)) = Inr user \<and> loadDashRows ex (jw_sub user) w = (Inr (rows, now), w') \<and>
    map dr_deviceId rows = visible_ids (w_db w) (jw_sub user) \<and> rows \<noteq> [] \<and>
    (\<forall>r \<in> set rows. (\<exists>v. dr_agentVer r = Some v \<and> v \<noteq> [] \<and> \<not> semverLt v t) \<and> dr_online r \<and> healthProblems r = []) \<and>
    (\<forall>e. EXPECT args = Some e \<longrightarrow> e = Fin (of_nat (length rows)))"
proof -
  obtain t r w where t: "TARGET args = Some t" "isValidVersion t"
      and w: "reached (api_backend j cfg compare ex lc (API env) others time pretty) (pc_world p) w"
      and g: "gathered_summary j ex t w r" and r: "rs_complete r" "\<not> wrongSize args r"
    using served.exit_zero[OF assms refl] by blast
  obtain tok user rows now w' where l: "canActivate j (Some (''Bearer '' @ tok)) = Inr user"
      "loadDashRows ex (jw_sub user) w = (Inr (rows, now), w')" "r = summary_of (summarizeRollout rows t now)"
    using g unfolding gathered_summary_def by blast
  have ids: "map dr_deviceId rows = visible_ids (w_db w) (jw_sub user)"
    using wp_okD[OF wp_loadDashRows l(2)] by (simp add: gathered_def)
  have "rows \<noteq> []" and d: "\<forall>r \<in> set rows. bucket_of t r = Done"
    using r(1) complete_iff[of rows t now] unfolding l(3) by (simp_all add: summary_of_def)
  have size: "rs_total r = length rows" by (simp add: l(3) summary_of_def summarizeRollout_def Let_def)
  have "\<forall>e. EXPECT args = Some e \<longrightarrow> e = Fin (of_nat (length rows))"
    using r(2) size by (auto simp: wrongSize_def)
  with t w l(1,2) ids \<open>rows \<noteq> []\<close> d[unfolded bucket_Done_iff] show ?thesis by blast
qed

text \<open>
  C8 The script ends: unless it is told to wait for ever, it comes to an exit code of 0, 1 or 2, however the
  API answers; with unusable arguments the code is 2 and nothing was asked of the API.
\<close>

theorem verify_ends:
  fixes ex :: "'r redis_exec"
  assumes "WAIT_MIN args \<noteq> PosInf" "\<And>q. WAIT_MIN args = Fin q \<Longrightarrow> q \<le> 2 ^ 1000"
  shows "\<exists>c p'. verify_rollout (api_backend j cfg compare ex lc (API env) others time pretty) args env p = Some (c, p') \<and> c \<in> {0, 1, 2} \<and>
    (\<not> usable args \<longrightarrow> c = 2 \<and> pc_world p' = pc_world p)"
  using served.run_ends[where env = env and args = args and j = j and cfg = cfg and compare = compare and ex = ex and lc = lc and others = others and time = time and pretty = pretty and p = p, OF refl wait_ends[OF assms]]
    usage_refused[of args "api_backend j cfg compare ex lc (API env) others time pretty" env p]
  by (cases "usable args") auto

text \<open>A fleet of one device on version 1.4.6, online and healthy; its agent is too old to send hardware figures.\<close>

definition rollout_world :: "mem world" where
  "rollout_world = (demo_world (Map.empty(key_string (KDevice ''d1'') := Some (RHash [(''online'', ''1'')], None))))
     \<lparr>w_db := demo_db\<lparr>tb_caps := [(''d1'', demo_caps\<lparr>cp_agentVer := ''1.4.6''\<rparr>)]\<rparr>\<rparr>"

definition rollout_env :: environ where
  "rollout_env = \<lparr>RC_API_URL = Some ''http://rc/'', RC_TOKEN = Some (jt_sign plain_jwt (operator_claims 1 (demo_operator ''admin'' ''admin'')) (Fin 60) ''operator''),
     RC_USER = None, RC_PASSWORD = None\<rparr>"

definition rollout_api :: "mem world backend" where
  "rollout_api = api_backend plain_jwt mdm_config (\<lambda>_ _. None) mem_redis code_unit_order (API rollout_env) (\<lambda>w. w) (\<lambda>_. []) (\<lambda>_ _ _. [])"

definition rollout_args :: "string list" where
  "rollout_args = [''--target'', ''1.4.6'', ''--json'']"

definition verify_start :: "mem world process" where
  "verify_start = \<lparr>pc_world = rollout_world, pc_out = [], pc_err = []\<rparr>"

lemma rollout_run: "\<exists>p'. verify_rollout rollout_api rollout_args rollout_env verify_start = Some (0, p')"
proof -
  have tv: "TARGET rollout_args = Some ''1.4.6''" "EXPECT rollout_args = None"
    by (simp_all add: rollout_args_def TARGET_def EXPECT_def opt_def)
  have v: "isValidVersion ''1.4.6''" by code_simp
  have "usable rollout_args" using tv v by (simp add: usable_def good_expect_def rollout_args_def names_credentials_def)
  moreover have "given (RC_TOKEN rollout_env)"
    by (simp add: given_def rollout_env_def plain_jwt_def write_field_def)
  ultimately have u: "usable rollout_args" "TARGET rollout_args = Some ''1.4.6''" "given (RC_TOKEN rollout_env)" "EXPECT rollout_args = None"
    "isValidVersion ''1.4.6''" using tv v by blast+
  have "case loadDashRows mem_redis 1 rollout_world of
      (Inr (rows, now), _) \<Rightarrow> list_all (\<lambda>r. bucket_of ''1.4.6'' r = Done) rows \<and> rows \<noteq> [] | _ \<Rightarrow> False"
    by code_simp
  then obtain rows now w' where l: "loadDashRows mem_redis 1 rollout_world = (Inr (rows, now), w')"
      and d: "\<forall>r \<in> set rows. bucket_of ''1.4.6'' r = Done" "rows \<noteq> []"
    by (auto simp: list_all_iff split: prod.splits sum.splits)
  let ?r = "summary_of (summarizeRollout rows ''1.4.6'' now)"
  have "case canActivate plain_jwt (Some (''Bearer '' @ the (RC_TOKEN rollout_env))) of Inr c \<Rightarrow> jw_sub c = 1 | _ \<Rightarrow> False"
    by code_simp
  then obtain c where c: "canActivate plain_jwt (Some (''Bearer '' @ the (RC_TOKEN rollout_env))) = Inr c" "jw_sub c = 1"
    by (auto split: sum.splits)
  have "bk_rollout rollout_api (API rollout_env @ ''/api'' @ rollout_path ''1.4.6'') (the (RC_TOKEN rollout_env)) rollout_world = (Body ?r, w')"
    using route_of_path[of "API rollout_env" "''1.4.6''"] l c u(5)
    by (simp add: rollout_api_def api_backend_def serve_arg_def route_rollout_def guarded_def fleet_rollout_def bindE_def ret_def
        http_reply_def target_of_def Let_def)
  moreover have "rs_complete ?r" using d complete_iff[of rows "''1.4.6''" now] by (simp add: summary_of_def)
  moreover have "\<forall>b. b \<noteq> Done \<longrightarrow> rs_counts ?r b = 0" using d by (simp add: summary_of_def bucket_count)
  moreover have "\<not> wrongSize rollout_args ?r" by (simp add: wrongSize_def u(4))
  ultimately show ?thesis
    using served.zero_given[OF u(1-3), of plain_jwt mdm_config "\<lambda>_ _. None" mem_redis code_unit_order "API rollout_env"
        "\<lambda>w. w" "\<lambda>_. []" "\<lambda>_ _ _. []" verify_start ?r w']
    by (simp add: verify_start_def flip: rollout_api_def)
qed

theorem rollout_verified_witness:
  "\<exists>w user rows now w'. reached rollout_api rollout_world w \<and> loadDashRows mem_redis user w = (Inr (rows, now), w') \<and>
     rows \<noteq> [] \<and> list_all dr_online rows"
proof -
  obtain p' where "verify_rollout rollout_api rollout_args rollout_env verify_start = Some (0, p')" using rollout_run by blast
  then have run: "verify_rollout (api_backend plain_jwt mdm_config (\<lambda>_ _. None) mem_redis code_unit_order (API rollout_env)
      (\<lambda>w. w) (\<lambda>_. []) (\<lambda>_ _ _. [])) rollout_args rollout_env verify_start = Some (0, p')"
    unfolding rollout_api_def .
  from rollout_verified[OF run, folded rollout_api_def] obtain user :: operator_jwt and w rows now w'
    where "reached rollout_api (pc_world verify_start) w" "loadDashRows mem_redis (jw_sub user) w = (Inr (rows, now), w')"
      "rows \<noteq> []" "\<forall>r \<in> set rows. dr_online r"
    by blast
  then show ?thesis unfolding list_all_iff verify_start_def process.simps by blast
qed

theorem verify_ends_witness:
  "\<exists>c p'. verify_rollout rollout_api [''--target'', ''1.4.6'', ''--wait''] rollout_env verify_start = Some (c, p') \<and> c \<in> {0, 1, 2}"
proof -
  have "WAIT_MIN [''--target'', ''1.4.6'', ''--wait''] = NaN" by (simp add: WAIT_MIN_def opt_def number_of_def)
  then show ?thesis unfolding rollout_api_def using verify_ends[of "[''--target'', ''1.4.6'', ''--wait'']"] by fastforce
qed

section \<open>Where the script says more than it checks\<close>

text \<open>Without a value, \<open>--expect\<close> is no expectation: the size of the fleet is not checked.\<close>

lemma expect_without_value: "EXPECT [''--target'', ''1.4.6'', ''--expect''] = None"
  by (simp add: EXPECT_def opt_def)

text \<open>An answer that is no JSON ends the script with code 1, that of a rollout not finished, instead of 2.\<close>

lemma garbled_answer:
  assumes "usable args" "TARGET args = Some t" "given (RC_TOKEN env)"
    and "bk_rollout bk (API env @ ''/api'' @ rollout_path t) (the (RC_TOKEN env)) (pc_world p) = (BadBody, s)"
  shows "verify_rollout bk args env p = Some (1, p\<lparr>pc_world := s\<rparr>)"
  using assms by (simp add: verify_rollout_def set_up_def usable_def script_token_def once_def get_json_def bindE_def ask_def ret_def
      gets_def raise_def)

end
