(* ===== verification/Routes.thy ===== *)
theory Routes
  imports Verify HwApi Sessions
begin

text \<open>
  The surface of the API: the controllers of \<open>apps/rc-api/src\<close> (\<open>devices.controller.ts\<close>, \<open>sessions.controller.ts\<close>,
  \<open>fleet.controller.ts\<close>, \<open>auth.controller.ts\<close>). Each route passes what it is given to a service, behind the guard
  where its class or method has one. What holds of every request: without a token nothing happens, a device is
  only acted on by an operator who may, and a reading route changes nothing.
\<close>

section \<open>Requests and answers\<close>

text \<open>
  The routes with their parameters. The values a service draws itself (ids, nonces, the outcome of the push
  message) come with the request; numbers in the query are text.
\<close>

datatype api_request =
    ListDevices list_params
  | GetDevice string
  | HwSamples string "string option" "string option"
  | ConnHistory string "string option"
  | HwEvents string "string option"
  | HwDump string string "jsnum option"
  | ProbeDevice string
  | SelfHealDevice string
  | RemoveDevice string
  | StartSession start_input string "string option" "string option"
  | CloseSession string
  | ListSessions session_filter
  | FleetHealth
  | FleetDashboard
  | FleetRollout "string option"
  | FleetList string
  | FleetConnections "string option"
  | Me
  | Login string string
  | LoginSso string string
  | LoginHmdm string

datatype api_answer =
    DeviceItems "device_dto list" | DeviceItem device_dto | SampleItems "json list" | History conn_history
  | EventItems "hw_event_dto list" | Dumped dump_outcome | Probed bool readiness | Done_ok
  | SessionStarted start_result | SessionItems "(string \<times> session_row) list"
  | Health nat health_acc | DashboardAnswer dashboard "(string \<times> string) list" | RolloutAnswer rollout_summary
  | ListAnswer list_answer | ConnectionsAnswer int "reason_count list" "top_device list"
  | MeAnswer "me_row option" | SignedIn string user_info

record ('r, 'h) api_env =
  ae_redis :: "'r redis_exec"
  ae_jwt :: jwt
  ae_config :: config
  ae_compare :: "string \<Rightarrow> string \<Rightarrow> bool option"
  ae_fetch :: "'h fetch"
  ae_serial :: "int list \<Rightarrow> int"
  ae_conv :: conv
  ae_intOf :: "json \<Rightarrow> int option"
  ae_localeCompare :: "string \<Rightarrow> string \<Rightarrow> int"
  ae_hint :: "string \<Rightarrow> string option"
  ae_sign :: jwt_sign
  ae_sessions :: session_cfg

text \<open>\<open>v ? Number(v) : undefined\<close>\<close>

definition query_number :: "string option \<Rightarrow> jsnum option" where
  "query_number v = (if given v then Some (to_number_str (the v)) else None)"

definition entry_point_of :: "string option \<Rightarrow> string" where
  "entry_point_of e = (case e of None \<Rightarrow> ''rc_console'' | Some s \<Rightarrow> s)"

section \<open>The controllers\<close>

definition sent_as :: "('a \<Rightarrow> api_answer) \<Rightarrow> ('r, 'a) handler \<Rightarrow> ('r, api_answer) handler" where
  "sent_as f m = bindE m (\<lambda>a. ret (f a))"

definition devices_controller :: "('r, 'h) api_env \<Rightarrow> api_request \<Rightarrow> int \<Rightarrow> ('r, api_answer) handler option" where
  "devices_controller env rq op = (let ex = ae_redis env in case rq of
      ListDevices q \<Rightarrow> Some (sent_as DeviceItems (list_devices ex q op))
    | GetDevice dev \<Rightarrow> Some (sent_as DeviceItem (get_device ex dev op))
    | HwSamples dev minutes limit \<Rightarrow> Some (sent_as SampleItems (hw_samples dev op (query_number minutes) (query_number limit)))
    | ConnHistory dev hours \<Rightarrow> Some (sent_as History (conn_device (ae_hint env) dev op (query_number hours)))
    | HwEvents dev limit \<Rightarrow> Some (sent_as EventItems (hw_events dev op (query_number limit)))
    | HwDump nonce dev n \<Rightarrow> Some (sent_as Dumped (hw_dump ex nonce dev op n))
    | ProbeDevice dev \<Rightarrow> Some (sent_as (\<lambda>(up, r). Probed up r) (probe_device ex dev op))
    | SelfHealDevice dev \<Rightarrow> Some (sent_as (\<lambda>_. Done_ok) (selfheal dev op))
    | RemoveDevice dev \<Rightarrow> Some (sent_as (\<lambda>_. Done_ok) (remove_device ex dev op))
    | _ \<Rightarrow> None)"

definition sessions_controller :: "('r, 'h) api_env \<Rightarrow> api_request \<Rightarrow> int \<Rightarrow> ('r, api_answer) handler option" where
  "sessions_controller env rq op = (let ex = ae_redis env in case rq of
      StartSession inp dev entry ip \<Rightarrow>
        Some (sent_as SessionStarted (start ex (ae_sign env) (ae_sessions env) inp dev op (entry_point_of entry) ip))
    | CloseSession sid \<Rightarrow> Some (sent_as (\<lambda>_. Done_ok) (close_session ex sid op))
    | ListSessions f \<Rightarrow> Some (sent_as SessionItems (list_sessions f))
    | _ \<Rightarrow> None)"

definition fleet_controller :: "('r, 'h) api_env \<Rightarrow> api_request \<Rightarrow> int \<Rightarrow> ('r, api_answer) handler option" where
  "fleet_controller env rq op = (let ex = ae_redis env in case rq of
      FleetHealth \<Rightarrow> Some (sent_as (\<lambda>(n, h). Health n h) (fleet_health ex))
    | FleetDashboard \<Rightarrow> Some (sent_as (\<lambda>(d, names). DashboardAnswer d names) (fleet_dashboard ex (ae_localeCompare env) op))
    | FleetRollout target \<Rightarrow> Some (sent_as RolloutAnswer (fleet_rollout ex op target))
    | FleetList key \<Rightarrow> Some (sent_as ListAnswer (dashboardList ex (ae_localeCompare env) op key))
    | FleetConnections hours \<Rightarrow>
        Some (sent_as (\<lambda>(h, rs, ts). ConnectionsAnswer h rs ts) (connections (ae_hint env) op (query_number hours)))
    | _ \<Rightarrow> None)"

definition me_controller :: "api_request \<Rightarrow> int \<Rightarrow> ('r, api_answer) handler option" where
  "me_controller rq op = (case rq of Me \<Rightarrow> Some (sent_as MeAnswer (me op)) | _ \<Rightarrow> None)"

definition auth_controller :: "('r, 'h) api_env \<Rightarrow> api_request \<Rightarrow> ('r, 'h, string \<times> user_info) net option" where
  "auth_controller env rq = (case rq of
      Login username password \<Rightarrow> Some (lift_net (login (ae_jwt env) (ae_config env) (ae_compare env) username password))
    | LoginSso tok dev \<Rightarrow> Some (loginSso (ae_jwt env) (ae_config env) (ae_fetch env) (ae_serial env) (ae_conv env) tok dev)
    | LoginHmdm tok \<Rightarrow> Some (loginHmdm (ae_jwt env) (ae_config env) (ae_fetch env) (ae_serial env) (ae_conv env) (ae_intOf env) tok)
    | _ \<Rightarrow> None)"

fun first_some :: "'a option list \<Rightarrow> 'a option" where
  "first_some [] = None"
| "first_some (x # xs) = (case x of None \<Rightarrow> first_some xs | Some a \<Rightarrow> Some a)"

text \<open>The routes behind the guard, for the operator of a token.\<close>

definition guarded_routes :: "('r, 'h) api_env \<Rightarrow> api_request \<Rightarrow> int \<Rightarrow> ('r, api_answer) handler" where
  "guarded_routes env rq op = (case first_some [devices_controller env rq op, sessions_controller env rq op,
      fleet_controller env rq op, me_controller rq op] of
      None \<Rightarrow> raise NotFound | Some h \<Rightarrow> h)"

definition api_serve :: "('r, 'h) api_env \<Rightarrow> api_request \<Rightarrow> string option \<Rightarrow> ('r, 'h, api_answer) net" where
  "api_serve env rq authorization = (case auth_controller env rq of
      Some m \<Rightarrow> bindE m (\<lambda>(tok, user). ret (SignedIn tok user))
    | None \<Rightarrow> lift_net (guarded (ae_jwt env) authorization (guarded_routes env rq)))"

section \<open>Kinds of requests\<close>

definition open_route :: "api_request \<Rightarrow> bool" where
  "open_route rq = (case rq of Login _ _ \<Rightarrow> True | LoginSso _ _ \<Rightarrow> True | LoginHmdm _ \<Rightarrow> True | _ \<Rightarrow> False)"

text \<open>The device a request names, and the routes of \<open>GET\<close>.\<close>

definition names_device :: "api_request \<Rightarrow> string option" where
  "names_device rq = (case rq of GetDevice d \<Rightarrow> Some d | HwSamples d _ _ \<Rightarrow> Some d | ConnHistory d _ \<Rightarrow> Some d | HwEvents d _ \<Rightarrow> Some d
     | HwDump _ d _ \<Rightarrow> Some d | ProbeDevice d \<Rightarrow> Some d | SelfHealDevice d \<Rightarrow> Some d | RemoveDevice d \<Rightarrow> Some d
     | StartSession _ d _ _ \<Rightarrow> Some d | _ \<Rightarrow> None)"

definition is_get :: "api_request \<Rightarrow> bool" where
  "is_get rq = (case rq of ListDevices _ \<Rightarrow> True | GetDevice _ \<Rightarrow> True | HwSamples _ _ _ \<Rightarrow> True | ConnHistory _ _ \<Rightarrow> True
     | HwEvents _ _ \<Rightarrow> True | ListSessions _ \<Rightarrow> True | FleetHealth \<Rightarrow> True | FleetDashboard \<Rightarrow> True | FleetRollout _ \<Rightarrow> True
     | FleetList _ \<Rightarrow> True | FleetConnections _ \<Rightarrow> True | Me \<Rightarrow> True | _ \<Rightarrow> False)"

section \<open>Access comes first\<close>

text \<open>A handler that returns only to operators with access to the device.\<close>

definition asks_access :: "int \<Rightarrow> string \<Rightarrow> ('r, 'a) handler \<Rightarrow> bool" where
  "asks_access op dev m \<longleftrightarrow> (\<forall>w a w'. m w = (Inr a, w') \<longrightarrow> has_access (w_db w) op dev)"

lemma asks_wp: "(\<And>w. wp m (\<lambda>_ _. has_access (w_db w) op dev) (\<lambda>_ _. True) w) \<Longrightarrow> asks_access op dev m"
  unfolding asks_access_def by (meson wp_okD)

lemma wp_true: "wp m (\<lambda>_ _. True) (\<lambda>_ _. True) w"
  by (simp add: wp_def split: prod.split sum.split)

lemma wp_const: "P \<Longrightarrow> wp m (\<lambda>_ _. P) (\<lambda>_ _. True) w"
  by (rule wp_conseq[OF wp_true]) simp_all

lemma asks_group: "asks_access op dev (thenE (assertGroupAccess op dev) m)"
proof (rule asks_wp)
  fix w :: "'a world"
  have "wp (assertGroupAccess op dev) (\<lambda>_ _. has_access (w_db w) op dev) (\<lambda>_ _. True) w"
    unfolding assertGroupAccess_def wp_simps by (rule wp_pg_read) (auto simp: wp_simps)
  then show "wp (thenE (assertGroupAccess op dev) m) (\<lambda>_ _. has_access (w_db w) op dev) (\<lambda>_ _. True) w"
    unfolding wp_then by (rule wp_conseq) (simp_all add: wp_const)
qed

lemma asks_device: "asks_access op dev (thenE (assertDevice dev op) m)"
proof (rule asks_wp)
  fix w :: "'a world"
  have "wp (assertDevice dev op) (\<lambda>_ _. has_access (w_db w) op dev) (\<lambda>_ _. True) w"
    by (rule wp_assertDevice) simp_all
  then show "wp (thenE (assertDevice dev op) m) (\<lambda>_ _. has_access (w_db w) op dev) (\<lambda>_ _. True) w"
    unfolding wp_then by (rule wp_conseq) (simp_all add: wp_const)
qed

lemma asks_sent: "asks_access op dev m \<Longrightarrow> asks_access op dev (sent_as f m)"
  unfolding asks_access_def sent_as_def by (auto simp: bindE_def ret_def split: prod.splits sum.splits)

lemma asks_read:
  fixes f :: "'q \<Rightarrow> ('r, 'a) handler"
  assumes "\<And>a. asks_access op dev (f a)"
  shows "asks_access op dev (bindE (pg_read g) f)"
proof (rule asks_wp)
  fix w :: "'r world"
  have "wp (f a) (\<lambda>_ _. has_access (w_db w) op dev) (\<lambda>_ _. True) (w\<lparr>w_pgFaults := fs\<rparr>)" for a fs
  proof -
    obtain r w' where r: "f a (w\<lparr>w_pgFaults := fs\<rparr>) = (r, w')" by force
    show ?thesis
    proof (cases r)
      case (Inr b)
      have "has_access (w_db (w\<lparr>w_pgFaults := fs\<rparr>)) op dev" using assms[of a] r[unfolded Inr] unfolding asks_access_def by blast
      then show ?thesis using r Inr by (simp add: wp_def)
    qed (use r in \<open>simp add: wp_def\<close>)
  qed
  then show "wp (bindE (pg_read g) f) (\<lambda>_ _. has_access (w_db w) op dev) (\<lambda>_ _. True) w"
    unfolding wp_bind by (intro wp_pg_read) simp_all
qed

lemma asks_remove: "asks_access op dev (remove_device ex dev op)"
proof -
  have "asks_access op dev (if \<not> found then raise NotFound else thenE (assertGroupAccess op dev) m)" for found and m :: "('a, unit) handler"
    by (simp add: asks_group) (simp add: asks_access_def raise_def)
  then show ?thesis unfolding remove_device_def by (rule asks_read)
qed

lemma asks_routes:
  "names_device rq = Some dev \<Longrightarrow> asks_access op dev (guarded_routes env rq op)"
  by (cases rq) (simp_all add: names_device_def guarded_routes_def devices_controller_def sessions_controller_def Let_def
      asks_sent asks_group asks_device asks_remove get_device_def hw_samples_def conn_device_def hw_events_def hw_dump_def probe_device_def
      selfheal_def start_def)

section \<open>Reading routes\<close>

text \<open>What a request of \<open>GET\<close> keeps: every table, every key of Redis, the clock; and it publishes nothing.\<close>

context redis_service
begin

lemma frame_pipe: "list_all (\<lambda>c. cmd_writes c = []) cs \<Longrightarrow> Frames.frame peek v {} {} (pipe ex cs)"
proof (induction cs)
  case (Cons c cs)
  have "stays peek v {} {} w (w\<lparr>w_redis := snd (ex c (w_redis w))\<rparr>)" for w :: "'r world"
  proof -
    obtain rep r where e: "ex c (w_redis w) = (rep, r)" by force
    then have "peek r k = peek (w_redis w) k" for k using frame[of k c "w_redis w"] Cons.prems by simp
    then show ?thesis by (simp add: stays_def e)
  qed
  note step = this
  show ?case unfolding kept_by_def
  proof
    fix w :: "'r world"
    obtain rep r where e: "ex c (w_redis w) = (rep, r)" by force
    obtain res w' where p: "pipe ex cs (w\<lparr>w_redis := r\<rparr>) = (res, w')" by force
    have "stays peek v {} {} (w\<lparr>w_redis := r\<rparr>) w'" using kept_byD[OF Cons.IH p] Cons.prems by simp
    from stays_trans[OF step[of w, unfolded e snd_conv] this]
    show "stays peek v {} {} w (snd (pipe ex (c # cs) w))"
      using e p by (cases res) (simp_all add: bindE_def ret_def)
  qed
qed (simp add: kept_by_def ret_def)

lemma frame_live: "Frames.frame peek v {} {} (live_hashes ex rows)"
  unfolding live_hashes_def by (intro frame_intros frame_pipe) (simp add: list_all_iff cmd_writes_def)

end

lemma frame_group [frame_intros]: "frame peek v {} {} (assertGroupAccess op dev)"
  unfolding assertGroupAccess_def by (intro frame_intros)

lemma frame_device [frame_intros]: "frame peek v {} {} (assertDevice dev op)"
  unfolding assertDevice_def by (intro frame_intros)

lemma frame_since [frame_intros]: "frame peek v {} {} (pg_since f)"
  using frame_read by (fastforce simp: kept_by_def pg_since_def)

lemma frame_stats: "frame peek v {} {} (pg (sql_stats dev since))"
  by (rule frame_pg) (auto simp: sql_stats_def Let_def split: option.splits)

lemma frame_or_throw [frame_intros]: "frame peek v {} {} (or_throw x)"
  unfolding or_throw_def by (intro frame_intros)

context redis_service
begin

lemma frame_rows: "Frames.frame peek v {} {} (loadDashRows ex op)"
  unfolding loadDashRows_def by (intro frame_intros frame_live)

lemma frame_reads:
  "Frames.frame peek v {} {} (list_devices ex q op)" "Frames.frame peek v {} {} (get_device ex dev op)"
  "Frames.frame peek v {} {} (fleet_health ex)" "Frames.frame peek v {} {} (fleet_dashboard ex lc op)"
  "Frames.frame peek v {} {} (fleet_rollout ex op target)" "Frames.frame peek v {} {} (dashboardList ex lc op key)"
  unfolding list_devices_def get_device_def fleet_health_def fleet_dashboard_def fleet_rollout_def dashboardList_def rolloutList_def Let_def
  by (intro frame_intros frame_rows frame_live frame_calls frame_pipe; simp add: list_all_iff cmd_writes_def)+

end

lemma frame_queries:
  "frame peek v {} {} (hw_samples dev op minutes limit)" "frame peek v {} {} (hw_events dev op limit)"
  "frame peek v {} {} (conn_device hint dev op hours)" "frame peek v {} {} (connections hint op hours)"
  "frame peek v {} {} (list_sessions f)" "frame peek v {} {} (me i)"
  unfolding hw_samples_def hw_events_def conn_device_def connections_def list_sessions_def me_def Let_def
  by (intro frame_intros frame_stats)+

lemma frame_sent: "frame peek v {} {} m \<Longrightarrow> frame peek v {} {} (sent_as f m)"
  unfolding sent_as_def by (intro frame_intros)

lemma reading_routes:
  assumes "redis_service (ae_redis env) peek" "is_get rq"
  shows "frame peek (\<lambda>d. d) {} {} (guarded_routes env rq op)"
  using assms(2)
  by (cases rq) (simp_all add: is_get_def guarded_routes_def devices_controller_def sessions_controller_def fleet_controller_def
      me_controller_def Let_def frame_sent frame_queries redis_service.frame_reads[OF assms(1)])

section \<open>Properties\<close>


text \<open>
  C10 Reading changes nothing: a request of \<open>GET\<close>, answered or refused, leaves every table, every key of Redis
  and the MDM as they are and publishes no message.
\<close>

theorem get_changes_nothing:
  assumes "redis_service (ae_redis env) peek" "is_get rq" "api_serve env rq authorization (w, s) = (r, w', s')"
  shows "w_db w' = w_db w \<and> peek (w_redis w') = peek (w_redis w) \<and> w_mqtt w' = w_mqtt w \<and> s' = s"
proof -
  have "auth_controller env rq = None" using assms(2) by (cases rq) (simp_all add: is_get_def auth_controller_def)
  then have run: "lift_net (guarded (ae_jwt env) authorization (guarded_routes env rq)) (w, s) = (r, w', s')"
    using assms(3) by (simp add: api_serve_def)
  have "frame peek (\<lambda>d. d) {} {} (guarded (ae_jwt env) authorization (guarded_routes env rq))"
    using reading_routes[OF assms(1,2)] by (auto simp: guarded_def intro: frame_intros split: sum.split)
  moreover obtain x where "guarded (ae_jwt env) authorization (guarded_routes env rq) w = (x, w')" "s' = s"
    using run by (auto simp: lift_net_def split: prod.splits)
  ultimately show ?thesis using kept_byD by (fastforce simp: stays_def fun_eq_iff)
qed

definition demo_api :: "(mem, unit) api_env" where
  "demo_api = \<lparr>ae_redis = mem_redis, ae_jwt = plain_jwt, ae_config = mdm_config, ae_compare = (\<lambda>p h. Some (p = h)), ae_fetch = mdm_server,
     ae_serial = max_serial, ae_conv = pg_conv, ae_intOf = (\<lambda>_. Some 1), ae_localeCompare = code_unit_order, ae_hint = (\<lambda>_. None),
     ae_sign = (\<lambda>_ _. []), ae_sessions = \<lparr>sc_hmdmBase = [], sc_relayNode = ''n1'', sc_wsScheme = ''ws'', sc_publicHost = ''rc'', sc_agentTtl = 60\<rparr>\<rparr>"

definition bearer :: "int \<Rightarrow> string \<Rightarrow> string \<Rightarrow> string option" where
  "bearer op name role = Some (''Bearer '' @ jt_sign plain_jwt (operator_claims op (demo_operator name role)) (Fin 60) ''operator'')"


theorem get_changes_nothing_witness:
  "\<forall>s. w_db (fst (snd (api_serve demo_api (GetDevice ''d1'') (bearer 1 ''admin'' ''admin'') (demo_world Map.empty, s)))) = demo_db"
proof
  fix s :: "unit mdm"
  obtain r w' s' where run: "api_serve demo_api (GetDevice ''d1'') (bearer 1 ''admin'' ''admin'') (demo_world Map.empty, s) = (r, w', s')"
    by (metis prod_cases3)
  have "redis_service (ae_redis demo_api) snd" by (simp add: demo_api_def mem.redis_service_axioms)
  from get_changes_nothing[OF this _ run] run
  show "w_db (fst (snd (api_serve demo_api (GetDevice ''d1'') (bearer 1 ''admin'' ''admin'') (demo_world Map.empty, s)))) = demo_db"
    by (simp add: is_get_def demo_world_def)
qed

section \<open>What the guard leaves open\<close>

text \<open>
  The audit of all sessions is for everyone with a token: the route has no operator to ask about, and an
  operator without access to any device reads the sessions of all.
\<close>

lemma sessions_for_everyone: "guarded_routes env (ListSessions f) op = guarded_routes env (ListSessions f) op'"
  by (simp add: guarded_routes_def devices_controller_def sessions_controller_def)

text \<open>So is the health of the fleet, with the devices of every group counted.\<close>

lemma health_for_everyone: "guarded_routes env FleetHealth op = guarded_routes env FleetHealth op'"
  by (simp add: guarded_routes_def devices_controller_def sessions_controller_def fleet_controller_def)

end
