(* ===== verification/Browser.thy ===== *)
theory Browser
  imports Uri Doubles Json
begin

text \<open>
  The console around its pages: the API client (\<open>apps/rc-web/src/api.ts\<close>), the way in (\<open>App.tsx\<close>,
  \<open>SsoGate.tsx\<close>, \<open>pages/Login.tsx\<close>), the loading of the hardware page and of the device list
  (\<open>pages/Hw.tsx\<close>, \<open>pages/Devices.tsx\<close>), and the pointer (\<open>lib/pointer.ts\<close>). What the user and the network
  do are events; the order of the answers is theirs.
\<close>

section \<open>The API client\<close>

record api_call =
  ac_url :: string
  ac_method :: string
  ac_headers :: "(string \<times> string) list"
  ac_body :: "json option"

text \<open>\<open>Headers.set\<close>, on names in lower case.\<close>

definition set_header :: "string \<Rightarrow> string \<Rightarrow> (string \<times> string) list \<Rightarrow> (string \<times> string) list" where
  "set_header k v hs = AList.update k v hs"

definition signed_in_as :: "string option \<Rightarrow> bool" where
  "signed_in_as tok = (tok \<noteq> None \<and> tok \<noteq> Some [])"

definition api_call_of :: "string option \<Rightarrow> string \<Rightarrow> string \<Rightarrow> (string \<times> string) list \<Rightarrow> json option \<Rightarrow> api_call" where
  "api_call_of tok path method headers body =
     (let hs = set_header ''content-type'' ''application/json'' headers
      in \<lparr>ac_url = ''/api'' @ path, ac_method = method,
          ac_headers = (if signed_in_as tok then set_header ''authorization'' (''Bearer '' @ the tok) hs else hs), ac_body = body\<rparr>)"

text \<open>What comes back: an answer, with its body when it is JSON, or nothing. What the caller sees: a value or an error.\<close>

datatype response = Lost string | Response nat string "json option"

datatype api_error = Network string | NotJson | NoObject | Refusal string nat json

record browser =
  br_token :: "string option"
  br_location :: "string option"

definition clearToken :: "browser \<Rightarrow> browser" where
  "clearToken b = b\<lparr>br_token := None\<rparr>"

definition error_text :: "string \<Rightarrow> json \<Rightarrow> string" where
  "error_text statusText body = (case oget body ''code'' of
      None \<Rightarrow> statusText | Some c \<Rightarrow> if c = JNull then statusText else to_str c)"

definition on_status :: "string \<Rightarrow> nat \<Rightarrow> browser \<Rightarrow> browser" where
  "on_status path status b =
     (if status = 401 then
        (if prefix ''/auth/'' path then clearToken b else (clearToken b)\<lparr>br_location := Some ''/login''\<rparr>)
      else b)"

definition api_settle :: "string \<Rightarrow> response \<Rightarrow> browser \<Rightarrow> (api_error + json) \<times> browser" where
  "api_settle path r b = (case r of
      Lost msg \<Rightarrow> (Inl (Network msg), b)
    | Response status statusText body \<Rightarrow>
        (if 200 \<le> status \<and> status \<le> 299
         then (case body of None \<Rightarrow> Inl NotJson | Some j \<Rightarrow> Inr j)
         else let j = (case body of None \<Rightarrow> JObj [] | Some j \<Rightarrow> j)
           in Inl (if j = JNull then NoObject else Refusal (error_text statusText j) status j),
         on_status path status b))"

section \<open>The way in\<close>

text \<open>\<open>Guard\<close>: without a token, to the login page, which is told where to go afterwards.\<close>

definition guard_redirect :: "string option \<Rightarrow> string \<Rightarrow> string \<Rightarrow> string option" where
  "guard_redirect tok pathname search = (if signed_in_as tok then None
     else Some (''/login?next='' @ encodeURIComponent (pathname @ search)))"

text \<open>\<open>URLSearchParams.get\<close>: the parameters between ampersands, a plus sign for a space.\<close>

definition form_decode :: "string \<Rightarrow> string option" where
  "form_decode s = decodeURIComponent (map (\<lambda>c. if c = CHR ''+'' then CHR '' '' else c) s)"

definition param_parts :: "string \<Rightarrow> string \<times> string" where
  "param_parts p = (takeWhile (\<lambda>c. c \<noteq> CHR ''='') p, drop 1 (dropWhile (\<lambda>c. c \<noteq> CHR ''='') p))"

fun split_amp :: "string \<Rightarrow> string list" where
  "split_amp [] = [[]]"
| "split_amp (c # s) = (if c = CHR ''&'' then [] # split_amp s else (c # hd (split_amp s)) # tl (split_amp s))"

definition search_param :: "string \<Rightarrow> string \<Rightarrow> string option" where
  "search_param name search =
     (case find (\<lambda>p. form_decode (fst p) = Some name)
        (map param_parts (filter (\<lambda>p. p \<noteq> []) (split_amp (if prefix ''?'' search then drop 1 search else search)))) of
       None \<Rightarrow> None | Some (k, v) \<Rightarrow> form_decode v)"

definition login_next :: "string \<Rightarrow> string" where
  "login_next search = (case search_param ''next'' search of None \<Rightarrow> ''/devices'' | Some s \<Rightarrow> if s = [] then ''/devices'' else s)"

text \<open>
  The gate of the deep link. The exchanges are shared by every effect of the page, one for each token; an
  effect that was cleaned up is no longer active. \<open>Callback\<close> is the continuation of an effect on its exchange.
\<close>

record gate_effect =
  ge_token :: string
  ge_device :: string
  ge_active :: bool
  ge_called :: bool
  ge_failed :: bool

record gate =
  ga_exchanges :: "(string \<times> (unit + string) option) list"
  ga_sent :: "(string \<times> string) list"
  ga_effects :: "gate_effect list"
  ga_signedIn :: "(string \<times> string) list"

definition exchange :: "string \<Rightarrow> string \<Rightarrow> gate \<Rightarrow> gate" where
  "exchange tok dev g = (if map_of (ga_exchanges g) tok \<noteq> None then g
     else g\<lparr>ga_exchanges := (tok, None) # ga_exchanges g, ga_sent := ga_sent g @ [(tok, dev)]\<rparr>)"

definition gate_mount :: "string \<Rightarrow> string \<Rightarrow> gate \<Rightarrow> gate" where
  "gate_mount tok dev g = (if tok = [] then g
     else (exchange tok dev g)\<lparr>ga_effects := ga_effects g @
       [\<lparr>ge_token = tok, ge_device = dev, ge_active = True, ge_called = False, ge_failed = False\<rparr>]\<rparr>)"

definition upd_gate :: "nat \<Rightarrow> (gate_effect \<Rightarrow> gate_effect) \<Rightarrow> gate \<Rightarrow> gate" where
  "upd_gate i f g = (if i < length (ga_effects g) then g\<lparr>ga_effects := (ga_effects g)[i := f (ga_effects g ! i)]\<rparr> else g)"

definition device_page :: "string \<Rightarrow> string" where
  "device_page dev = ''/d/'' @ encodeURIComponent dev"

definition gate_callback :: "nat \<Rightarrow> gate \<Rightarrow> gate" where
  "gate_callback i g = (if length (ga_effects g) \<le> i then g else
     (let e = ga_effects g ! i in
      if ge_called e then g
      else case map_of (ga_exchanges g) (ge_token e) of
          Some (Some r) \<Rightarrow> (let g1 = upd_gate i (\<lambda>e. e\<lparr>ge_called := True\<rparr>) g in
            if \<not> ge_active e then g1
            else (case r of
                Inl _ \<Rightarrow> upd_gate i (\<lambda>e. e\<lparr>ge_failed := True\<rparr>) g1
              | Inr t \<Rightarrow> g1\<lparr>ga_signedIn := ga_signedIn g1 @ [(t, device_page (ge_device e))]\<rparr>))
        | _ \<Rightarrow> g))"

definition gate_answer :: "string \<Rightarrow> unit + string \<Rightarrow> gate \<Rightarrow> gate" where
  "gate_answer tok r g = (if map_of (ga_exchanges g) tok = Some None
     then g\<lparr>ga_exchanges := AList.update tok (Some r) (ga_exchanges g)\<rparr> else g)"

datatype gate_event = Mount string string | Unmount nat | ExchangeAnswered string "unit + string" | Callback nat

fun gate_do :: "gate_event \<Rightarrow> gate \<Rightarrow> gate" where
  "gate_do (Mount tok dev) g = gate_mount tok dev g"
| "gate_do (Unmount i) g = upd_gate i (\<lambda>e. e\<lparr>ge_active := False\<rparr>) g"
| "gate_do (ExchangeAnswered tok r) g = gate_answer tok r g"
| "gate_do (Callback i) g = gate_callback i g"

definition gate_start :: gate where
  "gate_start = \<lparr>ga_exchanges = [], ga_sent = [], ga_effects = [], ga_signedIn = []\<rparr>"

definition gate_run :: "gate_event list \<Rightarrow> gate" where
  "gate_run es = fold gate_do es gate_start"

section \<open>The hardware page\<close>

text \<open>
  A load is numbered, and its answer counts when no load came after it. \<open>hq_dump\<close> marks the load a dump waits
  for. A dump keeps the load of the moment its button was pressed: device and window are those of that moment.
\<close>

record hw_load =
  hq_seq :: nat
  hq_device :: string
  hq_minutes :: nat
  hq_dump :: bool
  hq_open :: bool

record hw_page =
  hg_device :: string
  hg_minutes :: nat
  hg_seq :: nat
  hg_shown :: "(string \<times> nat) option"
  hg_failed :: bool
  hg_busy :: bool
  hg_loads :: "hw_load list"
  hg_dumps :: "(string \<times> nat \<times> bool) list"

definition hw_load_as :: "bool \<Rightarrow> string \<Rightarrow> nat \<Rightarrow> hw_page \<Rightarrow> hw_page" where
  "hw_load_as dump dev minutes p = p\<lparr>hg_seq := hg_seq p + 1,
     hg_loads := hg_loads p @ [\<lparr>hq_seq = hg_seq p + 1, hq_device = dev, hq_minutes = minutes, hq_dump = dump, hq_open = True\<rparr>]\<rparr>"

definition hw_visit :: "string \<Rightarrow> hw_page \<Rightarrow> hw_page" where
  "hw_visit dev p = (if dev = hg_device p then p
     else hw_load_as False dev (hg_minutes p) (p\<lparr>hg_device := dev, hg_shown := None\<rparr>))"

definition hw_window :: "nat \<Rightarrow> hw_page \<Rightarrow> hw_page" where
  "hw_window m p = (if m = hg_minutes p then p else hw_load_as False (hg_device p) m (p\<lparr>hg_minutes := m\<rparr>))"

definition hw_answered :: "nat \<Rightarrow> bool \<Rightarrow> hw_page \<Rightarrow> hw_page" where
  "hw_answered i good p = (if length (hg_loads p) \<le> i \<or> \<not> hq_open (hg_loads p ! i) then p else
     (let l = hg_loads p ! i;
          p1 = p\<lparr>hg_loads := (hg_loads p)[i := l\<lparr>hq_open := False\<rparr>], hg_busy := (hg_busy p \<and> \<not> hq_dump l)\<rparr>
      in if hq_seq l \<noteq> hg_seq p then p1
         else if good then p1\<lparr>hg_shown := Some (hq_device l, hq_minutes l), hg_failed := False\<rparr>
         else p1\<lparr>hg_failed := True\<rparr>))"

definition hw_dump_pressed :: "hw_page \<Rightarrow> hw_page" where
  "hw_dump_pressed p = (if hg_busy p then p
     else p\<lparr>hg_busy := True, hg_dumps := hg_dumps p @ [(hg_device p, hg_minutes p, True)]\<rparr>)"

definition hw_dump_answered :: "nat \<Rightarrow> bool \<Rightarrow> hw_page \<Rightarrow> hw_page" where
  "hw_dump_answered k good p = (if length (hg_dumps p) \<le> k then p else
     (case hg_dumps p ! k of (dev, m, waiting) \<Rightarrow>
        if \<not> waiting then p
        else let p1 = p\<lparr>hg_dumps := (hg_dumps p)[k := (dev, m, False)]\<rparr>
          in if good then hw_load_as True dev m p1 else p1\<lparr>hg_busy := False\<rparr>))"

datatype hw_event = Visit string | PickWindow nat | Tick | LoadAnswered nat bool | DumpPressed | DumpAnswered nat bool

fun hw_do :: "hw_event \<Rightarrow> hw_page \<Rightarrow> hw_page" where
  "hw_do (Visit dev) p = hw_visit dev p"
| "hw_do (PickWindow m) p = hw_window m p"
| "hw_do Tick p = hw_load_as False (hg_device p) (hg_minutes p) p"
| "hw_do (LoadAnswered i good) p = hw_answered i good p"
| "hw_do DumpPressed p = hw_dump_pressed p"
| "hw_do (DumpAnswered k good) p = hw_dump_answered k good p"

definition hw_opened :: "string \<Rightarrow> hw_page" where
  "hw_opened dev = hw_load_as False dev 360 \<lparr>hg_device = dev, hg_minutes = 360, hg_seq = 0, hg_shown = None, hg_failed = False,
     hg_busy = False, hg_loads = [], hg_dumps = []\<rparr>"

section \<open>The device list\<close>

text \<open>The loads of this page are not numbered.\<close>

type_synonym device_filter = "string \<times> string \<times> string"

definition device_query :: "device_filter \<Rightarrow> (string \<times> string) list" where
  "device_query f = (case f of (q, tier, stale) \<Rightarrow>
     (if q \<noteq> [] then [(''q'', q)] else []) @ (if tier \<noteq> [] then [(''tier'', tier)] else []) @
     (if stale \<noteq> [] then [(''stale'', stale)] else []))"

record devices_page =
  ds_filter :: device_filter
  ds_items :: "string list"
  ds_err :: string
  ds_busyId :: "string option"
  ds_loads :: "(device_filter \<times> bool) list"

definition devices_load :: "devices_page \<Rightarrow> devices_page" where
  "devices_load p = p\<lparr>ds_loads := ds_loads p @ [(ds_filter p, True)]\<rparr>"

definition devices_answered :: "nat \<Rightarrow> string list option \<Rightarrow> devices_page \<Rightarrow> devices_page" where
  "devices_answered i ids p = (if length (ds_loads p) \<le> i \<or> \<not> snd (ds_loads p ! i) then p else
     (let p1 = p\<lparr>ds_loads := (ds_loads p)[i := (fst (ds_loads p ! i), False)]\<rparr> in
      case ids of None \<Rightarrow> p1\<lparr>ds_err := ''Failed to load device list''\<rparr> | Some is \<Rightarrow> p1\<lparr>ds_items := is, ds_err := []\<rparr>))"

definition devices_remove :: "string \<Rightarrow> bool \<Rightarrow> devices_page \<Rightarrow> devices_page" where
  "devices_remove dev confirmed p = (if confirmed then p\<lparr>ds_busyId := Some dev\<rparr> else p)"

definition devices_removed :: "string \<Rightarrow> string option \<Rightarrow> devices_page \<Rightarrow> devices_page" where
  "devices_removed dev err p = (case err of
      None \<Rightarrow> p\<lparr>ds_items := filter (\<lambda>i. i \<noteq> dev) (ds_items p), ds_busyId := None\<rparr>
    | Some e \<Rightarrow> p\<lparr>ds_err := e, ds_busyId := None\<rparr>)"

datatype devices_event = Filter device_filter | Reload | ListAnswered nat "string list option" | Remove string bool
  | Removed string "string option"

fun devices_do :: "devices_event \<Rightarrow> devices_page \<Rightarrow> devices_page" where
  "devices_do (Filter f) p = (if f = ds_filter p then p else devices_load (p\<lparr>ds_filter := f\<rparr>))"
| "devices_do Reload p = devices_load p"
| "devices_do (ListAnswered i ids) p = devices_answered i ids p"
| "devices_do (Remove dev confirmed) p = devices_remove dev confirmed p"
| "devices_do (Removed dev err) p = devices_removed dev err p"

definition devices_opened :: devices_page where
  "devices_opened = devices_load \<lparr>ds_filter = ([], [], []), ds_items = [], ds_err = [], ds_busyId = None, ds_loads = []\<rparr>"

text \<open>The two links of a row: only the second encodes the id.\<close>

definition row_links :: "string \<Rightarrow> string \<times> string" where
  "row_links dev = (''/d/'' @ dev, ''/hw/'' @ encodeURIComponent dev)"

section \<open>The pointer\<close>

text \<open>\<open>Math.min(1, Math.max(0, n))\<close>; \<open>NaN\<close> stays what it is.\<close>

definition clamp01 :: "jsnum \<Rightarrow> jsnum" where
  "clamp01 n = (case n of NaN \<Rightarrow> NaN | PosInf \<Rightarrow> Fin 1 | NegInf \<Rightarrow> Fin 0 | Fin q \<Rightarrow> Fin (min 1 (max 0 q)))"

definition js_div :: "rat \<Rightarrow> rat \<Rightarrow> jsnum" where
  "js_div a b = (if b \<noteq> 0 then Fin (if a / b < 0 then - rnd (- (a / b)) else rnd (a / b))
     else if a = 0 then NaN else if 0 < a then PosInf else NegInf)"

record rect =
  rc_left :: rat
  rc_top :: rat
  rc_width :: rat
  rc_height :: rat

definition norm_at :: "rect \<Rightarrow> rat \<times> rat \<Rightarrow> jsnum \<times> jsnum" where
  "norm_at r xy = (clamp01 (js_div (fst xy - rc_left r) (rc_width r)), clamp01 (js_div (snd xy - rc_top r) (rc_height r)))"

datatype pointer_action = Down | Up | Move

record pointer =
  pt_lastMove :: int
  pt_sent :: "(pointer_action \<times> (jsnum \<times> jsnum) \<times> int) list"

definition pointer_event :: "rect \<Rightarrow> pointer_action \<times> (rat \<times> rat) \<times> int \<Rightarrow> pointer \<Rightarrow> pointer" where
  "pointer_event r e p = (case e of (a, xy, now) \<Rightarrow>
     if a = Move \<and> now - pt_lastMove p < 30 then p
     else p\<lparr>pt_lastMove := (if a = Move then now else pt_lastMove p), pt_sent := pt_sent p @ [(a, norm_at r xy, now)]\<rparr>)"

definition pointer_run :: "rect \<Rightarrow> (pointer_action \<times> (rat \<times> rat) \<times> int) list \<Rightarrow> pointer" where
  "pointer_run r es = fold (pointer_event r) es \<lparr>pt_lastMove = 0, pt_sent = []\<rparr>"

section \<open>What a run of the gate keeps\<close>

definition vouched_for :: "gate \<Rightarrow> string \<times> string \<Rightarrow> bool" where
  "vouched_for g p \<longleftrightarrow> (\<exists>e \<in> set (ga_effects g). snd p = device_page (ge_device e) \<and>
     map_of (ga_exchanges g) (ge_token e) = Some (Some (Inr (fst p))))"

definition gate_ok :: "gate \<Rightarrow> bool" where
  "gate_ok g \<longleftrightarrow> distinct (map fst (ga_sent g)) \<and> fst ` set (ga_sent g) = dom (map_of (ga_exchanges g)) \<and>
     (\<forall>p \<in> set (ga_signedIn g). vouched_for g p)"

lemma upd_gate_fields [simp]:
  "ga_sent (upd_gate i f g) = ga_sent g" "ga_exchanges (upd_gate i f g) = ga_exchanges g" "ga_signedIn (upd_gate i f g) = ga_signedIn g"
  by (simp_all add: upd_gate_def)

lemma upd_gate_effects:
  assumes "\<And>e. ge_device (f e) = ge_device e \<and> ge_token (f e) = ge_token e" "e \<in> set (ga_effects g)"
  shows "\<exists>e' \<in> set (ga_effects (upd_gate i f g)). ge_device e' = ge_device e \<and> ge_token e' = ge_token e"
proof (cases "i < length (ga_effects g)")
  case True
  obtain k where k: "k < length (ga_effects g)" "ga_effects g ! k = e" using assms(2) by (metis in_set_conv_nth)
  have "(ga_effects g)[i := f (ga_effects g ! i)] ! k \<in> set ((ga_effects g)[i := f (ga_effects g ! i)])" using k(1) by simp
  moreover have "ge_device ((ga_effects g)[i := f (ga_effects g ! i)] ! k) = ge_device e \<and>
      ge_token ((ga_effects g)[i := f (ga_effects g ! i)] ! k) = ge_token e"
    using k assms(1) by (cases "k = i") auto
  ultimately show ?thesis using True by (auto simp: upd_gate_def)
qed (use assms(2) in \<open>auto simp: upd_gate_def\<close>)

lemma vouched_mono:
  assumes "vouched_for g p" "set (ga_effects g) \<subseteq> set (ga_effects h)"
    and "\<And>tok t. map_of (ga_exchanges g) tok = Some (Some (Inr t)) \<Longrightarrow> map_of (ga_exchanges h) tok = Some (Some (Inr t))"
  shows "vouched_for h p"
  using assms unfolding vouched_for_def by blast

lemma upd_gate_vouched:
  assumes "\<And>e. ge_device (f e) = ge_device e \<and> ge_token (f e) = ge_token e" "vouched_for g p"
  shows "vouched_for (upd_gate i f g) p"
proof -
  obtain e where e: "e \<in> set (ga_effects g)" "snd p = device_page (ge_device e)"
      "map_of (ga_exchanges g) (ge_token e) = Some (Some (Inr (fst p)))"
    using assms(2) unfolding vouched_for_def by blast
  obtain e' where "e' \<in> set (ga_effects (upd_gate i f g))" "ge_device e' = ge_device e" "ge_token e' = ge_token e"
    using upd_gate_effects[OF assms(1) e(1), of i] by blast
  with e(2,3) show ?thesis unfolding vouched_for_def upd_gate_fields by metis
qed

lemma upd_gate_ok:
  assumes "\<And>e. ge_device (f e) = ge_device e \<and> ge_token (f e) = ge_token e" "gate_ok g"
  shows "gate_ok (upd_gate i f g)"
  using assms(2) upd_gate_vouched[OF assms(1)] unfolding gate_ok_def upd_gate_fields by blast

lemma mount_ok:
  assumes "gate_ok g" shows "gate_ok (gate_mount tok dev g)"
proof (cases "tok = []")
  case False
  let ?h = "gate_mount tok dev g"
  have sub: "set (ga_effects g) \<subseteq> set (ga_effects ?h)" and sgn: "ga_signedIn ?h = ga_signedIn g"
    using False by (auto simp: gate_mount_def exchange_def)
  show ?thesis
  proof (cases "map_of (ga_exchanges g) tok")
    case None
    then have x: "ga_exchanges ?h = (tok, None) # ga_exchanges g" "ga_sent ?h = ga_sent g @ [(tok, dev)]"
      using False by (simp_all add: gate_mount_def exchange_def)
    have "tok \<notin> fst ` set (ga_sent g)" using assms None by (auto simp: gate_ok_def)
    then have "distinct (map fst (ga_sent ?h))" using assms by (simp add: x gate_ok_def)
    moreover have "fst ` set (ga_sent ?h) = dom (map_of (ga_exchanges ?h))" using assms by (simp add: x gate_ok_def)
    moreover have "vouched_for ?h p" if "p \<in> set (ga_signedIn g)" for p
      by (rule vouched_mono[OF _ sub, of p]) (use assms that None in \<open>auto simp: gate_ok_def x\<close>)
    ultimately show ?thesis by (simp add: gate_ok_def sgn)
  next
    case (Some a)
    then have x: "ga_exchanges ?h = ga_exchanges g" "ga_sent ?h = ga_sent g"
      using False by (simp_all add: gate_mount_def exchange_def)
    have "vouched_for ?h p" if "p \<in> set (ga_signedIn g)" for p
      by (rule vouched_mono[OF _ sub, of p]) (use assms that in \<open>auto simp: gate_ok_def x\<close>)
    then show ?thesis using assms by (simp add: gate_ok_def sgn x)
  qed
qed (use assms in \<open>simp add: gate_mount_def\<close>)

lemma answer_ok:
  assumes "gate_ok g" shows "gate_ok (gate_answer tok r g)"
proof (cases "map_of (ga_exchanges g) tok = Some None")
  case True
  let ?h = "gate_answer tok r g"
  have x: "map_of (ga_exchanges ?h) = (map_of (ga_exchanges g))(tok \<mapsto> Some r)" "ga_sent ?h = ga_sent g"
    "ga_signedIn ?h = ga_signedIn g" "ga_effects ?h = ga_effects g"
    using True by (simp_all add: gate_answer_def update_conv fun_eq_iff)
  have "vouched_for ?h p" if "p \<in> set (ga_signedIn g)" for p
    by (rule vouched_mono[of g]) (use assms that True in \<open>auto simp: gate_ok_def x\<close>)
  moreover have "dom (map_of (ga_exchanges ?h)) = dom (map_of (ga_exchanges g))" using True by (auto simp: x)
  ultimately show ?thesis using assms by (simp add: gate_ok_def x(2,3))
qed (use assms in \<open>simp add: gate_answer_def\<close>)

lemma callback_ok:
  assumes "gate_ok g" shows "gate_ok (gate_callback i g)"
proof (cases "i < length (ga_effects g) \<and> \<not> ge_called (ga_effects g ! i)")
  case True
  let ?e = "ga_effects g ! i"
  let ?g1 = "upd_gate i (\<lambda>e. e\<lparr>ge_called := True\<rparr>) g"
  have ok1: "gate_ok ?g1" by (rule upd_gate_ok[OF _ assms]) simp
  have fail: "gate_ok (upd_gate i (\<lambda>e. e\<lparr>ge_failed := True\<rparr>) ?g1)" by (rule upd_gate_ok[OF _ ok1]) simp
  consider (none) "map_of (ga_exchanges g) (ge_token ?e) \<in> {None, Some None}"
    | (bad) u where "map_of (ga_exchanges g) (ge_token ?e) = Some (Some (Inl u))"
    | (good) t where "map_of (ga_exchanges g) (ge_token ?e) = Some (Some (Inr t))"
    by (metis insertCI option.exhaust sum.exhaust)
  then show ?thesis
  proof cases
    case none
    then show ?thesis using assms by (auto simp: gate_callback_def Let_def)
  next
    case bad
    then show ?thesis using True ok1 fail by (simp add: gate_callback_def Let_def)
  next
    case good
    let ?h = "?g1\<lparr>ga_signedIn := ga_signedIn ?g1 @ [(t, device_page (ge_device ?e))]\<rparr>"
    have "vouched_for g (t, device_page (ge_device ?e))" using True good by (auto simp: vouched_for_def)
    then have "vouched_for ?g1 (t, device_page (ge_device ?e))" by (intro upd_gate_vouched) simp_all
    then have "gate_ok ?h" using ok1 by (simp add: gate_ok_def vouched_for_def)
    then show ?thesis using True good ok1 by (simp add: gate_callback_def Let_def)
  qed
qed (use assms in \<open>auto simp: gate_callback_def Let_def\<close>)

lemma gate_ok_event: "gate_ok g \<Longrightarrow> gate_ok (gate_do ev g)"
  by (cases ev) (simp_all add: mount_ok answer_ok callback_ok upd_gate_ok)

lemma gate_run_ok: "gate_ok (gate_run es)"
proof -
  have "gate_ok (fold gate_do es g)" if "gate_ok g" for g
    using that by (induction es arbitrary: g) (simp_all add: gate_ok_event)
  then show ?thesis by (simp add: gate_run_def gate_start_def gate_ok_def)
qed

section \<open>What the login page reads\<close>

lemma split_amp_single: "CHR ''&'' \<notin> set s \<Longrightarrow> split_amp s = [s]"
  by (induction s) auto

lemma encoded_plain: "x \<in> {CHR ''&'', CHR ''='', CHR ''+''} \<Longrightarrow> x \<notin> set (encodeURIComponent s)"
proof -
  have "\<not> unreserved CHR ''&''" "\<not> unreserved CHR ''=''" "\<not> unreserved CHR ''+''" by code_simp+
  then show "x \<in> {CHR ''&'', CHR ''='', CHR ''+''} \<Longrightarrow> x \<notin> set (encodeURIComponent s)" using encoded_chars[of x s] by auto
qed

lemma search_next: "search_param ''next'' (''?next='' @ encodeURIComponent s) = Some s"
proof -
  let ?e = "encodeURIComponent s"
  have n: "CHR ''&'' \<notin> set ?e" "CHR ''='' \<notin> set ?e" "CHR ''+'' \<notin> set ?e" by (simp_all add: encoded_plain)
  then have "map (\<lambda>c. if c = CHR ''+'' then CHR '' '' else c) ?e = ?e" by (intro map_idI) auto
  then have d: "form_decode ?e = Some s" by (simp add: form_decode_def decode_encode)
  have k: "form_decode ''next'' = Some ''next''" by code_simp
  have "split_amp (''next='' @ ?e) = [''next='' @ ?e]" using n(1) by (intro split_amp_single) simp
  moreover have "param_parts (''next='' @ ?e) = (''next'', ?e)" by (simp add: param_parts_def)
  ultimately show ?thesis using d k by (simp add: search_param_def)
qed

section \<open>What the hardware page shows\<close>

definition hw_ok :: "hw_page \<Rightarrow> bool" where
  "hw_ok p \<longleftrightarrow> (\<forall>l \<in> set (hg_loads p). hq_seq l \<le> hg_seq p \<and> (hq_seq l = hg_seq p \<longrightarrow> hq_device l = hg_device p)) \<and>
     pred_option (\<lambda>x. fst x = hg_device p) (hg_shown p)"

definition dump_at_home :: "hw_page \<Rightarrow> hw_event \<Rightarrow> bool" where
  "dump_at_home p e = (case e of
      DumpAnswered k _ \<Rightarrow> k < length (hg_dumps p) \<longrightarrow> fst (hg_dumps p ! k) = hg_device p | _ \<Rightarrow> True)"

text \<open>The states the page comes to, as long as no dump is answered after its device was left.\<close>

inductive hw_reachable :: "hw_page \<Rightarrow> bool" where
  opened: "hw_reachable (hw_opened dev)"
| event: "hw_reachable p \<Longrightarrow> dump_at_home p e \<Longrightarrow> hw_reachable (hw_do e p)"

lemma hw_load_ok:
  assumes "\<forall>l \<in> set (hg_loads p). hq_seq l \<le> hg_seq p" "pred_option (\<lambda>x. fst x = hg_device p) (hg_shown p)" "dev = hg_device p"
  shows "hw_ok (hw_load_as dump dev m p)"
  using assms by (fastforce simp: hw_ok_def hw_load_as_def)

lemma hw_ok_event:
  assumes ok: "hw_ok p" and home: "dump_at_home p e"
  shows "hw_ok (hw_do e p)"
proof -
  have le: "\<forall>l \<in> set (hg_loads p). hq_seq l \<le> hg_seq p" and sh: "pred_option (\<lambda>x. fst x = hg_device p) (hg_shown p)"
    using ok by (auto simp: hw_ok_def)
  show ?thesis
  proof (cases e)
    case (Visit dev)
    have "hw_ok (hw_load_as False dev (hg_minutes p) (p\<lparr>hg_device := dev, hg_shown := None\<rparr>))" by (rule hw_load_ok) (use le in simp_all)
    then show ?thesis using ok by (cases "dev = hg_device p") (simp_all add: Visit hw_visit_def)
  next
    case (PickWindow m)
    have "hw_ok (hw_load_as False (hg_device p) m (p\<lparr>hg_minutes := m\<rparr>))" by (rule hw_load_ok) (use le sh in simp_all)
    then show ?thesis using ok by (cases "m = hg_minutes p") (simp_all add: PickWindow hw_window_def)
  next
    case Tick
    then show ?thesis using hw_load_ok[OF le sh refl] by simp
  next
    case (LoadAnswered i good)
    show ?thesis
    proof (cases "i < length (hg_loads p)")
      case True
      let ?l = "hg_loads p ! i"
      have l: "hq_seq ?l = hg_seq p \<longrightarrow> hq_device ?l = hg_device p" using ok True by (simp add: hw_ok_def)
      have "set ((hg_loads p)[i := ?l\<lparr>hq_open := False\<rparr>]) \<subseteq> insert (?l\<lparr>hq_open := False\<rparr>) (set (hg_loads p))"
        by (rule set_update_subset_insert)
      then have "\<forall>l \<in> set ((hg_loads p)[i := ?l\<lparr>hq_open := False\<rparr>]). hq_seq l \<le> hg_seq p \<and> (hq_seq l = hg_seq p \<longrightarrow> hq_device l = hg_device p)"
        using ok True by (fastforce simp: hw_ok_def)
      then show ?thesis using LoadAnswered True l sh ok by (cases "hq_open ?l") (simp_all add: hw_answered_def hw_ok_def Let_def)
    qed (use LoadAnswered ok in \<open>simp add: hw_answered_def\<close>)
  next
    case DumpPressed
    then show ?thesis using ok by (simp add: hw_dump_pressed_def hw_ok_def)
  next
    case (DumpAnswered k good)
    show ?thesis
    proof (cases "k < length (hg_dumps p)")
      case True
      obtain dev m w where d: "hg_dumps p ! k = (dev, m, w)" by (metis prod_cases3)
      then have "dev = hg_device p" using home DumpAnswered True by (simp add: dump_at_home_def)
      then have "hw_ok (hw_load_as True dev m (p\<lparr>hg_dumps := (hg_dumps p)[k := (dev, m, False)]\<rparr>))"
        by (intro hw_load_ok) (use le sh in simp_all)
      moreover have "hw_ok (p\<lparr>hg_dumps := (hg_dumps p)[k := (dev, m, False)], hg_busy := False\<rparr>)" using ok by (simp add: hw_ok_def)
      moreover have "hw_do e p = (if \<not> w then p else if good then hw_load_as True dev m (p\<lparr>hg_dumps := (hg_dumps p)[k := (dev, m, False)]\<rparr>)
          else p\<lparr>hg_dumps := (hg_dumps p)[k := (dev, m, False)], hg_busy := False\<rparr>)"
        using True by (simp add: DumpAnswered hw_dump_answered_def d Let_def)
      ultimately show ?thesis using ok by simp
    qed (use DumpAnswered ok in \<open>simp add: hw_dump_answered_def\<close>)
  qed
qed

lemma hw_reachable_ok: "hw_reachable p \<Longrightarrow> hw_ok p"
  by (induction rule: hw_reachable.induct)
    (auto simp: hw_ok_event hw_opened_def intro!: hw_load_ok)

section \<open>What the pointer sends\<close>

definition in_canvas :: "jsnum \<Rightarrow> bool" where
  "in_canvas n = (case n of Fin q \<Rightarrow> 0 \<le> q \<and> q \<le> 1 | _ \<Rightarrow> False)"

lemma norm_in: "0 < rc_width r \<Longrightarrow> 0 < rc_height r \<Longrightarrow> in_canvas (fst (norm_at r xy)) \<and> in_canvas (snd (norm_at r xy))"
  by (simp add: norm_at_def js_div_def clamp01_def in_canvas_def)

definition moves :: "pointer \<Rightarrow> int list" where
  "moves p = map (\<lambda>e. snd (snd e)) (filter (\<lambda>e. fst e = Move) (pt_sent p))"

definition pointer_ok :: "pointer \<Rightarrow> bool" where
  "pointer_ok p \<longleftrightarrow> sorted_wrt (\<lambda>a b. a + 30 \<le> b) (moves p) \<and> (\<forall>t \<in> set (moves p). t \<le> pt_lastMove p) \<and>
     (\<forall>e \<in> set (pt_sent p). in_canvas (fst (fst (snd e))) \<and> in_canvas (snd (fst (snd e))))"

lemma moves_snoc: "moves (p\<lparr>pt_lastMove := t, pt_sent := pt_sent p @ [(a, xy, now)]\<rparr>) = moves p @ (if a = Move then [now] else [])"
  by (simp add: moves_def)

lemma pointer_ok_event:
  assumes "0 < rc_width r" "0 < rc_height r" "pointer_ok p"
  shows "pointer_ok (pointer_event r e p)"
proof -
  obtain a xy now where e: "e = (a, xy, now)" by (cases e)
  show ?thesis
  proof (cases "a = Move \<and> now - pt_lastMove p < 30")
    case False
    then have "\<forall>t \<in> set (moves p). a = Move \<longrightarrow> t + 30 \<le> now" using assms(3) by (fastforce simp: pointer_ok_def)
    moreover have q: "moves (pointer_event r e p) = moves p @ (if a = Move then [now] else [])"
      "pt_sent (pointer_event r e p) = pt_sent p @ [(a, norm_at r xy, now)]"
      "pt_lastMove (pointer_event r e p) = (if a = Move then now else pt_lastMove p)"
      using False by (simp_all add: e pointer_event_def moves_def)
    moreover have "\<forall>t \<in> set (moves p @ (if a = Move then [now] else [])). t \<le> (if a = Move then now else pt_lastMove p)"
    proof (cases "a = Move")
      case True
      then show ?thesis using calculation(1) by auto
    qed (use assms(3) in \<open>simp add: pointer_ok_def\<close>)
    ultimately show ?thesis using assms(3) norm_in[OF assms(1,2), of xy]
      unfolding pointer_ok_def q by (auto simp: sorted_wrt_append)
  qed (use assms(3) in \<open>simp add: e pointer_event_def\<close>)
qed

lemma pointer_run_ok:
  assumes "0 < rc_width r" "0 < rc_height r" shows "pointer_ok (pointer_run r es)"
proof -
  have "pointer_ok (fold (pointer_event r) es p)" if "pointer_ok p" for p
    using that by (induction es arbitrary: p) (simp_all add: pointer_ok_event[OF assms])
  moreover have "pointer_ok \<lparr>pt_lastMove = 0, pt_sent = []\<rparr>" by (simp add: pointer_ok_def moves_def)
  ultimately show ?thesis unfolding pointer_run_def by blast
qed

section \<open>Properties\<close>

text \<open>
  C38 A single-use sign-in token is sent once: whatever mounts, remounts, answers and continuations come in
  whatever order, each token is exchanged at most once; and a sign-in takes the token the server answered the
  exchange with and leads to the page of the device of the effect, in an address without the sign-in token
  that decodes to that device.
\<close>

theorem sso_token_sent_once:
  defines "g \<equiv> \<lambda>es. gate_run es"
  shows "distinct (map fst (ga_sent (g es))) \<and> list_all (\<lambda>(t, loc). \<exists>e \<in> set (ga_effects (g es)).
     loc = device_page (ge_device e) \<and> decodeURIComponent (drop 3 loc) = Some (ge_device e) \<and>
     map_of (ga_exchanges (g es)) (ge_token e) = Some (Some (Inr t))) (ga_signedIn (g es))"
proof -
  have ok: "gate_ok (g es)" unfolding g_def by (rule gate_run_ok)
  have "decodeURIComponent (drop 3 (device_page d)) = Some d" for d by (simp add: device_page_def decode_encode)
  note page = this
  have "case p of (t, loc) \<Rightarrow> \<exists>e \<in> set (ga_effects (g es)). loc = device_page (ge_device e) \<and>
      decodeURIComponent (drop 3 loc) = Some (ge_device e) \<and> map_of (ga_exchanges (g es)) (ge_token e) = Some (Some (Inr t))"
    if "p \<in> set (ga_signedIn (g es))" for p
  proof -
    have "vouched_for (g es) p" using ok that by (simp add: gate_ok_def)
    then obtain e where "e \<in> set (ga_effects (g es))" "snd p = device_page (ge_device e)"
        "map_of (ga_exchanges (g es)) (ge_token e) = Some (Some (Inr (fst p)))"
      unfolding vouched_for_def by blast
    with page[of "ge_device e"] show ?thesis
      by (cases p) (auto intro!: bexI[of _ e])
  qed
  with ok show ?thesis unfolding gate_ok_def list_all_iff by blast
qed

text \<open>
  Signing in leads back: the page a visitor without a token asked for, with its query, is what the login
  page reads from its address.
\<close>

theorem login_leads_back:
  assumes "pathname \<noteq> []" "guard_redirect tok pathname search = Some loc"
  shows "\<exists>s. loc = ''/login'' @ s \<and> login_next s = pathname @ search"
proof -
  have "loc = ''/login'' @ (''?next='' @ encodeURIComponent (pathname @ search))"
    using assms(2) by (simp add: guard_redirect_def split: if_splits)
  moreover have "login_next (''?next='' @ encodeURIComponent (pathname @ search)) = pathname @ search"
    using assms(1) search_next[of "pathname @ search"] by (simp add: login_next_def)
  ultimately show ?thesis by blast
qed

theorem login_leads_back_witness:
  "login_next (drop 6 (the (guard_redirect None ''/rollout'' ''?target=1.4.8''))) = ''/rollout?target=1.4.8''"
proof -
  obtain loc where l: "guard_redirect None ''/rollout'' ''?target=1.4.8'' = Some loc" by (simp add: guard_redirect_def signed_in_as_def)
  from login_leads_back[OF _ l] obtain s where "loc = ''/login'' @ s" "login_next s = ''/rollout'' @ ''?target=1.4.8''" by auto
  with l show ?thesis by simp
qed



text \<open>
  C40 What the pointer sends: on a canvas with an area every coordinate is a number from 0 to 1, wherever the
  pointer is, and two moves are thirty milliseconds apart or more.
\<close>

theorem pointer_in_canvas:
  assumes "0 < rc_width r" "0 < rc_height r" "p = pointer_run r es"
  shows "sorted_wrt (\<lambda>a b. a + 30 \<le> b) (moves p) \<and>
    (\<forall>e \<in> set (pt_sent p). in_canvas (fst (fst (snd e))) \<and> in_canvas (snd (fst (snd e))))"
  using pointer_run_ok[OF assms(1,2), of es] by (simp add: pointer_ok_def assms(3))

theorem pointer_in_canvas_witness:
  "moves (pointer_run \<lparr>rc_left = 0, rc_top = 0, rc_width = 2, rc_height = 2\<rparr> [(Move, (1, 3), 100), (Move, (1, 1), 110), (Move, (0, 1), 130)]) = [100, 130] \<and>
   sorted_wrt (\<lambda>a b. a + 30 \<le> b)
     (moves (pointer_run \<lparr>rc_left = 0, rc_top = 0, rc_width = 2, rc_height = 2\<rparr> [(Move, (1, 3), 100), (Move, (1, 1), 110), (Move, (0, 1), 130)]))"
proof -
  have "moves (pointer_run \<lparr>rc_left = 0, rc_top = 0, rc_width = 2, rc_height = 2\<rparr> [(Move, (1, 3), 100), (Move, (1, 1), 110), (Move, (0, 1), 130)]) = [100, 130]"
    by (simp add: pointer_run_def pointer_event_def moves_def)
  with pointer_in_canvas[OF _ _ refl, of "\<lparr>rc_left = 0, rc_top = 0, rc_width = 2, rc_height = 2\<rparr>"
      "[(Move, (1, 3), 100), (Move, (1, 1), 110), (Move, (0, 1), 130)]"] show ?thesis by simp
qed

section \<open>Where the order of the answers shows\<close>

text \<open>
  A dump loads with the device and the window of the moment its button was pressed: answered after a change,
  it puts the samples of the other window, or the other device, on the page.
\<close>

lemma dump_shows_old_window:
  "let p = fold hw_do [LoadAnswered 0 True, DumpPressed, PickWindow 1440, LoadAnswered 1 True, DumpAnswered 0 True, LoadAnswered 2 True] (hw_opened ''d1'')
   in hg_minutes p = 1440 \<and> hg_shown p = Some (''d1'', 360)"
  by code_simp

lemma dump_shows_old_device:
  "let p = fold hw_do [LoadAnswered 0 True, DumpPressed, Visit ''d2'', LoadAnswered 1 True, DumpAnswered 0 True, LoadAnswered 2 True] (hw_opened ''d1'')
   in hg_device p = ''d2'' \<and> hg_shown p = Some (''d1'', 360)"
  by code_simp

text \<open>The device list of an older filter overwrites the newer one; a device removed comes back.\<close>

lemma older_list_shown:
  "let p = fold devices_do [Filter (''a'', [], []), ListAnswered 1 (Some [''a1'']), ListAnswered 0 (Some [''a1'', ''b1''])] devices_opened
   in ds_filter p = (''a'', [], []) \<and> ds_items p = [''a1'', ''b1'']"
  by code_simp

lemma removed_device_back:
  "ds_items (fold devices_do [ListAnswered 0 (Some [''d1'', ''d2'']), Reload, Remove ''d1'' True, Removed ''d1'' None,
     ListAnswered 1 (Some [''d1'', ''d2''])] devices_opened) = [''d1'', ''d2'']"
  by code_simp

text \<open>A late answer to a request of the old token signs the new one out.\<close>

lemma late_refusal_signs_out:
  "snd (api_settle ''/devices'' (Response 401 ''Unauthorized'' None) \<lparr>br_token = Some tok, br_location = None\<rparr>) =
     \<lparr>br_token = None, br_location = Some ''/login''\<rparr>"
  by (simp add: api_settle_def on_status_def clearToken_def)

text \<open>The link to the page of a device does not encode its id: a question mark in it ends the path.\<close>

lemma link_not_encoded:
  "fst (row_links ''a?b'') = ''/d/a?b'' \<and> takeWhile (\<lambda>c. c \<noteq> CHR ''?'') (fst (row_links ''a?b'')) \<noteq> device_page ''a?b''"
  by code_simp

end
