(* ===== verification/Spec2Isabelle.thy ===== *)
theory Spec2Isabelle
  imports Conn LiveHash System Agent RemotePage Routes Browser
begin

text \<open>
  A remote-control service for a fleet of Android tablets. This library models its programs as they are
  written and proves what makes them correct. Every theory opens with a text that names the files it models.

  \<^bold>\<open>The system.\<close> Tablets publish their state over MQTT. The ingest service (\<open>apps/rc-ingest\<close>) checks what they
  publish and writes it to PostgreSQL and to Redis. The API (\<open>apps/rc-api\<close>) answers the console: who may see
  which device, how ready a device is, how a rollout of the agent goes; it starts and ends remote sessions and
  keeps the inventory in step with a Headwind MDM. The relay (\<open>apps/rc-relay\<close>) joins the sockets of a tablet and
  of a viewer. The console (\<open>apps/rc-web\<close>) runs in a browser. \<open>packages/shared\<close> holds what they compute alike,
  \<open>tools/fake-agent\<close> an agent for tests, \<open>scripts/verify-rollout.mjs\<close> the command that judges a rollout.

  \<^bold>\<open>How code becomes definitions.\<close> A handler is a program of type \<open>'w \<Rightarrow> (error + 'a) \<times> 'w\<close> (\<open>Prelude\<close>): an
  \<open>await\<close> is a bind, a \<open>throw\<close> a value of the left type, \<open>try\<close> and \<open>finally\<close> are combinators with their rules of
  total correctness. Its world (\<open>World\<close>) is the tables as lists, the state of Redis, the messages published, the
  clock, and the faults to come: any query, command or publication can be refused, so every theorem covers the
  failures as well. Classes with callbacks (relay, pages, viewer, agent) are machines over events. Objects are
  records; enums and unions are datatypes; bytes are 8-bit words; a number is \<open>jsnum\<close>, a rational or one of the
  three values that are none, rounded to 53 bits where the code divides (\<open>JsNumber\<close>, \<open>Doubles\<close>); a string is a list
  of characters below 256, standing for code units. What the code can do wrong with a value of the wrong type is
  in the model, because messages are JSON of any shape (\<open>Json\<close>).

  \<^bold>\<open>The theories.\<close>
  \<^item> \<open>Prelude\<close>, \<open>World\<close>, \<open>Redis\<close>, \<open>Frames\<close>: programs, tables, the Redis server, and what a handler may touch.
  \<^item> \<open>JsNumber\<close>, \<open>Doubles\<close>, \<open>Json\<close>, \<open>JsonText\<close>, \<open>JsonParse\<close>, \<open>JsonTrip\<close>, \<open>Uri\<close>: the parts of the language's library
    the code relies on: numbers and their texts, \<open>JSON\<close>, \<open>encodeURIComponent\<close>. What is written is read back.
  \<^item> \<open>Topics\<close>, \<open>Semver\<close>, \<open>Conn\<close>, \<open>LiveHash\<close>, \<open>Hw\<close>, \<open>Readiness\<close>, \<open>Dashboard\<close>, \<open>Rollout\<close>: \<open>packages/shared\<close>. Topics and keys
    are decoded back and, with ids free of colons, never collide; versions are ordered; a tier means what it says and is monotone in the
    capabilities; every list of the dashboard is exactly the set its figure counts; a rollout is complete exactly
    when every device is updated, online and healthy.
  \<^item> \<open>Devices\<close>, \<open>Sessions\<close>, \<open>Fleet\<close>, \<open>HwApi\<close>, \<open>Auth\<close>, \<open>Mdm\<close>: the API. Access rules, the lock of a session and its release
    on every branch, lists that hold exactly what their key names, the answer to a request for samples, signing in
    by three ways, the sync with the MDM and its configuration.
  \<^item> \<open>Routes\<close>: the API's controllers and its guard. Every request but signing in needs a token, one that names a device
    needs access to it, and reading changes nothing.
  \<^item> \<open>Ingest\<close>, \<open>IngestRules\<close>: the ingest service. Whatever a device publishes, only its own rows and keys change;
    rate limits; the cache of capabilities follows the table; a registered request is always answered.
  \<^item> \<open>Relay\<close>: the relay. Sessions are isolated from one another, a token admits one agent, timeouts and table agree.
  \<^item> \<open>Lifecycle\<close>, \<open>System\<close>: the abstract life of a session, and the proof that the API, the relay, the ingest service
    and the sync, interleaved in any order, move every session along it.
  \<^item> \<open>Video\<close>, \<open>Agent\<close>: frames cut from an H.264 stream, packed, relayed and decoded; the fake agent; what the three
    programs do together with a request for samples and with a viewer that joins.
  \<^item> \<open>RemotePage\<close>, \<open>ListPage\<close>, \<open>Tiles\<close>, \<open>Browser\<close>: the console. The session on screen is never the one about to be
    dropped; lists, their order and their CSV file; every figure equals the list behind its link; the API client,
    the sign-in, the hardware page and the device list under answers in any order; the pointer.
  \<^item> \<open>Verify\<close>: the rollout script against the modelled API. Its exit code 0 means what it promises, and it ends.

  \<^bold>\<open>Interfaces.\<close> What one part relies on in another is a locale, interpreted where it is provided: \<open>redis_service\<close> (a
  reply is the one Redis documents, or a refusal), \<open>jwt_service\<close>, \<open>client_conv\<close> (how the database client converts),
  \<open>serial_ids\<close>, \<open>rollout_backend\<close> (a clock that does not run backwards and answers that are true), \<open>comparator\<close>,
  \<open>total_cmp\<close> and \<open>strict_weak_order\<close> (orders given to \<open>sort\<close>), \<open>codec\<close>, \<open>effect_order\<close> and \<open>db_order\<close> (relations a handler
  keeps on every path). The servers themselves, PostgreSQL's conversions, bcrypt, JWT, \<open>fetch\<close>, SHA-1, UUIDs,
  \<open>localeCompare\<close>, \<open>toLowerCase\<close> and the decoding of text by the browser are parameters.

  \<^bold>\<open>Bounds and fuel.\<close> \<open>json_parse\<close> runs with a fuel of twice the length of the text and one, which is proved to be
  enough for every text. Printing a number tries at most 400 decimal places. \<open>poll\<close>, the wait of the rollout
  script, is a partial function, because \<open>--wait Infinity\<close> does not end; for every other wait it is proved to.
  All other loops are structural or have a measure.

  \<^bold>\<open>What is assumed of time and order.\<close> A handler runs to its end between two others, except that a call that starts
  a session is two steps, since it waits for the tablet. There is one relay. UUIDs do not repeat.

  \<^bold>\<open>Not modelled.\<close> The markup of the pages and the rules of React (when an effect runs is taken from its
  dependencies); the charts of the hardware page; the pages \<open>Fleet.tsx\<close> and \<open>Sessions.tsx\<close>, which show one request;
  modules, decorators, startup and shutdown of the services; validation by the framework; connections, their
  reconnection and their back-pressure; the command lines of \<open>fake-agent.js\<close>, \<open>fleet-sim.js\<close> and the viewer of the
  tests; the network and the video decoder. These have no logic of their own or belong to code that is not in the
  repository.
\<close>

end
